(* ===== verification/Interfaces.thy ===== *)
theory Interfaces
  imports Prelude
begin

text \<open>
  The contracts that several components share, stated once as locales with the lemmas their
  clients use. Each of them is interpreted on definitions of the model, in the theory of the
  component that implements it:
  \<^item> \<open>invariant_system\<close>: a step relation that keeps an invariant (the server, the handshake);
  \<^item> \<open>event_machine\<close>: a total event handler that keeps an invariant (transfers, rate limiter);
  \<^item> \<open>bounded_log\<close>: an append that keeps the newest \<open>cap\<close> entries (chat history, client queue,
    violation records);
  \<^item> \<open>framing\<close>: a scanner of length-prefixed frames on a growing byte buffer, and its loop
    (the server's session buffer, the client's blocking reader);
  \<^item> \<open>revocation\<close>: credentials that stay invalid once revoked (session tokens);
  \<^item> \<open>guarded_command\<close>: a command that without a right does nothing but output a refusal
    (the administrative commands);
  \<^item> \<open>simulation\<close>: an implementation that answers every sequence of calls as its specification
    does (the client's packet queue, its store of known servers).
\<close>

section \<open>Transition systems with an invariant\<close>

locale invariant_system =
  fixes init :: "'s \<Rightarrow> bool"
    and step :: "'s \<Rightarrow> 's \<Rightarrow> bool"
    and inv :: "'s \<Rightarrow> bool"
  assumes inv_init: "init s \<Longrightarrow> inv s"
    and inv_step: "inv s \<Longrightarrow> step s t \<Longrightarrow> inv t"
begin

lemma inv_steps: "step\<^sup>*\<^sup>* s t \<Longrightarrow> inv s \<Longrightarrow> inv t"
  by (induction rule: rtranclp_induct) (auto intro: inv_step)

lemma inv_reachable: "init s \<Longrightarrow> step\<^sup>*\<^sup>* s t \<Longrightarrow> inv t"
  by (blast intro: inv_init inv_steps)

end

locale event_machine =
  fixes handle :: "'e \<Rightarrow> 's \<Rightarrow> 's"
    and inv :: "'s \<Rightarrow> bool"
  assumes inv_handle: "inv s \<Longrightarrow> inv (handle e s)"
begin

lemma inv_run: "inv s \<Longrightarrow> inv (fold handle es s)"
  by (induction es arbitrary: s) (auto intro: inv_handle)

end

section \<open>Bounded logs\<close>

definition newest :: "nat \<Rightarrow> 'a list \<Rightarrow> 'a list" where
  "newest n xs = drop (length xs - n) xs"

lemma length_newest [simp]: "length (newest n xs) = min n (length xs)"
  by (auto simp: newest_def)

lemma newest_id [simp]: "length xs \<le> n \<Longrightarrow> newest n xs = xs"
  by (simp add: newest_def)

lemma newest_append_newest: "newest n (newest n xs @ ys) = newest n (xs @ ys)"
proof (cases "length xs \<le> n")
  case False
  then show ?thesis by (auto simp: newest_def add.commute)
qed simp

lemma suffix_newest: "suffix (newest n xs) xs"
  by (simp add: newest_def suffix_drop)

text \<open>Appending and then dropping the head of a list that grew over the bound.\<close>

lemma newest_push:
  assumes "length q \<le> n"
  shows "(if length (q @ [x]) > n then tl (q @ [x]) else q @ [x]) = newest n (q @ [x])"
proof (cases "length q = n")
  case True
  then show ?thesis by (simp add: newest_def drop_Suc del: drop_append)
next
  case False
  with assms show ?thesis by simp
qed

locale bounded_log =
  fixes cap :: nat
    and push :: "'a \<Rightarrow> 'a list \<Rightarrow> 'a list"
  assumes push_newest: "length q \<le> cap \<Longrightarrow> push x q = newest cap (q @ [x])"
begin

lemma push_bound: "length q \<le> cap \<Longrightarrow> length (push x q) \<le> cap"
  by (simp add: push_newest)

lemma fold_push: "length q \<le> cap \<Longrightarrow> fold push xs q = newest cap (q @ xs)"
proof (induction xs arbitrary: q)
  case (Cons x xs)
  then have "fold push xs (push x q) = newest cap (push x q @ xs)"
    using push_bound by blast
  also have "\<dots> = newest cap (q @ x # xs)"
    using Cons.prems newest_append_newest [of cap "q @ [x]" xs] by (simp add: push_newest)
  finally show ?case by simp
qed simp

lemma fold_push_bound: "length q \<le> cap \<Longrightarrow> length (fold push xs q) \<le> cap"
  by (simp add: fold_push)

lemma last_push: "0 < cap \<Longrightarrow> length q \<le> cap \<Longrightarrow> push x q \<noteq> [] \<and> last (push x q) = x"
  by (auto simp: push_newest newest_def)

end

section \<open>Framing of a byte stream\<close>

text \<open>
  A scan of a buffer's front either needs more bytes, finds the stream malformed, or finds a
  frame of \<open>n\<close> bytes, which may be delivered (\<open>Some\<close>) or skipped (\<open>None\<close>). The result of a
  whole pass is the delivered frames with the bytes left over, or with the malformed stream
  detected.
\<close>

datatype 'p scan = Need | Bad | Frame "'p option" nat

datatype 'b leftover = Rest "'b list" | Malformed

definition deliver :: "'p option \<Rightarrow> 'p list \<times> 'b leftover \<Rightarrow> 'p list \<times> 'b leftover" where
  "deliver po r = (case po of None \<Rightarrow> r | Some p \<Rightarrow> (p # fst r, snd r))"

lemma deliver_simps [simp]:
  "deliver None r = r"
  "deliver (Some p) (ps, l) = (p # ps, l)"
  by (simp_all add: deliver_def)

lemma fst_deliver [simp]: "fst (deliver po r) = (case po of None \<Rightarrow> [] | Some p \<Rightarrow> [p]) @ fst r"
  by (cases po) (simp_all add: deliver_def)

lemma snd_deliver [simp]: "snd (deliver po r) = snd r"
  by (cases po) (simp_all add: deliver_def)

locale framing =
  fixes scan :: "'b list \<Rightarrow> 'p scan"
    and loop :: "'b list \<Rightarrow> 'p list \<times> 'b leftover"
  assumes scan_progress: "scan b = Frame po n \<Longrightarrow> 0 < n \<and> n \<le> length b"
    and scan_frame_mono: "scan b = Frame po n \<Longrightarrow> scan (b @ c) = Frame po n"
    and scan_bad_mono: "scan b = Bad \<Longrightarrow> scan (b @ c) = Bad"
    and loop_need: "scan b = Need \<Longrightarrow> loop b = ([], Rest b)"
    and loop_bad: "scan b = Bad \<Longrightarrow> loop b = ([], Malformed)"
    and loop_frame: "scan b = Frame po n \<Longrightarrow> loop b = deliver po (loop (drop n b))"
begin

lemma loop_append:
  "loop (b @ c) =
     (case snd (loop b) of
        Malformed \<Rightarrow> loop b
      | Rest r \<Rightarrow> (fst (loop b) @ fst (loop (r @ c)), snd (loop (r @ c))))"
proof (induction "length b" arbitrary: b rule: less_induct)
  case less
  show ?case
  proof (cases "scan b")
    case Need
    then show ?thesis by (simp add: loop_need)
  next
    case Bad
    then have "scan (b @ c) = Bad" by (rule scan_bad_mono)
    with Bad show ?thesis by (simp add: loop_bad)
  next
    case (Frame po n)
    then have n: "0 < n" "n \<le> length b" using scan_progress by blast+
    from Frame have "scan (b @ c) = Frame po n" by (rule scan_frame_mono)
    then have "loop (b @ c) = deliver po (loop (drop n b @ c))"
      using n by (simp add: loop_frame)
    moreover have "loop b = deliver po (loop (drop n b))"
      using Frame by (rule loop_frame)
    moreover have "length (drop n b) < length b" using n by simp
    ultimately show ?thesis
      using less [of "drop n b"] by (cases po) (auto split: leftover.splits simp: deliver_def)
  qed
qed

text \<open>Feeding a stream in chunks delivers the same frames as feeding it at once.\<close>

fun feed :: "'b list list \<Rightarrow> 'b list \<Rightarrow> 'p list \<times> 'b leftover" where
  "feed [] b = ([], Rest b)"
| "feed (c # cs) b =
     (case snd (loop (b @ c)) of
        Malformed \<Rightarrow> loop (b @ c)
      | Rest r \<Rightarrow> (fst (loop (b @ c)) @ fst (feed cs r), snd (feed cs r)))"

lemma loop_rest_stable: "snd (loop b) = Rest r \<Longrightarrow> loop r = ([], Rest r)"
proof (induction "length b" arbitrary: b rule: less_induct)
  case less
  show ?case
  proof (cases "scan b")
    case Need
    with less.prems show ?thesis by (simp add: loop_need)
  next
    case Bad
    with less.prems show ?thesis by (simp add: loop_bad)
  next
    case (Frame po n)
    then have "0 < n" "n \<le> length b" using scan_progress by blast+
    moreover have "snd (loop (drop n b)) = Rest r"
      using less.prems loop_frame [OF Frame] by simp
    ultimately show ?thesis using less.hyps [of "drop n b"] by simp
  qed
qed

lemma feed_loop: "loop b = ([], Rest b) \<Longrightarrow> feed cs b = loop (b @ concat cs)"
proof (induction cs arbitrary: b)
  case (Cons c cs)
  show ?case
  proof (cases "snd (loop (b @ c))")
    case (Rest r)
    then have "loop r = ([], Rest r)" by (rule loop_rest_stable)
    then have "feed cs r = loop (r @ concat cs)" by (rule Cons.IH)
    with Rest show ?thesis
      using loop_append [of "b @ c" "concat cs"] by simp
  next
    case Malformed
    then show ?thesis
      using loop_append [of "b @ c" "concat cs"] by simp
  qed
qed simp

text \<open>A stream of well-formed frames is delivered in order and nothing is left.\<close>

lemma loop_frames:
  assumes "list_all2 (\<lambda>f p. scan f = Frame (Some p) (length f)) fs ps"
    and "loop [] = ([], Rest [])"
  shows "loop (concat fs) = (ps, Rest [])"
  using assms(1)
proof (induction rule: list_all2_induct)
  case Nil
  then show ?case by (simp add: assms(2))
next
  case (Cons f fs p ps)
  then have "scan (f @ concat fs) = Frame (Some p) (length f)"
    by (blast intro: scan_frame_mono)
  then have "loop (f @ concat fs) = deliver (Some p) (loop (concat fs))"
    by (simp add: loop_frame)
  with Cons show ?case by simp
qed

end

section \<open>Guarded commands\<close>

text \<open>
  A command run on behalf of an actor without the right does nothing but output a refusal; a whole
  sequence of commands by actors without it outputs one refusal per command and does nothing else,
  since output does not change the rights.
\<close>

locale guarded_command =
  fixes right :: "'s \<Rightarrow> 'u \<Rightarrow> bool"
    and run :: "'u \<Rightarrow> 'a \<Rightarrow> 's \<Rightarrow> 's"
    and answer :: "'o list \<Rightarrow> 's \<Rightarrow> 's"
    and refusal :: "'u \<Rightarrow> 'o list \<Rightarrow> bool"
  assumes denied: "\<not> right s u \<Longrightarrow> \<exists>out. refusal u out \<and> run u a s = answer out s"
    and right_answer: "right (answer out s) u = right s u"
    and answer_Nil: "answer [] s = s"
    and answer_append: "answer (out @ out') s = answer out' (answer out s)"
begin

lemma denied_sequence:
  assumes "\<forall>(u, a) \<in> set cmds. \<not> right s u"
  shows "\<exists>outs. list_all2 (\<lambda>(u, a). refusal u) cmds outs \<and>
    fold (\<lambda>(u, a). run u a) cmds s = answer (concat outs) s"
  using assms
proof (induction cmds arbitrary: s)
  case (Cons c cmds)
  obtain u a where c: "c = (u, a)" by force
  obtain out where out: "refusal u out" "run u a s = answer out s" using Cons.prems denied [of s u a] by (auto simp: c)
  have "\<forall>(v, b) \<in> set cmds. \<not> right (answer out s) v" using Cons.prems by (auto simp: right_answer)
  from Cons.IH [OF this] obtain outs where "list_all2 (\<lambda>(u, a). refusal u) cmds outs"
    "fold (\<lambda>(u, a). run u a) cmds (answer out s) = answer (concat outs) (answer out s)" by blast
  then show ?case using out by (intro exI [of _ "out # outs"]) (simp add: c answer_append)
qed (simp add: answer_Nil)

end

section \<open>Revocation\<close>

text \<open>
  Credentials that can be revoked: revoking one makes it invalid and revives none.
\<close>

locale revocation =
  fixes accepted :: "'s \<Rightarrow> 't \<Rightarrow> bool"
    and revoked :: "'t \<Rightarrow> 's \<Rightarrow> 's"
  assumes revoked_rejected: "\<not> accepted (revoked t s) t"
    and revoked_shrinks: "accepted (revoked u s) t \<Longrightarrow> accepted s t"
begin

lemma fold_shrinks: "accepted (fold revoked us s) t \<Longrightarrow> accepted s t"
  by (induction us arbitrary: s) (auto dest: revoked_shrinks)

lemma rejected_forever: "t \<in> set us \<Longrightarrow> \<not> accepted (fold revoked us s) t"
proof (induction us arbitrary: s)
  case (Cons u us)
  show ?case
  proof (cases "t = u")
    case True
    then show ?thesis using revoked_rejected [of u s] fold_shrinks [of us "revoked u s" u] by auto
  next
    case False
    with Cons show ?thesis by simp
  qed
qed simp

end

section \<open>Simulation of a specification\<close>

text \<open>The answers of a sequence of calls, and the state after them.\<close>

primrec run_calls :: "('c \<Rightarrow> 's \<Rightarrow> 'o \<times> 's) \<Rightarrow> 'c list \<Rightarrow> 's \<Rightarrow> 'o list \<times> 's" where
  "run_calls call [] s = ([], s)"
| "run_calls call (c # cs) s =
     (let (a, s') = call c s; (as, t) = run_calls call cs s' in (a # as, t))"

locale simulation =
  fixes impl :: "'c \<Rightarrow> 's \<Rightarrow> 'o \<times> 's"
    and spec :: "'c \<Rightarrow> 't \<Rightarrow> 'o \<times> 't"
    and represents :: "'s \<Rightarrow> 't \<Rightarrow> bool"
  assumes same_answer: "represents s t \<Longrightarrow> fst (impl c s) = fst (spec c t)"
    and represents_next: "represents s t \<Longrightarrow> represents (snd (impl c s)) (snd (spec c t))"
begin

lemma run_refines:
  "represents s t \<Longrightarrow>
     fst (run_calls impl cs s) = fst (run_calls spec cs t) \<and>
     represents (snd (run_calls impl cs s)) (snd (run_calls spec cs t))"
proof (induction cs arbitrary: s t)
  case (Cons c cs)
  have "represents (snd (impl c s)) (snd (spec c t))" using Cons.prems by (rule represents_next)
  from Cons.IH [OF this] same_answer [OF Cons.prems, of c] show ?case
    by (simp add: case_prod_beta Let_def)
qed simp

end

end
