(* ===== verification/Wire.thy ===== *)
theory Wire
  imports Interfaces
begin

text \<open>
  The wire format shared by client and server: \<open>common/Constants.h\<close>, \<open>common/MessageTypes.h\<close>,
  \<open>common/ErrorCodes.h\<close>, \<open>common/Protocol.h\<close> and \<open>server/protocol/Packet.cpp\<close>. The packed
  17-byte header is laid out as on the little-endian hosts the program targets. The main
  results: a packet read back from its own bytes is the packet sent (with its checksum filled
  in), and a payload with one byte changed never has the checksum of the original.
\<close>

section \<open>Constants\<close>

definition MAX_NICKNAME_LEN :: nat where "MAX_NICKNAME_LEN = 32"
definition MAX_MESSAGE_LEN :: nat where "MAX_MESSAGE_LEN = 4096"
definition MAX_PAYLOAD_LEN :: u32 where "MAX_PAYLOAD_LEN = 1048576"
definition MAX_ROOMS :: nat where "MAX_ROOMS = 32"
definition MAGIC_BYTE_0 :: byte where "MAGIC_BYTE_0 = 0xAB"
definition MAGIC_BYTE_1 :: byte where "MAGIC_BYTE_1 = 0x53"
definition PROTOCOL_VERSION :: byte where "PROTOCOL_VERSION = 1"
definition HISTORY_BUFFER_SIZE :: nat where "HISTORY_BUFFER_SIZE = 100"

lemmas constant_defs = MAX_NICKNAME_LEN_def MAX_MESSAGE_LEN_def MAX_PAYLOAD_LEN_def MAX_ROOMS_def
  MAGIC_BYTE_0_def MAGIC_BYTE_1_def PROTOCOL_VERSION_def HISTORY_BUFFER_SIZE_def

section \<open>Message types and error codes\<close>

datatype MessageType =
    MSG_CONNECT_REQUEST | MSG_CONNECT_ACCEPT | MSG_CONNECT_REJECT | MSG_DISCONNECT
  | MSG_PING | MSG_PONG | MSG_RECONNECT_REQUEST
  | MSG_CHAT_SEND | MSG_CHAT_BROADCAST | MSG_CHAT_PRIVATE | MSG_SYSTEM_NOTIFY
  | MSG_ROOM_JOIN | MSG_ROOM_LEAVE | MSG_ROOM_LIST_REQUEST | MSG_ROOM_LIST_RESPONSE
  | MSG_ROOM_CREATE | MSG_ROOM_DELETE
  | MSG_USER_LIST_REQUEST | MSG_USER_LIST_RESPONSE | MSG_USER_LISTALL_REQUEST
  | MSG_USER_LISTALL_RESPONSE | MSG_WHOIS_REQUEST | MSG_WHOIS_RESPONSE
  | MSG_CRYPTO_HELLO | MSG_CRYPTO_KEY_OFFER | MSG_CRYPTO_KEY_ACCEPT | MSG_CRYPTO_HANDSHAKE_OK
  | MSG_FILE_REQUEST | MSG_FILE_ACCEPT | MSG_FILE_REJECT | MSG_FILE_DATA | MSG_FILE_COMPLETE
  | MSG_FILE_ACK
  | MSG_ADMIN_KICK | MSG_ADMIN_MUTE | MSG_ADMIN_BAN | MSG_ADMIN_PROMOTE | MSG_ADMIN_BROADCAST
  | MSG_ADMIN_ROOM_INFO_REQUEST | MSG_ADMIN_ROOM_INFO_RESPONSE | MSG_ADMIN_UNKICK
  | MSG_ERROR

fun msg_code :: "MessageType \<Rightarrow> byte" where
  "msg_code MSG_CONNECT_REQUEST = 0x01"
| "msg_code MSG_CONNECT_ACCEPT = 0x02"
| "msg_code MSG_CONNECT_REJECT = 0x03"
| "msg_code MSG_DISCONNECT = 0x04"
| "msg_code MSG_PING = 0x05"
| "msg_code MSG_PONG = 0x06"
| "msg_code MSG_RECONNECT_REQUEST = 0x07"
| "msg_code MSG_CHAT_SEND = 0x10"
| "msg_code MSG_CHAT_BROADCAST = 0x11"
| "msg_code MSG_CHAT_PRIVATE = 0x12"
| "msg_code MSG_SYSTEM_NOTIFY = 0x13"
| "msg_code MSG_ROOM_JOIN = 0x20"
| "msg_code MSG_ROOM_LEAVE = 0x21"
| "msg_code MSG_ROOM_LIST_REQUEST = 0x22"
| "msg_code MSG_ROOM_LIST_RESPONSE = 0x23"
| "msg_code MSG_ROOM_CREATE = 0x24"
| "msg_code MSG_ROOM_DELETE = 0x25"
| "msg_code MSG_USER_LIST_REQUEST = 0x30"
| "msg_code MSG_USER_LIST_RESPONSE = 0x31"
| "msg_code MSG_USER_LISTALL_REQUEST = 0x32"
| "msg_code MSG_USER_LISTALL_RESPONSE = 0x33"
| "msg_code MSG_WHOIS_REQUEST = 0x34"
| "msg_code MSG_WHOIS_RESPONSE = 0x35"
| "msg_code MSG_CRYPTO_HELLO = 0x40"
| "msg_code MSG_CRYPTO_KEY_OFFER = 0x41"
| "msg_code MSG_CRYPTO_KEY_ACCEPT = 0x42"
| "msg_code MSG_CRYPTO_HANDSHAKE_OK = 0x43"
| "msg_code MSG_FILE_REQUEST = 0x50"
| "msg_code MSG_FILE_ACCEPT = 0x51"
| "msg_code MSG_FILE_REJECT = 0x52"
| "msg_code MSG_FILE_DATA = 0x53"
| "msg_code MSG_FILE_COMPLETE = 0x54"
| "msg_code MSG_FILE_ACK = 0x55"
| "msg_code MSG_ADMIN_KICK = 0x60"
| "msg_code MSG_ADMIN_MUTE = 0x61"
| "msg_code MSG_ADMIN_BAN = 0x62"
| "msg_code MSG_ADMIN_PROMOTE = 0x63"
| "msg_code MSG_ADMIN_BROADCAST = 0x64"
| "msg_code MSG_ADMIN_ROOM_INFO_REQUEST = 0x65"
| "msg_code MSG_ADMIN_ROOM_INFO_RESPONSE = 0x66"
| "msg_code MSG_ADMIN_UNKICK = 0x67"
| "msg_code MSG_ERROR = 0xFF"

definition all_message_types :: "MessageType list" where
  "all_message_types =
    [MSG_CONNECT_REQUEST, MSG_CONNECT_ACCEPT, MSG_CONNECT_REJECT, MSG_DISCONNECT, MSG_PING,
     MSG_PONG, MSG_RECONNECT_REQUEST, MSG_CHAT_SEND, MSG_CHAT_BROADCAST, MSG_CHAT_PRIVATE,
     MSG_SYSTEM_NOTIFY, MSG_ROOM_JOIN, MSG_ROOM_LEAVE, MSG_ROOM_LIST_REQUEST,
     MSG_ROOM_LIST_RESPONSE, MSG_ROOM_CREATE, MSG_ROOM_DELETE, MSG_USER_LIST_REQUEST,
     MSG_USER_LIST_RESPONSE, MSG_USER_LISTALL_REQUEST, MSG_USER_LISTALL_RESPONSE,
     MSG_WHOIS_REQUEST, MSG_WHOIS_RESPONSE, MSG_CRYPTO_HELLO, MSG_CRYPTO_KEY_OFFER,
     MSG_CRYPTO_KEY_ACCEPT, MSG_CRYPTO_HANDSHAKE_OK, MSG_FILE_REQUEST, MSG_FILE_ACCEPT,
     MSG_FILE_REJECT, MSG_FILE_DATA, MSG_FILE_COMPLETE, MSG_FILE_ACK, MSG_ADMIN_KICK,
     MSG_ADMIN_MUTE, MSG_ADMIN_BAN, MSG_ADMIN_PROMOTE, MSG_ADMIN_BROADCAST,
     MSG_ADMIN_ROOM_INFO_REQUEST, MSG_ADMIN_ROOM_INFO_RESPONSE, MSG_ADMIN_UNKICK, MSG_ERROR]"

text \<open>\<open>static_cast<MessageType>(b)\<close> as the switches see it: \<open>None\<close> when no enumerator matches.\<close>

definition msg_of_code :: "byte \<Rightarrow> MessageType option" where
  "msg_of_code b = find (\<lambda>m. msg_code m = b) all_message_types"

lemma msg_of_code_code [simp, codec_simps]: "msg_of_code (msg_code m) = Some m"
  by (cases m) (simp_all add: msg_of_code_def all_message_types_def)

lemma msg_code_inject [simp]: "msg_code m = msg_code m' \<longleftrightarrow> m = m'"
  by (metis msg_of_code_code option.inject)

lemma msg_of_code_SomeD: "msg_of_code b = Some m \<Longrightarrow> msg_code m = b"
  by (auto simp: msg_of_code_def find_Some_iff)

datatype ErrorCode =
    ERR_OK | ERR_NICKNAME_TAKEN | ERR_NICKNAME_INVALID | ERR_ROOM_FULL | ERR_ROOM_NOT_FOUND
  | ERR_AUTH_FAILED | ERR_AUTH_TOO_MANY_ATTEMPTS | ERR_RATE_LIMITED | ERR_MESSAGE_TOO_LONG
  | ERR_FILE_TOO_LARGE | ERR_PERMISSION_DENIED | ERR_CRYPTO_HANDSHAKE_FAIL | ERR_INVALID_TOKEN
  | ERR_REPLAY_DETECTED | ERR_SERVER_FULL | ERR_MESSAGE_BLOCKED | ERR_INTERNAL

fun err_code :: "ErrorCode \<Rightarrow> byte" where
  "err_code ERR_OK = 0x00"
| "err_code ERR_NICKNAME_TAKEN = 0x01"
| "err_code ERR_NICKNAME_INVALID = 0x02"
| "err_code ERR_ROOM_FULL = 0x03"
| "err_code ERR_ROOM_NOT_FOUND = 0x04"
| "err_code ERR_AUTH_FAILED = 0x05"
| "err_code ERR_AUTH_TOO_MANY_ATTEMPTS = 0x06"
| "err_code ERR_RATE_LIMITED = 0x07"
| "err_code ERR_MESSAGE_TOO_LONG = 0x08"
| "err_code ERR_FILE_TOO_LARGE = 0x09"
| "err_code ERR_PERMISSION_DENIED = 0x0A"
| "err_code ERR_CRYPTO_HANDSHAKE_FAIL = 0x0B"
| "err_code ERR_INVALID_TOKEN = 0x0C"
| "err_code ERR_REPLAY_DETECTED = 0x0D"
| "err_code ERR_SERVER_FULL = 0x0E"
| "err_code ERR_MESSAGE_BLOCKED = 0x0F"
| "err_code ERR_INTERNAL = 0xFF"

lemma err_code_inject [simp]: "err_code a = err_code b \<longleftrightarrow> a = b"
  by (cases a; cases b) simp_all

section \<open>Packets\<close>

record PacketHeader =
  magic0 :: byte
  magic1 :: byte
  version :: byte
  msg_type :: byte
  flags :: byte
  sequence_num :: u32
  payload_length :: u32
  checksum :: u32

record Packet =
  header :: PacketHeader
  payload :: bytes

text \<open>\<open>Packet()\<close> and \<open>Packet(type, data)\<close>.\<close>

definition default_header :: PacketHeader where
  "default_header = \<lparr>magic0 = MAGIC_BYTE_0, magic1 = MAGIC_BYTE_1, version = PROTOCOL_VERSION,
     msg_type = 0, flags = 0, sequence_num = 0, payload_length = 0, checksum = 0\<rparr>"

definition mk_packet :: "MessageType \<Rightarrow> bytes \<Rightarrow> Packet" where
  "mk_packet t data =
     \<lparr>header = default_header\<lparr>msg_type := msg_code t, payload_length := of_nat (length data)\<rparr>,
      payload = data\<rparr>"

lemma mk_packet_simps [simp]:
  "payload (mk_packet t d) = d"
  "msg_type (header (mk_packet t d)) = msg_code t"
  "magic0 (header (mk_packet t d)) = MAGIC_BYTE_0"
  "magic1 (header (mk_packet t d)) = MAGIC_BYTE_1"
  "version (header (mk_packet t d)) = PROTOCOL_VERSION"
  "payload_length (header (mk_packet t d)) = of_nat (length d)"
  by (simp_all add: mk_packet_def default_header_def)

lemma mk_packet_inject [simp]: "mk_packet t d = mk_packet t' d' \<longleftrightarrow> t = t' \<and> d = d'"
  by (metis mk_packet_simps(1,2) msg_code_inject)

definition sizeof_PacketHeader :: nat where "sizeof_PacketHeader = 17"

text \<open>The bytes of the packed struct in memory, and \<open>memcpy\<close> back into the struct.\<close>

definition header_bytes :: "PacketHeader \<Rightarrow> bytes" where
  "header_bytes h = [magic0 h, magic1 h, version h, msg_type h, flags h]
     @ le32 (sequence_num h) @ le32 (payload_length h) @ le32 (checksum h)"

fun header_of_bytes :: "bytes \<Rightarrow> PacketHeader option" where
  "header_of_bytes (m0 # m1 # v # t # f # s0 # s1 # s2 # s3 # l0 # l1 # l2 # l3
     # c0 # c1 # c2 # c3 # _) =
   Some \<lparr>magic0 = m0, magic1 = m1, version = v, msg_type = t, flags = f,
     sequence_num = of_le32 s0 s1 s2 s3, payload_length = of_le32 l0 l1 l2 l3,
     checksum = of_le32 c0 c1 c2 c3\<rparr>"
| "header_of_bytes _ = None"

lemma length_header_bytes [simp]: "length (header_bytes h) = 17"
  by (simp add: header_bytes_def)

lemma header_of_header_bytes [simp, codec_simps]:
  "header_of_bytes (header_bytes h @ rest) = Some h"
  by (simp add: header_bytes_def le32_def)

lemma header_of_bytes_Some_iff: "(\<exists>h. header_of_bytes b = Some h) \<longleftrightarrow> 17 \<le> length b"
  by (cases b rule: header_of_bytes.cases) simp_all

lemma header_of_bytes_append:
  "header_of_bytes b = Some h \<Longrightarrow> header_of_bytes (b @ c) = Some h"
  by (cases b rule: header_of_bytes.cases) simp_all

section \<open>CRC-32\<close>

definition crc_bit :: "u32 \<Rightarrow> u32" where
  "crc_bit crc = (if crc AND 1 \<noteq> 0 then drop_bit 1 crc XOR 0xEDB88320 else drop_bit 1 crc)"

definition crc_byte :: "u32 \<Rightarrow> byte \<Rightarrow> u32" where
  "crc_byte crc b = (crc_bit ^^ 8) (crc XOR ucast b)"

definition computeCRC32 :: "bytes \<Rightarrow> u32" where
  "computeCRC32 data = foldl crc_byte 0xFFFFFFFF data XOR 0xFFFFFFFF"


text \<open>
  One bit step is injective: the polynomial's top bit is set, so the top bit of the result is
  the bit that was shifted out.
\<close>

lemma and_one_bit: "c AND 1 \<noteq> 0 \<longleftrightarrow> bit c 0" for c :: u32
  by (simp add: and_one_eq bit_0 odd_iff_mod_2_eq_one)

lemma crc_bit_top: "bit (crc_bit c) 31 \<longleftrightarrow> bit c 0"
  unfolding crc_bit_def and_one_bit
  by (auto simp: bit_xor_iff bit_drop_bit_eq dest: bit_imp_le_length)

lemma crc_bit_inject: "crc_bit a = crc_bit b \<longleftrightarrow> a = b"
proof
  assume eq: "crc_bit a = crc_bit b"
  then have b0: "bit a 0 = bit b 0" using crc_bit_top by metis
  then have d: "drop_bit 1 a = drop_bit 1 b"
    using eq by (auto simp: crc_bit_def and_one_bit split: if_splits)
  show "a = b"
  proof (rule bit_word_eqI)
    fix n
    show "bit a n = bit b n"
    proof (cases n)
      case (Suc m)
      have "bit (drop_bit 1 a) m = bit (drop_bit 1 b) m" using d by simp
      then show ?thesis by (simp add: Suc bit_drop_bit_eq)
    qed (use b0 in simp)
  qed
qed simp

lemma crc_bits_inject: "(crc_bit ^^ n) a = (crc_bit ^^ n) b \<longleftrightarrow> a = b"
  by (induction n) (simp_all add: crc_bit_inject)

lemma crc_byte_inject_state: "crc_byte a x = crc_byte b x \<longleftrightarrow> a = b"
  by (simp add: crc_byte_def crc_bits_inject)

lemma crc_byte_inject_byte: "crc_byte a x = crc_byte a y \<longleftrightarrow> x = y"
  by (simp add: crc_byte_def crc_bits_inject)

lemma foldl_crc_inject: "foldl crc_byte a bs = foldl crc_byte b bs \<longleftrightarrow> a = b"
  by (induction bs arbitrary: a b) (simp_all add: crc_byte_inject_state)

lemma computeCRC32_inject_foldl:
  "computeCRC32 x = computeCRC32 y \<longleftrightarrow>
   foldl crc_byte 0xFFFFFFFF x = foldl crc_byte 0xFFFFFFFF y"
  by (simp add: computeCRC32_def)

lemma crc_detects_changed_byte:
  "computeCRC32 (pre @ x # post) = computeCRC32 (pre @ y # post) \<longleftrightarrow> x = y"
  by (simp add: computeCRC32_inject_foldl foldl_crc_inject crc_byte_inject_byte)

section \<open>Serialising a packet\<close>

text \<open>
  \<open>packetToBytes\<close>: the header is copied, its checksum field is overwritten with the checksum of
  the payload, and the payload follows. The caller's packet is not changed.
\<close>

definition packetToBytes :: "Packet \<Rightarrow> bytes" where
  "packetToBytes pkt =
     (let crc = computeCRC32 (payload pkt);
          hdr = header_bytes (header pkt)
      in take (sizeof_PacketHeader - 4) hdr @ le32 crc @ payload pkt)"

lemma packetToBytes_header:
  "packetToBytes p = header_bytes ((header p)\<lparr>checksum := computeCRC32 (payload p)\<rparr>) @ payload p"
  by (simp add: packetToBytes_def header_bytes_def sizeof_PacketHeader_def Let_def le32_def)

lemma length_packetToBytes: "length (packetToBytes p) = 17 + length (payload p)"
  by (simp add: packetToBytes_header)

section \<open>Reading a packet from a descriptor\<close>

text \<open>
  The blocking reader of the client. The socket is the sequence of results its \<open>recv\<close> calls
  give: \<open>Some bs\<close> for a positive count, \<open>None\<close> for a call interrupted by a signal (\<open>EINTR\<close>); the
  end of the list is an orderly shutdown or an error. A chunk larger than what was asked for
  leaves its rest in the socket.
\<close>

type_synonym socket = "bytes option list"

fun recvAll :: "socket \<Rightarrow> nat \<Rightarrow> (bytes \<times> socket) option" where
  "recvAll s 0 = Some ([], s)"
| "recvAll [] (Suc n) = None"
| "recvAll (None # s) (Suc n) = recvAll s (Suc n)"
| "recvAll (Some [] # s) (Suc n) = None"
| "recvAll (Some (b # bs) # s) (Suc n) =
     (if length (b # bs) \<le> Suc n
      then map_option (\<lambda>(got, s'). ((b # bs) @ got, s')) (recvAll s (Suc n - length (b # bs)))
      else Some (take (Suc n) (b # bs), Some (drop (Suc n) (b # bs)) # s))"

text \<open>What the socket still holds, up to the first empty read.\<close>

fun socket_bytes :: "socket \<Rightarrow> bytes" where
  "socket_bytes [] = []"
| "socket_bytes (None # s) = socket_bytes s"
| "socket_bytes (Some [] # s) = []"
| "socket_bytes (Some (b # bs) # s) = (b # bs) @ socket_bytes s"

definition readPacketFromFd :: "socket \<Rightarrow> (Packet \<times> socket) option" where
  "readPacketFromFd fd =
     (case recvAll fd sizeof_PacketHeader of
        None \<Rightarrow> None
      | Some (headerBuf, fd') \<Rightarrow>
        (case header_of_bytes headerBuf of
           None \<Rightarrow> None
         | Some hdr \<Rightarrow>
           if magic0 hdr \<noteq> MAGIC_BYTE_0 \<or> magic1 hdr \<noteq> MAGIC_BYTE_1 then None
           else if version hdr \<noteq> PROTOCOL_VERSION then None
           else if payload_length hdr > MAX_PAYLOAD_LEN then None
           else (case (if payload_length hdr > 0 then recvAll fd' (unat (payload_length hdr))
                       else Some ([], fd')) of
                   None \<Rightarrow> None
                 | Some (pl, fd'') \<Rightarrow>
                   if checksum hdr \<noteq> computeCRC32 pl then None
                   else Some (\<lparr>header = hdr, payload = pl\<rparr>, fd''))))"

lemma recvAll_spec:
  "recvAll s n = Some (got, s') \<Longrightarrow>
     length got = n \<and> socket_bytes s = got @ socket_bytes s'"
proof (induction s n arbitrary: got s' rule: recvAll.induct)
  case (5 b bs s n)
  show ?case
  proof (cases "length (b # bs) \<le> Suc n")
    case True
    with "5.prems" obtain got' where g: "got = (b # bs) @ got'"
      and r: "recvAll s (Suc n - length (b # bs)) = Some (got', s')"
      by auto
    from "5.IH" [OF True r] g True show ?thesis by simp
  next
    case False
    then have "drop (Suc n) (b # bs) \<noteq> []" by simp
    then obtain c cs where d: "drop (Suc n) (b # bs) = c # cs"
      by (cases "drop (Suc n) (b # bs)") auto
    have "socket_bytes (Some (drop (Suc n) (b # bs)) # s) = drop (Suc n) (b # bs) @ socket_bytes s"
      by (simp only: d socket_bytes.simps)
    with "5.prems" False show ?thesis by auto
  qed
qed auto

lemma recvAll_enough: "n \<le> length (socket_bytes s) \<Longrightarrow> \<exists>r. recvAll s n = Some r"
proof (induction s n rule: recvAll.induct)
  case (5 b bs s n)
  show ?case
  proof (cases "length (b # bs) \<le> Suc n")
    case True
    with "5.prems" have "Suc n - length (b # bs) \<le> length (socket_bytes s)" by auto
    from "5.IH" [OF True this] True show ?thesis by (auto split: prod.splits)
  qed simp
qed simp_all

lemma recvAll_split:
  assumes "socket_bytes s = got @ rest"
  shows "\<exists>s'. recvAll s (length got) = Some (got, s') \<and> socket_bytes s' = rest"
proof -
  have "length got \<le> length (socket_bytes s)" using assms by simp
  then obtain g s' where r: "recvAll s (length got) = Some (g, s')"
    using recvAll_enough by fastforce
  with recvAll_spec [OF r] assms show ?thesis by (metis append_eq_append_conv)
qed

definition sendable :: "Packet \<Rightarrow> bool" where
  "sendable p \<longleftrightarrow> magic0 (header p) = MAGIC_BYTE_0 \<and> magic1 (header p) = MAGIC_BYTE_1 \<and>
     version (header p) = PROTOCOL_VERSION \<and> payload_length (header p) = of_nat (length (payload p)) \<and>
     length (payload p) \<le> unat MAX_PAYLOAD_LEN"

definition stamped :: "Packet \<Rightarrow> Packet" where
  "stamped p = p\<lparr>header := (header p)\<lparr>checksum := computeCRC32 (payload p)\<rparr>\<rparr>"

lemma sendable_mk_packet:
  "length d \<le> unat MAX_PAYLOAD_LEN \<Longrightarrow> sendable (mk_packet t d)"
  by (simp add: sendable_def)

lemma sendable_length:
  assumes "sendable p"
  shows "unat (payload_length (header p)) = length (payload p)"
    and "\<not> payload_length (header p) > MAX_PAYLOAD_LEN"
    and "payload_length (header p) > 0 \<longleftrightarrow> payload p \<noteq> []"
proof -
  have "length (payload p) < 2 ^ 32"
    using assms by (simp add: sendable_def MAX_PAYLOAD_LEN_def)
  then show u: "unat (payload_length (header p)) = length (payload p)"
    using assms by (simp add: sendable_def unat_of_nat)
  then show "\<not> payload_length (header p) > MAX_PAYLOAD_LEN"
    using assms by (simp add: sendable_def word_less_nat_alt)
  show "payload_length (header p) > 0 \<longleftrightarrow> payload p \<noteq> []"
    using u by (simp add: word_less_nat_alt)
qed

lemma readPacket_bytes:
  assumes sb: "socket_bytes s = header_bytes h @ pl @ rest"
    and h: "magic0 h = MAGIC_BYTE_0" "magic1 h = MAGIC_BYTE_1" "version h = PROTOCOL_VERSION"
    and len: "unat (payload_length h) = length pl" "\<not> payload_length h > MAX_PAYLOAD_LEN"
  shows "\<exists>s'. socket_bytes s' = rest \<and>
           readPacketFromFd s =
             (if checksum h \<noteq> computeCRC32 pl then None else Some (\<lparr>header = h, payload = pl\<rparr>, s'))"
proof -
  from sb obtain s1 where s1: "recvAll s 17 = Some (header_bytes h, s1)"
    and sb1: "socket_bytes s1 = pl @ rest"
    using recvAll_split [of s "header_bytes h" "pl @ rest"] by auto
  have hd: "header_of_bytes (header_bytes h) = Some h"
    using header_of_header_bytes [of h "[]"] by simp
  obtain s2 where s2: "(if payload_length h > 0 then recvAll s1 (unat (payload_length h))
      else Some ([], s1)) = Some (pl, s2)" and "socket_bytes s2 = rest"
  proof (cases "payload_length h > 0")
    case True
    with recvAll_split [OF sb1] len that show ?thesis by auto
  next
    case False
    then have "pl = []" using len by (simp add: word_less_nat_alt)
    with False sb1 that show ?thesis by simp
  qed
  then show ?thesis
    unfolding readPacketFromFd_def sizeof_PacketHeader_def s1
    by (auto simp: hd h len s2 intro!: exI [of _ s2] simp flip: not_less)
qed

text \<open>
  A framed byte buffer as a scan: what one iteration of the readers decides at the front of a
  buffer. The two readers differ only in what a wrong checksum means: the client gives up, the
  server drops the packet and goes on.
\<close>

definition scan_packet :: "Packet scan \<Rightarrow> bytes \<Rightarrow> Packet scan" where
  "scan_packet on_crc b =
     (case header_of_bytes b of
        None \<Rightarrow> Need
      | Some h \<Rightarrow>
        if magic0 h \<noteq> MAGIC_BYTE_0 \<or> magic1 h \<noteq> MAGIC_BYTE_1 \<or> version h \<noteq> PROTOCOL_VERSION
           \<or> payload_length h > MAX_PAYLOAD_LEN then Bad
        else let n = 17 + unat (payload_length h) in
          if length b < n then Need
          else let pl = take (unat (payload_length h)) (drop 17 b) in
            if checksum h \<noteq> computeCRC32 pl
            then (case on_crc of Bad \<Rightarrow> Bad | _ \<Rightarrow> Frame None n)
            else Frame (Some \<lparr>header = h, payload = pl\<rparr>) n)"

lemma scan_packet_mono:
  "scan_packet m b \<noteq> Need \<Longrightarrow> scan_packet m (b @ c) = scan_packet m b"
  by (auto simp: scan_packet_def Let_def header_of_bytes_append split: option.splits if_splits)

lemma scan_packet_progress:
  "scan_packet m b = Frame po n \<Longrightarrow> 0 < n \<and> n \<le> length b"
  by (auto simp: scan_packet_def Let_def split: option.splits if_splits scan.splits)

lemma scan_packet_packetToBytes:
  assumes "sendable p"
  shows "scan_packet m (packetToBytes p) = Frame (Some (stamped p)) (length (packetToBytes p))"
  using assms sendable_length [OF assms]
  by (simp add: scan_packet_def packetToBytes_header sendable_def stamped_def Let_def)

text \<open>The client's successive reads of a connection, as a pass over the received bytes.\<close>

function client_frames :: "bytes \<Rightarrow> Packet list \<times> byte leftover" where
  "client_frames b =
     (case scan_packet Bad b of
        Need \<Rightarrow> ([], Rest b)
      | Bad \<Rightarrow> ([], Malformed)
      | Frame po n \<Rightarrow> deliver po (client_frames (drop n b)))"
  by pat_completeness auto
termination
  by (relation "measure length") (auto dest: scan_packet_progress)

declare client_frames.simps [simp del]

interpretation client_reader: framing "scan_packet Bad" client_frames
proof unfold_locales
  fix b c :: bytes and po :: "Packet option" and n
  show "scan_packet Bad b = Frame po n \<Longrightarrow> 0 < n \<and> n \<le> length b"
    by (rule scan_packet_progress)
  show "scan_packet Bad b = Frame po n \<Longrightarrow> scan_packet Bad (b @ c) = Frame po n"
    by (simp add: scan_packet_mono)
  show "scan_packet Bad b = Bad \<Longrightarrow> scan_packet Bad (b @ c) = Bad"
    by (simp add: scan_packet_mono)
qed (simp_all add: client_frames.simps)

section \<open>Properties of the wire format\<close>

text \<open>
  C5: reading a connection that holds the bytes of a well-formed packet, however the network
  splits them into chunks and however often \<open>recv\<close> is interrupted, yields that packet with its
  checksum filled in, and leaves exactly the bytes that follow it.
\<close>

theorem read_packet_roundtrip:
  assumes "sendable p" and "socket_bytes s = packetToBytes p @ rest"
  shows "\<exists>s'. readPacketFromFd s = Some (stamped p, s') \<and> socket_bytes s' = rest"
proof -
  let ?h = "(header p)\<lparr>checksum := computeCRC32 (payload p)\<rparr>"
  have "socket_bytes s = header_bytes ?h @ payload p @ rest"
    using assms(2) by (simp add: packetToBytes_header)
  with sendable_length [OF assms(1)] assms(1) show ?thesis
    using readPacket_bytes [of s ?h "payload p" rest]
    by (auto simp: sendable_def stamped_def)
qed

theorem read_packet_roundtrip_witness:
  "sendable (mk_packet MSG_PING []) \<and>
   (\<exists>s'. readPacketFromFd [Some (take 5 (packetToBytes (mk_packet MSG_PING []))), None,
            Some (drop 5 (packetToBytes (mk_packet MSG_PING [])) @ [7])] =
         Some (stamped (mk_packet MSG_PING []), s') \<and> socket_bytes s' = [7])"
proof -
  let ?p = "mk_packet MSG_PING []"
  have s: "sendable ?p" by (rule sendable_mk_packet) simp
  have "socket_bytes [Some (take 5 (packetToBytes ?p)), None, Some (drop 5 (packetToBytes ?p) @ [7])]
     = packetToBytes ?p @ [7]"
    by (simp add: packetToBytes_def header_bytes_def le32_def sizeof_PacketHeader_def Let_def)
  from read_packet_roundtrip [OF s this] s show ?thesis by simp
qed

text \<open>
  A packet whose payload had one byte changed on the way is never accepted by the reader,
  whatever the changed byte is.
\<close>

theorem read_packet_rejects_changed_byte:
  assumes "sendable p" and "payload p = pre @ x # post" and "y \<noteq> x"
    and "socket_bytes s = header_bytes (header (stamped p)) @ (pre @ y # post) @ rest"
  shows "readPacketFromFd s = None"
proof -
  let ?h = "header (stamped p)"
  have "computeCRC32 (pre @ x # post) \<noteq> computeCRC32 (pre @ y # post)"
    using assms(3) by (simp add: crc_detects_changed_byte)
  then have c: "checksum ?h \<noteq> computeCRC32 (pre @ y # post)"
    using assms(2) by (simp add: stamped_def)
  have m: "magic0 ?h = MAGIC_BYTE_0" "magic1 ?h = MAGIC_BYTE_1" "version ?h = PROTOCOL_VERSION"
    using assms(1) by (simp_all add: sendable_def stamped_def)
  have l: "unat (payload_length ?h) = length (pre @ y # post)"
    "\<not> payload_length ?h > MAX_PAYLOAD_LEN"
    using sendable_length(1,2) [OF assms(1)] assms(2) by (simp_all add: stamped_def)
  from readPacket_bytes [OF assms(4) m l] c show ?thesis by auto
qed

theorem read_packet_rejects_changed_byte_witness:
  "sendable (mk_packet MSG_CHAT_SEND [1, 2, 3]) \<and>
   readPacketFromFd [Some (header_bytes (header (stamped (mk_packet MSG_CHAT_SEND [1, 2, 3])))),
     Some [1, 9, 3]] = None"
proof -
  let ?p = "mk_packet MSG_CHAT_SEND [1, 2, 3]"
  have s: "sendable ?p" by (rule sendable_mk_packet) (simp add: MAX_PAYLOAD_LEN_def)
  have "readPacketFromFd [Some (header_bytes (header (stamped ?p))), Some [1, 9, 3]] = None"
    by (rule read_packet_rejects_changed_byte [OF s, of "[1]" 2 "[3]" 9 _ "[]"])
      (simp_all add: header_bytes_def)
  with s show ?thesis by simp
qed

end
