(* ===== verification/Double.thy ===== *)
theory Double
  imports Prelude
begin

text \<open>
  \<open>double\<close>: a number is its 64 bits. The value of a positive number is a count of units_of \<open>2^-1074\<close>, so that
  comparisons are exact. \<open>strtod\<close> of the C library and the conversion to an integer are defined on the bits.
\<close>

section \<open>Words of 64 bits as numbers\<close>

lemma unat_u64_less: "unat (x :: u64) < 2 ^ 64"
  using unsigned_less [of x, where ?'a = nat] by simp

lemma u64_add: "unat (x :: u64) + unat y < 2 ^ 64 \<Longrightarrow> unat (x + y) = unat x + unat y"
  by (simp add: unat_word_ariths)

lemma u64_mult: "unat (x :: u64) * unat y < 2 ^ 64 \<Longrightarrow> unat (x * y) = unat x * unat y"
  by (simp add: unat_word_ariths)

lemma u64_sub: "y \<le> x \<Longrightarrow> unat (x - y :: u64) = unat x - unat y"
  by (rule unat_sub)

lemma u64_drop: "unat (drop_bit n (x :: u64)) = unat x div 2 ^ n"
  by (simp only: unat_drop_bit_eq) (rule drop_bit_eq_div)

lemma u64_push: "unat x * 2 ^ n < 2 ^ 64 \<Longrightarrow> unat (push_bit n (x :: u64)) = unat x * 2 ^ n"
proof -
  assume "unat x * 2 ^ n < 2 ^ 64"
  moreover have "unat (push_bit n x) = take_bit 64 (push_bit n (unat x))"
    using unsigned_push_bit_eq [of n x, where ?'a = nat] by simp
  ultimately show ?thesis by (simp only: push_bit_eq_mult [of n "unat x"] take_bit_eq_mod [of 64 "unat x * 2 ^ n"] mod_less)
qed

lemma u64_take: "unat (take_bit n (x :: u64)) = unat x mod 2 ^ n"
  by (simp only: unsigned_take_bit_eq) (rule take_bit_eq_mod)

lemma u64_and_mask: "unat (x AND (push_bit n 1 - 1) :: u64) = unat x mod 2 ^ n"
proof -
  have "x AND (push_bit n 1 - 1) = take_bit n x"
    by (simp add: take_bit_eq_mask mask_eq_exp_minus_1)
  then show ?thesis by (simp only: u64_take)
qed

lemma u64_low: "unat (x AND 0xFFFFFFFF :: u64) = unat x mod 2 ^ 32"
  using u64_and_mask [of x 32] by (simp add: push_bit_eq_mult)

section \<open>Bits\<close>

definition isfinite :: "u64 \<Rightarrow> bool" where
  "isfinite bits \<longleftrightarrow> drop_bit 52 bits AND 0x7FF \<noteq> 0x7FF"

definition signbit :: "u64 \<Rightarrow> bool" where
  "signbit bits \<longleftrightarrow> drop_bit 63 bits = 1"

text \<open>\<open>value > 0\<close>, \<open>value == 0\<close> and \<open>-value\<close> on the bits.\<close>

definition is_positive :: "u64 \<Rightarrow> bool" where
  "is_positive bits \<longleftrightarrow> \<not> signbit bits \<and> bits \<noteq> 0"

definition is_zero :: "u64 \<Rightarrow> bool" where
  "is_zero bits \<longleftrightarrow> bits AND 0x7FFFFFFFFFFFFFFF = 0"

definition negated :: "u64 \<Rightarrow> u64" where
  "negated bits = bits XOR 0x8000000000000000"

lemma signbit_iff: "signbit b \<longleftrightarrow> 2 ^ 63 \<le> unat b"
proof -
  have "unat b div 2 ^ 63 < 2" using unat_u64_less [of b] by (intro less_mult_imp_div_less) simp
  moreover have "signbit b \<longleftrightarrow> unat b div 2 ^ 63 = 1"
    unfolding signbit_def by (simp only: word_unat_eq_iff u64_drop unat_1)
  moreover have "2 ^ 63 \<le> unat b \<longleftrightarrow> unat b div 2 ^ 63 \<noteq> 0" by (simp add: div_eq_0_iff not_less)
  ultimately show ?thesis by linarith
qed

lemma isfinite_iff: "isfinite b \<longleftrightarrow> unat b mod 2 ^ 63 < 2047 * 2 ^ 52"
proof -
  have "0x7FF = (push_bit 11 1 - 1 :: u64)" by (simp add: push_bit_eq_mult)
  then have "unat (drop_bit 52 b AND 0x7FF) = unat b div 2 ^ 52 mod 2 ^ 11" by (simp only: u64_and_mask u64_drop)
  also have "\<dots> = unat b mod 2 ^ 63 div 2 ^ 52"
    using mod_mult2_eq [of "unat b" "2 ^ 52" "2 ^ 11"] by simp
  finally have e: "unat (drop_bit 52 b AND 0x7FF) = unat b mod 2 ^ 63 div 2 ^ 52" .
  have "unat b mod 2 ^ 63 < 2 ^ 63" by simp
  then have "unat b mod 2 ^ 63 div 2 ^ 52 < 2048" by (intro less_mult_imp_div_less) simp
  moreover have "unat b mod 2 ^ 63 div 2 ^ 52 < 2047 \<longleftrightarrow> unat b mod 2 ^ 63 < 2047 * 2 ^ 52"
    by (simp add: div_less_iff_less_mult)
  moreover have "isfinite b \<longleftrightarrow> unat (drop_bit 52 b AND 0x7FF) \<noteq> 2047"
    unfolding isfinite_def word_unat_eq_iff by simp
  ultimately show ?thesis unfolding e by linarith
qed

text \<open>The sign and the magnitude of the bits.\<close>

lemma signed_bits:
  "signbit b \<Longrightarrow> unat (negated b) = unat b - 2 ^ 63" "\<not> signbit b \<Longrightarrow> unat b < 2 ^ 63"
  "is_zero b \<longleftrightarrow> unat b mod 2 ^ 63 = 0"
proof -
  show "\<not> signbit b \<Longrightarrow> unat b < 2 ^ 63" by (simp add: signbit_iff)
  have m: "(0x7FFFFFFFFFFFFFFF :: u64) = push_bit 63 1 - 1" by (simp add: push_bit_eq_mult)
  show "is_zero b \<longleftrightarrow> unat b mod 2 ^ 63 = 0"
    unfolding is_zero_def m by (simp only: word_unat_eq_iff u64_and_mask unat_0)
  assume sg: "signbit b"
  have "bit (drop_bit 63 b) 0 = bit b 63" by (simp add: bit_drop_bit_eq)
  then have top: "bit b 63" using sg unfolding signbit_def by simp
  have one: "(0x8000000000000000 :: u64) = push_bit 63 1" by (simp add: push_bit_eq_mult)
  have "bit (0x8000000000000000 :: u64) n \<longleftrightarrow> n = 63" if "n < 64" for n
    unfolding one bit_push_bit_iff using that by (auto simp: bit_1_iff)
  then have "negated b = take_bit 63 b"
    unfolding negated_def by (intro bit_word_eqI) (use top in \<open>auto simp: bit_xor_iff bit_take_bit_iff\<close>)
  then have "unat (negated b) = unat b mod 2 ^ 63" by (simp only: u64_take)
  also have "\<dots> = unat b - 2 ^ 63"
    using sg unat_u64_less [of b] unfolding signbit_iff by (subst le_mod_geq) simp_all
  finally show "unat (negated b) = unat b - 2 ^ 63" .
qed

section \<open>The parts of a number\<close>

definition significand :: "nat \<Rightarrow> nat" where
  "significand u = (if u div 2 ^ 52 = 0 then u mod 2 ^ 52 else u mod 2 ^ 52 + 2 ^ 52)"

definition binary_scale :: "nat \<Rightarrow> nat" where
  "binary_scale u = u div 2 ^ 52 - 1"

lemma sig_less: "significand u < 2 ^ 53"
proof -
  define r where "r = u mod 2 ^ 52"
  then have "r < 2 ^ 52" by simp
  then have "r < 2 ^ 53" "r + 2 ^ 52 < 2 ^ 53" by simp_all
  then show ?thesis unfolding significand_def r_def [symmetric] by simp
qed

definition closer_below :: "nat \<Rightarrow> bool" where
  "closer_below u \<longleftrightarrow> u mod 2 ^ 52 = 0 \<and> u div 2 ^ 52 > 1"

lemma sig_pos: "0 < u \<Longrightarrow> 0 < significand u"
  by (auto simp: significand_def div_eq_0_iff)

lemma sig_closer: "closer_below u \<Longrightarrow> significand u = 2 ^ 52"
  by (auto simp: closer_below_def significand_def)

section \<open>Values of all numbers\<close>

text \<open>The value of a positive number in units of the least one, \<open>2^-1074\<close>; \<open>u\<close> is the number's bits.\<close>

definition units_of :: "nat \<Rightarrow> nat" where
  "units_of u = significand u * 2 ^ binary_scale u"

lemma units_Suc: "units_of (Suc u) = units_of u + 2 ^ binary_scale u"
proof -
  define E F where ef: "E = u div 2 ^ 52" "F = u mod 2 ^ 52"
  have u: "u = E * 2 ^ 52 + F" "F < 2 ^ 52" unfolding ef by (simp_all only: div_mult_mod_eq) simp
  have at: "(e * 2 ^ 52 + f) div 2 ^ 52 = e" "(e * 2 ^ 52 + f) mod 2 ^ 52 = f" if "f < 2 ^ 52" for e f :: nat
    using that by simp_all
  show ?thesis
  proof (cases "Suc F < 2 ^ 52")
    case True
    then have "Suc u div 2 ^ 52 = E" "Suc u mod 2 ^ 52 = Suc F"
      using at [OF True, of E] by (simp_all add: u(1))
    then show ?thesis unfolding units_of_def significand_def binary_scale_def ef [symmetric] by (simp add: algebra_simps)
  next
    case False
    then have F: "Suc F = 2 ^ 52" using u(2) by linarith
    then have "Suc u = Suc E * 2 ^ 52 + 0" by (simp add: u(1))
    then have s: "Suc u div 2 ^ 52 = Suc E" "Suc u mod 2 ^ 52 = 0" using at [of 0 "Suc E"] by (simp_all only: zero_less_power zero_less_numeral)
    have "F = 2 ^ 52 - 1" using F by simp
    then show ?thesis unfolding units_of_def significand_def binary_scale_def s ef [symmetric] by (cases E) (simp_all add: algebra_simps)
  qed
qed

lemma units_mono: "u \<le> v \<Longrightarrow> units_of u \<le> units_of v"
  by (induction v rule: nat_induct_at_least [of u]) (simp_all add: units_Suc)

lemma units_0 [simp]: "units_of 0 = 0"
  by (simp add: units_of_def significand_def)

section \<open>Reading a number\<close>

text \<open>
  \<open>std::strtod\<close> on the texts the lexer hands to it: the number that is nearest_double to the decimal one, the
  even one of two that are equally near. \<open>None\<close> is an overflow to an infinity.
\<close>

definition is_dec :: "char \<Rightarrow> bool" where
  "is_dec c \<longleftrightarrow> digit_value c \<noteq> None"

definition exponent_of :: "string \<Rightarrow> int" where
  "exponent_of s =
     (case s of
        c # r \<Rightarrow>
          if c = CHR ''e'' \<or> c = CHR ''E'' then
            (case r of
               d # ds \<Rightarrow> if d = CHR ''-'' then - int (read_digits 0 ds)
                         else if d = CHR ''+'' then int (read_digits 0 ds) else int (read_digits 0 r)
             | [] \<Rightarrow> 0)
          else 0
      | [] \<Rightarrow> 0)"

definition decimal_of :: "string \<Rightarrow> nat \<times> int" where
  "decimal_of s =
     (let ip = takeWhile is_dec s; r = dropWhile is_dec s in
      case r of
        c # t \<Rightarrow>
          if c = CHR ''.'' then
            (let fp = takeWhile is_dec t in
             (read_digits 0 (ip @ fp), exponent_of (dropWhile is_dec t) - int (length fp)))
          else (read_digits 0 ip, exponent_of r)
      | [] \<Rightarrow> (read_digits 0 ip, 0))"

text \<open>Comparison of \<open>n * 2^-1074\<close> with \<open>m * 10^x\<close>: both sides multiplied up to integers.\<close>

definition units_in_one :: nat where
  "units_in_one = 2 ^ 1074"

definition units_scaled :: "nat \<Rightarrow> int \<Rightarrow> nat" where
  "units_scaled n x = n * 10 ^ nat (- x)"

definition decimal_scaled :: "nat \<Rightarrow> int \<Rightarrow> nat" where
  "decimal_scaled m x = m * 10 ^ nat x * units_in_one"

primrec bisection :: "(nat \<Rightarrow> bool) \<Rightarrow> nat \<Rightarrow> nat \<Rightarrow> nat" where
  "bisection P 0 a = a"
| "bisection P (Suc k) a = bisection P k (if P (a + 2 ^ k) then a + 2 ^ k else a)"

definition infinity_bits :: nat where
  "infinity_bits = 2047 * 2 ^ 52"

definition below :: "nat \<Rightarrow> int \<Rightarrow> nat" where
  "below m x = bisection (\<lambda>v. v < infinity_bits \<and> units_scaled (units_of v) x \<le> decimal_scaled m x) 63 0"

definition nearest_double :: "nat \<Rightarrow> int \<Rightarrow> nat" where
  "nearest_double m x =
     (let u = below m x;
          mid = units_scaled (units_of u + units_of (u + 1)) x; twice = decimal_scaled (2 * m) x in
      if twice < mid \<or> twice = mid \<and> even u then u else u + 1)"

definition strtod :: "string \<Rightarrow> u64 option" where
  "strtod s =
     (let (neg, r) = (case s of c # t \<Rightarrow> if c = CHR ''-'' then (True, t) else (False, s) | [] \<Rightarrow> (False, s));
          (m, x) = decimal_of r;
          u = nearest_double m x in
      if u = infinity_bits then None else Some (of_nat (if neg then 2 ^ 63 + u else u)))"

text \<open>The conversion to an integer type: the fraction is dropped.\<close>

definition truncated :: "u64 \<Rightarrow> int" where
  "truncated b =
     (let n = int (units_of (unat b mod 2 ^ 63) div units_in_one) in if signbit b then - n else n)"

section \<open>The search\<close>

lemma bisect_greatest:
  assumes "\<And>v w. P w \<Longrightarrow> v \<le> w \<Longrightarrow> P v" "P a"
  shows "P (bisection P k a) \<and> (\<forall>v < a + 2 ^ k. P v \<longrightarrow> v \<le> bisection P k a)"
  using assms(2)
proof (induction k arbitrary: a)
  case (Suc k)
  show ?case
  proof (cases "P (a + 2 ^ k)")
    case True
    then show ?thesis using Suc.IH [OF True] by (auto simp: add.assoc)
  next
    case False
    then have "v < a + 2 ^ k" if "P v" for v using assms(1) [OF that, of "a + 2 ^ k"] by (meson not_le)
    then show ?thesis using Suc.IH [OF Suc.prems] False by auto
  qed
qed simp

lemma units_pos: "0 < v \<Longrightarrow> 0 < units_of v"
  using units_mono [of "Suc 0" v] units_Suc [of 0] by (simp add: binary_scale_def)

text \<open>The greatest number that is not above a decimal one.\<close>

lemma below_greatest:
  "below m x < infinity_bits" "units_scaled (units_of (below m x)) x \<le> decimal_scaled m x"
  "v < infinity_bits \<Longrightarrow> units_scaled (units_of v) x \<le> decimal_scaled m x \<Longrightarrow> v \<le> below m x"
proof -
  let ?P = "\<lambda>v. v < infinity_bits \<and> units_scaled (units_of v) x \<le> decimal_scaled m x"
  have "?P (bisection ?P 63 0) \<and> (\<forall>v < 0 + 2 ^ 63. ?P v \<longrightarrow> v \<le> bisection ?P 63 0)"
  proof (rule bisect_greatest [where P = ?P])
    show "?P 0" by (simp add: units_scaled_def infinity_bits_def)
    show "?P v" if "?P w" "v \<le> w" for v w
      using that units_mono [OF that(2)] unfolding units_scaled_def by (meson le_less_trans le_trans mult_le_mono1)
  qed
  moreover have "v < 2 ^ 63" if "v < infinity_bits" for v using that by (simp add: infinity_bits_def)
  ultimately show "below m x < infinity_bits" "units_scaled (units_of (below m x)) x \<le> decimal_scaled m x"
    "v < infinity_bits \<Longrightarrow> units_scaled (units_of v) x \<le> decimal_scaled m x \<Longrightarrow> v \<le> below m x"
    unfolding below_def by auto
qed

lemma nearest_zero: "nearest_double 0 x = 0"
proof -
  have "units_of (below 0 x) = 0" using below_greatest(2) [of 0 x] by (simp add: units_scaled_def decimal_scaled_def)
  then have "below 0 x = 0" using units_pos [of "below 0 x"] by linarith
  then show ?thesis
    unfolding nearest_double_def Let_def using units_pos [of 1] by (simp add: units_scaled_def decimal_scaled_def)
qed

text \<open>What \<open>strtod\<close> gives is finite.\<close>

lemma strtod_finite: "strtod s = Some b \<Longrightarrow> isfinite b"
proof -
  have "nearest_double m x \<le> infinity_bits" for m x
    using below_greatest(1) [of m x] by (simp add: nearest_double_def Let_def)
  then have le: "nearest_double m x \<noteq> infinity_bits \<Longrightarrow> nearest_double m x < infinity_bits" for m x
    using le_neq_implies_less by blast
  have "unat (of_nat n :: u64) = n" if "n < 2 ^ 64" for n
    using that by (simp only: unat_of_nat take_bit_nat_eq_self len_bit0 len_num1) simp
  then have "isfinite (of_nat u)" "isfinite (of_nat (2 ^ 63 + u))" if "u < infinity_bits" for u
    using that unfolding isfinite_iff by (simp_all del: of_nat_add add: infinity_bits_def)
  then show "strtod s = Some b \<Longrightarrow> isfinite b"
    by (auto simp: strtod_def Let_def split: prod.splits if_splits dest!: le)
qed

end
