(* ===== verification/JsonValue.thy ===== *)
theory JsonValue
  imports Double Complex_Main
begin

text \<open>
  JSON values as the sources use them (nlohmann/json 3.11.3, \<open>common/nlohmann/json.hpp\<close>): the
  value type, the exceptions it throws, and the accessors \<open>get\<close>, \<open>value\<close>, \<open>at\<close> and
  \<open>operator[]\<close>.
\<close>

section \<open>JSON values\<close>

datatype json =
    JNull
  | JBool bool
  | JInt int
  | JFloat u64
  | JStr string
  | JArr "json list"
  | JObj "(string, json) fmap"
  | JDiscarded

datatype json_error =
    ParseError
  | TypeError302
  | TypeError304
  | TypeError306
  | TypeError316
  | OutOfRange403

text \<open>\<open>it->get<std::string>()\<close>, \<open>get<bool>()\<close>, and the arithmetic conversions: \<open>uint64_t\<close> and
  \<open>int64_t\<close> refuse booleans, other arithmetic types accept them. A cast keeps the low bits; a
  floating-point number is its bits.\<close>

fun get_string :: "json \<Rightarrow> json_error + string" where
  "get_string (JStr s) = Inr s"
| "get_string _ = Inl TypeError302"

fun get_bool :: "json \<Rightarrow> json_error + bool" where
  "get_bool (JBool b) = Inr b"
| "get_bool _ = Inl TypeError302"

definition int32_of :: "int \<Rightarrow> int" where
  "int32_of i = signed_take_bit 31 i"

definition int64_of :: "int \<Rightarrow> int" where
  "int64_of i = signed_take_bit 63 i"

fun get_int :: "json \<Rightarrow> json_error + int" where
  "get_int (JInt i) = Inr (int32_of i)"
| "get_int (JFloat r) = Inr (int32_of (truncated r))"
| "get_int (JBool b) = Inr (if b then 1 else 0)"
| "get_int _ = Inl TypeError302"

fun get_u64 :: "json \<Rightarrow> json_error + u64" where
  "get_u64 (JInt i) = Inr (word_of_int i)"
| "get_u64 (JFloat r) = Inr (word_of_int (truncated r))"
| "get_u64 _ = Inl TypeError302"

text \<open>\<open>long long\<close> is not the \<open>int64_t\<close> of the platform (\<open>long\<close>), so it accepts booleans.\<close>

fun get_longlong :: "json \<Rightarrow> json_error + int" where
  "get_longlong (JInt i) = Inr (int64_of i)"
| "get_longlong (JFloat r) = Inr (int64_of (truncated r))"
| "get_longlong (JBool b) = Inr (if b then 1 else 0)"
| "get_longlong _ = Inl TypeError302"

fun get_i64 :: "json \<Rightarrow> json_error + int" where
  "get_i64 (JInt i) = Inr (int64_of i)"
| "get_i64 (JFloat r) = Inr (int64_of (truncated r))"
| "get_i64 _ = Inl TypeError302"

text \<open>\<open>j.value(key, default)\<close>: only on objects; the default only where the key is missing.\<close>

fun json_value :: "(json \<Rightarrow> json_error + 'a) \<Rightarrow> json \<Rightarrow> string \<Rightarrow> 'a \<Rightarrow> json_error + 'a" where
  "json_value get (JObj m) key d =
     (case fmlookup m key of None \<Rightarrow> Inr d | Some v \<Rightarrow> get v)"
| "json_value get _ key d = Inl TypeError306"

text \<open>\<open>payload.at(key)\<close>: an error where the key is missing.\<close>

fun json_at :: "json \<Rightarrow> string \<Rightarrow> json_error + json" where
  "json_at (JObj m) key = (case fmlookup m key of None \<Rightarrow> Inl OutOfRange403 | Some v \<Rightarrow> Inr v)"
| "json_at _ key = Inl TypeError304"

text \<open>\<open>j[key] = v\<close> on an object or on a fresh (null) value.\<close>

fun json_set :: "json \<Rightarrow> string \<Rightarrow> json \<Rightarrow> json" where
  "json_set (JObj m) key v = JObj (fmupd key v m)"
| "json_set JNull key v = JObj (fmupd key v fmempty)"
| "json_set j key v = j"

definition json_object :: "(string \<times> json) list \<Rightarrow> json" where
  "json_object kvs = foldl (\<lambda>j (k, v). json_set j k v) JNull kvs"

end
