(* ===== verification/JsonLexer.thy ===== *)
theory JsonLexer
  imports JsonValue
begin

text \<open>
  The lexer of the JSON library (class \<open>lexer\<close> of \<open>common/nlohmann/json.hpp\<close>): strings with their
  escapes, surrogate pairs and UTF-8 checks, the finite state machine of numbers, literals, byte
  order mark, white space and comments, and \<open>scan\<close>, which reads one token. The input adapter and
  \<open>next_unget\<close> are the list of the characters not yet read: \<open>get\<close> takes its head, \<open>unget\<close> leaves
  the head in place, and the empty list is end of file, which every further \<open>get\<close> sees again.
  \<open>strtod\<close> of the C library gives \<open>None\<close> where it overflows to an infinity.
\<close>

section \<open>Tokens\<close>

text \<open>\<open>token_type\<close>, with the value the lexer holds beside it. A number that is not finite has no
  value.\<close>

datatype token =
    uninitialized
  | literal_true
  | literal_false
  | literal_null
  | value_string string
  | value_unsigned u64
  | value_integer int
  | value_float "u64 option"
  | begin_array
  | begin_object
  | end_array
  | end_object
  | name_separator
  | value_separator
  | parse_error
  | end_of_input
  | literal_or_value

abbreviation code_of :: "char \<Rightarrow> nat" where
  "code_of c \<equiv> of_char c"

definition in_range :: "nat \<Rightarrow> nat \<Rightarrow> char \<Rightarrow> bool" where
  "in_range lo hi c \<longleftrightarrow> lo \<le> code_of c \<and> code_of c \<le> hi"

section \<open>Strings\<close>

text \<open>One hexadecimal digit after \<open>\\u\<close>, and \<open>get_codepoint\<close>: four of them, \<open>None\<close> for \<open>-1\<close>.\<close>

definition hex_digit_value :: "char \<Rightarrow> nat option" where
  "hex_digit_value c =
     (if in_range 0x30 0x39 c then Some (code_of c - 0x30)
      else if in_range 0x41 0x46 c then Some (code_of c - 0x37)
      else if in_range 0x61 0x66 c then Some (code_of c - 0x57)
      else None)"

fun get_digits :: "nat list \<Rightarrow> nat \<Rightarrow> string \<Rightarrow> (nat \<times> string) option" where
  "get_digits [] cp inp = Some (cp, inp)"
| "get_digits (factor # fs) cp [] = None"
| "get_digits (factor # fs) cp (c # cs) =
     (case hex_digit_value c of None \<Rightarrow> None | Some d \<Rightarrow> get_digits fs (cp + push_bit factor d) cs)"

definition get_codepoint :: "string \<Rightarrow> (nat \<times> string) option" where
  "get_codepoint = get_digits [12, 8, 4, 0] 0"

text \<open>The code point of a unicode escape: a high surrogate needs a low one behind it.\<close>

fun eat :: "string \<Rightarrow> string \<Rightarrow> string option" where
  "eat [] inp = Some inp"
| "eat (x # xs) [] = None"
| "eat (x # xs) (c # cs) = (if c = x then eat xs cs else None)"

definition unicode_escape :: "string \<Rightarrow> (nat \<times> string) option" where
  "unicode_escape inp =
     (case get_codepoint inp of
        None \<Rightarrow> None
      | Some (codepoint1, r1) \<Rightarrow>
          if 0xD800 \<le> codepoint1 \<and> codepoint1 \<le> 0xDBFF then
            (case eat [CHR 0x5C, CHR ''u''] r1 of
               None \<Rightarrow> None
             | Some r2 \<Rightarrow>
                 (case get_codepoint r2 of
                    None \<Rightarrow> None
                  | Some (codepoint2, r3) \<Rightarrow>
                      if 0xDC00 \<le> codepoint2 \<and> codepoint2 \<le> 0xDFFF
                      then Some (push_bit 10 codepoint1 + codepoint2 - 0x35FDC00, r3)
                      else None))
          else if 0xDC00 \<le> codepoint1 \<and> codepoint1 \<le> 0xDFFF then None
          else Some (codepoint1, r1))"

text \<open>The bytes of a code point.\<close>

definition utf8_encode :: "nat \<Rightarrow> string" where
  "utf8_encode codepoint =
     map char_of
       (if codepoint < 0x80 then [codepoint]
        else if codepoint \<le> 0x7FF then
          [0xC0 OR drop_bit 6 codepoint, 0x80 OR (codepoint AND 0x3F)]
        else if codepoint \<le> 0xFFFF then
          [0xE0 OR drop_bit 12 codepoint, 0x80 OR (drop_bit 6 codepoint AND 0x3F),
           0x80 OR (codepoint AND 0x3F)]
        else
          [0xF0 OR drop_bit 18 codepoint, 0x80 OR (drop_bit 12 codepoint AND 0x3F),
           0x80 OR (drop_bit 6 codepoint AND 0x3F), 0x80 OR (codepoint AND 0x3F)])"

text \<open>The ranges of the bytes that must follow a first byte; \<open>None\<close> for an ill-formed one.\<close>

definition utf8_ranges :: "char \<Rightarrow> (nat \<times> nat) list option" where
  "utf8_ranges c =
     (if in_range 0x00 0x7F c then Some []
      else if in_range 0xC2 0xDF c then Some [(0x80, 0xBF)]
      else if in_range 0xE0 0xE0 c then Some [(0xA0, 0xBF), (0x80, 0xBF)]
      else if in_range 0xED 0xED c then Some [(0x80, 0x9F), (0x80, 0xBF)]
      else if in_range 0xE1 0xEF c then Some [(0x80, 0xBF), (0x80, 0xBF)]
      else if in_range 0xF0 0xF0 c then Some [(0x90, 0xBF), (0x80, 0xBF), (0x80, 0xBF)]
      else if in_range 0xF1 0xF3 c then Some [(0x80, 0xBF), (0x80, 0xBF), (0x80, 0xBF)]
      else if in_range 0xF4 0xF4 c then Some [(0x80, 0x8F), (0x80, 0xBF), (0x80, 0xBF)]
      else None)"

text \<open>\<open>next_byte_in_range\<close>: the bytes added after the current one, and the input left.\<close>

fun next_byte_in_range :: "(nat \<times> nat) list \<Rightarrow> string \<Rightarrow> string \<Rightarrow> (string \<times> string) option" where
  "next_byte_in_range [] buf inp = Some (buf, inp)"
| "next_byte_in_range (r # rs) buf [] = None"
| "next_byte_in_range ((lo, hi) # rs) buf (c # cs) =
     (if in_range lo hi c then next_byte_in_range rs (buf @ [c]) cs else None)"

text \<open>What a backslash stands for, given the character after it (\<open>u\<close> apart).\<close>

definition simple_escape :: "char \<Rightarrow> char option" where
  "simple_escape c =
     (if c = CHR 0x22 then Some (CHR 0x22)
      else if c = CHR 0x5C then Some (CHR 0x5C)
      else if c = CHR ''/'' then Some (CHR ''/'')
      else if c = CHR ''b'' then Some (CHR 0x08)
      else if c = CHR ''f'' then Some (CHR 0x0C)
      else if c = CHR ''n'' then Some (CHR 0x0A)
      else if c = CHR ''r'' then Some (CHR 0x0D)
      else if c = CHR ''t'' then Some (CHR 0x09)
      else None)"

definition scan_escape :: "string \<Rightarrow> (string \<times> string) option" where
  "scan_escape inp =
     (case inp of
        [] \<Rightarrow> None
      | c # cs \<Rightarrow>
          if c = CHR ''u'' then map_option (\<lambda>(cp, r). (utf8_encode cp, r)) (unicode_escape cs)
          else map_option (\<lambda>e. ([e], cs)) (simple_escape c))"

text \<open>One round of the loop of \<open>scan_string\<close> on a character that is not the closing quote: the
  bytes it adds and the input behind them.\<close>

definition scan_char :: "char \<Rightarrow> string \<Rightarrow> (string \<times> string) option" where
  "scan_char c cs =
     (if c = CHR 0x5C then scan_escape cs
      else if code_of c \<le> 0x1F then None
      else case utf8_ranges c of None \<Rightarrow> None | Some rs \<Rightarrow> next_byte_in_range rs [c] cs)"

lemma get_digits_length: "get_digits fs cp inp = Some (n, r) \<Longrightarrow> length r + length fs = length inp"
  by (induction fs cp inp rule: get_digits.induct) (auto split: option.splits)

lemma eat_length: "eat xs inp = Some r \<Longrightarrow> length r + length xs = length inp"
  by (induction xs inp rule: eat.induct) (auto split: if_splits)

lemma unicode_escape_length: "unicode_escape inp = Some (n, r) \<Longrightarrow> length r \<le> length inp"
  by (auto simp: unicode_escape_def get_codepoint_def split: option.splits if_splits
    dest!: get_digits_length eat_length)

lemma next_byte_in_range_length:
  "next_byte_in_range rs buf inp = Some (b, r) \<Longrightarrow> length r + length rs = length inp"
  by (induction rs buf inp rule: next_byte_in_range.induct) (auto split: if_splits)

lemma scan_char_length: "scan_char c cs = Some (b, r) \<Longrightarrow> length r \<le> length cs"
  by (auto simp: scan_char_def scan_escape_def split: option.splits if_splits list.splits
    dest!: unicode_escape_length next_byte_in_range_length)

function scan_string :: "string \<Rightarrow> string \<Rightarrow> (string \<times> string) option" where
  "scan_string buf [] = None"
| "scan_string buf (c # cs) =
     (if c = CHR 0x22 then Some (buf, cs)
      else case scan_char c cs of None \<Rightarrow> None | Some (b, r) \<Rightarrow> scan_string (buf @ b) r)"
  by pat_completeness auto
termination
  by (relation "measure (\<lambda>(buf, inp). length inp)") (auto dest: scan_char_length)

declare scan_string.simps(2) [simp del]

lemma scan_string_length: "scan_string buf inp = Some (s, r) \<Longrightarrow> length r < length inp"
  by (induction buf inp rule: scan_string.induct)
    (fastforce simp: scan_string.simps(2) split: if_splits option.splits dest: scan_char_length)+

section \<open>Comments\<close>

text \<open>The rest of a line, and of a comment up to its closing \<open>*/\<close>; a null byte ends the input.\<close>

fun line_comment :: "string \<Rightarrow> string" where
  "line_comment [] = []"
| "line_comment (c # cs) = (if c \<in> {CHR 0x0A, CHR 0x0D, CHR 0x00} then cs else line_comment cs)"

fun block_comment :: "string \<Rightarrow> string option" where
  "block_comment [] = None"
| "block_comment (c # cs) =
     (if c = CHR 0x00 then None
      else if c = CHR ''*'' then
        (case cs of [] \<Rightarrow> block_comment cs
         | d # ds \<Rightarrow> if d = CHR ''/'' then Some ds else block_comment cs)
      else block_comment cs)"

definition scan_comment :: "string \<Rightarrow> string option" where
  "scan_comment inp =
     (case inp of
        [] \<Rightarrow> None
      | c # cs \<Rightarrow>
          if c = CHR ''/'' then Some (line_comment cs)
          else if c = CHR ''*'' then block_comment cs
          else None)"

lemma line_comment_length: "length (line_comment inp) \<le> length inp"
  by (induction inp) auto

lemma block_comment_length: "block_comment inp = Some r \<Longrightarrow> length r \<le> length inp"
  by (induction inp rule: block_comment.induct) (auto split: if_splits list.splits)

lemma scan_comment_length: "scan_comment inp = Some r \<Longrightarrow> length r \<le> length inp"
  using line_comment_length block_comment_length
  by (fastforce simp: scan_comment_def le_SucI split: list.splits if_splits)

section \<open>Numbers\<close>

text \<open>The states of \<open>scan_number\<close> (its labels) and where a character leads; \<open>None\<close> is end of file.\<close>

datatype num_state = Minus | Zero | Any1 | Decimal1 | Decimal2 | Exponent | Sign | Any2

datatype num_move = Goto num_state | Done | Error

definition is_digit :: "char \<Rightarrow> bool" where
  "is_digit c \<longleftrightarrow> in_range 48 57 c"

definition number_move :: "num_state \<Rightarrow> char option \<Rightarrow> num_move" where
  "number_move st next =
     (case next of
        None \<Rightarrow> (if st \<in> {Zero, Any1, Decimal2, Any2} then Done else Error)
      | Some c \<Rightarrow>
         (case st of
            Minus \<Rightarrow> if c = CHR ''0'' then Goto Zero else if is_digit c then Goto Any1 else Error
          | Zero \<Rightarrow> if c = CHR ''.'' then Goto Decimal1
                    else if c \<in> {CHR ''e'', CHR ''E''} then Goto Exponent else Done
          | Any1 \<Rightarrow> if is_digit c then Goto Any1 else if c = CHR ''.'' then Goto Decimal1
                    else if c \<in> {CHR ''e'', CHR ''E''} then Goto Exponent else Done
          | Decimal1 \<Rightarrow> if is_digit c then Goto Decimal2 else Error
          | Decimal2 \<Rightarrow> if is_digit c then Goto Decimal2
                        else if c \<in> {CHR ''e'', CHR ''E''} then Goto Exponent else Done
          | Exponent \<Rightarrow> if c \<in> {CHR ''+'', CHR ''-''} then Goto Sign
                        else if is_digit c then Goto Any2 else Error
          | Sign \<Rightarrow> if is_digit c then Goto Any2 else Error
          | Any2 \<Rightarrow> if is_digit c then Goto Any2 else Done))"

text \<open>\<open>number_type\<close>: changed on entry to three of the states.\<close>

datatype number_type = NUnsigned | NInteger | NFloat

fun enter_type :: "num_state \<Rightarrow> number_type \<Rightarrow> number_type" where
  "enter_type Minus ty = NInteger"
| "enter_type Decimal1 ty = NFloat"
| "enter_type Exponent ty = NFloat"
| "enter_type _ ty = ty"

fun run_number :: "num_state \<Rightarrow> number_type \<Rightarrow> string \<Rightarrow> string \<Rightarrow> (number_type \<times> string \<times> string) option" where
  "run_number st ty buf [] =
     (case number_move st None of Done \<Rightarrow> Some (enter_type st ty, buf, []) | _ \<Rightarrow> None)"
| "run_number st ty buf (c # cs) =
     (case number_move st (Some c) of
        Goto st' \<Rightarrow> run_number st' (enter_type st ty) (buf @ [c]) cs
      | Done \<Rightarrow> Some (enter_type st ty, buf, c # cs)
      | Error \<Rightarrow> None)"

text \<open>\<open>scan_number_done\<close>: \<open>strtoull\<close> or \<open>strtoll\<close> where the digits fit, \<open>strtod\<close> otherwise.\<close>

definition number_token :: "number_type \<Rightarrow> string \<Rightarrow> token" where
  "number_token ty buf =
     (if ty = NUnsigned \<and> read_digits 0 buf < 2 ^ 64 then value_unsigned (of_nat (read_digits 0 buf))
      else if ty = NInteger \<and> read_digits 0 (tl buf) \<le> 2 ^ 63
        then value_integer (- int (read_digits 0 (tl buf)))
      else value_float (strtod buf))"

definition scan_number :: "char \<Rightarrow> string \<Rightarrow> token \<times> string" where
  "scan_number c cs =
     (case run_number (if c = CHR ''-'' then Minus else if c = CHR ''0'' then Zero else Any1)
             NUnsigned [c] cs of
        None \<Rightarrow> (parse_error, [])
      | Some (ty, buf, r) \<Rightarrow> (number_token ty buf, r))"

lemma run_number_length: "run_number st ty buf inp = Some (t, b, r) \<Longrightarrow> length r \<le> length inp"
  by (induction st ty buf inp rule: run_number.induct) (auto split: num_move.splits)

section \<open>One token\<close>

definition scan_literal :: "string \<Rightarrow> token \<Rightarrow> string \<Rightarrow> token \<times> string" where
  "scan_literal literal t inp = (case eat literal inp of None \<Rightarrow> (parse_error, []) | Some r \<Rightarrow> (t, r))"

definition is_ws :: "char \<Rightarrow> bool" where
  "is_ws c \<longleftrightarrow> c \<in> {CHR '' '', CHR 0x09, CHR 0x0A, CHR 0x0D}"

definition skip_whitespace :: "string \<Rightarrow> string" where
  "skip_whitespace = dropWhile is_ws"

text \<open>The byte order mark, before the first token only; \<open>None\<close> where it is incomplete.\<close>

definition skip_bom :: "string \<Rightarrow> string option" where
  "skip_bom inp =
     (case inp of
        [] \<Rightarrow> Some []
      | c # cs \<Rightarrow> if c = CHR 0xEF then eat [CHR 0xBB, CHR 0xBF] cs else Some inp)"

text \<open>The loop over comments: where comments are not ignored it leaves the input alone.\<close>

function skip_comments :: "bool \<Rightarrow> string \<Rightarrow> string option" where
  "skip_comments ignore inp =
     (case inp of
        [] \<Rightarrow> Some []
      | c # cs \<Rightarrow>
          if ignore \<and> c = CHR ''/'' then
            (case scan_comment cs of None \<Rightarrow> None | Some r \<Rightarrow> skip_comments ignore (skip_whitespace r))
          else Some inp)"
  by pat_completeness auto
termination
proof (relation "measure (\<lambda>(ignore, inp). length inp)")
  fix ignore and inp :: string and c cs r
  assume "inp = c # cs" "scan_comment cs = Some r"
  then show "((ignore, skip_whitespace r), ignore, inp) \<in> measure (\<lambda>(ignore, inp). length inp)"
    using scan_comment_length [of cs r] length_dropWhile_le [of is_ws r]
    by (simp add: skip_whitespace_def)
qed simp

declare skip_comments.simps [simp del]

text \<open>The switch of \<open>scan\<close> on the first character of a token.\<close>

definition scan_token :: "char \<Rightarrow> string \<Rightarrow> token \<times> string" where
  "scan_token c cs =
     (if c = CHR ''['' then (begin_array, cs)
      else if c = CHR '']'' then (end_array, cs)
      else if c = CHR ''{'' then (begin_object, cs)
      else if c = CHR ''}'' then (end_object, cs)
      else if c = CHR '':'' then (name_separator, cs)
      else if c = CHR '','' then (value_separator, cs)
      else if c = CHR ''t'' then scan_literal ''rue'' literal_true cs
      else if c = CHR ''f'' then scan_literal ''alse'' literal_false cs
      else if c = CHR ''n'' then scan_literal ''ull'' literal_null cs
      else if c = CHR 0x22 then
        (case scan_string [] cs of None \<Rightarrow> (parse_error, []) | Some (s, r) \<Rightarrow> (value_string s, r))
      else if c = CHR ''-'' \<or> is_digit c then scan_number c cs
      else if c = CHR 0x00 then (end_of_input, cs)
      else (parse_error, []))"

definition scan_next :: "bool \<Rightarrow> string \<Rightarrow> token \<times> string" where
  "scan_next ignore_comments inp =
     (case skip_comments ignore_comments (skip_whitespace inp) of
        None \<Rightarrow> (parse_error, [])
      | Some [] \<Rightarrow> (end_of_input, [])
      | Some (c # cs) \<Rightarrow> scan_token c cs)"

text \<open>\<open>scan\<close> as the first call, and as every later one, of a lexer that signals comments as errors
  (\<open>ignore_comments\<close> is false in all calls of \<open>json::parse\<close> and \<open>operator>>\<close> of the program).\<close>

definition scan :: "string \<Rightarrow> token \<times> string" where
  "scan inp = scan_next False inp"

definition scan_first :: "string \<Rightarrow> token \<times> string" where
  "scan_first inp =
     (case skip_bom inp of None \<Rightarrow> (parse_error, []) | Some r \<Rightarrow> scan r)"

section \<open>Progress\<close>

abbreviation stops :: "token \<Rightarrow> bool" where
  "stops t \<equiv> t = parse_error \<or> t = end_of_input"

lemma number_token_goes [simp]: "\<not> stops (number_token ty buf)"
  by (simp add: number_token_def)

lemma scan_token_progress:
  "scan_token c cs = (t, r) \<Longrightarrow> \<not> stops t \<Longrightarrow> length r \<le> length cs"
  by (auto simp: scan_token_def scan_literal_def scan_number_def split: if_splits option.splits
    dest: eat_length scan_string_length run_number_length)

lemma skip_comments_False [simp]: "skip_comments False inp = Some inp"
  by (simp add: skip_comments.simps split: list.splits)

lemma scan_def': "scan inp =
  (case skip_whitespace inp of [] \<Rightarrow> (end_of_input, []) | c # cs \<Rightarrow> scan_token c cs)"
  by (simp add: scan_def scan_next_def split: list.splits)

text \<open>Every token but the last takes at least one character.\<close>

lemma scan_progress:
  assumes "scan inp = (t, r)" "\<not> stops t"
  shows "length r < length inp"
proof -
  from assms obtain c cs where w: "skip_whitespace inp = c # cs"
    by (cases "skip_whitespace inp") (auto simp: scan_def')
  with assms have "length r \<le> length cs" by (auto simp: scan_def' dest: scan_token_progress)
  moreover have "length (skip_whitespace inp) \<le> length inp"
    by (simp add: skip_whitespace_def length_dropWhile_le)
  ultimately show ?thesis using w by simp
qed

end
