(* ===== verification/JsonParser.thy ===== *)
theory JsonParser
  imports JsonLexer
begin

text \<open>
  The parser of the JSON library (class \<open>parser\<close> of \<open>common/nlohmann/json.hpp\<close>) with the handler
  that builds the value (\<open>json_sax_dom_parser\<close>). Its two stacks, \<open>states\<close> and \<open>ref_stack\<close>, are one
  stack of open arrays and objects; the member that the next value is stored under,
  \<open>object_element\<close>, is the key of the object's frame.
\<close>

datatype frame =
    Open_array "json list"
  | Open_object "(string, json) fmap" string

text \<open>Each round reads a token, which takes a character, until the input ends.\<close>

definition parse_measure :: "token \<Rightarrow> string \<Rightarrow> nat" where
  "parse_measure t inp = (if stops t then 0 else 2 * length inp + 2)"

lemma scan_length: "(t, r) = scan inp \<Longrightarrow> \<not> stops t \<Longrightarrow> length r < length inp"
  using scan_progress by metis

text \<open>
  \<open>sax_parse_internal\<close>: \<open>parse_value\<close> is the switch on the token just read, \<open>after_value\<close> the
  evaluation of the state after a value is complete.
\<close>

function (sequential) parse_value ::
    "token \<Rightarrow> string \<Rightarrow> frame list \<Rightarrow> (json \<times> string) option"
  and after_value ::
    "json \<Rightarrow> string \<Rightarrow> frame list \<Rightarrow> (json \<times> string) option" where
  "parse_value begin_object inp st =
     (case scan inp of
        (end_object, r) \<Rightarrow> after_value (JObj fmempty) r st
      | (value_string k, r) \<Rightarrow>
          (case scan r of
             (name_separator, r2) \<Rightarrow>
               (case scan r2 of
                  (t, r3) \<Rightarrow> parse_value t r3 (Open_object fmempty k # st))
           | _ \<Rightarrow> None)
      | _ \<Rightarrow> None)"
| "parse_value begin_array inp st =
     (case scan inp of
        (t, r) \<Rightarrow>
          if t = end_array then after_value (JArr []) r st
          else parse_value t r (Open_array [] # st))"
| "parse_value (value_float res) inp st =
     (case res of None \<Rightarrow> None | Some x \<Rightarrow> after_value (JFloat x) inp st)"
| "parse_value literal_false inp st = after_value (JBool False) inp st"
| "parse_value literal_null inp st = after_value JNull inp st"
| "parse_value literal_true inp st = after_value (JBool True) inp st"
| "parse_value (value_integer i) inp st = after_value (JInt i) inp st"
| "parse_value (value_string s) inp st = after_value (JStr s) inp st"
| "parse_value (value_unsigned u) inp st = after_value (JInt (uint u)) inp st"
| "parse_value t inp st = None"
| "after_value v inp [] = Some (v, inp)"
| "after_value v inp (Open_array vs # st) =
     (case scan inp of
        (value_separator, r) \<Rightarrow>
          (case scan r of (t, r2) \<Rightarrow> parse_value t r2 (Open_array (vs @ [v]) # st))
      | (end_array, r) \<Rightarrow> after_value (JArr (vs @ [v])) r st
      | _ \<Rightarrow> None)"
| "after_value v inp (Open_object m k # st) =
     (case scan inp of
        (value_separator, r) \<Rightarrow>
          (case scan r of
             (value_string k2, r2) \<Rightarrow>
               (case scan r2 of
                  (name_separator, r3) \<Rightarrow>
                    (case scan r3 of
                       (t, r4) \<Rightarrow> parse_value t r4 (Open_object (fmupd k v m) k2 # st))
                | _ \<Rightarrow> None)
           | _ \<Rightarrow> None)
      | (end_object, r) \<Rightarrow> after_value (JObj (fmupd k v m)) r st
      | _ \<Rightarrow> None)"
  by pat_completeness auto

termination
proof (relation "measure (\<lambda>x. case x of Inl (t, inp, _) \<Rightarrow> parse_measure t inp
    | Inr (_, inp, _) \<Rightarrow> 2 * length inp + 1)", goal_cases)
  case 1 show ?case by simp
qed (auto simp: parse_measure_def dest!: scan_length)

section \<open>The public interface\<close>

text \<open>
  The constructor reads the first token; \<open>parse\<close> then runs the loop and, in strict mode, expects
  the end of the input. \<open>json::parse\<close> is strict, \<open>operator>>\<close> on a stream is not. \<open>None\<close> is a parse
  error, thrown or turned into a discarded value by the caller.
\<close>

definition parse_text :: "bool \<Rightarrow> string \<Rightarrow> json option" where
  "parse_text strict inp =
     (case scan_first inp of
        (t, r) \<Rightarrow>
          (case parse_value t r [] of
             None \<Rightarrow> None
           | Some (v, r2) \<Rightarrow>
               if strict \<and> fst (scan r2) \<noteq> end_of_input then None else Some v))"

end
