(* ===== verification/Grisu.thy ===== *)
theory Grisu
  imports Double "HOL-Library.Monad_Syntax" "HOL-Library.Signed_Division"
begin

text \<open>
  Printing of floating-point numbers: namespace \<open>dtoa_impl\<close> and \<open>to_chars\<close> of
  \<open>common/nlohmann/json.hpp\<close>, an implementation of the Grisu2 algorithm for \<open>double\<close>. A number is its 64
  bits. \<open>JSON_ASSERT\<close> is a check that gives \<open>None\<close>; loops whose end is not plain from their code are
  partial functions, so that not ending is \<open>None\<close> as well.
\<close>

section \<open>Do-it-yourself floating point\<close>

record diyfp =
  fp_f :: u64
  fp_e :: int

definition diyfp_sub :: "diyfp \<Rightarrow> diyfp \<Rightarrow> diyfp option" where
  "diyfp_sub x y =
     (if fp_e x = fp_e y \<and> fp_f x \<ge> fp_f y then Some \<lparr>fp_f = fp_f x - fp_f y, fp_e = fp_e x\<rparr> else None)"

definition mul_f :: "u64 \<Rightarrow> u64 \<Rightarrow> u64" where
  "mul_f u v =
     (let u_lo = u AND 0xFFFFFFFF;
          u_hi = drop_bit 32 u;
          v_lo = v AND 0xFFFFFFFF;
          v_hi = drop_bit 32 v;
          p0 = u_lo * v_lo;
          p1 = u_lo * v_hi;
          p2 = u_hi * v_lo;
          p3 = u_hi * v_hi;
          p0_hi = drop_bit 32 p0;
          p1_lo = p1 AND 0xFFFFFFFF;
          p1_hi = drop_bit 32 p1;
          p2_lo = p2 AND 0xFFFFFFFF;
          p2_hi = drop_bit 32 p2;
          Q = p0_hi + p1_lo + p2_lo + push_bit (64 - 32 - 1) 1
      in p3 + p2_hi + p1_hi + drop_bit 32 Q)"

definition diyfp_mul :: "diyfp \<Rightarrow> diyfp \<Rightarrow> diyfp" where
  "diyfp_mul x y = \<lparr>fp_f = mul_f (fp_f x) (fp_f y), fp_e = fp_e x + fp_e y + 64\<rparr>"

partial_function (option) diyfp_normalize_loop :: "diyfp \<Rightarrow> diyfp option" where
  "diyfp_normalize_loop x =
     (if drop_bit 63 (fp_f x) = 0 then diyfp_normalize_loop \<lparr>fp_f = push_bit 1 (fp_f x), fp_e = fp_e x - 1\<rparr>
      else Some x)"

declare diyfp_normalize_loop.simps [code]

definition diyfp_normalize :: "diyfp \<Rightarrow> diyfp option" where
  "diyfp_normalize x = (if fp_f x \<noteq> 0 then diyfp_normalize_loop x else None)"

definition diyfp_normalize_to :: "diyfp \<Rightarrow> int \<Rightarrow> diyfp option" where
  "diyfp_normalize_to x target_exponent =
     (let delta = fp_e x - target_exponent in
      if delta \<ge> 0 \<and> drop_bit (nat delta) (push_bit (nat delta) (fp_f x)) = fp_f x
      then Some \<lparr>fp_f = push_bit (nat delta) (fp_f x), fp_e = target_exponent\<rparr> else None)"

section \<open>Boundaries\<close>

record boundaries =
  b_w :: diyfp
  b_minus :: diyfp
  b_plus :: diyfp

abbreviation (input) "kPrecision \<equiv> (53 :: nat)"

definition kBias :: int where
  "kBias = 1024 - 1 + (53 - 1)"

definition kHiddenBit :: u64 where
  "kHiddenBit = push_bit (kPrecision - 1) 1"

definition v_of :: "u64 \<Rightarrow> diyfp" where
  "v_of bits =
     (let E = drop_bit (kPrecision - 1) bits; F = bits AND (kHiddenBit - 1) in
      if E = 0 then \<lparr>fp_f = F, fp_e = 1 - kBias\<rparr> else \<lparr>fp_f = F + kHiddenBit, fp_e = int (unat E) - kBias\<rparr>)"

definition m_plus_of :: "u64 \<Rightarrow> diyfp" where
  "m_plus_of bits = (let v = v_of bits in \<lparr>fp_f = 2 * fp_f v + 1, fp_e = fp_e v - 1\<rparr>)"

definition m_minus_of :: "u64 \<Rightarrow> diyfp" where
  "m_minus_of bits =
     (let v = v_of bits; E = drop_bit (kPrecision - 1) bits; F = bits AND (kHiddenBit - 1);
          lower_boundary_is_closer = (F = 0 \<and> E > 1) in
      if lower_boundary_is_closer then \<lparr>fp_f = 4 * fp_f v - 1, fp_e = fp_e v - 2\<rparr>
      else \<lparr>fp_f = 2 * fp_f v - 1, fp_e = fp_e v - 1\<rparr>)"

definition compute_boundaries :: "u64 \<Rightarrow> boundaries option" where
  "compute_boundaries bits =
     (if isfinite bits \<and> is_positive bits then
        do {
          w_plus \<leftarrow> diyfp_normalize (m_plus_of bits);
          w_minus \<leftarrow> diyfp_normalize_to (m_minus_of bits) (fp_e w_plus);
          w \<leftarrow> diyfp_normalize (v_of bits);
          Some \<lparr>b_w = w, b_minus = w_minus, b_plus = w_plus\<rparr>
        }
      else None)"

section \<open>Cached powers of ten\<close>

abbreviation (input) "kAlpha \<equiv> (- 60 :: int)"
abbreviation (input) "kGamma \<equiv> (- 32 :: int)"

text \<open>A cached power is a significand, a binary exponent and the decimal exponent it stands for.\<close>

type_synonym cached_power = "u64 \<times> int \<times> int"

definition kCachedPowers :: "cached_power list" where
  "kCachedPowers =
     [(0xAB70FE17C79AC6CA, - 1060, - 300), (0xFF77B1FCBEBCDC4F, - 1034, - 292), (0xBE5691EF416BD60C, - 1007, - 284),
      (0x8DD01FAD907FFC3C, - 980, - 276), (0xD3515C2831559A83, - 954, - 268), (0x9D71AC8FADA6C9B5, - 927, - 260),
      (0xEA9C227723EE8BCB, - 901, - 252), (0xAECC49914078536D, - 874, - 244), (0x823C12795DB6CE57, - 847, - 236),
      (0xC21094364DFB5637, - 821, - 228), (0x9096EA6F3848984F, - 794, - 220), (0xD77485CB25823AC7, - 768, - 212),
      (0xA086CFCD97BF97F4, - 741, - 204), (0xEF340A98172AACE5, - 715, - 196), (0xB23867FB2A35B28E, - 688, - 188),
      (0x84C8D4DFD2C63F3B, - 661, - 180), (0xC5DD44271AD3CDBA, - 635, - 172), (0x936B9FCEBB25C996, - 608, - 164),
      (0xDBAC6C247D62A584, - 582, - 156), (0xA3AB66580D5FDAF6, - 555, - 148), (0xF3E2F893DEC3F126, - 529, - 140),
      (0xB5B5ADA8AAFF80B8, - 502, - 132), (0x87625F056C7C4A8B, - 475, - 124), (0xC9BCFF6034C13053, - 449, - 116),
      (0x964E858C91BA2655, - 422, - 108), (0xDFF9772470297EBD, - 396, - 100), (0xA6DFBD9FB8E5B88F, - 369, - 92),
      (0xF8A95FCF88747D94, - 343, - 84), (0xB94470938FA89BCF, - 316, - 76), (0x8A08F0F8BF0F156B, - 289, - 68),
      (0xCDB02555653131B6, - 263, - 60), (0x993FE2C6D07B7FAC, - 236, - 52), (0xE45C10C42A2B3B06, - 210, - 44),
      (0xAA242499697392D3, - 183, - 36), (0xFD87B5F28300CA0E, - 157, - 28), (0xBCE5086492111AEB, - 130, - 20),
      (0x8CBCCC096F5088CC, - 103, - 12), (0xD1B71758E219652C, - 77, - 4), (0x9C40000000000000, - 50, 4),
      (0xE8D4A51000000000, - 24, 12), (0xAD78EBC5AC620000, 3, 20), (0x813F3978F8940984, 30, 28),
      (0xC097CE7BC90715B3, 56, 36), (0x8F7E32CE7BEA5C70, 83, 44), (0xD5D238A4ABE98068, 109, 52),
      (0x9F4F2726179A2245, 136, 60), (0xED63A231D4C4FB27, 162, 68), (0xB0DE65388CC8ADA8, 189, 76),
      (0x83C7088E1AAB65DB, 216, 84), (0xC45D1DF942711D9A, 242, 92), (0x924D692CA61BE758, 269, 100),
      (0xDA01EE641A708DEA, 295, 108), (0xA26DA3999AEF774A, 322, 116), (0xF209787BB47D6B85, 348, 124),
      (0xB454E4A179DD1877, 375, 132), (0x865B86925B9BC5C2, 402, 140), (0xC83553C5C8965D3D, 428, 148),
      (0x952AB45CFA97A0B3, 455, 156), (0xDE469FBD99A05FE3, 481, 164), (0xA59BC234DB398C25, 508, 172),
      (0xF6C69A72A3989F5C, 534, 180), (0xB7DCBF5354E9BECE, 561, 188), (0x88FCF317F22241E2, 588, 196),
      (0xCC20CE9BD35C78A5, 614, 204), (0x98165AF37B2153DF, 641, 212), (0xE2A0B5DC971F303A, 667, 220),
      (0xA8D9D1535CE3B396, 694, 228), (0xFB9B7CD9A4A7443C, 720, 236), (0xBB764C4CA7A44410, 747, 244),
      (0x8BAB8EEFB6409C1A, 774, 252), (0xD01FEF10A657842C, 800, 260), (0x9B10A4E5E9913129, 827, 268),
      (0xE7109BFBA19C0C9D, 853, 276), (0xAC2820D9623BF429, 880, 284), (0x80444B5E7AA7CF85, 907, 292),
      (0xBF21E44003ACDD2D, 933, 300), (0x8E679C2F5E44FF8F, 960, 308), (0xD433179D9C8CB841, 986, 316),
      (0x9E19DB92B4E31BA9, 1013, 324)]"

text \<open>C++ division of an \<open>int\<close> rounds towards zero.\<close>

definition get_cached_power_for_binary_exponent :: "int \<Rightarrow> cached_power option" where
  "get_cached_power_for_binary_exponent e =
     (if e \<ge> - 1500 \<and> e \<le> 1500 then
        let f = kAlpha - e - 1;
            k = (f * 78913) sdiv 2 ^ 18 + (if f > 0 then 1 else 0);
            index = (300 + k + (8 - 1)) sdiv 8 in
        if index \<ge> 0 \<and> nat index < length kCachedPowers then
          (case kCachedPowers ! nat index of (cf, ce, ck) \<Rightarrow>
             if kAlpha \<le> ce + e + 64 \<and> kGamma \<ge> ce + e + 64 then Some (cf, ce, ck) else None)
        else None
      else None)"

section \<open>Digits\<close>

text \<open>\<open>find_largest_pow10\<close>: the number of digits and the power of ten of the first.\<close>

definition find_largest_pow10 :: "u32 \<Rightarrow> nat \<times> u32" where
  "find_largest_pow10 n =
     (if n \<ge> 1000000000 then (10, 1000000000)
      else if n \<ge> 100000000 then (9, 100000000)
      else if n \<ge> 10000000 then (8, 10000000)
      else if n \<ge> 1000000 then (7, 1000000)
      else if n \<ge> 100000 then (6, 100000)
      else if n \<ge> 10000 then (5, 10000)
      else if n \<ge> 1000 then (4, 1000)
      else if n \<ge> 100 then (3, 100)
      else if n \<ge> 10 then (2, 10)
      else (1, 1))"

text \<open>The digits written so far are \<open>buf\<close>, each a character; the last one is decremented.\<close>

definition dec_last :: "string \<Rightarrow> string" where
  "dec_last buf = butlast buf @ [char_of (of_char (last buf) - 1 :: nat)]"

partial_function (option) round_loop :: "u64 \<Rightarrow> u64 \<Rightarrow> u64 \<Rightarrow> u64 \<Rightarrow> string \<Rightarrow> string option" where
  "round_loop dist delta ten_k rest buf =
     (if rest < dist \<and> delta - rest \<ge> ten_k \<and> (rest + ten_k < dist \<or> dist - rest > rest + ten_k - dist)
      then if last buf \<noteq> CHR ''0'' then round_loop dist delta ten_k (rest + ten_k) (dec_last buf) else None
      else Some buf)"

declare round_loop.simps [code]

definition grisu2_round :: "string \<Rightarrow> u64 \<Rightarrow> u64 \<Rightarrow> u64 \<Rightarrow> u64 \<Rightarrow> string option" where
  "grisu2_round buf dist delta rest ten_k =
     (if length buf \<ge> 1 \<and> dist \<le> delta \<and> rest \<le> delta \<and> ten_k > 0
      then round_loop dist delta ten_k rest buf else None)"

text \<open>
  The loop over the integral part: the digits and the exponent where it stops, or the digits where all
  have been written. \<open>sh\<close> is \<open>-one.e\<close>.
\<close>

datatype digits_of = Stopped string int | All_written string

fun integral_digits :: "nat \<Rightarrow> u64 \<Rightarrow> u64 \<Rightarrow> u64 \<Rightarrow> nat \<Rightarrow> u32 \<Rightarrow> u32 \<Rightarrow> string \<Rightarrow> digits_of option" where
  "integral_digits sh delta dist p2 0 p1 pow10 buf = Some (All_written buf)"
| "integral_digits sh delta dist p2 (Suc n) p1 pow10 buf =
     (let d = p1 div pow10;
          r = p1 mod pow10;
          buf' = buf @ [char_of (0x30 + unat d)];
          rest = push_bit sh (ucast r) + p2 in
      if d \<le> 9 then
        if rest \<le> delta then
          do {
            b \<leftarrow> grisu2_round buf' dist delta rest (push_bit sh (ucast pow10));
            Some (Stopped b (int n))
          }
        else integral_digits sh delta dist p2 n r (pow10 div 10) buf'
      else None)"

text \<open>The loop over the fraction, with the number \<open>m\<close> of digits it has written.\<close>

partial_function (option) fraction_digits ::
  "nat \<Rightarrow> u64 \<Rightarrow> u64 \<Rightarrow> u64 \<Rightarrow> int \<Rightarrow> string \<Rightarrow> (string \<times> int) option" where
  "fraction_digits sh delta dist p2 m buf =
     (if p2 \<le> 0xFFFFFFFFFFFFFFFF div 10 then
        let p2' = p2 * 10;
            d = drop_bit sh p2';
            r = p2' AND (push_bit sh 1 - 1);
            buf' = buf @ [char_of (0x30 + unat d)];
            delta' = delta * 10;
            dist' = dist * 10 in
        if d \<le> 9 then
          if r \<le> delta' then
            do {
              b \<leftarrow> grisu2_round buf' dist' delta' r (push_bit sh 1);
              Some (b, m + 1)
            }
          else fraction_digits sh delta' dist' r (m + 1) buf'
        else None
      else None)"

declare fraction_digits.simps [code]

definition grisu2_digit_gen :: "int \<Rightarrow> diyfp \<Rightarrow> diyfp \<Rightarrow> diyfp \<Rightarrow> (string \<times> int) option" where
  "grisu2_digit_gen decimal_exponent M_minus w M_plus =
     (if fp_e M_plus \<ge> kAlpha \<and> fp_e M_plus \<le> kGamma then
        do {
          delta \<leftarrow> diyfp_sub M_plus M_minus;
          dist \<leftarrow> diyfp_sub M_plus w;
          let sh = nat (- fp_e M_plus);
          let p1 = (ucast (drop_bit sh (fp_f M_plus)) :: u32);
          let p2 = fp_f M_plus AND (push_bit sh 1 - 1);
          if p1 > 0 then
            case find_largest_pow10 p1 of (k, pow10) \<Rightarrow>
              do {
                ds \<leftarrow> integral_digits sh (fp_f delta) (fp_f dist) p2 k p1 pow10 [];
                case ds of
                  Stopped b n \<Rightarrow> Some (b, decimal_exponent + n)
                | All_written b \<Rightarrow>
                    if p2 > fp_f delta then
                      do {
                        (b', m) \<leftarrow> fraction_digits sh (fp_f delta) (fp_f dist) p2 0 b;
                        Some (b', decimal_exponent - m)
                      }
                    else None
              }
          else None
        }
      else None)"

section \<open>Grisu2\<close>

definition grisu2_boundaries :: "diyfp \<Rightarrow> diyfp \<Rightarrow> diyfp \<Rightarrow> (string \<times> int) option" where
  "grisu2_boundaries m_minus v m_plus =
     (if fp_e m_plus = fp_e m_minus \<and> fp_e m_plus = fp_e v then
        do {
          (cf, ce, ck) \<leftarrow> get_cached_power_for_binary_exponent (fp_e m_plus);
          let c_minus_k = \<lparr>fp_f = cf, fp_e = ce\<rparr>;
          let w = diyfp_mul v c_minus_k;
          let w_minus = diyfp_mul m_minus c_minus_k;
          let w_plus = diyfp_mul m_plus c_minus_k;
          grisu2_digit_gen (- ck) (w_minus\<lparr>fp_f := fp_f w_minus + 1\<rparr>) w (w_plus\<lparr>fp_f := fp_f w_plus - 1\<rparr>)
        }
      else None)"

definition grisu2 :: "u64 \<Rightarrow> (string \<times> int) option" where
  "grisu2 bits =
     (if isfinite bits \<and> is_positive bits then
        do {
          w \<leftarrow> compute_boundaries bits;
          grisu2_boundaries (b_minus w) (b_w w) (b_plus w)
        }
      else None)"

section \<open>Layout\<close>

definition append_exponent :: "string \<Rightarrow> int \<Rightarrow> string option" where
  "append_exponent buf e =
     (if e > - 1000 \<and> e < 1000 then
        let k = nat \<bar>e\<bar> in
        Some (buf @ [if e < 0 then CHR ''-'' else CHR ''+''] @
          (if k < 10 then [CHR ''0'', digit_char k]
           else if k < 100 then [digit_char (k div 10), digit_char (k mod 10)]
           else [digit_char (k div 100), digit_char (k mod 100 div 10), digit_char (k mod 100 mod 10)]))
      else None)"

definition format_buffer :: "string \<Rightarrow> int \<Rightarrow> int \<Rightarrow> int \<Rightarrow> string option" where
  "format_buffer buf decimal_exponent min_exp max_exp =
     (if min_exp < 0 \<and> max_exp > 0 then
        let k = int (length buf);
            n = k + decimal_exponent in
        if k \<le> n \<and> n \<le> max_exp then Some (buf @ replicate (nat (n - k)) (CHR ''0'') @ ''.0'')
        else if 0 < n \<and> n \<le> max_exp then
          if k > n then Some (take (nat n) buf @ ''.'' @ drop (nat n) buf) else None
        else if min_exp < n \<and> n \<le> 0 then Some (''0.'' @ replicate (nat (- n)) (CHR ''0'') @ buf)
        else append_exponent ((if k = 1 then buf else take 1 buf @ ''.'' @ drop 1 buf) @ ''e'') (n - 1)
      else None)"

text \<open>\<open>room\<close> is \<open>last - first\<close>, the size of the buffer; the sign takes one character of it.\<close>

definition to_chars :: "int \<Rightarrow> u64 \<Rightarrow> string option" where
  "to_chars room bits =
     (if isfinite bits then
        let (sign, value, room') =
              (if signbit bits then (''-'', negated bits, room - 1) else ([], bits, room)) in
        if is_zero value then Some (sign @ ''0.0'')
        else if room' \<ge> 17 then
          do {
            (buf, decimal_exponent) \<leftarrow> grisu2 value;
            if length buf \<le> 17 \<and> room' \<ge> 15 + 2 \<and> room' \<ge> 2 + (4 - 1) + 17 \<and> room' \<ge> 17 + 6 then
              do {
                t \<leftarrow> format_buffer buf decimal_exponent (- 4) 15;
                Some (sign @ t)
              }
            else None
          }
        else None
      else None)"

definition dump_float :: "u64 \<Rightarrow> string option" where
  "dump_float x = (if \<not> isfinite x then Some ''null'' else to_chars 64 x)"

end
