(* ===== verification/JsonPrinter.thy ===== *)
theory JsonPrinter
  imports JsonLexer Grisu
begin

text \<open>
  The printer of the JSON library (class \<open>serializer\<close> of \<open>common/nlohmann/json.hpp\<close>):
  \<open>dump_escaped\<close> with its UTF-8 automaton and its string buffer of 512 bytes, \<open>dump_integer\<close> with
  its number buffer of 64 characters, and \<open>dump\<close>. The text of a floating-point number is that of
  \<open>dump_float\<close> in \<open>Grisu\<close>.
\<close>

section \<open>UTF-8 decoding\<close>

text \<open>The table \<open>utf8d\<close>, row by row: the type of each byte, then the next state by state and type.\<close>

definition byte_types :: "nat list" where
  "byte_types = replicate 128 0 @ replicate 16 1 @ replicate 16 9 @ replicate 32 7 @ replicate 2 8
     @ replicate 30 2 @ [10] @ replicate 12 3 @ [4] @ replicate 2 3 @ [11] @ replicate 3 6 @ [5]
     @ replicate 11 8"

definition state_rows :: "nat list" where
  "state_rows =
     [0, 1, 2, 3, 5, 8, 7, 1, 1, 1, 4, 6, 1, 1, 1, 1,
      1, 1, 1, 1, 1, 1, 1, 1, 1, 1, 1, 1, 1, 1, 1, 1,
      1, 0, 1, 1, 1, 1, 1, 0, 1, 0, 1, 1, 1, 1, 1, 1,
      1, 2, 1, 1, 1, 1, 1, 2, 1, 2, 1, 1, 1, 1, 1, 1,
      1, 1, 1, 1, 1, 1, 1, 2, 1, 1, 1, 1, 1, 1, 1, 1,
      1, 2, 1, 1, 1, 1, 1, 1, 1, 2, 1, 1, 1, 1, 1, 1,
      1, 1, 1, 1, 1, 1, 1, 3, 1, 3, 1, 1, 1, 1, 1, 1,
      1, 3, 1, 1, 1, 1, 1, 3, 1, 3, 1, 1, 1, 1, 1, 1,
      1, 3, 1, 1, 1, 1, 1, 1, 1, 1, 1, 1, 1, 1, 1, 1]"

definition utf8d :: "nat list" where
  "utf8d = byte_types @ state_rows"

abbreviation (input) "UTF8_ACCEPT \<equiv> (0 :: nat)"
abbreviation (input) "UTF8_REJECT \<equiv> (1 :: nat)"

definition decode :: "nat \<Rightarrow> u32 \<Rightarrow> nat \<Rightarrow> nat \<times> u32" where
  "decode state codep b =
     (let type = utf8d ! b;
          codep' = (if state \<noteq> UTF8_ACCEPT then (of_nat b AND 0x3F) OR push_bit 6 codep
                    else drop_bit type 0xFF AND of_nat b)
      in (utf8d ! (256 + state * 16 + type), codep'))"

section \<open>Escaped strings\<close>

text \<open>\<open>snprintf("%04x")\<close> of a 16-bit number.\<close>

definition hex_lower :: "nat \<Rightarrow> char" where
  "hex_lower d = (if d < 10 then char_of (0x30 + d) else char_of (0x57 + d))"

definition hex4 :: "nat \<Rightarrow> string" where
  "hex4 n = map (\<lambda>k. hex_lower (n div 16 ^ k mod 16)) [3, 2, 1, 0]"

definition backslash_u :: "nat \<Rightarrow> string" where
  "backslash_u n = CHR 0x5C # CHR ''u'' # hex4 (n mod 2 ^ 16)"

text \<open>What is written to the buffer for a complete code point whose last byte is \<open>c\<close>.\<close>

definition escape :: "bool \<Rightarrow> u32 \<Rightarrow> char \<Rightarrow> string" where
  "escape ensure_ascii codepoint c =
     (if codepoint = 0x08 then [CHR 0x5C, CHR ''b'']
      else if codepoint = 0x09 then [CHR 0x5C, CHR ''t'']
      else if codepoint = 0x0A then [CHR 0x5C, CHR ''n'']
      else if codepoint = 0x0C then [CHR 0x5C, CHR ''f'']
      else if codepoint = 0x0D then [CHR 0x5C, CHR ''r'']
      else if codepoint = 0x22 then [CHR 0x5C, CHR 0x22]
      else if codepoint = 0x5C then [CHR 0x5C, CHR 0x5C]
      else if codepoint \<le> 0x1F \<or> ensure_ascii \<and> codepoint \<ge> 0x7F then
        (if codepoint \<le> 0xFFFF then backslash_u (unat codepoint)
         else backslash_u (unat (0xD7C0 + drop_bit 10 codepoint))
              @ backslash_u (unat (0xDC00 + (codepoint AND 0x3FF))))
      else [c])"

datatype error_handler = strict_handler | replace_handler | ignore_handler

text \<open>
  The locals of \<open>dump_escaped\<close>: the decoder's state and code point, the first \<open>bytes\<close> characters of
  the string buffer, \<open>bytes_after_last_accept\<close>, \<open>undumped_chars\<close>, and the characters written to the
  output so far.
\<close>

record dumping =
  d_state :: nat
  d_codepoint :: u32
  d_buffer :: string
  d_last :: nat
  d_undumped :: nat
  d_out :: string

definition dump_start :: dumping where
  "dump_start = \<lparr>d_state = UTF8_ACCEPT, d_codepoint = 0, d_buffer = [], d_last = 0, d_undumped = 0,
     d_out = []\<rparr>"

definition STRING_BUFFER :: nat where "STRING_BUFFER = 512"

text \<open>
  Writing past the end of the string buffer is undefined, and an assertion that fails aborts; the model
  stops at either.
\<close>

datatype dump_error = Type316 | Buffer_overrun | Assertion_failed

definition put_buffer :: "string \<Rightarrow> nat \<Rightarrow> dumping \<Rightarrow> dump_error + dumping" where
  "put_buffer cs room d =
     (if length (d_buffer d) + room \<le> STRING_BUFFER then Inr (d\<lparr>d_buffer := d_buffer d @ cs\<rparr>)
      else Inl Buffer_overrun)"

text \<open>The buffer is written out when fewer than 13 bytes are left.\<close>

definition flush_full :: "dumping \<Rightarrow> dumping" where
  "flush_full d =
     (if STRING_BUFFER - length (d_buffer d) < 13
      then d\<lparr>d_out := d_out d @ d_buffer d, d_buffer := []\<rparr> else d)"

text \<open>\<open>snprintf\<close> writes a null byte after the escape as well, so escapes need one byte more.\<close>

definition accept_char :: "bool \<Rightarrow> char \<Rightarrow> dumping \<Rightarrow> dump_error + dumping" where
  "accept_char ensure_ascii c d =
     (let e = escape ensure_ascii (d_codepoint d) c;
          room = (if length e > 2 then length e + 1 else length e) in
      bind_sum (put_buffer e room d)
        (\<lambda>d1. let d2 = flush_full d1 in
              Inr (d2\<lparr>d_last := length (d_buffer d2), d_undumped := 0\<rparr>)))"

text \<open>
  An invalid byte: \<open>strict\<close> throws; \<open>ignore\<close> and \<open>replace\<close> drop the incomplete sequence, and the
  byte is read again (\<open>True\<close>) when it was not the first of its sequence.
\<close>

definition replacement :: "bool \<Rightarrow> string" where
  "replacement ensure_ascii =
     (if ensure_ascii then [CHR 0x5C, CHR ''u'', CHR ''f'', CHR ''f'', CHR ''f'', CHR ''d'']
      else [CHR 0xEF, CHR 0xBF, CHR 0xBD])"

definition reject_char :: "error_handler \<Rightarrow> bool \<Rightarrow> dumping \<Rightarrow> dump_error + (bool \<times> dumping)" where
  "reject_char h ensure_ascii d =
     (if h = strict_handler then Inl Type316
      else
        let again = d_undumped d > 0;
            d1 = d\<lparr>d_buffer := take (d_last d) (d_buffer d)\<rparr> in
        bind_sum
          (if h = replace_handler then
             bind_sum (put_buffer (replacement ensure_ascii) (length (replacement ensure_ascii)) d1)
               (\<lambda>d2. let d3 = flush_full d2 in Inr (d3\<lparr>d_last := length (d_buffer d3)\<rparr>))
           else Inr d1)
          (\<lambda>d4. Inr (again, d4\<lparr>d_undumped := 0, d_state := UTF8_ACCEPT\<rparr>)))"

text \<open>One round of the loop; the flag says that the same byte is read again.\<close>

definition dump_byte :: "error_handler \<Rightarrow> bool \<Rightarrow> char \<Rightarrow> dumping \<Rightarrow> dump_error + (bool \<times> dumping)" where
  "dump_byte h ensure_ascii c d =
     (case decode (d_state d) (d_codepoint d) (of_char c) of
        (st, cp) \<Rightarrow>
          let d1 = d\<lparr>d_state := st, d_codepoint := cp\<rparr> in
          if st = UTF8_ACCEPT then bind_sum (accept_char ensure_ascii c d1) (\<lambda>d2. Inr (False, d2))
          else if st = UTF8_REJECT then reject_char h ensure_ascii d1
          else bind_sum (if ensure_ascii then Inr d1 else put_buffer [c] 1 d1)
                 (\<lambda>d2. Inr (False, d2\<lparr>d_undumped := d_undumped d2 + 1\<rparr>)))"

lemma dump_byte_again: "dump_byte h ea c d = Inr (True, d') \<Longrightarrow> d_undumped d' < d_undumped d"
  by (auto simp: dump_byte_def reject_char_def Let_def bind_sum_Inr_iff split: prod.splits if_splits)

function dump_bytes :: "error_handler \<Rightarrow> bool \<Rightarrow> string \<Rightarrow> dumping \<Rightarrow> dump_error + dumping" where
  "dump_bytes h ensure_ascii [] d = Inr d"
| "dump_bytes h ensure_ascii (c # cs) d =
     (case dump_byte h ensure_ascii c d of
        Inl e \<Rightarrow> Inl e
      | Inr (again, d1) \<Rightarrow> dump_bytes h ensure_ascii (if again then c # cs else cs) d1)"
  by pat_completeness auto
termination
  by (relation "measures [\<lambda>(h, ea, s, d). length s, \<lambda>(h, ea, s, d). d_undumped d]")
    (auto dest: dump_byte_again split: if_splits)

definition dump_finish :: "error_handler \<Rightarrow> bool \<Rightarrow> dumping \<Rightarrow> dump_error + string" where
  "dump_finish h ensure_ascii d =
     (if d_state d = UTF8_ACCEPT then Inr (d_out d @ d_buffer d)
      else case h of
        strict_handler \<Rightarrow> Inl Type316
      | ignore_handler \<Rightarrow> Inr (d_out d @ take (d_last d) (d_buffer d))
      | replace_handler \<Rightarrow> Inr (d_out d @ take (d_last d) (d_buffer d) @ replacement ensure_ascii))"

definition dump_escaped :: "error_handler \<Rightarrow> bool \<Rightarrow> string \<Rightarrow> dump_error + string" where
  "dump_escaped h ensure_ascii s =
     bind_sum (dump_bytes h ensure_ascii s dump_start) (dump_finish h ensure_ascii)"

section \<open>Integers\<close>

function count_digits_from :: "nat \<Rightarrow> u64 \<Rightarrow> nat" where
  "count_digits_from n x =
     (if x < 10 then n
      else if x < 100 then n + 1
      else if x < 1000 then n + 2
      else if x < 10000 then n + 3
      else count_digits_from (n + 4) (x div 10000))"
  by pat_completeness auto
termination
proof (relation "measure (\<lambda>(n, x). unat x)")
  fix n :: nat and x :: u64
  assume "\<not> x < 10000"
  then have "0 < unat x" by (simp add: word_less_nat_alt)
  then show "((n + 4, x div 10000), n, x) \<in> measure (\<lambda>(n, x). unat x)"
    by (simp add: unat_div)
qed simp

definition count_digits :: "u64 \<Rightarrow> nat" where
  "count_digits x = count_digits_from 1 x"

definition digits_to_99 :: "nat \<Rightarrow> char \<times> char" where
  "digits_to_99 k = (digit_char (k div 10), digit_char (k mod 10))"

text \<open>\<open>remove_sign\<close> of a negative 64-bit integer: \<open>-(x + 1)\<close> as unsigned, plus one.\<close>

definition remove_sign :: "int \<Rightarrow> u64" where
  "remove_sign x = word_of_int (- (x + 1)) + 1"

text \<open>The digits, written backwards from \<open>ptr\<close> into the number buffer.\<close>

function put_pairs :: "u64 \<Rightarrow> nat \<Rightarrow> string \<Rightarrow> u64 \<times> nat \<times> string" where
  "put_pairs abs_value ptr buf =
     (if abs_value \<ge> 100 then
        (case digits_to_99 (unat (abs_value mod 100)) of
           (hi, lo) \<Rightarrow> put_pairs (abs_value div 100) (ptr - 2) (buf[ptr - 1 := lo, ptr - 2 := hi]))
      else (abs_value, ptr, buf))"
  by pat_completeness auto
termination
proof (relation "measure (\<lambda>(v, p, b). unat v)")
  fix v :: u64 and p :: nat and b :: string and xy hi lo
  assume "v \<ge> 100"
  then have "0 < unat v" by (simp add: word_le_nat_alt)
  then show "((v div 100, p - 2, b[p - 1 := lo, p - 2 := hi]), v, p, b) \<in> measure (\<lambda>(v, p, b). unat v)"
    by (simp add: unat_div)
qed simp

declare count_digits_from.simps [simp del] put_pairs.simps [simp del]

definition put_last :: "u64 \<times> nat \<times> string \<Rightarrow> string" where
  "put_last st =
     (case st of (v, ptr, buf) \<Rightarrow>
        if v \<ge> 10 then (case digits_to_99 (unat v) of (hi, lo) \<Rightarrow> buf[ptr - 1 := lo, ptr - 2 := hi])
        else buf[ptr - 1 := char_of (0x30 + unat v)])"

definition number_buffer :: string where
  "number_buffer = replicate 64 (CHR 0x00)"

definition dump_integer :: "int \<Rightarrow> string" where
  "dump_integer x =
     (if x = 0 then ''0''
      else
        let (abs_value, n_chars, buf) =
              (if x < 0 then
                 let v = remove_sign x in (v, 1 + count_digits v, number_buffer[0 := CHR ''-''])
               else let v = word_of_int x in (v, count_digits v, number_buffer))
        in take n_chars (put_last (put_pairs abs_value n_chars buf)))"

text \<open>The printed integer is its decimal text: the fast conversion agrees with \<open>show_int\<close>.\<close>

lemma show_nat_step: "10 \<le> n \<Longrightarrow> show_nat n = show_nat (n div 10) @ [digit_char (n mod 10)]"
  by (subst show_nat.simps) simp

lemma show_nat_pair:
  assumes "100 \<le> n"
  shows "show_nat n = show_nat (n div 100) @ [digit_char (n mod 100 div 10), digit_char (n mod 100 mod 10)]"
proof -
  have "n div 10 div 10 = n div 100" "n div 10 mod 10 = n mod 100 div 10" "n mod 10 = n mod 100 mod 10"
    using mod_mult2_eq [of n 10 10] by (simp_all add: div_mult2_eq [symmetric] mod_mod_cancel)
  moreover have "10 \<le> n div 10" using assms by (simp add: less_eq_div_iff_mult_less_eq)
  ultimately show ?thesis
    using assms show_nat_step [of n] show_nat_step [of "n div 10"] by simp
qed

lemma length_show_nat_small: "n < 10 \<Longrightarrow> length (show_nat n) = 1"
  by (subst show_nat.simps) simp

lemma length_show_nat_step: "10 \<le> n \<Longrightarrow> length (show_nat n) = Suc (length (show_nat (n div 10)))"
  by (simp add: show_nat_step)

lemma length_show_nat_range:
  "n < 10 \<Longrightarrow> length (show_nat n) = 1"
  "10 \<le> n \<Longrightarrow> n < 100 \<Longrightarrow> length (show_nat n) = 2"
  "100 \<le> n \<Longrightarrow> n < 1000 \<Longrightarrow> length (show_nat n) = 3"
  "1000 \<le> n \<Longrightarrow> n < 10000 \<Longrightarrow> length (show_nat n) = 4"
proof -
  show one: "length (show_nat n) = 1" if "n < 10" for n using that by (rule length_show_nat_small)
  show two: "length (show_nat n) = 2" if "10 \<le> n" "n < 100" for n
    using length_show_nat_step [OF that(1)] one [of "n div 10"] that(2) by simp
  show three: "length (show_nat n) = 3" if "100 \<le> n" "n < 1000" for n
    using length_show_nat_step [of n] two [of "n div 10"] that by simp
  show "length (show_nat n) = 4" if "1000 \<le> n" "n < 10000" for n
    using length_show_nat_step [of n] three [of "n div 10"] that by simp
qed

lemma length_show_nat_four:
  assumes "10000 \<le> n"
  shows "length (show_nat n) = 4 + length (show_nat (n div 10000))"
proof -
  have dv: "n div 10 div 10 div 10 div 10 = n div 10000" by (simp add: div_mult2_eq [symmetric])
  have "10 \<le> n" "10 \<le> n div 10" "10 \<le> n div 10 div 10" "10 \<le> n div 10 div 10 div 10"
    using assms by (simp_all add: div_mult2_eq [symmetric] less_eq_div_iff_mult_less_eq)
  from this [THEN length_show_nat_step] show ?thesis by (simp only: dv)
qed

lemma count_digits_from_show: "Suc (count_digits_from n x) = n + length (show_nat (unat x))"
proof (induction n x rule: count_digits_from.induct)
  case (1 n x)
  have lt: "x < 10 \<longleftrightarrow> unat x < 10" "x < 100 \<longleftrightarrow> unat x < 100" "x < 1000 \<longleftrightarrow> unat x < 1000"
      "x < 10000 \<longleftrightarrow> unat x < 10000"
    by (simp_all add: word_less_nat_alt)
  note s = count_digits_from.simps [of n x, unfolded lt] and r = length_show_nat_range [of "unat x"]
  show ?case
  proof (cases "unat x < 10000")
    case True
    then show ?thesis using r unfolding s by (simp split: if_split)
  next
    case False
    then have "Suc (count_digits_from (n + 4) (x div 10000)) = n + 4 + length (show_nat (unat x div 10000))"
      using "1.IH" by (simp add: lt unat_div)
    with False show ?thesis unfolding s by (simp add: length_show_nat_four)
  qed
qed

lemma count_digits_show: "count_digits x = length (show_nat (unat x))"
  using count_digits_from_show [of 1 x] by (simp add: count_digits_def)

lemma ends_in_pair: "length xs = k + 2 \<Longrightarrow> \<exists>ys a b. xs = ys @ [a, b] \<and> length ys = k"
proof -
  assume len: "length xs = k + 2"
  then obtain zs b where "xs = zs @ [b]" by (cases xs rule: rev_cases) auto
  moreover from this len obtain ys a where "zs = ys @ [a]" by (cases zs rule: rev_cases) auto
  ultimately show ?thesis using len by simp
qed

lemma write_pair:
  "ptr = length xs + 2 \<Longrightarrow> (xs @ a # b # ys)[ptr - 1 := lo, ptr - 2 := hi] = xs @ hi # lo # ys"
  by (simp add: list_update_append)

lemma put_digits:
  assumes "length junk = length (show_nat (unat v))" and "ptr = length pre + length junk"
  shows "put_last (put_pairs v ptr (pre @ junk @ post)) = pre @ show_nat (unat v) @ post"
  using assms
proof (induction v ptr "pre @ junk @ post" arbitrary: junk post rule: put_pairs.induct)
  case (1 v ptr)
  let ?u = "unat v"
  have ge: "100 \<le> v \<longleftrightarrow> 100 \<le> ?u" "10 \<le> v \<longleftrightarrow> 10 \<le> ?u" by (simp_all add: word_le_nat_alt)
  show ?case
  proof (cases "100 \<le> v")
    case True
    then have p: "show_nat ?u = show_nat (?u div 100)
        @ [digit_char (?u mod 100 div 10), digit_char (?u mod 100 mod 10)]"
      by (simp add: ge show_nat_pair)
    with "1.prems" have "length junk = length (show_nat (?u div 100)) + 2" by simp
    then obtain js a b where j: "junk = js @ [a, b]" "length js = length (show_nat (?u div 100))"
      using ends_in_pair by blast
    then have ptr: "ptr = length (pre @ js) + 2" using "1.prems" by simp
    let ?hi = "digit_char (?u mod 100 div 10)" and ?lo = "digit_char (?u mod 100 mod 10)"
    have w: "(pre @ junk @ post)[ptr - 1 := ?lo, ptr - 2 := ?hi] = pre @ js @ ?hi # ?lo # post"
      using write_pair [OF ptr, of a b post ?lo ?hi] by (simp add: j)
    have d: "digits_to_99 (unat (v mod 100)) = (?hi, ?lo)" by (simp add: digits_to_99_def unat_mod)
    have "put_last (put_pairs (v div 100) (ptr - 2) (pre @ js @ ?hi # ?lo # post)) =
        pre @ show_nat (unat (v div 100)) @ ?hi # ?lo # post"
      by (rule "1.hyps" [OF True d [symmetric] w]) (use j ptr in \<open>simp_all add: unat_div\<close>)
    moreover have "put_pairs v ptr (pre @ junk @ post) =
        put_pairs (v div 100) (ptr - 2) (pre @ js @ ?hi # ?lo # post)"
      by (subst put_pairs.simps) (simp only: True d w if_True prod.case)
    ultimately show ?thesis by (simp add: p unat_div)
  next
    case False
    have e: "put_pairs v ptr (pre @ junk @ post) = (v, ptr, pre @ junk @ post)"
      by (subst put_pairs.simps) (simp add: False)
    show ?thesis
    proof (cases "10 \<le> ?u")
      case True
      with False have s: "show_nat ?u = [digit_char (?u div 10), digit_char (?u mod 10)]"
        by (simp add: show_nat_step ge) (subst show_nat.simps, simp)
      with "1.prems" obtain a b where "junk = [a, b]"
        using ends_in_pair [of junk 0] by auto
      with True s "1.prems" show ?thesis
        unfolding e by (simp add: put_last_def ge digits_to_99_def list_update_append)
    next
      case small: False
      then have s: "show_nat ?u = [digit_char ?u]" by (subst show_nat.simps) simp
      with "1.prems" obtain a where "junk = [a]" by (auto simp: length_Suc_conv)
      with small s "1.prems" show ?thesis
        unfolding e by (simp add: put_last_def ge digit_char_def list_update_append)
    qed
  qed
qed

lemma length_show_nat_le: "n < 10 ^ k \<Longrightarrow> 0 < k \<Longrightarrow> length (show_nat n) \<le> k"
proof (induction k arbitrary: n)
  case (Suc k)
  then show ?case
  proof (cases "n < 10")
    case False
    with Suc.prems have "n div 10 < 10 ^ k" "0 < k"
      by (simp_all add: less_mult_imp_div_less mult.commute) (cases k; simp)
    with Suc.IH [of "n div 10"] False show ?thesis by (simp add: length_show_nat_step)
  qed (simp add: length_show_nat_small)
qed simp

lemma length_show_u64: "length (show_nat (unat (x :: u64))) \<le> 20"
proof (rule length_show_nat_le)
  have "unat x < 2 ^ 64" using unsigned_less [of x, where ?'a = nat] by simp
  also have "(2 :: nat) ^ 64 < 10 ^ 20" by simp
  finally show "unat x < 10 ^ 20" .
qed simp

lemma CHR_zero: "char_of (48 :: nat) = CHR ''0''"
  by code_simp

lemma dump_integer_show:
  assumes "- (2 ^ 63) \<le> x" "x < 2 ^ 64"
  shows "dump_integer x = show_int x"
proof -
  consider "x = 0" | "x < 0" | "0 < x" by linarith
  then show ?thesis
  proof cases
    case 1
    then show ?thesis by (simp add: dump_integer_def show_int_def show_nat.simps digit_char_def CHR_zero)
  next
    case 2
    define v where "v = remove_sign x"
    have "v = word_of_int (- x)" by (simp add: v_def remove_sign_def)
    then have u: "unat v = nat (- x)"
      using 2 assms by (simp add: unat_eq_nat_uint uint_word_of_int take_bit_int_eq_self
        del: of_int_minus)
    define n where "n = length (show_nat (unat v))"
    have n: "n \<le> 20" unfolding n_def by (rule length_show_u64)
    have b: "number_buffer[0 := CHR ''-''] = [CHR ''-''] @ replicate n (CHR 0x00) @ replicate (63 - n) (CHR 0x00)"
      using n by (simp add: number_buffer_def replicate_add [symmetric] numeral_eq_Suc)
    have "put_last (put_pairs v (Suc n) (number_buffer[0 := CHR ''-''])) =
        [CHR ''-''] @ show_nat (unat v) @ replicate (63 - n) (CHR 0x00)"
      unfolding b by (rule put_digits) (simp_all add: n_def)
    moreover have "dump_integer x = take (Suc n) (put_last (put_pairs v (Suc n) (number_buffer[0 := CHR ''-''])))"
      using 2 by (simp add: dump_integer_def v_def [symmetric] count_digits_show n_def)
    ultimately show ?thesis using 2 by (simp add: u show_int_def n_def)
  next
    case 3
    define v :: u64 where "v = word_of_int x"
    have u: "unat v = nat x"
      using 3 assms by (simp add: v_def unat_eq_nat_uint uint_word_of_int take_bit_int_eq_self)
    define n where "n = length (show_nat (unat v))"
    have n: "n \<le> 20" unfolding n_def by (rule length_show_u64)
    have b: "number_buffer = [] @ replicate n (CHR 0x00) @ replicate (64 - n) (CHR 0x00)"
      using n by (simp add: number_buffer_def replicate_add [symmetric])
    have "put_last (put_pairs v n number_buffer) = [] @ show_nat (unat v) @ replicate (64 - n) (CHR 0x00)"
      unfolding b by (rule put_digits) (simp_all add: n_def)
    moreover have "dump_integer x = take n (put_last (put_pairs v n number_buffer))"
      using 3 by (simp add: dump_integer_def v_def [symmetric] count_digits_show n_def)
    ultimately show ?thesis using 3 by (simp add: u show_int_def n_def)
  qed
qed

section \<open>Values\<close>

text \<open>
  \<open>dump\<close>: keys in the order of the library's \<open>std::map\<close>. The serializer's \<open>indent_string\<close> starts with
  512 spaces and is doubled, once, where a level is indented deeper than it is long; its length is the
  state that a printer hands on. Indentations are unsigned 32-bit numbers. An exception of any part is
  that of the whole.
\<close>

type_synonym printer = "nat \<Rightarrow> dump_error + string \<times> nat"

definition lit :: "string \<Rightarrow> printer" where
  "lit s len = Inr (s, len)"

fun sequence :: "printer list \<Rightarrow> printer" where
  "sequence [] len = Inr ([], len)"
| "sequence (p # ps) len =
     bind_sum (p len) (\<lambda>(s, len1). bind_sum (sequence ps len1) (\<lambda>(t, len2). Inr (s @ t, len2)))"

definition spaces :: "nat \<Rightarrow> string" where
  "spaces n = replicate n (CHR '' '')"

text \<open>
  The first \<open>n\<close> characters of \<open>indent_string.c_str()\<close>: one more than the spaces is the null character at
  the end, and what lies behind that must not be read.
\<close>

definition indentation :: "u32 \<Rightarrow> printer" where
  "indentation n len =
     (if unat n \<le> len then Inr (spaces (unat n), len)
      else if unat n = len + 1 then Inr (spaces len @ [CHR 0x00], len)
      else Inl Buffer_overrun)"

definition grow :: "u32 \<Rightarrow> printer" where
  "grow new_indent len = Inr ([], if len < unat new_indent then len * 2 else len)"

definition escaped_string :: "string \<Rightarrow> printer" where
  "escaped_string s len = bind_sum (dump_escaped strict_handler False s) (\<lambda>t. Inr (t, len))"

text \<open>The elements of an array or object, separated by commas and, when pretty, on lines of their own.\<close>

fun separated :: "string \<Rightarrow> printer list \<Rightarrow> printer list" where
  "separated sep [] = []"
| "separated sep [p] = [p]"
| "separated sep (p # ps) = p # lit sep # separated sep ps"

definition dump_items :: "bool \<Rightarrow> u32 \<Rightarrow> char \<Rightarrow> char \<Rightarrow> (u32 \<Rightarrow> printer list) \<Rightarrow> u32 \<Rightarrow> printer" where
  "dump_items pretty indent_step opn cls items current_indent =
     (if items 0 = [] then lit [opn, cls]
      else if pretty then
        let new_indent = current_indent + indent_step in
        sequence (lit [opn, CHR 0x0A] # grow new_indent
          # separated [CHR '','', CHR 0x0A]
              (map (\<lambda>p. sequence [indentation new_indent, p]) (items new_indent))
          @ [lit [CHR 0x0A], indentation current_indent, lit [cls]])
      else sequence (lit [opn] # separated [CHR '',''] (items current_indent) @ [lit [cls]]))"

definition dump_member :: "bool \<Rightarrow> string \<Rightarrow> printer \<Rightarrow> printer" where
  "dump_member pretty k p =
     sequence [lit [CHR 0x22], escaped_string k,
       lit (if pretty then [CHR 0x22, CHR '':'', CHR '' ''] else [CHR 0x22, CHR '':'']), p]"

primrec dump :: "bool \<Rightarrow> u32 \<Rightarrow> json \<Rightarrow> u32 \<Rightarrow> printer" where
  "dump pretty indent_step (JObj m) =
     dump_items pretty indent_step (CHR ''{'') (CHR ''}'')
       (\<lambda>n. map (\<lambda>k. dump_member pretty k
                (the (fmlookup (fmmap (dump pretty indent_step) m) k) n))
              (sorted_list_of_fset (fmdom m)))"
| "dump pretty indent_step (JArr xs) =
     dump_items pretty indent_step (CHR ''['') (CHR '']'')
       (\<lambda>n. map (\<lambda>p. p n) (map (dump pretty indent_step) xs))"
| "dump pretty indent_step (JStr s) =
     (\<lambda>_. sequence [lit [CHR 0x22], escaped_string s, lit [CHR 0x22]])"
| "dump pretty indent_step (JBool b) = (\<lambda>_. lit (if b then ''true'' else ''false''))"
| "dump pretty indent_step (JInt i) = (\<lambda>_. lit (dump_integer i))"
| "dump pretty indent_step (JFloat x) =
     (\<lambda>_. case dump_float x of None \<Rightarrow> (\<lambda>_. Inl Assertion_failed) | Some t \<Rightarrow> lit t)"
| "dump pretty indent_step JDiscarded = (\<lambda>_. lit ''<discarded>'')"
| "dump pretty indent_step JNull = (\<lambda>_. lit ''null'')"

text \<open>\<open>j.dump(indent)\<close>: a negative indentation, the default, prints on one line.\<close>

definition INDENT_STRING :: nat where "INDENT_STRING = 512"

definition dump_text :: "int \<Rightarrow> json \<Rightarrow> dump_error + string" where
  "dump_text indent j =
     bind_sum (if indent \<ge> 0 then dump True (word_of_int indent) j 0 INDENT_STRING
               else dump False 0 j 0 INDENT_STRING)
       (\<lambda>(s, _). Inr s)"

end
