(* ===== verification/JsonUtf8.thy ===== *)
theory JsonUtf8
  imports JsonPrinter
begin

text \<open>
  What \<open>dump_escaped\<close> does to a string: the automaton of \<open>decode\<close> accepts exactly the well-formed
  UTF-8 texts, by the same byte ranges as the lexer's, the string buffer is never overrun, and the
  output is the text with its control characters, quotes and backslashes escaped.
\<close>

section \<open>Well-formed texts\<close>

text \<open>The ranges still owed by the current sequence, before and after a byte.\<close>

fun step_ranges :: "(nat \<times> nat) list \<Rightarrow> char \<Rightarrow> (nat \<times> nat) list option" where
  "step_ranges [] c = utf8_ranges c"
| "step_ranges ((lo, hi) # rs) c = (if in_range lo hi c then Some rs else None)"

fun utf8_from :: "(nat \<times> nat) list \<Rightarrow> string \<Rightarrow> bool" where
  "utf8_from rs [] = (rs = [])"
| "utf8_from rs (c # cs) = (case step_ranges rs c of None \<Rightarrow> False | Some rs' \<Rightarrow> utf8_from rs' cs)"

definition utf8_ok :: "string \<Rightarrow> bool" where
  "utf8_ok s = utf8_from [] s"

lemma utf8_from_append: "utf8_from rs s \<Longrightarrow> utf8_from [] t \<Longrightarrow> utf8_from rs (s @ t)"
  by (induction s arbitrary: rs) (auto split: option.splits)

lemma utf8_ok_Nil [simp]: "utf8_ok []"
  by (simp add: utf8_ok_def)

lemma utf8_ok_Cons [simp]: "code_of c < 0x80 \<Longrightarrow> utf8_ok (c # s) = utf8_ok s"
  by (simp add: utf8_ok_def utf8_ranges_def in_range_def)

lemma utf8_ok_append [simp]: "utf8_ok s \<Longrightarrow> utf8_ok t \<Longrightarrow> utf8_ok (s @ t)"
  by (simp add: utf8_ok_def utf8_from_append)

lemma utf8_ok_ascii: "list_all (\<lambda>c. code_of c < 0x80) s \<Longrightarrow> utf8_ok s"
  by (induction s) simp_all

lemma utf8_ranges_high:
  "utf8_ranges c = Some rs \<Longrightarrow> (\<forall>(lo, hi) \<in> set rs. 0x80 \<le> lo) \<and> (rs \<noteq> [] \<longrightarrow> 0x80 \<le> code_of c) \<and>
    (rs = [] \<longrightarrow> code_of c < 0x80)"
  by (auto simp: utf8_ranges_def in_range_def split: if_splits)

lemma step_ranges_high:
  "step_ranges rs c = Some rs' \<Longrightarrow> \<forall>(lo, hi) \<in> set rs. 0x80 \<le> lo \<Longrightarrow> \<forall>(lo, hi) \<in> set rs'. 0x80 \<le> lo"
  using utf8_ranges_high [of c rs'] by (cases rs) (auto split: if_splits)

text \<open>A well-formed text cut at an ASCII character falls into well-formed parts.\<close>

lemma utf8_from_cut:
  assumes "utf8_from rs s" "\<forall>(lo, hi) \<in> set rs. 0x80 \<le> lo" "\<And>c. P c \<Longrightarrow> code_of c < 0x80"
  shows "utf8_from rs (takeWhile (\<lambda>c. \<not> P c) s) \<and> utf8_from [] (dropWhile (\<lambda>c. \<not> P c) s)"
  using assms(1,2)
proof (induction s arbitrary: rs)
  case (Cons c s)
  then obtain rs' where rs': "step_ranges rs c = Some rs'" "utf8_from rs' s" by (auto split: option.splits)
  have high: "\<forall>(lo, hi) \<in> set rs'. 0x80 \<le> lo" by (rule step_ranges_high [OF rs'(1) Cons.prems(2)])
  show ?case
  proof (cases "P c")
    case True
    then have "code_of c < 0x80" by (rule assms(3))
    then have "rs = []" using rs'(1) Cons.prems(2) by (cases rs) (auto simp: in_range_def split: if_splits)
    with True Cons.prems show ?thesis by simp
  next
    case False
    with Cons.IH [OF rs'(2) high] rs'(1) show ?thesis by simp
  qed
qed simp

lemma utf8_ok_cut:
  assumes "utf8_ok s" "\<And>c. P c \<Longrightarrow> code_of c < 0x80"
  shows "utf8_ok (takeWhile (\<lambda>c. \<not> P c) s)" "utf8_ok (dropWhile (\<lambda>c. \<not> P c) s)"
  using utf8_from_cut [of "[]" s P] assms by (simp_all add: utf8_ok_def)

lemma utf8_ok_dropWhile:
  "utf8_ok s \<Longrightarrow> (\<And>c. P c \<Longrightarrow> code_of c < 0x80) \<Longrightarrow> utf8_ok (dropWhile P s)"
  by (induction s) auto

text \<open>It falls into well-formed parts before any ASCII character, and stays well-formed without some of
  them.\<close>

lemma utf8_from_before:
  assumes "utf8_from rs (s @ c # t)" "\<forall>(lo, hi) \<in> set rs. 0x80 \<le> lo" "code_of c < 0x80"
  shows "utf8_from rs s"
  using assms(1,2)
proof (induction s arbitrary: rs)
  case Nil
  with assms(3) show ?case by (cases rs) (auto simp: in_range_def split: if_splits)
next
  case (Cons b s)
  then obtain rs' where rs': "step_ranges rs b = Some rs'" "utf8_from rs' (s @ c # t)" by (auto split: option.splits)
  with step_ranges_high [OF rs'(1) Cons.prems(2)] show ?case using Cons.IH by simp
qed

lemma utf8_ok_before: "utf8_ok (s @ c # t) \<Longrightarrow> code_of c < 0x80 \<Longrightarrow> utf8_ok s"
  unfolding utf8_ok_def by (rule utf8_from_before) simp_all

lemma step_ranges_ascii:
  assumes "code_of c < 0x80" "\<forall>(lo, hi) \<in> set rs. 0x80 \<le> lo" "step_ranges rs c = Some rs'"
  shows "rs = [] \<and> rs' = []"
  using assms by (cases rs) (auto simp: in_range_def utf8_ranges_def split: if_splits)

definition plain_escape :: "char \<Rightarrow> string" where
  "plain_escape c = (if code_of c < 0x80 then escape False (of_nat (code_of c)) c else [c])"

definition escaped :: "string \<Rightarrow> string" where
  "escaped s = concat (map plain_escape s)"

lemma length_escape: "length (escape False cp c) \<le> 6"
proof -
  have "cp \<le> 0x1F \<Longrightarrow> cp \<le> 0xFFFF" by (simp add: word_le_nat_alt)
  then show ?thesis by (simp add: escape_def backslash_u_def hex4_def)
qed

lemma length_escaped: "length (escaped s) \<le> 6 * length s"
proof (induction s)
  case (Cons c s)
  moreover have "length (plain_escape c) \<le> 6" by (simp add: plain_escape_def length_escape)
  ultimately show ?case by (simp add: escaped_def)
qed (simp add: escaped_def)

section \<open>The automaton\<close>

definition state_ranges :: "nat \<Rightarrow> (nat \<times> nat) list" where
  "state_ranges st =
     (if st = 2 then [(0x80, 0xBF)]
      else if st = 3 then [(0x80, 0xBF), (0x80, 0xBF)]
      else if st = 4 then [(0xA0, 0xBF), (0x80, 0xBF)]
      else if st = 5 then [(0x80, 0x9F), (0x80, 0xBF)]
      else if st = 6 then [(0x90, 0xBF), (0x80, 0xBF), (0x80, 0xBF)]
      else if st = 7 then [(0x80, 0xBF), (0x80, 0xBF), (0x80, 0xBF)]
      else if st = 8 then [(0x80, 0x8F), (0x80, 0xBF), (0x80, 0xBF)]
      else [])"

text \<open>The code point collected so far, by state: never so small that it could be taken for an
  ASCII character, never so big that the next shift loses bits.\<close>

definition partial_ok :: "nat \<Rightarrow> nat \<Rightarrow> bool" where
  "partial_ok st n \<longleftrightarrow>
     st = 0 \<or> st = 2 \<and> 2 \<le> n \<and> n < 2 ^ 16 \<or> st = 3 \<and> 1 \<le> n \<and> n < 2 ^ 10 \<or>
     st \<in> {4, 6} \<and> n = 0 \<or> st \<in> {5, 7, 8} \<and> 1 \<le> n \<and> n < 2 ^ 4"

lemma partial_ok_live: "partial_ok st n \<Longrightarrow> st \<noteq> 1 \<and> (st = 0 \<longleftrightarrow> state_ranges st = [])"
  by (auto simp: partial_ok_def state_ranges_def)

text \<open>The rows of the table.\<close>

definition type_of_byte :: "nat \<Rightarrow> nat" where
  "type_of_byte b =
     (if b < 0x80 then 0 else if b < 0x90 then 1 else if b < 0xA0 then 9 else if b < 0xC0 then 7
      else if b < 0xC2 then 8 else if b < 0xE0 then 2 else if b = 0xE0 then 10 else if b < 0xED then 3
      else if b = 0xED then 4 else if b < 0xF0 then 3 else if b = 0xF0 then 11 else if b < 0xF4 then 6
      else if b = 0xF4 then 5 else 8)"

lemma byte_types_map: "byte_types = map type_of_byte [0..<256]"
  by code_simp

lemma utf8d_type: "b < 256 \<Longrightarrow> utf8d ! b = type_of_byte b"
  by (simp add: utf8d_def byte_types_map nth_append)

lemma utf8d_row: "utf8d ! (256 + k) = state_rows ! k"
  by (simp add: utf8d_def nth_append byte_types_map)

definition next_state :: "nat \<Rightarrow> nat \<Rightarrow> nat" where
  "next_state st t = state_rows ! (st * 16 + t)"

lemma next_state_0:
  "next_state 0 0 = 0" "next_state 0 (Suc 0) = 1" "next_state 0 2 = 2" "next_state 0 3 = 3" "next_state 0 4 = 5"
  "next_state 0 5 = 8" "next_state 0 6 = 7" "next_state 0 7 = 1" "next_state 0 8 = 1" "next_state 0 9 = 1"
  "next_state 0 10 = 4" "next_state 0 11 = 6"
  by (simp_all add: next_state_def state_rows_def)

lemma next_state_continue:
  "st \<in> {2, 3, 4, 5, 6, 7, 8} \<Longrightarrow> t < 12 \<Longrightarrow> next_state st t =
     (if st = 2 \<and> t \<in> {1, 7, 9} then 0
      else if st = 3 \<and> t \<in> {1, 7, 9} \<or> st = 4 \<and> t = 7 \<or> st = 5 \<and> t \<in> {1, 9} then 2
      else if st = 6 \<and> t \<in> {7, 9} \<or> st = 7 \<and> t \<in> {1, 7, 9} \<or> st = 8 \<and> t = 1 then 3
      else 1)"
proof -
  have t: "t < 12 \<longleftrightarrow> t \<in> {0, 1, 2, 3, 4, 5, 6, 7, 8, 9, 10, 11}"
    by (auto simp: less_Suc_eq numeral_eq_Suc)
  show "st \<in> {2, 3, 4, 5, 6, 7, 8} \<Longrightarrow> t < 12 \<Longrightarrow> ?thesis"
    unfolding t by (elim insertE emptyE) (simp_all add: next_state_def state_rows_def)
qed

text \<open>The code point after a first byte and after a continuation byte.\<close>

lemma first_codepoint:
  assumes "t \<le> 8" "b < 256"
  shows "unat (drop_bit t 0xFF AND (of_nat b :: u32)) = b mod 2 ^ (8 - t)"
proof -
  have "(0xFF :: u32) = mask 8" by (simp add: mask_eq_exp_minus_1)
  moreover have "drop_bit t (mask 8 :: u32) = mask (8 - t)"
    by (rule bit_word_eqI) (auto simp: bit_simps)
  ultimately have "drop_bit t (0xFF :: u32) = mask (8 - t)" by simp
  then have "drop_bit t 0xFF AND (of_nat b :: u32) = take_bit (8 - t) (of_nat b)"
    by (simp add: take_bit_eq_mask and.commute)
  also have "unat \<dots> = take_bit (8 - t) (unat (of_nat b :: u32))" by (simp add: unsigned_take_bit_eq)
  also have "unat (of_nat b :: u32) = b" using assms(2) by (simp add: unat_of_nat)
  finally show ?thesis by (simp add: take_bit_eq_mod)
qed

lemma next_codepoint:
  assumes "unat cp < 2 ^ 16" "b < 256"
  shows "unat ((of_nat b AND 0x3F) OR push_bit 6 cp :: u32) = 64 * unat cp + b mod 64"
proof -
  have m: "of_nat b AND (0x3F :: u32) = take_bit 6 (of_nat b)"
    by (simp add: take_bit_eq_mask mask_eq_exp_minus_1)
  have "take_bit 6 (of_nat b) AND push_bit 6 cp = (0 :: u32)"
    by (rule bit_word_eqI) (simp add: bit_simps)
  then have s: "take_bit 6 (of_nat b) OR push_bit 6 cp = take_bit 6 (of_nat b) + push_bit 6 cp"
    by (rule disjunctive_add_eq_or [symmetric])
  have l: "unat (take_bit 6 (of_nat b) :: u32) = b mod 64"
  proof -
    have "unat (take_bit 6 (of_nat b) :: u32) = take_bit 6 (unat (of_nat b :: u32))"
      by (simp only: unsigned_take_bit_eq)
    then show ?thesis using assms(2) by (simp add: unat_of_nat take_bit_eq_mod)
  qed
  have h: "unat (push_bit 6 cp) = 64 * unat cp"
    using assms(1) by (simp add: push_bit_eq_mult unat_word_ariths)
  have "b mod 64 < 64" by simp
  then show ?thesis using assms(1) unfolding m s by (simp add: unat_word_ariths l h)
qed

section \<open>One step of the automaton\<close>

lemma decode_eq:
  assumes "b < 256"
  shows "decode st cp b = (next_state st (type_of_byte b),
    if st \<noteq> 0 then (of_nat b AND 0x3F) OR push_bit 6 cp else drop_bit (type_of_byte b) 0xFF AND of_nat b)"
  using utf8d_row [of "st * 16 + type_of_byte b"]
  by (simp add: decode_def utf8d_type [OF assms] next_state_def Let_def add.assoc)

lemma type_of_byte_less: "type_of_byte b < 12"
  by (simp add: type_of_byte_def)

lemma high_bytes:
  fixes b :: nat
  shows "0xC2 \<le> b \<Longrightarrow> b < 0xE0 \<Longrightarrow> b mod 64 = b - 192"
    and "0xE1 \<le> b \<Longrightarrow> b < 0xF0 \<Longrightarrow> b mod 32 = b - 224"
    and "0x80 \<le> b \<Longrightarrow> b \<le> 0xBF \<Longrightarrow> b mod 64 = b - 128"
  by (simp_all add: mod_if)

text \<open>The first byte of a sequence.\<close>

lemma decode_first:
  assumes "decode 0 cp (code_of c) = (st', cp')"
  shows "case utf8_ranges c of
      None \<Rightarrow> st' = 1
    | Some rs \<Rightarrow> state_ranges st' = rs \<and> partial_ok st' (unat cp') \<and>
        (rs = [] \<longrightarrow> code_of c < 0x80 \<and> cp' = of_nat (code_of c))"
proof -
  define b where "b = code_of c"
  have b: "b < 256" unfolding b_def by (rule nat_of_char_less_256)
  have st: "st' = next_state 0 (type_of_byte b)" and cp: "cp' = drop_bit (type_of_byte b) 0xFF AND of_nat b"
    using assms decode_eq [OF b, of 0 cp] by (simp_all add: b_def)
  have u: "type_of_byte b \<le> 8 \<Longrightarrow> unat cp' = b mod 2 ^ (8 - type_of_byte b)"
    unfolding cp by (rule first_codepoint) (use b in simp_all)
  have r: "in_range lo hi c \<longleftrightarrow> lo \<le> b \<and> b \<le> hi" for lo hi by (simp add: in_range_def b_def)
  note defs = utf8_ranges_def r next_state_0 state_ranges_def partial_ok_def
  consider "b < 0x80" | "0x80 \<le> b" "b < 0xC2" | "0xC2 \<le> b" "b < 0xE0" | "0xE1 \<le> b" "b < 0xF0" "b \<noteq> 0xED"
    | "b \<in> {0xE0, 0xF0}" | "b \<in> {0xED, 0xF1, 0xF2, 0xF3, 0xF4}" | "0xF5 \<le> b"
    by fastforce
  then show ?thesis
  proof cases
    case 1
    then have t: "type_of_byte b = 0" by (simp add: type_of_byte_def)
    with u b have "unat cp' = b" by simp
    then have "cp' = of_nat b" using b by (simp add: word_unat_eq_iff unat_of_nat)
    then show ?thesis using 1 st t by (simp add: defs b_def)
  next
    case 2
    then have "type_of_byte b \<in> {1, 9, 7, 8}" by (simp add: type_of_byte_def)
    then show ?thesis using 2 st by (auto simp: defs)
  next
    case 3
    then have t: "type_of_byte b = 2" by (simp add: type_of_byte_def)
    with 3 u high_bytes(1) [of b] have "unat cp' = b - 192" by simp
    then show ?thesis using 3 t st by (auto simp: defs)
  next
    case 4
    then have t: "type_of_byte b = 3" by (auto simp: type_of_byte_def)
    with 4 u high_bytes(2) [of b] have "unat cp' = b - 224" by simp
    then show ?thesis using 4 t st by (auto simp: defs)
  next
    case 5
    then have "type_of_byte b = (if b = 0xE0 then 10 else 11)" by (auto simp: type_of_byte_def)
    then show ?thesis using 5 st cp by (auto simp: defs drop_bit_eq_div)
  next
    case 6
    then have "type_of_byte b = (if b = 0xED then 4 else if b = 0xF4 then 5 else 6)"
      by (auto simp: type_of_byte_def)
    then show ?thesis using 6 st u by (auto simp: defs)
  next
    case 7
    then have "type_of_byte b = 8" by (simp add: type_of_byte_def)
    then show ?thesis using 7 st by (simp add: defs)
  qed
qed

text \<open>A continuation byte.\<close>

lemma decode_next:
  assumes "decode st cp (code_of c) = (st', cp')" "partial_ok st (unat cp)" "state_ranges st = (lo, hi) # rs"
  shows "if in_range lo hi c
    then state_ranges st' = rs \<and> partial_ok st' (unat cp') \<and> 0x80 \<le> code_of c \<and>
      (rs = [] \<longrightarrow> 0x80 \<le> unat cp')
    else st' = 1"
proof -
  define b where "b = code_of c"
  have b: "b < 256" unfolding b_def by (rule nat_of_char_less_256)
  have st0: "st \<noteq> 0" using assms(3) by (cases "st = 0") (simp_all add: state_ranges_def)
  have st: "st' = next_state st (type_of_byte b)" and cp: "cp' = (of_nat b AND 0x3F) OR push_bit 6 cp"
    using assms(1) decode_eq [OF b, of st cp] st0 by (simp_all add: b_def)
  have u: "unat cp' = 64 * unat cp + b mod 64"
    unfolding cp by (rule next_codepoint) (use assms(2) st0 b in \<open>auto simp: partial_ok_def\<close>)
  have r: "in_range lo hi c \<longleftrightarrow> lo \<le> b \<and> b \<le> hi" by (simp add: in_range_def b_def)
  have m: "b mod 64 < 64" by simp
  have live: "st \<in> {2, 3, 4, 5, 6, 7, 8}" using assms(2) st0 by (auto simp: partial_ok_def)
  note n = next_state_continue [OF live type_of_byte_less [of b], folded st]
  have ty: "type_of_byte b = Suc 0 \<longleftrightarrow> 0x80 \<le> b \<and> b < 0x90" "type_of_byte b = 9 \<longleftrightarrow> 0x90 \<le> b \<and> b < 0xA0"
    "type_of_byte b = 7 \<longleftrightarrow> 0xA0 \<le> b \<and> b < 0xC0"
    by (simp_all add: type_of_byte_def)
  show ?thesis
    using live assms(2,3) high_bytes(3) [of b] m
    unfolding n r u b_def [symmetric]
    by (elim insertE emptyE) (auto simp: state_ranges_def partial_ok_def ty)
qed

section \<open>Printing a string\<close>

text \<open>The state between two bytes, with room left in the buffer for what the sequence still owes.\<close>

definition dump_inv :: "dumping \<Rightarrow> (nat \<times> nat) list \<Rightarrow> bool" where
  "dump_inv d rs \<longleftrightarrow>
     state_ranges (d_state d) = rs \<and> partial_ok (d_state d) (unat (d_codepoint d)) \<and>
     length (d_buffer d) + length rs \<le> (if rs = [] then 499 else 503)"

definition shown_so_far :: "dumping \<Rightarrow> string" where
  "shown_so_far d = d_out d @ d_buffer d"

lemma step_ranges_length:
  "step_ranges rs c = Some rs' \<Longrightarrow> (rs = [] \<longrightarrow> length rs' \<le> 3) \<and> (rs \<noteq> [] \<longrightarrow> length rs = Suc (length rs'))"
  by (cases rs) (auto simp: utf8_ranges_def split: if_splits)

lemma decode_step:
  assumes "decode st cp (code_of c) = (st', cp')" "partial_ok st (unat cp)"
  shows "case step_ranges (state_ranges st) c of
      None \<Rightarrow> st' = 1
    | Some rs \<Rightarrow> state_ranges st' = rs \<and> partial_ok st' (unat cp') \<and>
        (rs = [] \<longrightarrow> escape False cp' c = plain_escape c) \<and> (rs \<noteq> [] \<longrightarrow> plain_escape c = [c])"
proof (cases "state_ranges st")
  case Nil
  then have "st = 0" using partial_ok_live [OF assms(2)] by simp
  moreover have "utf8_ranges c = Some rs \<Longrightarrow> rs \<noteq> [] \<Longrightarrow> 0x80 \<le> code_of c" for rs
    by (auto simp: utf8_ranges_def in_range_def split: if_splits)
  ultimately show ?thesis
    using decode_first [of cp c st' cp'] assms(1) Nil
    by (fastforce simp: plain_escape_def split: option.splits)
next
  case (Cons r rs)
  obtain lo hi where "r = (lo, hi)" by force
  moreover have "0x80 \<le> unat cp' \<Longrightarrow> escape False cp' c = [c]"
    by (auto simp: escape_def word_le_nat_alt)
  ultimately show ?thesis
    using decode_next [OF assms, of lo hi rs] Cons by (auto simp: plain_escape_def)
qed

lemma shown_so_far_frame [simp]:
  "shown_so_far (d\<lparr>d_last := n, d_undumped := k\<rparr>) = shown_so_far d"
  "shown_so_far (d\<lparr>d_buffer := d_buffer d @ e\<rparr>) = shown_so_far d @ e"
  by (simp_all add: shown_so_far_def)

lemma flush_full_shown [simp]: "shown_so_far (flush_full d) = shown_so_far d"
  by (simp add: flush_full_def shown_so_far_def)

lemma flush_full_fields [simp]:
  "d_state (flush_full d) = d_state d" "d_codepoint (flush_full d) = d_codepoint d"
  "length (d_buffer (flush_full d)) \<le> 499"
  by (auto simp: flush_full_def STRING_BUFFER_def)

lemma accept_char_ok:
  assumes "length (d_buffer d) \<le> 502"
  shows "\<exists>d'. accept_char False c d = Inr d' \<and> d_state d' = d_state d \<and> d_codepoint d' = d_codepoint d \<and>
    length (d_buffer d') \<le> 499 \<and> shown_so_far d' = shown_so_far d @ escape False (d_codepoint d) c"
proof -
  let ?e = "escape False (d_codepoint d) c"
  have "length ?e \<le> 6" by (rule length_escape)
  then have "put_buffer ?e (if length ?e > 2 then length ?e + 1 else length ?e) d =
      Inr (d\<lparr>d_buffer := d_buffer d @ ?e\<rparr>)"
    using assms by (simp add: put_buffer_def STRING_BUFFER_def)
  then show ?thesis by (simp add: accept_char_def Let_def)
qed

lemma dump_byte_step:
  assumes "dump_inv d rs"
  shows "case step_ranges rs c of
      None \<Rightarrow> dump_byte strict_handler False c d = Inl Type316
    | Some rs' \<Rightarrow> \<exists>d'. dump_byte strict_handler False c d = Inr (False, d') \<and> dump_inv d' rs' \<and>
        shown_so_far d' = shown_so_far d @ plain_escape c"
proof -
  obtain st cp where dec: "decode (d_state d) (d_codepoint d) (code_of c) = (st, cp)" by force
  let ?d = "d\<lparr>d_state := st, d_codepoint := cp\<rparr>"
  from assms have inv: "state_ranges (d_state d) = rs" "partial_ok (d_state d) (unat (d_codepoint d))"
    "length (d_buffer d) + length rs \<le> (if rs = [] then 499 else 503)"
    by (auto simp: dump_inv_def)
  note step = decode_step [OF dec inv(2), unfolded inv(1)]
  show ?thesis
  proof (cases "step_ranges rs c")
    case None
    then show ?thesis using step by (simp add: dump_byte_def dec reject_char_def Let_def)
  next
    case (Some rs')
    with step have s: "state_ranges st = rs'" "partial_ok st (unat cp)" by simp_all
    have len: "length (d_buffer d) + length rs' \<le> 502" "length (d_buffer d) \<le> 502"
      using inv(3) step_ranges_length [OF Some] by (auto split: if_splits)
    show ?thesis
    proof (cases "rs' = []")
      case True
      with s have "st = 0" using partial_ok_live by blast
      moreover obtain d' where "accept_char False c ?d = Inr d'" "d_state d' = st" "d_codepoint d' = cp"
        "length (d_buffer d') \<le> 499" "shown_so_far d' = shown_so_far ?d @ escape False cp c"
        using accept_char_ok [of ?d c] len(2) by auto
      moreover have "shown_so_far ?d = shown_so_far d" by (simp add: shown_so_far_def)
      ultimately show ?thesis
        using Some True step s by (simp add: dump_byte_def dec dump_inv_def)
    next
      case False
      with s have "st \<noteq> 0" "st \<noteq> 1" using partial_ok_live by blast+
      moreover have "put_buffer [c] 1 ?d = Inr (?d\<lparr>d_buffer := d_buffer d @ [c]\<rparr>)"
        using len by (simp add: put_buffer_def STRING_BUFFER_def)
      ultimately show ?thesis
        using Some False step s len
        by (simp add: dump_byte_def dec dump_inv_def shown_so_far_def Let_def)
    qed
  qed
qed

lemma dump_bytes_finish:
  assumes "dump_inv d rs"
  shows "bind_sum (dump_bytes strict_handler False s d) (dump_finish strict_handler False) =
    (if utf8_from rs s then Inr (shown_so_far d @ escaped s) else Inl Type316)"
  using assms
proof (induction s arbitrary: d rs)
  case Nil
  then have "rs = [] \<longleftrightarrow> d_state d = 0" using partial_ok_live by (auto simp: dump_inv_def)
  then show ?case by (simp add: dump_finish_def escaped_def shown_so_far_def)
next
  case (Cons c s)
  show ?case
  proof (cases "step_ranges rs c")
    case None
    then show ?thesis using dump_byte_step [OF Cons.prems, of c] by simp
  next
    case (Some rs')
    with dump_byte_step [OF Cons.prems, of c] obtain d' where
      "dump_byte strict_handler False c d = Inr (False, d')" "dump_inv d' rs'"
      "shown_so_far d' = shown_so_far d @ plain_escape c" by auto
    then show ?thesis using Cons.IH [of d' rs'] Some by (simp add: escaped_def)
  qed
qed

lemma dump_escaped_strict:
  "dump_escaped strict_handler False s = (if utf8_ok s then Inr (escaped s) else Inl Type316)"
proof -
  have "dump_inv dump_start []"
    by (simp add: dump_inv_def dump_start_def state_ranges_def partial_ok_def)
  from dump_bytes_finish [OF this, of s] show ?thesis
    by (simp add: dump_escaped_def utf8_ok_def shown_so_far_def dump_start_def)
qed

end
