(* ===== verification/GrisuDigits.thy ===== *)
theory GrisuDigits
  imports Grisu
begin

text \<open>
  The digit generation of \<open>Grisu\<close>: the word operations compute what they mean to on the numbers that occur,
  the product of two significands is the exact one rounded, no assertion of the loops fails, at most 17
  digits are written, and the decimal number written lies lies_between the bounds it was given.
\<close>

section \<open>The product of two significands\<close>

text \<open>The product from its four parts, rounded.\<close>

lemma product_rounded:
  fixes x0 x1 x2 x3 :: nat
  shows "(x3 * 2 ^ 64 + (x1 + x2) * 2 ^ 32 + x0 + 2 ^ 63) div 2 ^ 64 =
    x3 + x2 div 2 ^ 32 + x1 div 2 ^ 32 + (x0 div 2 ^ 32 + x1 mod 2 ^ 32 + x2 mod 2 ^ 32 + 2 ^ 31) div 2 ^ 32"
proof -
  define B :: nat where "B = 2 ^ 32"
  have pow: "(2 :: nat) ^ 64 = B * B" "(2 :: nat) ^ 63 = 2 ^ 31 * B" "B > 0" by (simp_all add: B_def)
  let ?q = "x0 div B + x1 mod B + x2 mod B + 2 ^ 31"
  have "x3 * (B * B) + (h1 * B + l1 + (h2 * B + l2)) * B + (h0 * B + l0) + 2 ^ 31 * B =
      (x3 + h2 + h1) * (B * B) + ((h0 + l1 + l2 + 2 ^ 31) * B + l0)" for h0 l0 h1 l1 h2 l2
    by (simp only: algebra_simps)
  from this [of "x1 div B" "x1 mod B" "x2 div B" "x2 mod B" "x0 div B" "x0 mod B"]
  have "x3 * (B * B) + (x1 + x2) * B + x0 + 2 ^ 31 * B = (x3 + x2 div B + x1 div B) * (B * B) + (?q * B + x0 mod B)"
    by (simp only: div_mult_mod_eq)
  also have "\<dots> div (B * B) = x3 + x2 div B + x1 div B + (?q * B + x0 mod B) div (B * B)" using pow(3) by simp
  also have "(?q * B + x0 mod B) div (B * B) = ?q div B" using pow(3) by (simp add: div_mult2_eq)
  finally show ?thesis unfolding pow by (simp only: B_def)
qed

lemma mul_f_round: "unat (mul_f u v) = (unat u * unat v + 2 ^ 63) div 2 ^ 64"
proof -
  define a b c d where abcd: "a = unat u mod 2 ^ 32" "b = unat u div 2 ^ 32" "c = unat v mod 2 ^ 32" "d = unat v div 2 ^ 32"
  have lt: "a \<le> 2 ^ 32 - 1" "b \<le> 2 ^ 32 - 1" "c \<le> 2 ^ 32 - 1" "d \<le> 2 ^ 32 - 1"
    using unat_u64_less [of u] unat_u64_less [of v] unfolding abcd by (simp_all add: less_Suc_eq_le [symmetric] less_mult_imp_div_less)
  have uv: "unat u = b * 2 ^ 32 + a" "unat v = d * 2 ^ 32 + c" unfolding abcd by presburger+
  have pr: "a * c \<le> (2 ^ 32 - 1) * (2 ^ 32 - 1)" "a * d \<le> (2 ^ 32 - 1) * (2 ^ 32 - 1)"
    "b * c \<le> (2 ^ 32 - 1) * (2 ^ 32 - 1)" "b * d \<le> (2 ^ 32 - 1) * (2 ^ 32 - 1)"
    by (rule mult_le_mono; fact)+
  have w: "unat (u AND 0xFFFFFFFF) = a" "unat (drop_bit 32 u) = b" "unat (v AND 0xFFFFFFFF) = c" "unat (drop_bit 32 v) = d"
    by (simp_all only: abcd u64_low u64_drop)
  have p: "unat ((u AND 0xFFFFFFFF) * (v AND 0xFFFFFFFF)) = a * c" "unat ((u AND 0xFFFFFFFF) * drop_bit 32 v) = a * d"
    "unat (drop_bit 32 u * (v AND 0xFFFFFFFF)) = b * c" "unat (drop_bit 32 u * drop_bit 32 v) = b * d"
    using pr by (simp_all add: u64_mult w)
  define q where "q = a * c div 2 ^ 32 + a * d mod 2 ^ 32 + b * c mod 2 ^ 32 + 2 ^ 31"
  have "a * d mod 2 ^ 32 \<le> 2 ^ 32 - 1" "b * c mod 2 ^ 32 \<le> 2 ^ 32 - 1" "a * c div 2 ^ 32 \<le> 2 ^ 32 - 1"
    "a * d div 2 ^ 32 \<le> 2 ^ 32 - 1" "b * c div 2 ^ 32 \<le> 2 ^ 32 - 1"
    using pr by (simp_all add: less_Suc_eq_le [symmetric] less_mult_imp_div_less)
  then have q: "unat (drop_bit 32 ((u AND 0xFFFFFFFF) * (v AND 0xFFFFFFFF)) + ((u AND 0xFFFFFFFF) * drop_bit 32 v AND 0xFFFFFFFF)
      + (drop_bit 32 u * (v AND 0xFFFFFFFF) AND 0xFFFFFFFF) + push_bit (64 - 32 - 1) 1) = q"
    by (simp add: u64_add u64_drop u64_low p q_def push_bit_eq_mult)
  have "unat u * unat v + 2 ^ 63 = b * d * 2 ^ 64 + (a * d + b * c) * 2 ^ 32 + a * c + 2 ^ 63"
    unfolding uv by (simp add: algebra_simps)
  then have r: "(unat u * unat v + 2 ^ 63) div 2 ^ 64 = b * d + b * c div 2 ^ 32 + a * d div 2 ^ 32 + q div 2 ^ 32"
    by (simp only: product_rounded q_def)
  have "unat u * unat v \<le> (2 ^ 64 - 1) * (2 ^ 64 - 1)"
    using unat_u64_less [of u] unat_u64_less [of v] by (intro mult_le_mono) simp_all
  then have "(unat u * unat v + 2 ^ 63) div 2 ^ 64 < 2 ^ 64" by (intro less_mult_imp_div_less) simp
  then show ?thesis unfolding mul_f_def Let_def r by (simp only: u64_add u64_drop p q)
qed

section \<open>Digits as numbers\<close>

definition dval :: "nat list \<Rightarrow> nat" where
  "dval ds = foldl (\<lambda>a d. 10 * a + d) 0 ds"

lemma dval_simps [simp]: "dval [] = 0" "dval (ds @ [d]) = 10 * dval ds + d"
  by (simp_all add: dval_def)

lemma digit_char_zero: "d < 10 \<Longrightarrow> digit_char d = CHR ''0'' \<longleftrightarrow> d = 0"
proof -
  have "CHR ''0'' = digit_char 0" by code_simp
  then show "d < 10 \<Longrightarrow> digit_char d = CHR ''0'' \<longleftrightarrow> d = 0" by simp
qed

lemma dec_last_digit:
  assumes "0 < d" "d < 10"
  shows "dec_last (map digit_char (ds @ [d])) = map digit_char (ds @ [d - 1])"
proof -
  have "of_char (digit_char d) = 48 + d" using assms(2) by (simp add: digit_char_def)
  then show ?thesis using assms by (simp add: dec_last_def digit_char_def)
qed

section \<open>Rounding\<close>

lemma round_loop_total:
  assumes "unat rest \<le> unat delta" "dist \<le> delta" "0 < unat ten" "d < 10"
    "unat delta < unat rest + d * unat ten"
  shows "\<exists>d'. 0 < d' \<and> d' \<le> d \<and> unat rest + (d - d') * unat ten \<le> unat delta \<and>
    round_loop dist delta ten rest (map digit_char (ds @ [d])) = Some (map digit_char (ds @ [d']))"
  using assms
proof (induction d arbitrary: rest)
  case (Suc d)
  let ?go = "rest < dist \<and> delta - rest \<ge> ten \<and> (rest + ten < dist \<or> dist - rest > rest + ten - dist)"
  show ?case
  proof (cases ?go)
    case True
    have "unat (delta - rest) = unat delta - unat rest" using Suc.prems(1) by (simp add: u64_sub word_le_nat_alt)
    with True have "unat ten \<le> unat delta - unat rest" by (simp only: word_le_nat_alt)
    then have le: "unat rest + unat ten \<le> unat delta" using Suc.prems(1) by linarith
    then have sum: "unat (rest + ten) = unat rest + unat ten"
      using unat_u64_less [of delta] by (intro u64_add) simp
    have "unat delta < unat (rest + ten) + d * unat ten" using Suc.prems(5) by (simp add: sum)
    then obtain d' where d': "0 < d'" "d' \<le> d" "unat (rest + ten) + (d - d') * unat ten \<le> unat delta"
      "round_loop dist delta ten (rest + ten) (map digit_char (ds @ [d])) = Some (map digit_char (ds @ [d']))"
      using Suc.IH [of "rest + ten"] Suc.prems le by (auto simp: sum)
    have "round_loop dist delta ten rest (map digit_char (ds @ [Suc d])) =
        round_loop dist delta ten (rest + ten) (map digit_char (ds @ [d]))"
      using Suc.prems(4) dec_last_digit [of "Suc d" ds] digit_char_zero [of "Suc d"]
      by (subst round_loop.simps) (simp add: True)
    moreover have "unat rest + (Suc d - d') * unat ten \<le> unat delta"
      using d'(2,3) by (simp add: sum Suc_diff_le)
    ultimately show ?thesis using d' by (intro exI [of _ d']) simp
  next
    case False
    then have "round_loop dist delta ten rest (map digit_char (ds @ [Suc d])) = Some (map digit_char (ds @ [Suc d]))"
      by (subst round_loop.simps) (simp only: False if_False)
    then show ?thesis using Suc.prems(1) by (intro exI [of _ "Suc d"]) simp
  qed
qed simp

lemma grisu2_round_total:
  assumes "unat rest \<le> unat delta" "unat dist \<le> unat delta" "0 < unat ten" "d < 10"
    "unat delta < unat rest + d * unat ten"
  shows "\<exists>d'. 0 < d' \<and> d' \<le> d \<and> unat rest + (d - d') * unat ten \<le> unat delta \<and>
    grisu2_round (map digit_char (ds @ [d])) dist delta rest ten = Some (map digit_char (ds @ [d']))"
proof -
  have "dist \<le> delta" "rest \<le> delta" "0 < ten"
    using assms(1-3) by (simp_all add: word_le_nat_alt word_less_nat_alt)
  with round_loop_total [OF assms(1) this(1) assms(3-5), of ds] show ?thesis by (simp add: grisu2_round_def)
qed

section \<open>Digits of the integral part\<close>

text \<open>
  The result of the digit generation for \<open>M = M_plus.f\<close> and \<open>delta\<close>: the number written, \<open>D * 10^x\<close>, lies
  lies_between \<open>M_minus\<close> and \<open>M_plus\<close>.
\<close>

definition lies_between :: "nat \<Rightarrow> nat \<Rightarrow> nat \<Rightarrow> nat \<Rightarrow> int \<Rightarrow> bool" where
  "lies_between sh M delta D x \<longleftrightarrow>
     (if x \<ge> 0 then M - delta \<le> D * 10 ^ nat x * 2 ^ sh \<and> D * 10 ^ nat x * 2 ^ sh \<le> M
      else (M - delta) * 10 ^ nat (- x) \<le> D * 2 ^ sh \<and> D * 2 ^ sh \<le> M * 10 ^ nat (- x))"

definition good_digits :: "nat list \<Rightarrow> bool" where
  "good_digits ds \<longleftrightarrow> ds \<noteq> [] \<and> list_all (\<lambda>d. d < 10) ds \<and> hd ds \<noteq> 0 \<and> length ds \<le> 17"

lemma digit_count_bound:
  assumes "0 < L" "delta * 10 ^ (L - 1) < M" "M \<le> delta * (10 :: nat) ^ 16"
  shows "L \<le> 16"
proof (rule ccontr)
  assume "\<not> L \<le> 16"
  then have "(10 :: nat) ^ 16 \<le> 10 ^ (L - 1)" by (intro power_increasing) simp_all
  then have "delta * 10 ^ 16 \<le> delta * 10 ^ (L - 1)" by simp
  with assms(2,3) show False by linarith
qed

lemma good_digits_snoc:
  assumes "list_all (\<lambda>d. d < 10) ds" "ds = [] \<or> hd ds \<noteq> 0" "length ds \<le> 16" "0 < d" "d < 10"
  shows "good_digits (ds @ [d])"
  using assms by (auto simp: good_digits_def hd_append)

lemma u32_ucast: "unat (ucast (x :: u32) :: u64) = unat x"
proof -
  have "unat x < 2 ^ 64" using unsigned_less [of x, where ?'a = nat] by simp
  then show ?thesis by (simp add: unsigned_ucast_eq take_bit_nat_eq_self)
qed

lemma unat_u32_less: "unat (x :: u32) < 2 ^ 32"
  using unsigned_less [of x, where ?'a = nat] by simp

text \<open>As long as digits are missing there are at most 16.\<close>

lemma digits_missing:
  fixes delta M X :: nat
  assumes "0 < L" "delta * 10 ^ (L - 1) < 10 ^ (L - 1) * X" "10 ^ (L - 1) * X \<le> M" "M \<le> delta * 10 ^ 16"
  shows "L \<le> 16"
  using digit_count_bound [OF assms(1) _ assms(4)] assms(2,3) by linarith

text \<open>One round of the loop over the integral part, in numbers.\<close>

lemma integral_rest:
  fixes p1 pow10 :: u32 and p2 :: u64
  assumes "unat p1 = d * 10 ^ n + r" "r < 10 ^ n" "d < 10" "unat pow10 = 10 ^ n"
    and "r * 2 ^ sh + unat p2 \<le> M" "10 ^ n * 2 ^ sh \<le> M" "M < 2 ^ 64"
  shows "unat (push_bit sh (ucast (p1 mod pow10)) + p2) = r * 2 ^ sh + unat p2"
    "unat (push_bit sh (ucast pow10) :: u64) = 10 ^ n * 2 ^ sh"
    "unat (p1 mod pow10) = r" "unat (p1 div pow10) = d"
proof -
  show r: "unat (p1 mod pow10) = r" and d: "unat (p1 div pow10) = d"
    using assms(1-4) by (simp_all add: unat_div unat_mod)
  show "unat (push_bit sh (ucast (p1 mod pow10)) + p2) = r * 2 ^ sh + unat p2"
    using assms(5,7) by (subst u64_add) (simp_all add: u64_push u32_ucast r)
  show "unat (push_bit sh (ucast pow10) :: u64) = 10 ^ n * 2 ^ sh"
    using assms(6,7) by (subst u64_push) (simp_all add: u32_ucast assms(4))
qed

lemma integral_round:
  assumes "unat p1 = d * 10 ^ n + r" "r < 10 ^ n" "d < 10" "unat pow10 = 10 ^ n"
    and "r * 2 ^ sh + unat p2 \<le> M" "10 ^ n * 2 ^ sh \<le> M" "M < 2 ^ 64"
  shows "integral_digits sh delta dist p2 (Suc n) p1 pow10 (map digit_char ds) =
    (if r * 2 ^ sh + unat p2 \<le> unat delta then
       grisu2_round (map digit_char (ds @ [d])) dist delta (push_bit sh (ucast (p1 mod pow10)) + p2)
         (push_bit sh (ucast pow10)) \<bind> (\<lambda>b. Some (Stopped b (int n)))
     else integral_digits sh delta dist p2 n (p1 mod pow10) (pow10 div 10) (map digit_char (ds @ [d])))"
proof -
  note w = integral_rest [OF assms]
  have d9: "p1 div pow10 \<le> 9" using assms(3) by (simp add: word_le_nat_alt w)
  have cond: "push_bit sh (ucast (p1 mod pow10)) + p2 \<le> delta \<longleftrightarrow> r * 2 ^ sh + unat p2 \<le> unat delta"
    by (simp only: word_le_nat_alt w)
  have ch: "map digit_char ds @ [char_of (0x30 + unat (p1 div pow10))] = map digit_char (ds @ [d])"
    by (simp add: w digit_char_def)
  show ?thesis unfolding integral_digits.simps Let_def ch cond by (simp only: d9 if_True)
qed

lemma integral_stop:
  assumes "unat p1 = d * 10 ^ n + r" "r < 10 ^ n" "d < 10" "unat pow10 = 10 ^ n"
    and "r * 2 ^ sh + unat p2 \<le> M" "10 ^ n * 2 ^ sh \<le> M" "M < 2 ^ 64"
    and "r * 2 ^ sh + unat p2 \<le> unat delta" "unat dist \<le> unat delta"
    and "unat delta < (r * 2 ^ sh + unat p2) + d * (10 ^ n * 2 ^ sh)"
    and M: "M = dval ds * 10 ^ Suc n * 2 ^ sh + d * (10 ^ n * 2 ^ sh) + (r * 2 ^ sh + unat p2)"
  obtains d' where "0 < d'" "d' < 10" "lies_between sh M (unat delta) (dval (ds @ [d'])) (int n)"
    "integral_digits sh delta dist p2 (Suc n) p1 pow10 (map digit_char ds) =
      Some (Stopped (map digit_char (ds @ [d'])) (int n))"
proof -
  let ?rest = "push_bit sh (ucast (p1 mod pow10)) + p2" and ?ten = "push_bit sh (ucast pow10) :: u64"
  note w = integral_rest [OF assms(1-7)]
  obtain d' where d': "0 < d'" "d' \<le> d" "(r * 2 ^ sh + unat p2) + (d - d') * (10 ^ n * 2 ^ sh) \<le> unat delta"
    "grisu2_round (map digit_char (ds @ [d])) dist delta ?rest ?ten = Some (map digit_char (ds @ [d']))"
    using grisu2_round_total [of ?rest delta dist ?ten d ds] assms(3,8-10) unfolding w by auto
  obtain c where "d = d' + c" using d'(2) le_Suc_ex by blast
  then have "M = dval (ds @ [d']) * 10 ^ n * 2 ^ sh + ((r * 2 ^ sh + unat p2) + (d - d') * (10 ^ n * 2 ^ sh))"
    unfolding M by (simp add: algebra_simps)
  then have "lies_between sh M (unat delta) (dval (ds @ [d'])) (int n)"
    using d'(3) unfolding lies_between_def by auto
  moreover have "integral_digits sh delta dist p2 (Suc n) p1 pow10 (map digit_char ds) =
      Some (Stopped (map digit_char (ds @ [d'])) (int n))"
    unfolding integral_round [OF assms(1-7)] by (simp only: assms(8) if_True d'(4) bind.bind_lunit)
  ultimately show thesis using d'(1,2) assms(3) by (intro that [of d']) simp_all
qed

definition integral_result :: "nat \<Rightarrow> nat \<Rightarrow> u64 \<Rightarrow> u64 \<Rightarrow> nat \<Rightarrow> digits_of option \<Rightarrow> bool" where
  "integral_result sh M delta p2 k r \<longleftrightarrow>
     (\<exists>b x. r = Some (Stopped (map digit_char b) x) \<and> good_digits b \<and> 0 \<le> x \<and> x < 10 \<and>
        lies_between sh M (unat delta) (dval b) x) \<or>
     (\<exists>b. r = Some (All_written (map digit_char b)) \<and> list_all (\<lambda>d. d < 10) b \<and> b \<noteq> [] \<and> hd b \<noteq> 0 \<and> length b = k \<and>
        M = dval b * 2 ^ sh + unat p2 \<and> unat delta < unat p2)"

lemma integral_len:
  fixes p1 :: u32 and p2 delta :: u64
  assumes "unat p1 < 10 ^ Suc n" "unat delta < unat p1 * 2 ^ sh + unat p2" "unat p2 < 2 ^ sh"
    and "10 ^ (length ds + Suc n - 1) * 2 ^ sh \<le> M" "M \<le> unat delta * 10 ^ 16"
  shows "length ds \<le> 16"
proof (cases "ds = []")
  case False
  have "(unat p1 + 1) * 2 ^ sh \<le> 10 ^ Suc n * 2 ^ sh" using assms(1) by (intro mult_le_mono1) simp
  then have "unat delta < 10 ^ Suc n * 2 ^ sh" using assms(2,3) by (simp add: algebra_simps)
  moreover have "length ds + Suc n - 1 = (length ds - 1) + Suc n" using False by (cases ds) simp_all
  then have "10 ^ (length ds - 1) * (10 ^ Suc n * 2 ^ sh) \<le> M" using assms(4) by (simp only: power_add mult.assoc)
  ultimately show ?thesis
    using digits_missing [of "length ds" "unat delta" "10 ^ Suc n * 2 ^ sh" M] assms(5) False by (simp add: mult.commute)
qed simp

lemma integral_digits_total:
  assumes "unat p1 < 10 ^ n" "0 < n \<longrightarrow> unat pow10 = 10 ^ (n - 1)" "n \<le> 10"
    and M: "M = (dval ds * 10 ^ n + unat p1) * 2 ^ sh + unat p2" "M < 2 ^ 64" "unat p2 < 2 ^ sh"
    and "unat delta < unat p1 * 2 ^ sh + unat p2" "unat dist \<le> unat delta" "M \<le> unat delta * 10 ^ 16"
    and "10 ^ (length ds + n - 1) * 2 ^ sh \<le> M"
    and ds: "list_all (\<lambda>d. d < 10) ds" "ds = [] \<or> hd ds \<noteq> 0" "ds = [] \<longrightarrow> 0 < n \<and> 10 ^ (n - 1) \<le> unat p1"
  shows "integral_result sh M delta p2 (length ds + n) (integral_digits sh delta dist p2 n p1 pow10 (map digit_char ds))"
  using assms(1-3) M(1) assms(7,10) ds
proof (induction n arbitrary: p1 pow10 ds)
  case 0
  then show ?case by (auto simp: integral_result_def)
next
  case (Suc n)
  define d r where dr: "d = unat p1 div 10 ^ n" "r = unat p1 mod 10 ^ n"
  have p10: "unat pow10 = 10 ^ n" using Suc.prems(2) by simp
  have p1: "unat p1 = d * 10 ^ n + r" "r < 10 ^ n" "d < 10"
    unfolding dr using Suc.prems(1) by (simp_all add: less_mult_imp_div_less mult.commute)
  have Meq: "M = dval ds * 10 ^ Suc n * 2 ^ sh + d * (10 ^ n * 2 ^ sh) + (r * 2 ^ sh + unat p2)"
    using Suc.prems(4) by (simp add: p1(1) algebra_simps)
  have le: "r * 2 ^ sh + unat p2 \<le> M" unfolding Meq by simp
  have "(10 :: nat) ^ n * 2 ^ sh \<le> 10 ^ (length ds + Suc n - 1) * 2 ^ sh" by (intro mult_le_mono1 power_increasing) simp_all
  then have ten_le: "10 ^ n * 2 ^ sh \<le> M" using Suc.prems(6) by linarith
  have R: "unat delta < (r * 2 ^ sh + unat p2) + d * (10 ^ n * 2 ^ sh)"
    using Suc.prems(5) by (simp add: p1(1) algebra_simps)
  have len: "length ds \<le> 16" using Suc.prems(1,5) M(3) Suc.prems(6) assms(9) by (rule integral_len)
  show ?case
  proof (cases "r * 2 ^ sh + unat p2 \<le> unat delta")
    case True
    from integral_stop [OF p1 p10 le ten_le M(2) True assms(8) R Meq] obtain d' where
      d': "0 < d'" "d' < 10" "lies_between sh M (unat delta) (dval (ds @ [d'])) (int n)"
      "integral_digits sh delta dist p2 (Suc n) p1 pow10 (map digit_char ds) =
        Some (Stopped (map digit_char (ds @ [d'])) (int n))" by blast
    moreover have "good_digits (ds @ [d'])" using Suc.prems(7,8) len d'(1,2) by (intro good_digits_snoc) simp_all
    ultimately show ?thesis using Suc.prems(3) unfolding integral_result_def
      by (intro disjI1 exI [of _ "ds @ [d']"] exI [of _ "int n"]) simp
  next
    case False
    have "0 < n \<longrightarrow> unat (pow10 div 10) = 10 ^ (n - 1)" by (cases n) (simp_all add: unat_div p10)
    moreover have "unat (p1 mod pow10) = r" using p1 p10 by (simp add: unat_mod)
    moreover have "M = (dval (ds @ [d]) * 10 ^ n + r) * 2 ^ sh + unat p2"
      unfolding Meq by (simp add: algebra_simps)
    moreover have "ds = [] \<longrightarrow> 0 < d" using Suc.prems(9) unfolding dr by (auto simp: div_greater_zero_iff)
    then have "hd (ds @ [d]) \<noteq> 0" using Suc.prems(8) by (cases ds) simp_all
    ultimately show ?thesis
      using Suc.IH [of "p1 mod pow10" "pow10 div 10" "ds @ [d]"] Suc.prems(3,6,7) p1(2,3) False
      unfolding integral_round [OF p1 p10 le ten_le M(2)] by simp
  qed
qed

section \<open>Digits of the fraction\<close>

text \<open>One round of the loop over the fraction, in numbers.\<close>

lemma fraction_words:
  fixes p2 delta dist :: u64
  assumes "sh \<le> 60" "unat p2 < 2 ^ sh" "unat delta < unat p2" "unat dist \<le> unat delta"
    and "d = unat p2 * 10 div 2 ^ sh" "r = unat p2 * 10 mod 2 ^ sh"
  shows "unat (drop_bit sh (p2 * 10)) = d" "unat (p2 * 10 AND (push_bit sh 1 - 1)) = r"
    "unat (delta * 10) = unat delta * 10" "unat (dist * 10) = unat dist * 10" "unat (push_bit sh 1 :: u64) = 2 ^ sh"
    "unat p2 * 10 = d * 2 ^ sh + r" "r < 2 ^ sh" "d < 10" "p2 \<le> 0xFFFFFFFFFFFFFFFF div 10"
proof -
  have sh: "(2 :: nat) ^ sh \<le> 2 ^ 60" using assms(1) by (intro power_increasing) simp_all
  have p2: "unat p2 < 2 ^ 60" using assms(2) sh by linarith
  then have ten: "unat (p2 * 10) = unat p2 * 10" by (simp add: u64_mult)
  show "unat (delta * 10) = unat delta * 10" "unat (dist * 10) = unat dist * 10"
    using p2 assms(3,4) by (simp_all add: u64_mult)
  show "unat (drop_bit sh (p2 * 10)) = d" "unat (p2 * 10 AND (push_bit sh 1 - 1)) = r"
    by (simp_all only: u64_drop u64_and_mask ten assms(5,6))
  show "unat (push_bit sh 1 :: u64) = 2 ^ sh" using sh by (subst u64_push) simp_all
  show "unat p2 * 10 = d * 2 ^ sh + r" unfolding assms(5,6) by (simp only: div_mult_mod_eq)
  show "r < 2 ^ sh" unfolding assms(6) by simp
  have "unat p2 * 10 < 10 * 2 ^ sh" using assms(2) by simp
  then show "d < 10" unfolding assms(5) by (rule less_mult_imp_div_less)
  show "p2 \<le> 0xFFFFFFFFFFFFFFFF div 10" using p2 by (simp add: word_le_nat_alt unat_div)
qed

lemma fraction_round:
  fixes p2 delta dist :: u64
  assumes "sh \<le> 60" "unat p2 < 2 ^ sh" "unat delta < unat p2" "unat dist \<le> unat delta"
    and "d = unat p2 * 10 div 2 ^ sh" "r = unat p2 * 10 mod 2 ^ sh"
  shows "fraction_digits sh delta dist p2 (int j) (map digit_char ds) =
    (if r \<le> unat delta * 10 then
       grisu2_round (map digit_char (ds @ [d])) (dist * 10) (delta * 10) (p2 * 10 AND (push_bit sh 1 - 1)) (push_bit sh 1)
         \<bind> (\<lambda>b. Some (b, int (Suc j)))
     else fraction_digits sh (delta * 10) (dist * 10) (p2 * 10 AND (push_bit sh 1 - 1)) (int (Suc j)) (map digit_char (ds @ [d])))"
proof -
  note w = fraction_words [OF assms]
  have ok: "drop_bit sh (p2 * 10) \<le> 9" using w(8) by (simp add: word_le_nat_alt w(1))
  have cond: "p2 * 10 AND (push_bit sh 1 - 1) \<le> delta * 10 \<longleftrightarrow> r \<le> unat delta * 10"
    by (simp only: word_le_nat_alt w)
  have ch: "map digit_char ds @ [char_of (0x30 + unat (drop_bit sh (p2 * 10)))] = map digit_char (ds @ [d])"
    by (simp add: w digit_char_def)
  have suc: "int j + 1 = int (Suc j)" by simp
  show ?thesis
    unfolding fraction_digits.simps [of sh delta dist p2 "int j" "map digit_char ds"] Let_def ch cond suc
    by (simp only: ok w(9) if_True)
qed

lemma fraction_stop:
  assumes "sh \<le> 60" "unat p2 < 2 ^ sh" "unat delta < unat p2" "unat dist \<le> unat delta"
    and "d = unat p2 * 10 div 2 ^ sh" "r = unat p2 * 10 mod 2 ^ sh"
    and "r \<le> unat delta * 10" "unat delta = D * 10 ^ j" and M: "M * 10 ^ Suc j = dval (ds @ [d]) * 2 ^ sh + r"
  obtains d' where "0 < d'" "d' < 10" "lies_between sh M D (dval (ds @ [d'])) (- int (Suc j))"
    "fraction_digits sh delta dist p2 (int j) (map digit_char ds) = Some (map digit_char (ds @ [d']), int (Suc j))"
proof -
  note w = fraction_words [OF assms(1-6)]
  let ?rest = "p2 * 10 AND (push_bit sh 1 - 1)"
  obtain d' where d': "0 < d'" "d' \<le> d" "r + (d - d') * 2 ^ sh \<le> unat delta * 10"
    "grisu2_round (map digit_char (ds @ [d])) (dist * 10) (delta * 10) ?rest (push_bit sh 1) = Some (map digit_char (ds @ [d']))"
    using grisu2_round_total [of ?rest "delta * 10" "dist * 10" "push_bit sh 1" d ds] assms(3,4,7) w(6,7,8)
    unfolding w(1-5) by auto
  obtain c where "d = d' + c" using d'(2) le_Suc_ex by blast
  then have "M * 10 ^ Suc j = dval (ds @ [d']) * 2 ^ sh + (r + (d - d') * 2 ^ sh)"
    unfolding M by (simp add: algebra_simps)
  moreover have "r + (d - d') * 2 ^ sh \<le> D * 10 ^ Suc j" using d'(3) assms(8) by simp
  ultimately have "(M - D) * 10 ^ Suc j \<le> dval (ds @ [d']) * 2 ^ sh \<and> dval (ds @ [d']) * 2 ^ sh \<le> M * 10 ^ Suc j"
    unfolding diff_mult_distrib by linarith
  then have "lies_between sh M D (dval (ds @ [d'])) (- int (Suc j))"
    unfolding lies_between_def minus_minus nat_int by simp
  moreover have "fraction_digits sh delta dist p2 (int j) (map digit_char ds) = Some (map digit_char (ds @ [d']), int (Suc j))"
    unfolding fraction_round [OF assms(1-6)] by (simp only: assms(7) if_True d'(4) bind.bind_lunit)
  ultimately show thesis using d'(1,2) w(8) by (intro that [of d']) simp_all
qed

lemma fraction_digits_total:
  assumes "sh \<le> 60" "M \<le> D * 10 ^ 16" "T \<le> D" "0 < k" "10 ^ (k - 1) * 2 ^ sh \<le> M"
    and "M * 10 ^ j = dval ds * 2 ^ sh + unat p2" "unat p2 < 2 ^ sh"
    and "unat delta = D * 10 ^ j" "unat dist = T * 10 ^ j" "unat delta < unat p2"
    and "length ds = k + j" "list_all (\<lambda>d. d < 10) ds" "hd ds \<noteq> 0"
  shows "\<exists>b x. fraction_digits sh delta dist p2 (int j) (map digit_char ds) = Some (map digit_char b, int x) \<and>
    good_digits b \<and> 0 < x \<and> x \<le> 17 \<and> lies_between sh M D (dval b) (- int x)"
  using assms(6-)
proof (induction "17 - length ds" arbitrary: j ds p2 delta dist rule: less_induct)
  case less
  have "D * 10 ^ j < 2 ^ sh" using less.prems(2,3,5) by linarith
  then have "10 ^ (k - 1) * (D * 10 ^ j) < 10 ^ (k - 1) * 2 ^ sh" by simp
  then have "D * 10 ^ (length ds - 1) < M"
    using assms(4,5) less.prems(6) by (simp add: power_add [symmetric] algebra_simps)
  then have len: "length ds \<le> 16" using assms(2,4) less.prems(6) digit_count_bound [of "length ds" D M] by simp
  have ne: "ds \<noteq> []" using less.prems(6) assms(4) by auto
  define d r where dr: "d = unat p2 * 10 div 2 ^ sh" "r = unat p2 * 10 mod 2 ^ sh"
  have dist: "unat dist \<le> unat delta" using assms(3) less.prems(3,4) by simp
  note args = assms(1) less.prems(2,5) dist dr
  note w = fraction_words [OF args]
  have M: "M * 10 ^ Suc j = dval (ds @ [d]) * 2 ^ sh + r"
    using less.prems(1) w(6) by (simp add: algebra_simps)
  show ?case
  proof (cases "r \<le> unat delta * 10")
    case True
    from fraction_stop [OF args True less.prems(3) M] obtain d' where
      d': "0 < d'" "d' < 10" "lies_between sh M D (dval (ds @ [d'])) (- int (Suc j))"
      "fraction_digits sh delta dist p2 (int j) (map digit_char ds) = Some (map digit_char (ds @ [d']), int (Suc j))" by blast
    moreover have "good_digits (ds @ [d'])" using less.prems(7,8) len d'(1,2) by (intro good_digits_snoc) simp_all
    ultimately show ?thesis
      using len less.prems(6) by (intro exI [of _ "ds @ [d']"] exI [of _ "Suc j"]) simp
  next
    case False
    then show ?thesis
      using less.hyps [of "ds @ [d]" "Suc j" "p2 * 10 AND (push_bit sh 1 - 1)" "delta * 10" "dist * 10"]
        len less.prems(3-8) w(7,8) M ne unfolding fraction_round [OF args] w(1-5) by simp
  qed
qed

section \<open>The digits\<close>

lemma find_largest_pow10:
  assumes "0 < unat p"
  obtains k pow10 where "find_largest_pow10 p = (k, pow10)" "0 < k" "k \<le> 10" "unat pow10 = 10 ^ (k - 1)"
    "10 ^ (k - 1) \<le> unat p" "unat p < 10 ^ k"
proof -
  have "unat p < 10 ^ 10" using unat_u32_less [of p] by simp
  then show thesis
    using assms that [of "fst (find_largest_pow10 p)" "snd (find_largest_pow10 p)"]
    by (simp add: find_largest_pow10_def word_le_nat_alt split: if_splits)
qed

text \<open>The integral part and the fraction of the upper bound.\<close>

lemma split_parts:
  fixes f :: u64
  assumes "32 \<le> sh" "sh \<le> 60" "2 ^ 60 \<le> unat f"
  defines "p1 \<equiv> ucast (drop_bit sh f) :: u32" and "p2 \<equiv> f AND (push_bit sh 1 - 1)"
  shows "0 < unat p1" "unat f = unat p1 * 2 ^ sh + unat p2" "unat p2 < 2 ^ sh"
proof -
  have pow: "(2 :: nat) ^ sh \<le> 2 ^ 60" "(2 :: nat) ^ 64 \<le> 2 ^ 32 * 2 ^ sh"
    using power_increasing [OF assms(1), of "2 :: nat"] power_increasing [OF assms(2), of "2 :: nat"] by simp_all
  have "unat f div 2 ^ sh < 2 ^ 32" using unat_u64_less [of f] pow(2) by (intro less_mult_imp_div_less) linarith
  then have p1: "unat p1 = unat f div 2 ^ sh"
    unfolding p1_def by (simp add: unsigned_ucast_eq u64_drop take_bit_nat_eq_self)
  have p2: "unat p2 = unat f mod 2 ^ sh" unfolding p2_def by (rule u64_and_mask)
  show "0 < unat p1" using pow(1) assms(3) by (simp add: p1 div_greater_zero_iff)
  show "unat f = unat p1 * 2 ^ sh + unat p2" unfolding p1 p2 by (rule div_mult_mod_eq [symmetric])
  show "unat p2 < 2 ^ sh" unfolding p2 by simp
qed

lemma digit_gen_unfold:
  assumes "- 60 \<le> fp_e Mp" "fp_e Mp \<le> - 32" "fp_e Mm = fp_e Mp" "fp_e w = fp_e Mp"
    and "unat (fp_f Mm) \<le> unat (fp_f Mp)" "unat (fp_f w) \<le> unat (fp_f Mp)" "sh = nat (- fp_e Mp)"
    and "find_largest_pow10 (ucast (drop_bit sh (fp_f Mp))) = (k, pow10)" "0 < unat (ucast (drop_bit sh (fp_f Mp)) :: u32)"
  defines "delta \<equiv> fp_f Mp - fp_f Mm" and "dist \<equiv> fp_f Mp - fp_f w" and "p2 \<equiv> fp_f Mp AND (push_bit sh 1 - 1)"
  shows "grisu2_digit_gen de Mm w Mp =
    integral_digits sh delta dist p2 k (ucast (drop_bit sh (fp_f Mp))) pow10 [] \<bind>
      (\<lambda>ds. case ds of Stopped b n \<Rightarrow> Some (b, de + n)
         | All_written b \<Rightarrow> if p2 > delta then fraction_digits sh delta dist p2 0 b \<bind> (\<lambda>(b', m). Some (b', de - m)) else None)"
proof -
  have subs: "diyfp_sub Mp Mm = Some \<lparr>fp_f = delta, fp_e = fp_e Mp\<rparr>" "diyfp_sub Mp w = Some \<lparr>fp_f = dist, fp_e = fp_e Mp\<rparr>"
    using assms(3-6) by (simp_all add: diyfp_sub_def word_le_nat_alt delta_def dist_def)
  show ?thesis
    unfolding grisu2_digit_gen_def subs Let_def assms(7) [symmetric] bind.bind_lunit diyfp.simps assms(8) prod.case p2_def
    using assms(1,2,9) by (simp only: word_less_nat_alt [of 0] unat_0 if_True conj_ac simp_thms)
qed

lemma digit_gen_total:
  assumes "- 60 \<le> fp_e Mp" "fp_e Mp \<le> - 32" "fp_e Mm = fp_e Mp" "fp_e w = fp_e Mp"
    and "0 < unat (fp_f Mm)" "unat (fp_f Mm) \<le> unat (fp_f w)" "unat (fp_f w) \<le> unat (fp_f Mp)"
    and "2 ^ 60 \<le> unat (fp_f Mp)" "unat (fp_f Mp) \<le> (unat (fp_f Mp) - unat (fp_f Mm)) * 10 ^ 16"
  shows "\<exists>b x. grisu2_digit_gen de Mm w Mp = Some (map digit_char b, de + x) \<and> good_digits b \<and> - 17 \<le> x \<and> x < 10 \<and>
    lies_between (nat (- fp_e Mp)) (unat (fp_f Mp)) (unat (fp_f Mp) - unat (fp_f Mm)) (dval b) x"
proof -
  define sh where "sh = nat (- fp_e Mp)"
  then have sh: "32 \<le> sh" "sh \<le> 60" using assms(1,2) by simp_all
  let ?M = "unat (fp_f Mp)" and ?delta = "fp_f Mp - fp_f Mm" and ?dist = "fp_f Mp - fp_f w"
  let ?p1 = "ucast (drop_bit sh (fp_f Mp)) :: u32" and ?p2 = "fp_f Mp AND (push_bit sh 1 - 1)"
  have delta: "unat ?delta = ?M - unat (fp_f Mm)" "unat ?dist = ?M - unat (fp_f w)"
    using assms(6,7) by (simp_all add: u64_sub word_le_nat_alt)
  note p = split_parts [OF sh assms(8)]
  note M = p(2) and less = p(3)
  obtain k pow10 where k: "find_largest_pow10 ?p1 = (k, pow10)" "0 < k" "k \<le> 10" "unat pow10 = 10 ^ (k - 1)"
    "10 ^ (k - 1) \<le> unat ?p1" "unat ?p1 < 10 ^ k" using find_largest_pow10 [OF p(1)] by blast
  have low: "10 ^ (k - 1) * 2 ^ sh \<le> ?M" using mult_le_mono1 [OF k(5), of "2 ^ sh"] M by linarith
  have "unat ?delta < unat ?p1 * 2 ^ sh + unat ?p2" unfolding M [symmetric] using assms(5-7) delta by simp
  then have int: "integral_result sh ?M ?delta ?p2 k (integral_digits sh ?delta ?dist ?p2 k ?p1 pow10 [])"
    using integral_digits_total [of ?p1 k pow10 ?M "[]" sh ?p2 ?delta ?dist] k low M less assms(5-9) delta
      unat_u64_less [of "fp_f Mp"] by simp
  have "unat (fp_f Mm) \<le> ?M" using assms(6,7) by (rule order_trans)
  note gen = digit_gen_unfold [OF assms(1-4) this assms(7) sh_def k(1) p(1), of de]
  from int consider
    (stopped) b x where "integral_digits sh ?delta ?dist ?p2 k ?p1 pow10 [] = Some (Stopped (map digit_char b) x)"
      "good_digits b" "0 \<le> x" "x < 10" "lies_between sh ?M (unat ?delta) (dval b) x"
  | (written) b where "integral_digits sh ?delta ?dist ?p2 k ?p1 pow10 [] = Some (All_written (map digit_char b))"
      "list_all (\<lambda>d. d < 10) b" "b \<noteq> []" "hd b \<noteq> 0" "length b = k" "?M = dval b * 2 ^ sh + unat ?p2" "unat ?delta < unat ?p2"
    unfolding integral_result_def by blast
  then show ?thesis
  proof cases
    case stopped
    then show ?thesis unfolding gen delta sh_def by fastforce
  next
    case b: written
    have "\<exists>b' x. fraction_digits sh ?delta ?dist ?p2 (int 0) (map digit_char b) = Some (map digit_char b', int x) \<and>
        good_digits b' \<and> 0 < x \<and> x \<le> 17 \<and> lies_between sh ?M (unat ?delta) (dval b') (- int x)"
    proof (rule fraction_digits_total [OF sh(2) _ _ k(2) low _ less _ _ b(7) _ b(2,4)])
      show "?M \<le> unat ?delta * 10 ^ 16" using assms(9) by (simp only: delta)
      show "unat ?dist \<le> unat ?delta" using assms(6) by (simp only: delta diff_le_mono2)
      show "?M * 10 ^ 0 = dval b * 2 ^ sh + unat ?p2" using b(6) by (simp only: power_0 mult_1_right)
    qed (simp_all add: b(5))
    then obtain b' x where b': "fraction_digits sh ?delta ?dist ?p2 0 (map digit_char b) = Some (map digit_char b', int x)"
      "good_digits b'" "x \<le> 17" "lies_between sh ?M (unat ?delta) (dval b') (- int x)" by auto
    then show ?thesis unfolding gen b(1)
      using b(7) delta sh_def by (intro exI [of _ b'] exI [of _ "- int x"]) (simp add: word_less_nat_alt)
  qed
qed

end
