(* ===== verification/GrisuTable.thy ===== *)
theory GrisuTable
  imports Grisu
begin

text \<open>
  The table of cached powers of ten: every entry is within half a unit of the power it stands for, and
  the index computed from a binary exponent finds an entry that brings the product into the range the
  digit generation needs.
\<close>

section \<open>The table\<close>

text \<open>An entry of the table is normalized and within half a unit of the power of ten it stands for.\<close>

definition half_ulp :: "cached_power \<Rightarrow> bool" where
  "half_ulp c =
     (case c of (cf, ce, ck) \<Rightarrow>
        let u = 2 ^ nat ce * 10 ^ nat (- ck); a = uint cf * u; b = 10 ^ nat ck * 2 ^ nat (- ce) :: int in
        2 ^ 63 \<le> uint cf \<and> 2 * a \<le> 2 * b + u \<and> 2 * b \<le> 2 * a + u \<and> - 300 \<le> ck \<and> ck \<le> 324)"

lemma table_half_ulp_1: "list_all half_ulp (take 13 kCachedPowers)"
  by (simp add: kCachedPowers_def half_ulp_def)

lemma table_half_ulp_2: "list_all half_ulp (take 26 (drop 13 kCachedPowers))"
  by (simp add: kCachedPowers_def half_ulp_def)

lemma table_half_ulp_3: "list_all half_ulp (take 27 (drop 39 kCachedPowers))"
  by (simp add: kCachedPowers_def half_ulp_def)

lemma table_half_ulp_4: "list_all half_ulp (drop 66 kCachedPowers)"
  by (simp add: kCachedPowers_def half_ulp_def)

lemmas table_half_ulp = table_half_ulp_1 table_half_ulp_2 table_half_ulp_3 table_half_ulp_4

lemma cached_half_ulp: "c \<in> set kCachedPowers \<Longrightarrow> half_ulp c"
proof -
  have d: "drop 39 kCachedPowers = drop 26 (drop 13 kCachedPowers)" "drop 66 kCachedPowers = drop 27 (drop 39 kCachedPowers)"
    by (simp_all only: drop_drop) simp_all
  have "take 13 kCachedPowers @ take 26 (drop 13 kCachedPowers) @ take 27 (drop 39 kCachedPowers) @ drop 66 kCachedPowers = kCachedPowers"
    by (subst d(2), subst append_take_drop_id, subst d(1), subst append_take_drop_id, rule append_take_drop_id)
  then have "list_all half_ulp kCachedPowers" using table_half_ulp by (metis list_all_append)
  then show "c \<in> set kCachedPowers \<Longrightarrow> half_ulp c" by (simp add: list_all_iff)
qed

text \<open>The index computed from the binary exponent, checked for every exponent a number may have.\<close>

definition cached_exps :: "int list" where
  "cached_exps =
    [- 1060, - 1034, - 1007, - 980, - 954, - 927, - 901, - 874, - 847, - 821, - 794, - 768, - 741,
     - 715, - 688, - 661, - 635, - 608, - 582, - 555, - 529, - 502, - 475, - 449, - 422, - 396, - 369,
     - 343, - 316, - 289, - 263, - 236, - 210, - 183, - 157, - 130, - 103, - 77, - 50, - 24, 3, 30, 56,
     83, 109, 136, 162, 189, 216, 242, 269, 295, 322, 348, 375, 402, 428, 455, 481, 508, 534, 561, 588,
     614, 641, 667, 694, 720, 747, 774, 800, 827, 853, 880, 907, 933, 960, 986, 1013]"

lemma cached_exps: "map (fst \<circ> snd) kCachedPowers = cached_exps"
  by (simp add: kCachedPowers_def cached_exps_def)

definition cached_index :: "int \<Rightarrow> int" where
  "cached_index e = (let f = - 60 - e - 1; k = (f * 78913) sdiv 2 ^ 18 + (if f > 0 then 1 else 0) in (300 + k + (8 - 1)) sdiv 8)"

definition index_ok :: "int \<Rightarrow> bool" where
  "index_ok e =
     (let i = cached_index e in
      0 \<le> i \<and> i < 79 \<and> (let x = cached_exps ! nat i + e + 64 in - 60 \<le> x \<and> x \<le> - 32))"

lemma index_ok_ranges:
  "list_all index_ok [- 1137..- 600]" "list_all index_ok [- 599..- 100]" "list_all index_ok [- 99..400]"
  "list_all index_ok [401..960]"
  by code_simp+

lemma index_ok: "- 1137 \<le> e \<Longrightarrow> e \<le> 960 \<Longrightarrow> index_ok e"
proof -
  assume "- 1137 \<le> e" "e \<le> 960"
  then consider "e \<in> {- 1137..- 600}" | "e \<in> {- 599..- 100}" | "e \<in> {- 99..400}" | "e \<in> {401..960}" by fastforce
  then show ?thesis using index_ok_ranges unfolding list_all_iff set_upto by cases blast+
qed

lemma cached_power_total:
  assumes "- 1137 \<le> e" "e \<le> 960"
  obtains cf ce ck where "get_cached_power_for_binary_exponent e = Some (cf, ce, ck)" "half_ulp (cf, ce, ck)"
    "- 60 \<le> ce + e + 64" "ce + e + 64 \<le> - 32"
proof -
  let ?i = "nat (cached_index e)"
  have len: "length kCachedPowers = 79" by (simp add: kCachedPowers_def)
  note ok = index_ok [OF assms, unfolded index_ok_def Let_def]
  then have i: "?i < length kCachedPowers" by (simp add: len nat_less_iff)
  obtain cf ce ck where c: "kCachedPowers ! ?i = (cf, ce, ck)" by (cases "kCachedPowers ! ?i")
  then have "cached_exps ! ?i = ce" unfolding cached_exps [symmetric] using i by simp
  with ok have "- 60 \<le> ce + e + 64" "ce + e + 64 \<le> - 32" by simp_all
  moreover have "half_ulp (cf, ce, ck)" using cached_half_ulp [OF nth_mem [OF i]] by (simp only: c)
  moreover have "get_cached_power_for_binary_exponent e = Some (cf, ce, ck)"
    unfolding get_cached_power_for_binary_exponent_def cached_index_def [symmetric, unfolded Let_def] Let_def
    using assms ok i c calculation(1,2) by simp
  ultimately show thesis using that by blast
qed

end
