(* ===== verification/DoubleReal.thy ===== *)
theory DoubleReal
  imports Double Complex_Main
begin

text \<open>
  The values of \<open>double\<close> as reals: the midpoints lies_between a number and its neighbours, and that \<open>strtod\<close>
  reads every decimal number strictly lies_between them as that number.
\<close>

section \<open>The midpoints\<close>

definition unit_of :: "nat \<Rightarrow> real" where
  "unit_of u = 2 powi (int (binary_scale u) - 1074)"

definition upper_midpoint :: "nat \<Rightarrow> real" where
  "upper_midpoint u = (2 * real (significand u) + 1) / 2 * unit_of u"

definition lower_midpoint :: "nat \<Rightarrow> real" where
  "lower_midpoint u = (if closer_below u then (4 * real (significand u) - 1) / 4 else (2 * real (significand u) - 1) / 2) * unit_of u"

lemma powi_parts: "(a :: real) powi k = a ^ nat k / a ^ nat (- k)"
  by (simp add: power_int_def divide_inverse power_inverse)

definition least_value :: real where
  "least_value = 2 powi - 1074"

lemma unit_of_least: "unit_of u = 2 ^ binary_scale u * least_value"
proof -
  have "unit_of u = 2 powi (int (binary_scale u) + - 1074)" unfolding unit_of_def by (simp only: diff_conv_add_uminus)
  also have "\<dots> = 2 powi int (binary_scale u) * least_value" unfolding least_value_def by (rule power_int_add) simp
  finally show ?thesis by simp
qed

lemma upper_units: "2 * upper_midpoint u = real (units_of u + units_of (Suc u)) * least_value"
proof -
  have "real (units_of u + units_of (Suc u)) = (2 * real (significand u) + 1) * 2 ^ binary_scale u"
    unfolding units_Suc unfolding units_of_def by (simp add: algebra_simps)
  then show ?thesis unfolding upper_midpoint_def unit_of_least by simp
qed

lemma scale_pred: "binary_scale u = (if closer_below (Suc u) then binary_scale (Suc u) - 1 else binary_scale (Suc u))" "closer_below (Suc u) \<Longrightarrow> 0 < binary_scale (Suc u)"
proof -
  define E F where ef: "E = Suc u div 2 ^ 52" "F = Suc u mod 2 ^ 52"
  have u: "Suc u = E * 2 ^ 52 + F" "F < 2 ^ 52" unfolding ef by (simp_all only: div_mult_mod_eq) simp
  have cl: "closer_below (Suc u) \<longleftrightarrow> F = 0 \<and> E > 1" by (simp only: closer_below_def ef)
  show "closer_below (Suc u) \<Longrightarrow> 0 < binary_scale (Suc u)" unfolding cl binary_scale_def ef [symmetric] by simp
  show "binary_scale u = (if closer_below (Suc u) then binary_scale (Suc u) - 1 else binary_scale (Suc u))"
  proof (cases "F = 0")
    case True
    then obtain e where e: "E = Suc e" using u by (cases E) simp_all
    then have "u = e * 2 ^ 52 + (2 ^ 52 - 1)" using u(1) True by simp
    then have "u div 2 ^ 52 = e" by simp
    then show ?thesis unfolding cl binary_scale_def ef [symmetric] using True e by auto
  next
    case False
    then have "u = E * 2 ^ 52 + (F - 1)" "F - 1 < 2 ^ 52" using u by simp_all
    then have "u div 2 ^ 52 = E" by simp
    then show ?thesis unfolding cl binary_scale_def ef [symmetric] using False by simp
  qed
qed

text \<open>The lower midpoint of a number is the upper one of the number before.\<close>

lemma lower_Suc: "lower_midpoint (Suc u) = upper_midpoint u"
proof -
  have *: "real (units_of (Suc u)) = real (units_of u) + 2 ^ binary_scale u" by (simp add: units_Suc)
  have "2 * lower_midpoint (Suc u) = (2 * real (units_of (Suc u)) - 2 ^ binary_scale u) * least_value"
  proof (cases "closer_below (Suc u)")
    case True
    then obtain k where "binary_scale (Suc u) = Suc k" using scale_pred(2) [of u] by (cases "binary_scale (Suc u)") auto
    moreover from this have "binary_scale u = k" using scale_pred(1) [of u] True by simp
    ultimately show ?thesis unfolding lower_midpoint_def unit_of_least units_of_def using True by (simp add: field_simps)
  next
    case False
    then have "binary_scale u = binary_scale (Suc u)" using scale_pred(1) [of u] by simp
    then show ?thesis unfolding lower_midpoint_def unit_of_least units_of_def using False by (simp add: field_simps)
  qed
  with upper_units [of u] * show ?thesis by (simp add: algebra_simps)
qed

lemma units_in_one: "real units_in_one * least_value = 1" "0 < real units_in_one"
proof -
  have "real units_in_one = 2 powi int 1074" by (simp only: units_in_one_def of_nat_power of_nat_numeral power_int_of_nat [symmetric])
  moreover have "(2 :: real) powi int 1074 * 2 powi - int 1074 = 2 powi (int 1074 + - int 1074)" by (rule power_int_add [symmetric]) simp
  ultimately show "real units_in_one * least_value = 1" unfolding least_value_def by (simp only: right_minus power_int_0_right of_nat_numeral)
  show "0 < real units_in_one" unfolding units_in_one_def by (simp only: of_nat_0_less_iff zero_less_power zero_less_numeral)
qed

lemma compare_real:
  "units_scaled n x \<le> decimal_scaled m x \<longleftrightarrow> real n * least_value \<le> real m * 10 powi x"
  "decimal_scaled m x \<le> units_scaled n x \<longleftrightarrow> real m * 10 powi x \<le> real n * least_value"
proof -
  define P Q :: real where pq: "P = 10 ^ nat (- x)" "Q = 10 ^ nat x"
  have pos: "0 < P" "0 < Q" by (simp_all add: pq)
  have e: "real (units_scaled n x) = real n * P" "real (decimal_scaled m x) = real m * Q * real units_in_one" "10 powi x = Q / P"
    by (simp_all add: units_scaled_def decimal_scaled_def pq powi_parts)
  have n: "real n * P = (real n * least_value) * (P * real units_in_one)"
    "real m * Q * real units_in_one = (real m * (Q / P)) * (P * real units_in_one)"
    using pos units_in_one(1) by (simp_all add: field_simps)
  have "0 < P * real units_in_one" using pos(1) units_in_one(2) by simp
  then have "real (units_scaled n x) \<le> real (decimal_scaled m x) \<longleftrightarrow> real n * least_value \<le> real m * 10 powi x"
    "real (decimal_scaled m x) \<le> real (units_scaled n x) \<longleftrightarrow> real m * 10 powi x \<le> real n * least_value"
    unfolding e n by (simp_all only: mult_le_cancel_right_pos)
  then show "units_scaled n x \<le> decimal_scaled m x \<longleftrightarrow> real n * least_value \<le> real m * 10 powi x"
    "decimal_scaled m x \<le> units_scaled n x \<longleftrightarrow> real m * 10 powi x \<le> real n * least_value" by (simp_all only: of_nat_le_iff)
qed

text \<open>A decimal number strictly between the midpoints around a number is read as that number.\<close>

lemma midpoint_order:
  "real (units_of v) * least_value \<le> upper_midpoint v" "upper_midpoint v \<le> real (units_of (Suc v)) * least_value"
proof -
  have "0 < least_value" unfolding least_value_def by (rule zero_less_power_int) simp
  then have "real (units_of v) * least_value \<le> real (units_of (Suc v)) * least_value"
    using units_mono [of v "Suc v"] by (intro mult_right_mono) simp_all
  then show "real (units_of v) * least_value \<le> upper_midpoint v" "upper_midpoint v \<le> real (units_of (Suc v)) * least_value"
    using upper_units [of v] by (simp_all add: distrib_right)
qed

lemma nearest_between:
  assumes "u < infinity_bits" "0 < u" "lower_midpoint u < real m * 10 powi x" "real m * 10 powi x < upper_midpoint u"
  shows "nearest_double m x = u"
proof -
  obtain w where w: "u = Suc w" using assms(2) by (cases u) simp_all
  define f where "f = below m x"
  note f = below_greatest [where m = m and x = x, folded f_def]
  have "units_scaled (units_of w) x \<le> decimal_scaled m x"
    using assms(3) midpoint_order [of w] unfolding compare_real w lower_Suc by simp
  then have "w \<le> f" using assms(1) by (intro f(3)) (simp_all add: w)
  moreover have "f \<le> u"
  proof (rule ccontr)
    assume "\<not> f \<le> u"
    then have "units_scaled (units_of (Suc u)) x \<le> units_scaled (units_of f) x"
      unfolding units_scaled_def by (intro mult_le_mono1 units_mono) simp
    with f(2) have "units_scaled (units_of (Suc u)) x \<le> decimal_scaled m x" by (rule order_trans [rotated])
    then show False using assms(4) midpoint_order [of u] unfolding compare_real by linarith
  qed
  ultimately consider "f = u" | "f = w" unfolding w by linarith
  then show ?thesis
  proof cases
    case 1
    have "decimal_scaled (2 * m) x < units_scaled (units_of u + units_of (u + 1)) x"
      using assms(4) upper_units [of u] by (simp add: not_le [symmetric] compare_real)
    then show ?thesis unfolding nearest_double_def Let_def f_def [symmetric] 1 by simp
  next
    case 2
    have "units_scaled (units_of w + units_of (w + 1)) x < decimal_scaled (2 * m) x"
      using assms(3) upper_units [of w] by (simp add: not_le [symmetric] compare_real w lower_Suc)
    then show ?thesis unfolding nearest_double_def Let_def f_def [symmetric] 2 by (simp add: w)
  qed
qed

end
