(* ===== verification/GrisuCorrect.thy ===== *)
theory GrisuCorrect
  imports GrisuDigits GrisuTable DoubleReal
begin

text \<open>
  Grisu2 on every positive finite number: no assertion fails, it writes at most 17 digits, and the decimal
  number written lies strictly between the midpoints to the number's neighbours.
\<close>

section \<open>Normalization\<close>

lemma normalize_loop_shift:
  assumes "2 ^ 63 \<le> unat f * 2 ^ s" "unat f * 2 ^ s < 2 ^ 64"
  shows "diyfp_normalize_loop \<lparr>fp_f = f, fp_e = e\<rparr> = Some \<lparr>fp_f = push_bit s f, fp_e = e - int s\<rparr>"
  using assms
proof (induction s arbitrary: f e)
  case 0
  then have "unat (drop_bit 63 f) \<noteq> 0" by (simp add: u64_drop)
  then have "drop_bit 63 f \<noteq> 0" by auto
  then show ?case by (subst diyfp_normalize_loop.simps) simp
next
  case (Suc s)
  have "unat f * 2 \<le> unat f * 2 ^ Suc s" by simp
  then have "unat f * 2 < 2 ^ 64" using Suc.prems(2) by (rule le_less_trans)
  then have f: "unat f < 2 ^ 63" by simp
  then have "unat (drop_bit 63 f) = 0" by (simp add: u64_drop)
  then have d: "drop_bit 63 f = 0" by (simp add: unat_eq_0)
  have u: "unat (push_bit 1 f) = unat f * 2" using f u64_push [of f 1] by simp
  have "diyfp_normalize_loop \<lparr>fp_f = push_bit 1 f, fp_e = e - 1\<rparr> =
      Some \<lparr>fp_f = push_bit s (push_bit 1 f), fp_e = e - 1 - int s\<rparr>"
    using Suc.prems by (intro Suc.IH) (simp_all only: u power_Suc mult.assoc)
  moreover have "push_bit s (push_bit 1 f) = push_bit (Suc s) f" by (simp add: push_bit_push_bit)
  ultimately show ?case using d by (subst diyfp_normalize_loop.simps) simp
qed

lemma ex_normal_shift:
  assumes "0 < n" "n < 2 ^ 64"
  shows "\<exists>s \<le> 63. 2 ^ 63 \<le> n * 2 ^ s \<and> n * 2 ^ s < (2 :: nat) ^ 64"
proof -
  obtain k where k: "2 ^ k \<le> n" "n < 2 ^ (k + 1)" using ex_power_ivl1 [of 2 n] assms(1) by auto
  with assms(2) have "(2 :: nat) ^ k < 2 ^ 64" by linarith
  then have "k \<le> 63" by (subst (asm) power_strict_increasing_iff) simp_all
  then have "(2 :: nat) ^ 63 = 2 ^ k * 2 ^ (63 - k)" "(2 :: nat) ^ 64 = 2 ^ (k + 1) * 2 ^ (63 - k)"
    by (simp_all flip: power_add)
  then have "2 ^ 63 \<le> n * 2 ^ (63 - k) \<and> n * 2 ^ (63 - k) < 2 ^ 64"
    using k mult_le_mono1 [OF k(1)] mult_less_mono1 [OF k(2)] by (simp only:) simp
  then show ?thesis using diff_le_self [of 63 k] by blast
qed

section \<open>The parts of a number\<close>

lemma hidden_bit: "unat kHiddenBit = 2 ^ 52" "kHiddenBit - 1 = push_bit 52 1 - 1"
  by (simp_all add: kHiddenBit_def push_bit_eq_mult)

lemma v_of_parts:
  "unat (fp_f (v_of b)) = significand (unat b)"
  "fp_e (v_of b) = int (binary_scale (unat b)) - 1074"
proof -
  have F: "unat (b AND (kHiddenBit - 1)) = unat b mod 2 ^ 52" by (simp only: hidden_bit(2) u64_and_mask)
  have E: "unat (drop_bit 52 b) = unat b div 2 ^ 52" by (rule u64_drop)
  have z: "drop_bit 52 b = 0 \<longleftrightarrow> unat b div 2 ^ 52 = 0" by (simp only: unat_eq_0 [symmetric] E)
  have less: "unat b mod 2 ^ 52 < 2 ^ 52" by simp
  have add: "unat ((b AND (kHiddenBit - 1)) + kHiddenBit) = unat b mod 2 ^ 52 + 2 ^ 52"
    using less by (subst u64_add) (simp_all only: F hidden_bit(1), simp)
  show "unat (fp_f (v_of b)) = significand (unat b)"
    by (simp add: v_of_def Let_def significand_def z F add)
  show "fp_e (v_of b) = int (binary_scale (unat b)) - 1074"
    by (auto simp: v_of_def Let_def binary_scale_def z E kBias_def)
qed

section \<open>Boundaries\<close>

lemma m_minus_parts:
  assumes "0 < significand (unat b)"
  shows "unat (fp_f (m_minus_of b)) = (if closer_below (unat b) then 4 * significand (unat b) - 1 else 2 * significand (unat b) - 1)"
    "fp_e (m_minus_of b) = int (binary_scale (unat b)) - 1074 - (if closer_below (unat b) then 2 else 1)"
proof -
  have F: "unat (b AND (kHiddenBit - 1)) = unat b mod 2 ^ 52" by (simp only: hidden_bit(2) u64_and_mask)
  have E: "unat (drop_bit 52 b) = unat b div 2 ^ 52" by (rule u64_drop)
  have c: "b AND (kHiddenBit - 1) = 0 \<and> drop_bit 52 b > 1 \<longleftrightarrow> closer_below (unat b)"
    by (simp only: closer_below_def unat_eq_0 [symmetric] F word_less_nat_alt E unat_1)
  have s: "unat (fp_f (v_of b)) = significand (unat b)" "significand (unat b) < 2 ^ 53" by (rule v_of_parts, rule sig_less)
  have f: "unat (2 * fp_f (v_of b)) = 2 * significand (unat b)" "unat (4 * fp_f (v_of b)) = 4 * significand (unat b)"
    using s by (simp_all add: u64_mult)
  have "unat (2 * fp_f (v_of b) - 1) = 2 * significand (unat b) - 1" "unat (4 * fp_f (v_of b) - 1) = 4 * significand (unat b) - 1"
    using assms by (simp_all add: u64_sub word_le_nat_alt f)
  then show "unat (fp_f (m_minus_of b)) = (if closer_below (unat b) then 4 * significand (unat b) - 1 else 2 * significand (unat b) - 1)"
    by (simp add: m_minus_of_def Let_def c)
  show "fp_e (m_minus_of b) = int (binary_scale (unat b)) - 1074 - (if closer_below (unat b) then 2 else 1)"
    by (simp add: m_minus_of_def Let_def c v_of_parts)
qed

lemma m_plus_parts:
  "unat (fp_f (m_plus_of b)) = 2 * significand (unat b) + 1" "fp_e (m_plus_of b) = int (binary_scale (unat b)) - 1074 - 1"
proof -
  have s: "unat (fp_f (v_of b)) = significand (unat b)" "significand (unat b) < 2 ^ 53" by (rule v_of_parts, rule sig_less)
  then have f: "unat (2 * fp_f (v_of b)) = 2 * significand (unat b)" by (simp add: u64_mult)
  then show "unat (fp_f (m_plus_of b)) = 2 * significand (unat b) + 1"
    using s(2) by (simp add: m_plus_of_def Let_def u64_add)
  show "fp_e (m_plus_of b) = int (binary_scale (unat b)) - 1074 - 1" by (simp add: m_plus_of_def Let_def v_of_parts)
qed

definition finite_pos :: "nat \<Rightarrow> bool" where
  "finite_pos u \<longleftrightarrow> 0 < u \<and> u < 2047 * 2 ^ 52"

lemma finite_pos_iff: "isfinite b \<and> is_positive b \<longleftrightarrow> finite_pos (unat b)"
  by (auto simp: isfinite_iff is_positive_def signbit_iff finite_pos_def unat_gt_0)

lemma normalize_shift:
  assumes "2 ^ 63 \<le> unat (fp_f x) * 2 ^ s" "unat (fp_f x) * 2 ^ s < 2 ^ 64"
  shows "diyfp_normalize x = Some \<lparr>fp_f = push_bit s (fp_f x), fp_e = fp_e x - int s\<rparr>"
proof -
  have "fp_f x \<noteq> 0" using assms(1) by auto
  then show ?thesis using normalize_loop_shift [OF assms, of "fp_e x"] by (cases x) (simp add: diyfp_normalize_def)
qed

lemma normalize_to_shift:
  assumes "fp_e x - t = int s" "unat (fp_f x) * 2 ^ s < 2 ^ 64"
  shows "diyfp_normalize_to x t = Some \<lparr>fp_f = push_bit s (fp_f x), fp_e = t\<rparr>"
proof -
  have "unat (drop_bit s (push_bit s (fp_f x))) = unat (fp_f x)" by (simp only: u64_drop u64_push [OF assms(2)]) simp
  then have "drop_bit s (push_bit s (fp_f x)) = fp_f x" by (simp only: word_unat_eq_iff)
  then show ?thesis by (simp add: diyfp_normalize_to_def assms(1))
qed

text \<open>The shift that normalizes a significand, and what it makes of the significand and of its boundaries.\<close>

lemma normal_shift:
  assumes "0 < f" "f < 2 ^ 53"
  obtains s where "11 \<le> s" "s \<le> 63" "2 ^ 63 \<le> f * 2 ^ s" "f * 2 ^ s < (2 :: nat) ^ 64"
    "2 ^ 63 \<le> (2 * f + 1) * 2 ^ (s - 1)" "(2 * f + 1) * 2 ^ (s - 1) < (2 :: nat) ^ 64"
    "(4 * f - 1) * 2 ^ (s - 2) < (2 :: nat) ^ 64" "(2 * f - 1) * 2 ^ (s - 1) < (2 :: nat) ^ 64"
proof -
  from assms obtain s where s: "s \<le> 63" "2 ^ 63 \<le> f * 2 ^ s" "f * 2 ^ s < 2 ^ 64"
    using ex_normal_shift [of f] by auto
  have "(2 :: nat) ^ 63 < 2 ^ 53 * 2 ^ s" using s(2) assms(2) by (meson le_less_trans mult_less_mono1 zero_less_numeral zero_less_power)
  then have s11: "11 \<le> s" by (subst (asm) power_add [symmetric], subst (asm) power_strict_increasing_iff) simp_all
  define T :: nat where "T = 2 ^ (s - 2)"
  have "s = s - 2 + 2" "s - 1 = s - 2 + 1" using s11 by simp_all
  then have t: "(2 :: nat) ^ s = 4 * T" "(2 :: nat) ^ (s - 1) = 2 * T" "(2 :: nat) ^ (s - 2) = T" "0 < T"
    unfolding T_def using power_add [of "2 :: nat" "s - 2" 2] power_add [of "2 :: nat" "s - 2" 1] by simp_all
  have "f < 2 ^ (64 - s)"
  proof (rule ccontr)
    assume "\<not> f < 2 ^ (64 - s)"
    then have "2 ^ (64 - s) * 2 ^ s \<le> f * 2 ^ s" by (intro mult_le_mono1) simp
    then show False using s(1,3) by (simp flip: power_add)
  qed
  then have "(f + 1) * 2 ^ s \<le> 2 ^ (64 - s) * 2 ^ s" by (intro mult_le_mono1) simp
  then have top: "(f + 1) * 2 ^ s \<le> 2 ^ 64" using s(1) by (simp flip: power_add)
  have "(2 * f + 1) * 2 ^ (s - 1) < 2 ^ 64" "2 ^ 63 \<le> (2 * f + 1) * 2 ^ (s - 1)"
    using top s(2) t(4) unfolding t by (simp_all add: algebra_simps)
  moreover have "(4 * f - 1) * 2 ^ (s - 2) < 2 ^ 64" "(2 * f - 1) * 2 ^ (s - 1) < 2 ^ 64"
    using s(3) t(4) unfolding t by (simp_all add: algebra_simps diff_mult_distrib)
  ultimately show thesis using that s s11 by blast
qed

lemma compute_boundaries_parts:
  assumes "finite_pos (unat b)"
  obtains B s where "compute_boundaries b = Some B" "11 \<le> s" "s \<le> 63"
    "2 ^ 63 \<le> significand (unat b) * 2 ^ s" "significand (unat b) * 2 ^ s < 2 ^ 64"
    "unat (fp_f (b_w B)) = significand (unat b) * 2 ^ s"
    "unat (fp_f (b_plus B)) = (2 * significand (unat b) + 1) * 2 ^ (s - 1)"
    "unat (fp_f (b_minus B)) =
      (if closer_below (unat b) then (4 * significand (unat b) - 1) * 2 ^ (s - 2) else (2 * significand (unat b) - 1) * 2 ^ (s - 1))"
    "fp_e (b_w B) = int (binary_scale (unat b)) - 1074 - int s" "fp_e (b_plus B) = int (binary_scale (unat b)) - 1074 - int s"
    "fp_e (b_minus B) = int (binary_scale (unat b)) - 1074 - int s"
proof -
  let ?f = "significand (unat b)"
  have f: "0 < ?f" "?f < 2 ^ 53" using assms by (simp_all add: sig_pos finite_pos_def sig_less del: power_numeral)
  from normal_shift [OF f] obtain s where s11: "11 \<le> s" and s: "s \<le> 63" "2 ^ 63 \<le> ?f * 2 ^ s" "?f * 2 ^ s < 2 ^ 64"
    and p2: "2 ^ 63 \<le> (2 * ?f + 1) * 2 ^ (s - 1)" "(2 * ?f + 1) * 2 ^ (s - 1) < 2 ^ 64"
    and m1: "(4 * ?f - 1) * 2 ^ (s - 2) < 2 ^ 64" "(2 * ?f - 1) * 2 ^ (s - 1) < 2 ^ 64" .
  note plus = normalize_shift [of "m_plus_of b" "s - 1", unfolded m_plus_parts, OF p2]
  note w = normalize_shift [of "v_of b" s, unfolded v_of_parts, OF s(2,3)]
  have minus: "diyfp_normalize_to (m_minus_of b) (int (binary_scale (unat b)) - 1074 - int s) =
      Some \<lparr>fp_f = push_bit (if closer_below (unat b) then s - 2 else s - 1) (fp_f (m_minus_of b)),
        fp_e = int (binary_scale (unat b)) - 1074 - int s\<rparr>"
    using m1 s11 by (intro normalize_to_shift) (auto simp: m_minus_parts [OF f(1)] of_nat_diff)
  let ?B = "\<lparr>b_w = \<lparr>fp_f = push_bit s (fp_f (v_of b)), fp_e = int (binary_scale (unat b)) - 1074 - int s\<rparr>,
    b_minus = \<lparr>fp_f = push_bit (if closer_below (unat b) then s - 2 else s - 1) (fp_f (m_minus_of b)),
      fp_e = int (binary_scale (unat b)) - 1074 - int s\<rparr>,
    b_plus = \<lparr>fp_f = push_bit (s - 1) (fp_f (m_plus_of b)), fp_e = int (binary_scale (unat b)) - 1074 - int s\<rparr>\<rparr>"
  have e: "int (binary_scale (unat b)) - 1074 - 1 - int (s - 1) = int (binary_scale (unat b)) - 1074 - int s"
    using s11 by simp
  have "compute_boundaries b = Some ?B"
    unfolding compute_boundaries_def by (simp only: finite_pos_iff assms if_True plus e bind.bind_lunit diyfp.simps minus w)
  moreover have "unat (push_bit s (fp_f (v_of b))) = ?f * 2 ^ s" using s(3) by (simp only: u64_push v_of_parts)
  moreover have "unat (push_bit (s - 1) (fp_f (m_plus_of b))) = (2 * ?f + 1) * 2 ^ (s - 1)"
    using p2(2) by (simp only: u64_push m_plus_parts)
  moreover have "unat (push_bit (if closer_below (unat b) then s - 2 else s - 1) (fp_f (m_minus_of b))) =
      (if closer_below (unat b) then (4 * ?f - 1) * 2 ^ (s - 2) else (2 * ?f - 1) * 2 ^ (s - 1))"
    using m1 by (simp add: u64_push m_minus_parts [OF f(1)] del: One_nat_def)
  ultimately show thesis using s s11 by (intro that [of ?B s]) simp_all
qed

section \<open>Scaling\<close>

text \<open>The product of a significand with that of a cached power, rounded to the nearest integer.\<close>

definition scaled_significand :: "nat \<Rightarrow> nat \<Rightarrow> nat" where
  "scaled_significand c x = (x * c + 2 ^ 63) div 2 ^ 64"

lemma scaled_range:
  "2 ^ 64 * int (scaled_significand c x) \<le> int x * int c + 2 ^ 63 \<and> int x * int c + 2 ^ 63 < 2 ^ 64 * (int (scaled_significand c x) + 1)"
proof -
  have "int (x * c + 2 ^ 63) = int (scaled_significand c x * 2 ^ 64 + (x * c + 2 ^ 63) mod 2 ^ 64)"
    unfolding scaled_significand_def by (simp only: div_mult_mod_eq)
  moreover have "int ((x * c + 2 ^ 63) mod 2 ^ 64) < 2 ^ 64" by simp
  ultimately show ?thesis by simp
qed

lemma scaled_bounds:
  assumes "x + 1024 \<le> xp" "xm + 512 \<le> x" "2 ^ 63 \<le> c" "2 ^ 63 \<le> xp" "xp + 6 * 10 ^ 16 \<le> 10 ^ 16 * (xp - xm)"
  shows "scaled_significand c xm + 1 \<le> scaled_significand c x" "scaled_significand c x + 1 \<le> scaled_significand c xp" "2 ^ 61 \<le> scaled_significand c xp"
    "scaled_significand c xp - 1 \<le> (scaled_significand c xp - 1 - (scaled_significand c xm + 1)) * 10 ^ 16"
proof -
  define X P Q C W Wp Wm where defs: "X = int x" "P = int xp" "Q = int xm" "C = int c" "W = int (scaled_significand c x)" "Wp = int (scaled_significand c xp)"
    "Wm = int (scaled_significand c xm)"
  have r: "2 ^ 64 * W \<le> X * C + 2 ^ 63" "X * C + 2 ^ 63 < 2 ^ 64 * (W + 1)"
    "2 ^ 64 * Wp \<le> P * C + 2 ^ 63" "P * C + 2 ^ 63 < 2 ^ 64 * (Wp + 1)"
    "2 ^ 64 * Wm \<le> Q * C + 2 ^ 63" "Q * C + 2 ^ 63 < 2 ^ 64 * (Wm + 1)"
    unfolding defs using scaled_range [of c x] scaled_range [of c xp] scaled_range [of c xm] by blast+
  have c: "2 ^ 63 \<le> C" "X + 1024 \<le> P" "Q + 512 \<le> X" "2 ^ 63 \<le> P" using assms(1-4) unfolding defs by simp_all
  have "int (xp + 6 * 10 ^ 16) \<le> int (10 ^ 16 * (xp - xm))" using assms(5) by (simp only: of_nat_le_iff)
  then have ratio: "P + 6 * 10 ^ 16 \<le> 10 ^ 16 * (P - Q)" using assms(1,2) unfolding defs by (simp add: of_nat_diff)
  have "1024 * 2 ^ 63 \<le> (P - X) * C" "512 * 2 ^ 63 \<le> (X - Q) * C" "2 ^ 63 * 2 ^ 63 \<le> P * C"
    "6 * 10 ^ 16 * 2 ^ 63 \<le> (10 ^ 16 * (P - Q) - P) * C"
    using c ratio by (intro mult_mono; simp)+
  then have g: "1024 * 2 ^ 63 + X * C \<le> P * C" "512 * 2 ^ 63 + Q * C \<le> X * C" "2 ^ 63 * 2 ^ 63 \<le> P * C"
    "6 * 10 ^ 16 * 2 ^ 63 + P * C \<le> 10 ^ 16 * (P * C - Q * C)" by (simp_all add: algebra_simps)
  define A B D where abd: "A = P * C" "B = X * C" "D = Q * C"
  note r = r [folded abd] and g = g [folded abd]
  have o: "Wm + 1 \<le> W" "W + 1 \<le> Wp" "2 ^ 61 \<le> Wp" "Wp - 1 \<le> (Wp - 1 - (Wm + 1)) * 10 ^ 16"
    using r g by simp_all
  then show lo: "scaled_significand c xm + 1 \<le> scaled_significand c x" and hi: "scaled_significand c x + 1 \<le> scaled_significand c xp" and "2 ^ 61 \<le> scaled_significand c xp"
    unfolding defs by simp_all
  have "int (scaled_significand c xp - 1) \<le> int ((scaled_significand c xp - 1 - (scaled_significand c xm + 1)) * 10 ^ 16)"
    using o(4) lo hi unfolding defs by (simp add: of_nat_diff)
  then show "scaled_significand c xp - 1 \<le> (scaled_significand c xp - 1 - (scaled_significand c xm + 1)) * 10 ^ 16" by (simp only: of_nat_le_iff)
qed

section \<open>The error of the scaling\<close>

definition power_ratio :: "int \<Rightarrow> int \<Rightarrow> real" where
  "power_ratio ce ck = 10 powi ck / 2 powi ce"

lemma half_ulp_real:
  assumes "half_ulp (cf, ce, ck)"
  shows "2 ^ 63 \<le> unat cf" "\<bar>real (unat cf) - power_ratio ce ck\<bar> \<le> 1 / 2"
proof -
  let ?u = "2 ^ nat ce * 10 ^ nat (- ck) :: int" and ?b = "10 ^ nat ck * 2 ^ nat (- ce) :: int"
  have h: "2 ^ 63 \<le> uint cf" "2 * (uint cf * ?u) \<le> 2 * ?b + ?u" "2 * ?b \<le> 2 * (uint cf * ?u) + ?u"
    using assms by (simp_all add: half_ulp_def Let_def)
  then have "int (2 ^ 63) \<le> int (unat cf)" by simp
  then show "2 ^ 63 \<le> unat cf" by (simp only: of_nat_le_iff)
  have c: "real_of_int (uint cf) = real (unat cf)" by simp
  have u: "0 < real_of_int ?u" by simp
  have "real_of_int (2 * (uint cf * ?u)) \<le> real_of_int (2 * ?b + ?u)" "real_of_int (2 * ?b) \<le> real_of_int (2 * (uint cf * ?u) + ?u)"
    using h(2,3) by (simp_all only: of_int_le_iff)
  then have "2 * (real (unat cf) * of_int ?u) \<le> 2 * of_int ?b + of_int ?u" "2 * of_int ?b \<le> 2 * (real (unat cf) * of_int ?u) + of_int ?u"
    by (simp_all only: of_int_add of_int_mult c of_int_numeral)
  then have "\<bar>real (unat cf) * of_int ?u - of_int ?b\<bar> \<le> 1 / 2 * of_int ?u" by linarith
  moreover have "power_ratio ce ck * of_int ?u = of_int ?b"
    unfolding power_ratio_def powi_parts by (simp add: field_simps)
  ultimately have "\<bar>real (unat cf) - power_ratio ce ck\<bar> * of_int ?u \<le> 1 / 2 * of_int ?u"
    using u by (simp add: abs_mult [symmetric] left_diff_distrib abs_mult_pos)
  then show "\<bar>real (unat cf) - power_ratio ce ck\<bar> \<le> 1 / 2" using u by (simp only: mult_le_cancel_right)
qed

lemma scaled_error:
  assumes "\<bar>real c - g\<bar> \<le> 1 / 2" "x < 2 ^ 64"
  shows "\<bar>real (scaled_significand c x) - real x * g / 2 ^ 64\<bar> < 1"
proof -
  have "real_of_int (2 ^ 64 * int (scaled_significand c x)) \<le> real_of_int (int x * int c + 2 ^ 63)"
    "real_of_int (int x * int c + 2 ^ 63) < real_of_int (2 ^ 64 * (int (scaled_significand c x) + 1))"
    using scaled_range [of c x] by (simp_all only: of_int_le_iff of_int_less_iff)
  then have a: "2 ^ 64 * real (scaled_significand c x) \<le> real x * real c + 2 ^ 63" "real x * real c + 2 ^ 63 < 2 ^ 64 * (real (scaled_significand c x) + 1)"
    by simp_all
  have "real x * \<bar>real c - g\<bar> \<le> real x * (1 / 2)" using assms(1) by (intro mult_left_mono) simp_all
  moreover have "real x * \<bar>real c - g\<bar> = \<bar>real x * real c - real x * g\<bar>"
    unfolding right_diff_distrib [symmetric] abs_mult by simp
  moreover have "real x < real (2 ^ 64)" using assms(2) by (simp only: of_nat_less_iff)
  ultimately have "\<bar>real x * real c - real x * g\<bar> < 2 ^ 63" by simp
  with a have "\<bar>2 ^ 64 * real (scaled_significand c x) - real x * g\<bar> < 2 ^ 64" by (simp add: abs_less_iff)
  then show ?thesis by (simp add: abs_less_iff field_simps)
qed

lemma between_real:
  assumes "lies_between sh M delta D x" "delta \<le> M"
  shows "real (M - delta) \<le> real D * 10 powi x * 2 ^ sh" "real D * 10 powi x * 2 ^ sh \<le> real M"
proof -
  have "real (M - delta) \<le> real D * 10 powi x * 2 ^ sh \<and> real D * 10 powi x * 2 ^ sh \<le> real M"
  proof (cases "0 \<le> x")
    case True
    then have "real (M - delta) \<le> real (D * 10 ^ nat x * 2 ^ sh)" "real (D * 10 ^ nat x * 2 ^ sh) \<le> real M"
      using assms(1) unfolding lies_between_def of_nat_le_iff by simp_all
    then show ?thesis using True by (simp add: power_int_def)
  next
    case False
    then have "real ((M - delta) * 10 ^ nat (- x)) \<le> real (D * 2 ^ sh)" "real (D * 2 ^ sh) \<le> real (M * 10 ^ nat (- x))"
      using assms(1) unfolding lies_between_def of_nat_le_iff by simp_all
    then show ?thesis using False by (simp add: power_int_def field_simps)
  qed
  then show "real (M - delta) \<le> real D * 10 powi x * 2 ^ sh" "real D * 10 powi x * 2 ^ sh \<le> real M" by blast+
qed

text \<open>Back from the scaled significands to the number.\<close>

lemma unscale:
  assumes "sh = nat (- (ce + e + 64))" "ce + e + 64 \<le> 0" "D * 10 powi x * 2 ^ sh < X * power_ratio ce ck / 2 ^ 64"
  shows "D * 10 powi (x - ck) < X * 2 powi e"
proof -
  have p: "2 ^ sh = (2 :: real) powi (- (ce + e + 64))" using assms(1,2) by (simp add: power_int_def)
  have "10 powi x = 10 powi (x - ck) * (10 :: real) powi ck" by (simp flip: power_int_add)
  moreover have "power_ratio ce ck / 2 ^ 64 = 2 powi e * 2 ^ sh * 10 powi ck"
  proof -
    have "2 powi e * 2 powi (- (ce + e + 64)) = (2 :: real) powi (- ce - 64)" by (simp flip: power_int_add)
    also have "\<dots> = 1 / (2 powi ce * 2 ^ 64)" by (simp add: power_int_diff power_int_minus field_simps)
    finally show ?thesis unfolding power_ratio_def p by simp
  qed
  ultimately have "(D * 10 powi (x - ck)) * (10 powi ck * 2 ^ sh) < (X * 2 powi e) * (10 powi ck * 2 ^ sh)"
    using assms(3) by (simp add: mult_ac)
  moreover have "0 < 10 powi ck * (2 :: real) ^ sh" by simp
  ultimately show ?thesis by (simp only: mult_less_cancel_right_pos)
qed

lemma unscale_lower:
  assumes "sh = nat (- (ce + e + 64))" "ce + e + 64 \<le> 0" "X * power_ratio ce ck / 2 ^ 64 < D * 10 powi x * 2 ^ sh"
  shows "X * 2 powi e < D * 10 powi (x - ck)"
  using unscale [OF assms(1,2), of "- D" x "- X" ck] assms(3) by simp

text \<open>What the scaling needs of the three significands.\<close>

lemma gaps:
  assumes "11 \<le> s" "0 < significand u"
  defines "xp \<equiv> (2 * significand u + 1) * 2 ^ (s - 1)" and "x \<equiv> significand u * 2 ^ s"
    and "xm \<equiv> (if closer_below u then (4 * significand u - 1) * 2 ^ (s - 2) else (2 * significand u - 1) * 2 ^ (s - 1))"
  shows "x + 1024 \<le> xp" "xm + 512 \<le> x" "xp + 6 * 10 ^ 16 \<le> 10 ^ 16 * (xp - xm)"
proof -
  define T :: nat where "T = 2 ^ (s - 2)"
  have "s = s - 2 + 2" "s - 1 = s - 2 + 1" using assms(1) by simp_all
  then have t: "(2 :: nat) ^ s = 4 * T" "(2 :: nat) ^ (s - 1) = 2 * T" "(2 :: nat) ^ (s - 2) = T"
    unfolding T_def using power_add [of "2 :: nat" "s - 2" 2] power_add [of "2 :: nat" "s - 2" 1] by simp_all
  have "(2 :: nat) ^ 9 \<le> 2 ^ (s - 2)" using assms(1) by (intro power_increasing) simp_all
  then have T: "512 \<le> T" by (simp add: T_def)
  define F where "F = significand u * T"
  have F: "F \<le> (2 ^ 53 - 1) * T" "T \<le> F"
    using sig_less [of u] assms(2) unfolding F_def by (simp_all add: mult_le_mono1)
  have e: "xp = 4 * F + 2 * T" "x = 4 * F" "xm = (if closer_below u then 4 * F - T else 4 * F - 2 * T)"
    unfolding xp_def x_def xm_def t F_def by (simp_all add: algebra_simps diff_mult_distrib flip: mult_2)
  have "closer_below u \<Longrightarrow> F = 2 ^ 52 * T" by (simp add: F_def sig_closer)
  then show "x + 1024 \<le> xp" "xm + 512 \<le> x" "xp + 6 * 10 ^ 16 \<le> 10 ^ 16 * (xp - xm)"
    using T F unfolding e by (auto split: if_splits)
qed

lemma upper_scaled:
  assumes "0 < s"
  shows "upper_midpoint u = real ((2 * significand u + 1) * 2 ^ (s - 1)) * 2 powi (int (binary_scale u) - 1074 - int s)"
proof -
  have "2 powi (int (binary_scale u) - 1074 - int s) = unit_of u / 2 ^ s"
    unfolding unit_of_def by (simp add: power_int_diff)
  moreover have "(2 :: real) ^ s = 2 * 2 ^ (s - 1)" using assms by (cases s) simp_all
  ultimately show ?thesis unfolding upper_midpoint_def by (simp add: field_simps)
qed

lemma lower_scaled:
  assumes "2 \<le> s" "0 < significand u"
  shows "lower_midpoint u = real (if closer_below u then (4 * significand u - 1) * 2 ^ (s - 2) else (2 * significand u - 1) * 2 ^ (s - 1)) *
    2 powi (int (binary_scale u) - 1074 - int s)"
proof -
  have e: "2 powi (int (binary_scale u) - 1074 - int s) = unit_of u / 2 ^ s"
    unfolding unit_of_def by (simp add: power_int_diff)
  define t where "t = s - 2"
  then have t: "s = Suc (Suc t)" using assms(1) by simp
  define P :: real where "P = 2 ^ t"
  have p: "P \<noteq> 0" "(2 :: real) ^ s = 4 * P" "(2 :: real) ^ (s - 1) = 2 * P" "(2 :: real) ^ (s - 2) = P"
    unfolding t P_def by simp_all
  have r: "real ((4 * significand u - 1) * 2 ^ (s - 2)) = (4 * real (significand u) - 1) * P"
    "real ((2 * significand u - 1) * 2 ^ (s - 1)) = (2 * real (significand u) - 1) * (2 * P)"
    unfolding of_nat_mult of_nat_power of_nat_numeral p(3,4) using assms(2) by (simp_all add: of_nat_diff)
  have q: "a / 4 * v = a * P * (v / (4 * P))" "a / 2 * v = a * (2 * P) * (v / (4 * P))" for a v
    using p(1) by simp_all
  show ?thesis unfolding lower_midpoint_def e p(2) by (cases "closer_below u") (simp_all only: if_True if_False r q)
qed

text \<open>The digit generation on three significands scaled by a cached power.\<close>

lemma digit_gen_scaled:
  assumes c: "half_ulp (cf, ce, ck)" "- 60 \<le> ce + e + 64" "ce + e + 64 \<le> - 32"
    and g: "unat x + 1024 \<le> unat xp" "unat xm + 512 \<le> unat x" "2 ^ 63 \<le> unat xp"
      "unat xp + 6 * 10 ^ 16 \<le> 10 ^ 16 * (unat xp - unat xm)"
  shows "\<exists>ds k. grisu2_digit_gen (- ck) \<lparr>fp_f = mul_f xm cf + 1, fp_e = ce + e + 64\<rparr>
      \<lparr>fp_f = mul_f x cf, fp_e = ce + e + 64\<rparr> \<lparr>fp_f = mul_f xp cf - 1, fp_e = ce + e + 64\<rparr> = Some (map digit_char ds, k) \<and>
    good_digits ds \<and> - 341 \<le> k \<and> k < 310 \<and>
    real (unat xm) * 2 powi e < real (dval ds) * 10 powi k \<and> real (dval ds) * 10 powi k < real (unat xp) * 2 powi e"
proof -
  note h = half_ulp_real [OF c(1)]
  have ck: "- 300 \<le> ck" "ck \<le> 324" using c(1) by (simp_all add: half_ulp_def Let_def)
  have sc: "unat (mul_f v cf) = scaled_significand (unat cf) (unat v)" for v by (simp add: mul_f_round scaled_significand_def)
  note sb = scaled_bounds [OF g(1,2) h(1) g(3,4), folded sc]
  let ?Mm = "mul_f xm cf + 1" and ?Mp = "mul_f xp cf - 1" and ?sh = "nat (- (ce + e + 64))"
  have Mm: "unat ?Mm = unat (mul_f xm cf) + 1"
    using sb(1) unat_u64_less [of "mul_f x cf"] by (subst u64_add) simp_all
  have Mp: "unat ?Mp = unat (mul_f xp cf) - 1"
    using sb(3) by (subst u64_sub) (simp_all add: word_le_nat_alt)
  have "2 ^ 61 - 1 \<le> unat ?Mp" using diff_le_mono [OF sb(3)] unfolding Mp .
  then have "2 ^ 60 \<le> unat ?Mp" by simp
  moreover have "unat (mul_f x cf) \<le> unat ?Mp" using sb(2) unfolding Mp by linarith
  ultimately have pre: "0 < unat ?Mm" "unat ?Mm \<le> unat (mul_f x cf)" "unat (mul_f x cf) \<le> unat ?Mp"
    "2 ^ 60 \<le> unat ?Mp" "unat ?Mp \<le> (unat ?Mp - unat ?Mm) * 10 ^ 16"
    using sb(1,4) unfolding Mm Mp by simp_all
  obtain ds k where d: "grisu2_digit_gen (- ck) \<lparr>fp_f = ?Mm, fp_e = ce + e + 64\<rparr> \<lparr>fp_f = mul_f x cf, fp_e = ce + e + 64\<rparr>
      \<lparr>fp_f = ?Mp, fp_e = ce + e + 64\<rparr> = Some (map digit_char ds, - ck + k)" "good_digits ds" "- 17 \<le> k" "k < 10"
    "lies_between ?sh (unat ?Mp) (unat ?Mp - unat ?Mm) (dval ds) k"
    using digit_gen_total [of "\<lparr>fp_f = ?Mp, fp_e = ce + e + 64\<rparr>" "\<lparr>fp_f = ?Mm, fp_e = ce + e + 64\<rparr>"
      "\<lparr>fp_f = mul_f x cf, fp_e = ce + e + 64\<rparr>" "- ck"] c(2,3) pre by auto
  have "real (unat ?Mm) \<le> real (dval ds) * 10 powi k * 2 ^ ?sh" "real (dval ds) * 10 powi k * 2 ^ ?sh \<le> real (unat ?Mp)"
    using between_real [OF d(5)] pre(2,3) by simp_all
  moreover have "real (unat ?Mp) < real (unat xp) * power_ratio ce ck / 2 ^ 64"
    using scaled_error [OF h(2), of "unat xp"] unat_u64_less [of xp] sb(3) unfolding Mp sc
    by (simp add: of_nat_diff abs_less_iff)
  moreover have "real (unat xm) * power_ratio ce ck / 2 ^ 64 < real (unat ?Mm)"
    using scaled_error [OF h(2), of "unat xm"] unat_u64_less [of xm] unfolding Mm sc by (simp add: abs_less_iff)
  ultimately have "real (dval ds) * 10 powi (k - ck) < real (unat xp) * 2 powi e"
    "real (unat xm) * 2 powi e < real (dval ds) * 10 powi (k - ck)"
    using c(3) unscale [of ?sh ce e "real (dval ds)" k "real (unat xp)" ck]
      unscale_lower [of ?sh ce e "real (unat xm)" ck "real (dval ds)" k] by simp_all
  then show ?thesis using d(1-4) ck by (intro exI [of _ ds] exI [of _ "k - ck"]) simp
qed

lemma grisu2_total:
  assumes "finite_pos (unat b)"
  shows "\<exists>ds x. grisu2 b = Some (map digit_char ds, x) \<and> good_digits ds \<and> - 341 \<le> x \<and> x < 310 \<and>
    lower_midpoint (unat b) < real (dval ds) * 10 powi x \<and> real (dval ds) * 10 powi x < upper_midpoint (unat b)"
proof -
  let ?u = "unat b"
  obtain B s where B: "compute_boundaries b = Some B" "11 \<le> s" "s \<le> 63"
    "2 ^ 63 \<le> significand ?u * 2 ^ s" "significand ?u * 2 ^ s < 2 ^ 64"
    "unat (fp_f (b_w B)) = significand ?u * 2 ^ s"
    "unat (fp_f (b_plus B)) = (2 * significand ?u + 1) * 2 ^ (s - 1)"
    "unat (fp_f (b_minus B)) = (if closer_below ?u then (4 * significand ?u - 1) * 2 ^ (s - 2)
      else (2 * significand ?u - 1) * 2 ^ (s - 1))"
    "fp_e (b_w B) = int (binary_scale ?u) - 1074 - int s" "fp_e (b_plus B) = int (binary_scale ?u) - 1074 - int s"
    "fp_e (b_minus B) = int (binary_scale ?u) - 1074 - int s"
    using compute_boundaries_parts [OF assms] .
  define e where "e = int (binary_scale ?u) - 1074 - int s"
  have sg: "0 < significand ?u" using assms by (simp add: finite_pos_def sig_pos)
  have "?u div 2 ^ 52 < 2047" using assms unfolding finite_pos_def by (intro less_mult_imp_div_less) simp
  then have "binary_scale ?u \<le> 2045" unfolding binary_scale_def by simp
  then have "- 1137 \<le> e" "e \<le> 960" using B(2,3) unfolding e_def by simp_all
  then obtain cf ce ck where c: "get_cached_power_for_binary_exponent e = Some (cf, ce, ck)" "half_ulp (cf, ce, ck)"
    "- 60 \<le> ce + e + 64" "ce + e + 64 \<le> - 32" by (rule cached_power_total)
  note g = gaps [OF B(2) sg, folded B(6,7,8)]
  have "2 ^ 63 \<le> unat (fp_f (b_plus B))" using B(4) g(1) by (simp add: B(6))
  note digits = digit_gen_scaled [OF c(2-4) g(1,2) this g(3)]
  have "grisu2 b = grisu2_digit_gen (- ck) \<lparr>fp_f = mul_f (fp_f (b_minus B)) cf + 1, fp_e = ce + e + 64\<rparr>
      \<lparr>fp_f = mul_f (fp_f (b_w B)) cf, fp_e = ce + e + 64\<rparr> \<lparr>fp_f = mul_f (fp_f (b_plus B)) cf - 1, fp_e = ce + e + 64\<rparr>"
    using assms c(1) by (simp add: grisu2_def finite_pos_iff B(1,9-11) grisu2_boundaries_def e_def Let_def diyfp_mul_def add.commute)
  moreover have "upper_midpoint ?u = real (unat (fp_f (b_plus B))) * 2 powi e"
    unfolding B(7) e_def using B(2) by (intro upper_scaled) simp
  moreover have "lower_midpoint ?u = real (unat (fp_f (b_minus B))) * 2 powi e"
    unfolding B(8) e_def using B(2) sg by (intro lower_scaled) simp_all
  ultimately show ?thesis using digits by simp
qed

end
