(* ===== verification/FloatText.thy ===== *)
theory FloatText
  imports GrisuCorrect
begin

text \<open>
  The text of a number: the four layouts of \<open>format_buffer\<close>, and that \<open>strtod\<close> reads the number back from
  what \<open>to_chars\<close> writes.
\<close>

section \<open>The text\<close>

definition exp_digits :: "nat \<Rightarrow> nat list" where
  "exp_digits k = (if k < 10 then [0, k] else if k < 100 then [k div 10, k mod 10] else [k div 100, k mod 100 div 10, k mod 100 mod 10])"

definition exp_text :: "int \<Rightarrow> string" where
  "exp_text e = CHR ''e'' # (if e < 0 then CHR ''-'' else CHR ''+'') # map digit_char (exp_digits (nat \<bar>e\<bar>))"

definition float_text :: "nat list \<Rightarrow> nat list \<Rightarrow> int option \<Rightarrow> string" where
  "float_text a b ex =
     map digit_char a @ (if b = [] then [] else CHR ''.'' # map digit_char b) @
     (case ex of None \<Rightarrow> [] | Some e \<Rightarrow> exp_text e)"

definition float_value :: "nat list \<Rightarrow> nat list \<Rightarrow> int option \<Rightarrow> real" where
  "float_value a b ex = real (dval (a @ b)) * 10 powi ((case ex of None \<Rightarrow> 0 | Some e \<Rightarrow> e) - int (length b))"

definition float_shape :: "nat list \<Rightarrow> nat list \<Rightarrow> int option \<Rightarrow> bool" where
  "float_shape a b ex \<longleftrightarrow>
     a \<noteq> [] \<and> (a = [0] \<or> hd a \<noteq> 0) \<and> list_all (\<lambda>d. d < 10) (a @ b) \<and> (b \<noteq> [] \<or> ex \<noteq> None) \<and>
     (case ex of None \<Rightarrow> True | Some e \<Rightarrow> \<bar>e\<bar> < 1000)"

lemma CHR_zero_digit: "CHR ''0'' = digit_char 0"
  by code_simp

lemma append_exponent_text:
  "\<bar>e\<bar> < 1000 \<Longrightarrow> append_exponent (buf @ ''e'') e = Some (buf @ exp_text e)"
  by (auto simp: append_exponent_def exp_text_def exp_digits_def abs_less_iff CHR_zero_digit Let_def)

lemma dval_from: "foldl (\<lambda>a d. 10 * a + d) c ds = c * 10 ^ length ds + dval ds"
  unfolding dval_def by (induction ds rule: rev_induct) (simp_all add: algebra_simps)

lemma dval_append: "dval (a @ b) = dval a * 10 ^ length b + dval b"
  using dval_from [of "dval a" b] by (simp add: dval_def)

lemma dval_Cons: "dval (d # ds) = d * 10 ^ length ds + dval ds"
  using dval_append [of "[d]" ds] by (simp add: dval_def)

lemma dval_zeros [simp]: "dval (replicate n 0) = 0"
  by (induction n) (simp_all add: dval_Cons)

text \<open>A text of the digits \<open>ds\<close> times a power of ten.\<close>

definition layout_of :: "nat list \<Rightarrow> int \<Rightarrow> string option \<Rightarrow> bool" where
  "layout_of ds x r \<longleftrightarrow>
     (\<exists>a b ex. r = Some (float_text a b ex) \<and> float_shape a b ex \<and> float_value a b ex = real (dval ds) * 10 powi x \<and>
        length (float_text a b ex) \<le> 24)"

lemma layout_ofI:
  "r = Some (float_text a b ex) \<Longrightarrow> float_shape a b ex \<Longrightarrow> float_value a b ex = real (dval ds) * 10 powi x \<Longrightarrow>
    length (float_text a b ex) \<le> 24 \<Longrightarrow> layout_of ds x r"
  unfolding layout_of_def by blast

lemma layout_zeros:
  assumes "good_digits ds" "0 \<le> x" "int (length ds) + x \<le> 15"
  shows "layout_of ds x (Some (map digit_char ds @ replicate (nat x) (CHR ''0'') @ ''.0''))"
proof (rule layout_ofI)
  let ?a = "ds @ replicate (nat x) 0"
  show "Some (map digit_char ds @ replicate (nat x) (CHR ''0'') @ ''.0'') = Some (float_text ?a [0] None)"
    by (simp add: float_text_def CHR_zero_digit)
  show "float_shape ?a [0] None" using assms(1) by (auto simp: float_shape_def good_digits_def list_all_iff)
  show "float_value ?a [0] None = real (dval ds) * 10 powi x"
    using assms(2) by (simp add: float_value_def dval_append dval_Cons power_int_def)
  show "length (float_text ?a [0] None) \<le> 24" using assms(2,3) by (simp add: float_text_def)
qed

lemma layout_point:
  assumes "good_digits ds" "0 < int (length ds) + x" "x < 0"
  defines "n \<equiv> nat (int (length ds) + x)"
  shows "layout_of ds x (Some (take n (map digit_char ds) @ ''.'' @ drop n (map digit_char ds)))"
proof (rule layout_ofI)
  let ?a = "take n ds" and ?b = "drop n ds"
  have b: "?b \<noteq> []" "?a \<noteq> []" "int (length ?b) = - x" using assms(1-3) by (auto simp: n_def)
  show "Some (take n (map digit_char ds) @ ''.'' @ drop n (map digit_char ds)) = Some (float_text ?a ?b None)"
    using b(1) by (simp add: float_text_def take_map drop_map)
  show "float_shape ?a ?b None" using assms(1,2) b by (simp add: float_shape_def good_digits_def hd_take n_def)
  show "float_value ?a ?b None = real (dval ds) * 10 powi x" using b(3) by (simp add: float_value_def)
  show "length (float_text ?a ?b None) \<le> 24" using assms(1) b(1) by (simp add: float_text_def good_digits_def)
qed

lemma layout_small:
  assumes "good_digits ds" "- 4 < int (length ds) + x" "int (length ds) + x \<le> 0"
  defines "z \<equiv> nat (- (int (length ds) + x))"
  shows "layout_of ds x (Some (''0.'' @ replicate z (CHR ''0'') @ map digit_char ds))"
proof (rule layout_ofI)
  let ?b = "replicate z 0 @ ds"
  have ds: "ds \<noteq> []" "list_all (\<lambda>d. d < 10) ds" "length ds \<le> 17" using assms(1) by (simp_all add: good_digits_def)
  show "Some (''0.'' @ replicate z (CHR ''0'') @ map digit_char ds) = Some (float_text [0] ?b None)"
    using ds(1) by (simp add: float_text_def CHR_zero_digit)
  show "float_shape [0] ?b None" using ds by (auto simp: float_shape_def list_all_iff)
  show "float_value [0] ?b None = real (dval ds) * 10 powi x"
    using assms(3) by (simp add: float_value_def dval_Cons dval_append z_def)
  show "length (float_text [0] ?b None) \<le> 24" using assms(2) ds by (simp add: float_text_def z_def)
qed

lemma layout_exp:
  assumes "good_digits ds" "\<bar>int (length ds) + x - 1\<bar> < 1000"
  shows "layout_of ds x (append_exponent ((if length ds = 1 then map digit_char ds
    else take 1 (map digit_char ds) @ ''.'' @ drop 1 (map digit_char ds)) @ ''e'') (int (length ds) + x - 1))"
proof -
  obtain d r where d: "ds = d # r" using assms(1) by (cases ds) (simp_all add: good_digits_def)
  let ?e = "int (length ds) + x - 1"
  show ?thesis
  proof (rule layout_ofI)
    show "append_exponent ((if length ds = 1 then map digit_char ds
        else take 1 (map digit_char ds) @ ''.'' @ drop 1 (map digit_char ds)) @ ''e'') ?e = Some (float_text [d] r (Some ?e))"
      unfolding append_exponent_text [OF assms(2)] by (auto simp: float_text_def d)
    show "float_shape [d] r (Some ?e)" using assms by (simp add: float_shape_def good_digits_def d)
    show "float_value [d] r (Some ?e) = real (dval ds) * 10 powi x" by (simp add: float_value_def d)
    show "length (float_text [d] r (Some ?e)) \<le> 24"
      using assms(1) by (simp add: float_text_def d good_digits_def exp_text_def exp_digits_def)
  qed
qed

lemma format_buffer_layout:
  assumes "good_digits ds" "- 341 \<le> x" "x < 310"
  shows "layout_of ds x (format_buffer (map digit_char ds) x (- 4) 15)"
proof -
  define n where "n = int (length ds) + x"
  have len: "0 < length ds" "length ds \<le> 17" using assms(1) by (simp_all add: good_digits_def)
  consider (zeros) "0 \<le> x" "n \<le> 15" | (point) "0 < n" "n \<le> 15" "x < 0" | (small) "- 4 < n" "n \<le> 0" | (exp) "n \<le> - 4 \<or> 15 < n"
    using len by (fastforce simp: n_def)
  then show ?thesis
  proof cases
    case zeros
    then show ?thesis using layout_zeros [OF assms(1)] by (simp add: format_buffer_def n_def Let_def)
  next
    case point
    then show ?thesis using layout_point [OF assms(1)] by (simp add: format_buffer_def n_def Let_def)
  next
    case small
    then have "\<not> 0 \<le> x" using len unfolding n_def by linarith
    then show ?thesis using layout_small [OF assms(1)] small by (simp add: format_buffer_def n_def Let_def)
  next
    case exp
    then have "format_buffer (map digit_char ds) x (- 4) 15 = append_exponent ((if length ds = 1 then map digit_char ds
        else take 1 (map digit_char ds) @ ''.'' @ drop 1 (map digit_char ds)) @ ''e'') (int (length ds) + x - 1)"
      using len by (auto simp: format_buffer_def n_def Let_def)
    then show ?thesis using layout_exp [OF assms(1)] assms(2,3) len by (simp add: abs_less_iff)
  qed
qed

section \<open>Reading the text\<close>

lemma is_dec_digit [simp]: "d < 10 \<Longrightarrow> is_dec (digit_char d)"
  by (simp add: is_dec_def)

lemma not_dec [simp]: "\<not> is_dec (CHR ''.'')" "\<not> is_dec (CHR ''e'')"
  by (simp_all add: is_dec_def digit_value_def)

lemma digits_while:
  assumes "list_all (\<lambda>d. d < 10) a" "r = [] \<or> \<not> is_dec (hd r)"
  shows "takeWhile is_dec (map digit_char a @ r) = map digit_char a" "dropWhile is_dec (map digit_char a @ r) = r"
  using assms by (induction a) (cases r; simp)+

lemma read_digits_dval: "list_all (\<lambda>d. d < 10) a \<Longrightarrow> read_digits c (map digit_char a) = c * 10 ^ length a + dval a"
  by (induction a arbitrary: c) (simp_all add: dval_Cons algebra_simps)

lemma exp_digits_dval: "k < 1000 \<Longrightarrow> dval (exp_digits k) = k \<and> list_all (\<lambda>d. d < 10) (exp_digits k)"
  by (auto simp: exp_digits_def dval_Cons less_mult_imp_div_less)

lemma hd_exp_text [simp]: "exp_text e \<noteq> []" "hd (exp_text e) = CHR ''e''"
  by (simp_all add: exp_text_def)

lemma exponent_of_exp_text: "\<bar>e\<bar> < 1000 \<Longrightarrow> exponent_of (exp_text e) = e"
  using exp_digits_dval [of "nat \<bar>e\<bar>"] by (auto simp: exponent_of_def exp_text_def read_digits_dval)

lemma decimal_of_float_text:
  assumes "float_shape a b ex"
  shows "decimal_of (float_text a b ex) = (dval (a @ b), (case ex of None \<Rightarrow> 0 | Some e \<Rightarrow> e) - int (length b))"
proof -
  define t where "t = (case ex of None \<Rightarrow> [] | Some e \<Rightarrow> exp_text e)"
  have t: "t = [] \<or> \<not> is_dec (hd t)" "exponent_of t = (case ex of None \<Rightarrow> 0 | Some e \<Rightarrow> e)"
    using assms by (auto simp: t_def float_shape_def exponent_of_def [of "[]"] exponent_of_exp_text split: option.splits)
  have l: "list_all (\<lambda>d. d < 10) a" "list_all (\<lambda>d. d < 10) b" using assms by (simp_all add: float_shape_def)
  show ?thesis
  proof (cases "b = []")
    case True
    then obtain c r where c: "t = c # r" "c = CHR ''e''" using assms by (auto simp: t_def float_shape_def exp_text_def split: option.splits)
    then show ?thesis using digits_while [OF l(1) t(1)] True t(2)
      by (simp add: decimal_of_def float_text_def t_def [symmetric] Let_def read_digits_dval l)
  next
    case False
    then show ?thesis using digits_while [OF l(1), of "CHR ''.'' # map digit_char b @ t"] digits_while [OF l(2) t(1)] t(2)
      by (simp add: decimal_of_def float_text_def t_def [symmetric] Let_def read_digits_dval l dval_append flip: map_append)
  qed
qed

text \<open>
  What \<open>to_chars\<close> writes for a finite number: no assertion fails, the text is that of a decimal number
  with at most 17 digits, it fits the buffer, and \<open>strtod\<close> reads the number back from it.
\<close>

lemma float_text_head: "float_shape a b ex \<Longrightarrow> \<exists>c t. float_text a b ex = c # t \<and> c \<noteq> CHR ''-''"
  using digit_char_not_minus by (cases a) (auto simp: float_shape_def float_text_def)

lemma strtod_float_text:
  assumes "float_shape a b ex" "nearest_double (dval (a @ b)) ((case ex of None \<Rightarrow> 0 | Some e \<Rightarrow> e) - int (length b)) = u"
    "u < infinity_bits"
  shows "strtod (float_text a b ex) = Some (of_nat u)" "strtod (CHR ''-'' # float_text a b ex) = Some (of_nat (2 ^ 63 + u))"
  using float_text_head [OF assms(1)] decimal_of_float_text [OF assms(1)] assms(2,3)
  by (auto simp: strtod_def split: option.splits)

lemma positive_text:
  assumes "finite_pos (unat v)"
  shows "\<exists>ds x a b ex. grisu2 v = Some (map digit_char ds, x) \<and> length ds \<le> 17 \<and>
    format_buffer (map digit_char ds) x (- 4) 15 = Some (float_text a b ex) \<and> float_shape a b ex \<and>
    length (float_text a b ex) \<le> 24 \<and>
    nearest_double (dval (a @ b)) ((case ex of None \<Rightarrow> 0 | Some e \<Rightarrow> e) - int (length b)) = unat v"
proof -
  obtain ds x where d: "grisu2 v = Some (map digit_char ds, x)" "good_digits ds" "- 341 \<le> x" "x < 310"
    "lower_midpoint (unat v) < real (dval ds) * 10 powi x" "real (dval ds) * 10 powi x < upper_midpoint (unat v)"
    using grisu2_total [OF assms] by blast
  obtain a b ex where t: "format_buffer (map digit_char ds) x (- 4) 15 = Some (float_text a b ex)" "float_shape a b ex"
    "float_value a b ex = real (dval ds) * 10 powi x" "length (float_text a b ex) \<le> 24"
    using format_buffer_layout [OF d(2-4)] unfolding layout_of_def by blast
  have "nearest_double (dval (a @ b)) ((case ex of None \<Rightarrow> 0 | Some e \<Rightarrow> e) - int (length b)) = unat v"
    using assms d(5,6) unfolding t(3) [symmetric] float_value_def
    by (intro nearest_between) (simp_all add: finite_pos_def infinity_bits_def)
  with d(1,2) t(1,2,4) show ?thesis unfolding good_digits_def by blast
qed

lemma to_chars_total:
  assumes "isfinite v"
  shows "\<exists>t. to_chars 64 v = Some t \<and> length t \<le> 25 \<and> strtod t = Some v \<and>
    (\<exists>a b ex. float_shape a b ex \<and> t = (if signbit v then ''-'' else []) @ float_text a b ex)"
proof -
  define w where "w = (if signbit v then negated v else v)"
  have u: "unat w = unat v mod 2 ^ 63" "unat v = (if signbit v then 2 ^ 63 + unat w else unat w)"
    using signed_bits [of v] signbit_iff [of v] unat_u64_less [of v] unfolding w_def by (auto simp: mod_if le_mod_geq)
  have fin: "unat w < infinity_bits" using assms by (simp add: isfinite_iff u(1) infinity_bits_def)
  obtain a b ex where s: "float_shape a b ex" "length (float_text a b ex) \<le> 24"
    "nearest_double (dval (a @ b)) ((case ex of None \<Rightarrow> 0 | Some e \<Rightarrow> e) - int (length b)) = unat w"
    "to_chars 64 v = Some ((if signbit v then ''-'' else []) @ float_text a b ex)"
  proof (cases "unat w = 0")
    case True
    have z: "is_zero w" using True by (simp add: signed_bits(3))
    have "to_chars 64 v = Some ((if signbit v then ''-'' else []) @ float_text [0] [0] None)"
      using assms z by (auto simp: to_chars_def w_def float_text_def CHR_zero_digit split: if_splits)
    then show thesis using True by (intro that [of "[0]" "[0]" None]) (simp_all add: float_shape_def float_text_def dval_Cons nearest_zero)
  next
    case False
    then have "finite_pos (unat w)" using fin by (simp add: finite_pos_def infinity_bits_def)
    from positive_text [OF this] obtain ds x a b ex where g: "grisu2 w = Some (map digit_char ds, x)" "length ds \<le> 17"
      "format_buffer (map digit_char ds) x (- 4) 15 = Some (float_text a b ex)" "float_shape a b ex"
      "length (float_text a b ex) \<le> 24" "nearest_double (dval (a @ b)) ((case ex of None \<Rightarrow> 0 | Some e \<Rightarrow> e) - int (length b)) = unat w"
      by blast
    have z: "\<not> is_zero w" using False u(1) by (simp add: signed_bits(3))
    have "to_chars 64 v = Some ((if signbit v then ''-'' else []) @ float_text a b ex)"
      using assms z g(1-3) by (cases "signbit v") (simp_all add: to_chars_def w_def)
    then show thesis using g by (intro that)
  qed
  have "of_nat (unat v) = v" by simp
  then have "strtod ((if signbit v then ''-'' else []) @ float_text a b ex) = Some v"
    using strtod_float_text [OF s(1,3) fin] u(2) by (auto split: if_splits)
  with s show ?thesis by (intro exI [of _ "(if signbit v then ''-'' else []) @ float_text a b ex"]) auto
qed

section \<open>Printing of floating-point numbers\<close>

text \<open>
  C31: Grisu2 is right on every positive finite number: no assertion in it fails and its loops end, it
  writes at most 17 digits without a leading zero, and the decimal number written lies strictly between
  the midpoints to the neighbouring numbers, so that every way of rounding reads it as the number.
\<close>

theorem grisu2_within_midpoints:
  assumes "isfinite b" "is_positive b"
  shows "\<exists>ds x. grisu2 b = Some (map digit_char ds, x) \<and> ds \<noteq> [] \<and> length ds \<le> 17 \<and> hd ds \<noteq> 0 \<and>
    lower_midpoint (unat b) < real (dval ds) * 10 powi x \<and> real (dval ds) * 10 powi x < upper_midpoint (unat b)"
  using grisu2_total [of b] assms by (auto simp: finite_pos_iff [symmetric] good_digits_def)

theorem grisu2_within_midpoints_witness:
  "\<exists>ds x. grisu2 1 = Some (map digit_char ds, x) \<and> length ds \<le> 17 \<and>
     real (dval ds) * 10 powi x < upper_midpoint 1"
proof -
  have "isfinite 1" "is_positive 1" by code_simp+
  from grisu2_within_midpoints [OF this] show ?thesis by auto
qed

text \<open>
  C30: every finite \<open>double\<close>, the zeros and the subnormal numbers included, is printed in at most 25 of
  the 64 characters of the buffer without a failing assertion, and \<open>strtod\<close> reads the same bits back;
  what is not finite is printed as \<open>null\<close>.
\<close>

theorem float_text_round_trips:
  "(isfinite x \<longrightarrow> (\<exists>t. dump_float x = Some t \<and> length t \<le> 25 \<and> strtod t = Some x)) \<and>
   (\<not> isfinite x \<longrightarrow> dump_float x = Some ''null'')"
  using to_chars_total [of x] by (auto simp: dump_float_def)

theorem float_text_round_trips_witness:
  "dump_float 0x3FB999999999999A = Some ''0.1'' \<and> strtod ''0.1'' = Some 0x3FB999999999999A \<and>
   dump_float 0x7FF0000000000000 = Some ''null''"
proof -
  have "isfinite 0x3FB999999999999A" "\<not> isfinite 0x7FF0000000000000" "dump_float 0x3FB999999999999A = Some ''0.1''"
    by code_simp+
  then show ?thesis
    using float_text_round_trips [of "0x3FB999999999999A"] float_text_round_trips [of "0x7FF0000000000000"] by auto
qed

end
