(* ===== verification/JsonText.thy ===== *)
theory JsonText
  imports JsonParser JsonUtf8 FloatText
begin

text \<open>
  Printing and parsing of JSON text belong together: what \<open>dump\<close> prints for a value whose
  floating-point numbers are finite, whose strings are well-formed UTF-8 and whose integers fit 64
  bits, compact or indented, \<open>parse\<close> reads back as the same value. The proof follows the printer: the
  text of every value, whatever follows it, is scanned and parsed into that value and leaves the
  parser where it would be had the value just been completed.
\<close>

section \<open>Values that can be printed\<close>

primrec json_ok :: "json \<Rightarrow> bool" where
  "json_ok JNull = True"
| "json_ok (JBool b) = True"
| "json_ok (JInt i) = (- (2 ^ 63) \<le> i \<and> i < 2 ^ 64)"
| "json_ok (JFloat x) = isfinite x"
| "json_ok (JStr s) = utf8_ok s"
| "json_ok (JArr xs) = list_all id (map json_ok xs)"
| "json_ok (JObj m) = fmpred (\<lambda>k ok. utf8_ok k \<and> ok) (fmmap json_ok m)"
| "json_ok JDiscarded = False"

lemma json_ok_object [simp]:
  "json_ok (JObj fmempty)"
  "utf8_ok k \<Longrightarrow> json_ok v \<Longrightarrow> json_ok (JObj m) \<Longrightarrow> json_ok (JObj (fmupd k v m))"
  by (auto simp: fmpred_iff)

declare json_ok.simps(7) [simp del]

lemma json_ok_set [simp]:
  "utf8_ok k \<Longrightarrow> json_ok v \<Longrightarrow> json_ok j \<Longrightarrow> json_ok (json_set j k v)"
  by (cases j) simp_all

section \<open>Strings\<close>

lemma hex_value_lower: "d < 16 \<Longrightarrow> hex_digit_value (hex_lower d) = Some d"
  by (auto simp: hex_digit_value_def hex_lower_def in_range_def)

lemma hex4_digits:
  fixes n :: nat
  assumes "n < 65536"
  shows "4096 * (n div 4096 mod 16) + (256 * (n div 256 mod 16) + (16 * (n div 16 mod 16) + n mod 16)) = n"
proof -
  have "n div 4096 mod 16 = n div 4096" using assms by (simp add: less_mult_imp_div_less)
  moreover have "n div 16 div 16 = n div 256" "n div 256 div 16 = n div 4096"
    by (simp_all add: div_mult2_eq [symmetric])
  ultimately show ?thesis
    using div_mult_mod_eq [of n 16] div_mult_mod_eq [of "n div 16" 16] div_mult_mod_eq [of "n div 256" 16]
    by linarith
qed

lemma get_codepoint_hex4: "n < 65536 \<Longrightarrow> get_codepoint (hex4 n @ rest) = Some (n, rest)"
  using hex4_digits [of n]
  by (simp add: get_codepoint_def hex4_def hex_value_lower push_bit_eq_mult algebra_simps)

lemma unicode_escape_control:
  "n < 0x80 \<Longrightarrow> scan_escape (CHR ''u'' # hex4 n @ rest) = Some ([char_of n], rest)"
  by (simp add: scan_escape_def unicode_escape_def get_codepoint_hex4 utf8_encode_def)

lemma char_code_iff: "c = d \<longleftrightarrow> code_of c = code_of d"
  by (simp add: of_char_eq_iff)

lemma plain_escape_ascii:
  assumes "code_of c < 0x80"
  shows "plain_escape c =
    (if code_of c = 0x08 then [CHR 0x5C, CHR ''b'']
     else if code_of c = 0x09 then [CHR 0x5C, CHR ''t'']
     else if code_of c = 0x0A then [CHR 0x5C, CHR ''n'']
     else if code_of c = 0x0C then [CHR 0x5C, CHR ''f'']
     else if code_of c = 0x0D then [CHR 0x5C, CHR ''r'']
     else if code_of c = 0x22 then [CHR 0x5C, CHR 0x22]
     else if code_of c = 0x5C then [CHR 0x5C, CHR 0x5C]
     else if code_of c \<le> 0x1F then CHR 0x5C # CHR ''u'' # hex4 (code_of c)
     else [c])"
  using assms
  by (simp add: plain_escape_def escape_def word_unat_eq_iff word_le_nat_alt unat_of_nat backslash_u_def)

text \<open>The lexer undoes the escape of an ASCII character.\<close>

lemma scan_plain_escape:
  assumes "code_of c < 0x80"
  shows "\<exists>e es. plain_escape c = e # es \<and> e \<noteq> CHR 0x22 \<and>
    (\<forall>rest. scan_char e (es @ rest) = Some ([c], rest))" (is ?thesis)
proof -
  note pe = plain_escape_ascii [OF assms]
  have special: ?thesis if "plain_escape c = [CHR 0x5C, e]" "e \<noteq> CHR ''u''" "simple_escape e = Some c" for e
    using that by (simp add: scan_char_def scan_escape_def)
  consider "code_of c = 0x08" | "code_of c = 0x09" | "code_of c = 0x0A" | "code_of c = 0x0C" | "code_of c = 0x0D"
    | "code_of c = 0x22" | "code_of c = 0x5C"
    | (control) "code_of c \<notin> {0x08, 0x09, 0x0A, 0x0C, 0x0D, 0x22, 0x5C}" "code_of c \<le> 0x1F"
    | (plain) "code_of c \<notin> {0x22, 0x5C}" "0x1F < code_of c"
    by fastforce
  then show ?thesis
  proof cases
    case control
    then have "plain_escape c = CHR 0x5C # CHR ''u'' # hex4 (code_of c)" by (simp add: pe)
    moreover have "scan_char (CHR 0x5C) ((CHR ''u'' # hex4 (code_of c)) @ rest) = Some ([c], rest)" for rest
      using unicode_escape_control [OF assms, of rest] by (simp add: scan_char_def)
    ultimately show ?thesis by simp
  next
    case plain
    then have "plain_escape c = [c]" using assms by (simp add: pe)
    moreover have "scan_char c ([] @ rest) = Some ([c], rest)" for rest
      using plain assms by (simp add: scan_char_def utf8_ranges_def in_range_def char_code_iff)
    moreover have "c \<noteq> CHR 0x22" using plain by (simp add: char_code_iff)
    ultimately show ?thesis by simp
  next
    case 1 then show ?thesis by (intro special [of "CHR ''b''"]) (simp_all add: pe simple_escape_def char_code_iff)
  next
    case 2 then show ?thesis by (intro special [of "CHR ''t''"]) (simp_all add: pe simple_escape_def char_code_iff)
  next
    case 3 then show ?thesis by (intro special [of "CHR ''n''"]) (simp_all add: pe simple_escape_def char_code_iff)
  next
    case 4 then show ?thesis by (intro special [of "CHR ''f''"]) (simp_all add: pe simple_escape_def char_code_iff)
  next
    case 5 then show ?thesis by (intro special [of "CHR ''r''"]) (simp_all add: pe simple_escape_def char_code_iff)
  next
    case 6 then show ?thesis by (intro special [of "CHR 0x22"]) (simp_all add: pe simple_escape_def char_code_iff)
  next
    case 7 then show ?thesis by (intro special [of "CHR 0x5C"]) (simp_all add: pe simple_escape_def char_code_iff)
  qed
qed

text \<open>A multi-byte sequence is copied as it is.\<close>

lemma utf8_from_split:
  assumes "utf8_from rs s" "\<forall>(lo, hi) \<in> set rs. 0x80 \<le> lo"
  shows "\<exists>bs t. s = bs @ t \<and> utf8_from [] t \<and> escaped bs = bs \<and>
    (\<forall>buf rest. next_byte_in_range rs buf (bs @ rest) = Some (buf @ bs, rest))"
  using assms
proof (induction rs arbitrary: s)
  case Nil
  then show ?case by (intro exI [of _ "[]"] exI [of _ s]) (simp add: escaped_def)
next
  case (Cons r rs)
  obtain lo hi where r: "r = (lo, hi)" by force
  from Cons.prems r obtain c s' where s: "s = c # s'" by (cases s) auto
  with Cons.prems r have c: "in_range lo hi c" "utf8_from rs s'" by (auto split: if_splits)
  from Cons.IH [OF c(2)] Cons.prems(2) obtain bs t where
    b: "s' = bs @ t" "utf8_from [] t" "escaped bs = bs"
      "\<forall>buf rest. next_byte_in_range rs buf (bs @ rest) = Some (buf @ bs, rest)"
    by auto
  have "0x80 \<le> code_of c" using Cons.prems(2) r c(1) by (simp add: in_range_def)
  then have "escaped (c # bs) = c # bs" using b(3) by (simp add: escaped_def plain_escape_def)
  with b c(1) s r show ?case by (intro exI [of _ "c # bs"] exI [of _ t]) simp
qed

lemma escaped_append: "escaped (s @ t) = escaped s @ escaped t"
  by (simp add: escaped_def)

lemma scan_string_escaped:
  "utf8_from [] s \<Longrightarrow> scan_string buf (escaped s @ CHR 0x22 # rest) = Some (buf @ s, rest)"
proof (induction "length s" arbitrary: s buf rule: less_induct)
  case less
  show ?case
  proof (cases s)
    case Nil
    then show ?thesis by (simp add: escaped_def scan_string.simps(2))
  next
    case (Cons c cs)
    with less.prems obtain rs where rs: "utf8_ranges c = Some rs" "utf8_from rs cs"
      by (auto split: option.splits)
    show ?thesis
    proof (cases "rs = []")
      case True
      then have "code_of c < 0x80" using utf8_ranges_high rs(1) by blast
      then obtain e es where e: "plain_escape c = e # es" "e \<noteq> CHR 0x22"
        "scan_char e (es @ escaped cs @ CHR 0x22 # rest) = Some ([c], escaped cs @ CHR 0x22 # rest)"
        using scan_plain_escape by blast
      from less.hyps [of cs "buf @ [c]"] True rs Cons
      have "scan_string (buf @ [c]) (escaped cs @ CHR 0x22 # rest) = Some (buf @ s, rest)" by simp
      with e Cons show ?thesis by (simp add: escaped_def scan_string.simps(2))
    next
      case False
      with rs(1) have high: "\<forall>(lo, hi) \<in> set rs. 0x80 \<le> lo" "0x80 \<le> code_of c"
        using utf8_ranges_high by blast+
      from utf8_from_split [OF rs(2) high(1)] obtain bs t where
        b: "cs = bs @ t" "utf8_from [] t" "escaped bs = bs"
          "\<And>buf rest. next_byte_in_range rs buf (bs @ rest) = Some (buf @ bs, rest)"
        by blast
      have "c \<noteq> CHR 0x5C" "c \<noteq> CHR 0x22" using high(2) by (auto simp: char_code_iff)
      moreover from less.hyps [of t "buf @ c # bs"] b Cons
      have "scan_string (buf @ c # bs) (escaped t @ CHR 0x22 # rest) = Some (buf @ s, rest)" by simp
      moreover have "escaped s = c # bs @ escaped t"
        using b(1,3) high(2) Cons by (simp add: escaped_append [symmetric]) (simp add: escaped_def plain_escape_def)
      ultimately show ?thesis
        using high(2) rs(1) b(4) by (simp add: scan_string.simps(2) scan_char_def)
    qed
  qed
qed

section \<open>Numbers\<close>

definition ends_number :: "string \<Rightarrow> bool" where
  "ends_number rest \<longleftrightarrow>
     (case rest of [] \<Rightarrow> True | c # _ \<Rightarrow> \<not> is_digit c \<and> c \<notin> {CHR ''.'', CHR ''e'', CHR ''E''})"

lemma is_digit_digit_char: "d < 10 \<Longrightarrow> is_digit (digit_char d)"
  by (simp add: is_digit_def in_range_def digit_char_def)

lemma show_nat_is_digit: "list_all is_digit (show_nat n)"
  using set_show_nat [of _ n] is_digit_digit_char by (fastforce simp: list_all_iff)

lemma show_nat_head: "0 < n \<Longrightarrow> \<exists>d ds. show_nat n = digit_char d # ds \<and> 0 < d \<and> d < 10"
proof (induction n rule: show_nat.induct)
  case (1 n)
  show ?case
  proof (cases "n < 10")
    case True
    then show ?thesis using 1 by (subst show_nat.simps) auto
  next
    case False
    then have "0 < n div 10" by simp
    with 1 False obtain d ds where "show_nat (n div 10) = digit_char d # ds" "0 < d" "d < 10" by blast
    with False show ?thesis by (subst show_nat.simps) auto
  qed
qed

lemma digit_char_not_zero: "0 < d \<Longrightarrow> d < 10 \<Longrightarrow> digit_char d \<noteq> CHR ''0''"
  by (simp add: char_code_iff digit_char_def)

lemma number_move_end:
  "ends_number rest \<Longrightarrow> st \<in> {Zero, Any1, Decimal2, Any2} \<Longrightarrow>
     number_move st (case rest of [] \<Rightarrow> None | c # _ \<Rightarrow> Some c) = Done"
  by (cases rest; cases st) (simp_all add: ends_number_def number_move_def)

lemma run_number_end:
  "ends_number rest \<Longrightarrow> st \<in> {Zero, Any1, Decimal2, Any2} \<Longrightarrow> run_number st ty buf rest = Some (ty, buf, rest)"
  using number_move_end [of rest st] by (cases rest) auto

lemma run_number_digits:
  "list_all is_digit ds \<Longrightarrow> ends_number rest \<Longrightarrow>
     run_number Any1 ty buf (ds @ rest) = Some (ty, buf @ ds, rest)"
  by (induction ds arbitrary: buf) (simp_all add: run_number_end number_move_def)

lemma run_number_show:
  assumes "ends_number rest" and "enter_type st ty = ty'" and st: "st = Minus"
  shows "run_number st ty buf (show_nat n @ rest) = Some (ty', buf @ show_nat n, rest)"
proof (cases "n = 0")
  case True
  then have "show_nat n = [CHR ''0'']" by (simp add: show_nat.simps digit_char_def CHR_zero)
  with assms show ?thesis by (simp add: number_move_def run_number_end)
next
  case False
  then obtain d ds where d: "show_nat n = digit_char d # ds" "0 < d" "d < 10" using show_nat_head by blast
  moreover from this have "list_all is_digit ds" using show_nat_is_digit [of n] by simp
  ultimately show ?thesis
    using assms digit_char_not_zero [of d]
    by (simp add: number_move_def is_digit_digit_char run_number_digits)
qed

lemma first_digit_run:
  assumes "ends_number rest" "show_nat n = c # cs"
  shows "run_number (if c = CHR ''-'' then Minus else if c = CHR ''0'' then Zero else Any1) NUnsigned [c] (cs @ rest)
    = Some (NUnsigned, show_nat n, rest)"
proof (cases "n = 0")
  case True
  then have z: "show_nat n = [CHR ''0'']" by (simp add: show_nat.simps digit_char_def CHR_zero)
  with assms(2) have "c = CHR ''0''" "cs = []" by simp_all
  with assms(1) z show ?thesis by (simp add: run_number_end)
next
  case False
  then obtain d ds where d: "show_nat n = digit_char d # ds" "0 < d" "d < 10" using show_nat_head by blast
  moreover from this have "list_all is_digit ds" using show_nat_is_digit [of n] by simp
  ultimately show ?thesis
    using assms digit_char_not_zero [of d] digit_char_not_minus [of d] by (simp add: run_number_digits)
qed

text \<open>The token of a printed integer.\<close>

lemma scan_show_int:
  assumes "ends_number rest" "- (2 ^ 63) \<le> i" "i < 2 ^ 64"
  shows "\<exists>c cs t. show_int i = c # cs \<and> (c = CHR ''-'' \<or> is_digit c) \<and> scan_number c (cs @ rest) = (t, rest) \<and>
    t = (if i < 0 then value_integer i else value_unsigned (word_of_int i))"
proof (cases "i < 0")
  case True
  then have "show_int i = CHR ''-'' # show_nat (nat (- i))" by (simp add: show_int_def)
  moreover have "run_number Minus NUnsigned [CHR ''-''] (show_nat (nat (- i)) @ rest) =
      Some (NInteger, [CHR ''-''] @ show_nat (nat (- i)), rest)"
    using assms(1) by (rule run_number_show) simp_all
  moreover have "number_token NInteger ([CHR ''-''] @ show_nat (nat (- i))) = value_integer i"
    using True assms(2) by (simp add: number_token_def read_digits_show)
  ultimately show ?thesis using True by (simp add: scan_number_def)
next
  case False
  obtain c cs where c: "show_nat (nat i) = c # cs" by (cases "show_nat (nat i)") simp_all
  then have "is_digit c" using show_nat_is_digit [of "nat i"] by simp
  moreover have "number_token NUnsigned (show_nat (nat i)) = value_unsigned (word_of_int i)"
    using False assms(3) by (simp add: number_token_def read_digits_show)
  ultimately show ?thesis
    using False c first_digit_run [OF assms(1) c] by (simp add: scan_number_def show_int_def)
qed

text \<open>The token of a printed floating-point number.\<close>

lemma is_digit_map: "list_all (\<lambda>d. d < 10) a \<Longrightarrow> list_all is_digit (map digit_char a)"
  by (induction a) (simp_all add: is_digit_digit_char)

lemma not_digit_sign: "\<not> is_digit (CHR ''.'')" "\<not> is_digit (CHR ''e'')" "\<not> is_digit (CHR ''+'')" "\<not> is_digit (CHR ''-'')"
  by (simp_all add: is_digit_def in_range_def)

lemma run_more_digits:
  "list_all is_digit ds \<Longrightarrow> run_number Any1 ty buf (ds @ r) = run_number Any1 ty (buf @ ds) r"
  "list_all is_digit ds \<Longrightarrow> run_number Decimal2 ty buf (ds @ r) = run_number Decimal2 ty (buf @ ds) r"
  "list_all is_digit ds \<Longrightarrow> run_number Any2 ty buf (ds @ r) = run_number Any2 ty (buf @ ds) r"
  by (induction ds arbitrary: buf) (simp_all add: number_move_def)

lemma run_exponent:
  assumes "ends_number rest" "\<bar>e\<bar> < 1000"
  shows "st \<in> {Zero, Any1, Decimal2} \<Longrightarrow> run_number st ty buf (exp_text e @ rest) = Some (NFloat, buf @ exp_text e, rest)"
proof -
  have "list_all is_digit (map digit_char (exp_digits (nat \<bar>e\<bar>)))"
    using exp_digits_dval [of "nat \<bar>e\<bar>"] assms(2) by (intro is_digit_map) simp
  moreover have "exp_digits (nat \<bar>e\<bar>) \<noteq> []" by (simp add: exp_digits_def)
  ultimately obtain c cs where c: "map digit_char (exp_digits (nat \<bar>e\<bar>)) = c # cs" "is_digit c" "list_all is_digit cs"
    by (cases "map digit_char (exp_digits (nat \<bar>e\<bar>))") simp_all
  then have "run_number Sign ty buf (map digit_char (exp_digits (nat \<bar>e\<bar>)) @ rest) =
      Some (ty, buf @ map digit_char (exp_digits (nat \<bar>e\<bar>)), rest)" for ty buf
    using assms(1) by (simp add: number_move_def run_more_digits run_number_end)
  then show "st \<in> {Zero, Any1, Decimal2} \<Longrightarrow> run_number st ty buf (exp_text e @ rest) = Some (NFloat, buf @ exp_text e, rest)"
    by (auto simp: exp_text_def number_move_def not_digit_sign)
qed

lemma run_float:
  assumes "float_shape a b ex" "ends_number rest" "st \<in> {Zero, Any1}"
  defines "t \<equiv> (if b = [] then [] else CHR ''.'' # map digit_char b) @ (case ex of None \<Rightarrow> [] | Some e \<Rightarrow> exp_text e)"
  shows "run_number st ty buf (t @ rest) = Some (NFloat, buf @ t, rest)"
proof (cases b)
  case Nil
  with assms(1) obtain e where "ex = Some e" "\<bar>e\<bar> < 1000" by (auto simp: float_shape_def)
  with Nil assms(2,3) show ?thesis by (auto simp: t_def run_exponent)
next
  case (Cons d ds)
  then have "is_digit (digit_char d)" "list_all is_digit (map digit_char ds)"
    using assms(1) by (simp_all add: float_shape_def is_digit_digit_char is_digit_map)
  with Cons assms show ?thesis
    by (cases ex) (auto simp: t_def number_move_def not_digit_sign run_more_digits run_number_end run_exponent float_shape_def)
qed

lemma scan_float_text:
  assumes "float_shape a b ex" "ends_number rest" "s = (if neg then ''-'' else []) @ float_text a b ex"
  shows "\<exists>c cs. s = c # cs \<and> (c = CHR ''-'' \<or> is_digit c) \<and> scan_number c (cs @ rest) = (value_float (strtod s), rest)"
proof -
  define t where "t = (if b = [] then [] else CHR ''.'' # map digit_char b) @ (case ex of None \<Rightarrow> [] | Some e \<Rightarrow> exp_text e)"
  obtain d ds where a: "a = d # ds" "d < 10" "list_all is_digit (map digit_char ds)" "d = 0 \<longrightarrow> ds = []"
    using assms(1) by (cases a) (auto simp: float_shape_def is_digit_map)
  have ft: "float_text a b ex = digit_char d # map digit_char ds @ t" by (simp add: float_text_def t_def a)
  have run: "run_number (if digit_char d = CHR ''0'' then Zero else Any1) ty buf (map digit_char ds @ t @ rest) =
      Some (NFloat, buf @ map digit_char ds @ t, rest)" for ty buf
    using run_float [OF assms(1,2), folded t_def] a digit_char_zero [of d]
    by (cases "d = 0") (simp_all add: run_more_digits)
  show ?thesis
  proof (cases neg)
    case True
    have "run_number Minus NUnsigned ''-'' (float_text a b ex @ rest) = Some (NFloat, s, rest)"
      using run a(2,4) digit_char_zero [of d] True unfolding assms(3) ft
      by (cases "d = 0") (simp_all add: number_move_def is_digit_digit_char)
    then show ?thesis using True assms(3) by (simp add: scan_number_def number_token_def)
  next
    case False
    then show ?thesis
      using run [of NUnsigned "[digit_char d]"] digit_char_not_minus [OF a(2)] assms(3) a(2)
      by (simp add: ft scan_number_def number_token_def is_digit_digit_char)
  qed
qed

section \<open>Texts that read as a value\<close>

lemma scan_ws: "list_all is_ws w \<Longrightarrow> scan (w @ s) = scan s"
  by (induction w) (simp_all add: scan_def' skip_whitespace_def)

lemma scan_Cons: "\<not> is_ws c \<Longrightarrow> scan (c # cs) = scan_token c cs"
  by (simp add: scan_def' skip_whitespace_def)

lemma scan_structure [simp]:
  "scan (CHR ''['' # s) = (begin_array, s)" "scan (CHR '']'' # s) = (end_array, s)"
  "scan (CHR ''{'' # s) = (begin_object, s)" "scan (CHR ''}'' # s) = (end_object, s)"
  "scan (CHR '':'' # s) = (name_separator, s)" "scan (CHR '','' # s) = (value_separator, s)"
  "scan [] = (end_of_input, [])"
  by (simp_all add: scan_Cons is_ws_def scan_token_def scan_def' skip_whitespace_def)

text \<open>
  A text reads as a value when, whatever follows it, its first token starts the value and parsing
  from there leads to the point where the value is complete and the rest is still to be read.
\<close>

definition reads :: "json \<Rightarrow> string \<Rightarrow> bool" where
  "reads j s \<longleftrightarrow>
     (\<forall>rest. ends_number rest \<longrightarrow>
        (\<exists>t r. scan (s @ rest) = (t, r) \<and> t \<noteq> end_array \<and>
           (\<forall>st. parse_value t r st = after_value j rest st)))"

lemma reads_ws: "list_all is_ws w \<Longrightarrow> reads j s \<Longrightarrow> reads j (w @ s)"
  by (simp add: reads_def scan_ws)

lemma reads_literals:
  "reads JNull ''null''" "reads (JBool True) ''true''" "reads (JBool False) ''false''"
  by (simp_all add: reads_def scan_Cons is_ws_def scan_token_def scan_literal_def)

lemma scan_quoted:
  "utf8_ok s \<Longrightarrow> scan (CHR 0x22 # escaped s @ CHR 0x22 # rest) = (value_string s, rest)"
  using scan_string_escaped [of s "[]" rest] by (simp add: scan_Cons is_ws_def scan_token_def utf8_ok_def)

lemma reads_string: "utf8_ok s \<Longrightarrow> reads (JStr s) (CHR 0x22 # escaped s @ [CHR 0x22])"
  by (simp add: reads_def scan_quoted)

lemma scan_number_start:
  assumes "c = CHR ''-'' \<or> is_digit c"
  shows "scan (c # cs) = scan_number c cs"
proof -
  have "c \<notin> {CHR ''['', CHR '']'', CHR ''{'', CHR ''}'', CHR '':'', CHR '','', CHR ''t'', CHR ''f'', CHR ''n'', CHR 0x22}"
    "\<not> is_ws c" using assms by (auto simp: is_digit_def in_range_def is_ws_def)
  then show ?thesis using assms by (simp add: scan_Cons scan_token_def)
qed

lemma reads_int:
  assumes "- (2 ^ 63) \<le> i" "i < 2 ^ 64"
  shows "reads (JInt i) (dump_integer i)"
  unfolding reads_def
proof (intro allI impI)
  fix rest assume "ends_number rest"
  from scan_show_int [OF this assms] obtain c cs t where
    t: "show_int i = c # cs" "c = CHR ''-'' \<or> is_digit c" "scan_number c (cs @ rest) = (t, rest)"
      "t = (if i < 0 then value_integer i else value_unsigned (word_of_int i))" by blast
  then have "scan (dump_integer i @ rest) = (t, rest)"
    by (simp add: dump_integer_show [OF assms] scan_number_start)
  moreover have "t \<noteq> end_array" using t(4) by simp
  moreover have "parse_value t rest st = after_value (JInt i) rest st" for st
    using t(4) assms by (simp add: uint_word_of_int take_bit_int_eq_self)
  ultimately show "\<exists>t r. scan (dump_integer i @ rest) = (t, r) \<and> t \<noteq> end_array \<and>
      (\<forall>st. parse_value t r st = after_value (JInt i) rest st)" by blast
qed

lemma reads_float:
  assumes "isfinite x"
  shows "\<exists>s. dump_float x = Some s \<and> reads (JFloat x) s"
proof -
  from to_chars_total [OF assms] obtain s a b ex where s: "to_chars 64 x = Some s" "strtod s = Some x"
    "float_shape a b ex" "s = (if signbit x then ''-'' else []) @ float_text a b ex" by blast
  have "\<exists>t r. scan (s @ rest) = (t, r) \<and> t \<noteq> end_array \<and> (\<forall>st. parse_value t r st = after_value (JFloat x) rest st)"
    if rest: "ends_number rest" for rest
  proof -
    from scan_float_text [OF s(3) rest s(4)] obtain c cs where
      c: "s = c # cs" "c = CHR ''-'' \<or> is_digit c" "scan_number c (cs @ rest) = (value_float (Some x), rest)"
      unfolding s(2) by blast
    then have "scan (s @ rest) = (value_float (Some x), rest)" by (simp add: scan_number_start)
    then show ?thesis by simp
  qed
  then show ?thesis using s(1) assms by (simp add: reads_def dump_float_def)
qed

section \<open>Printing without the buffer of spaces\<close>

text \<open>
  The reference: the same text, with as many spaces as the indentation asks for. Up to an indentation
  of 1024 the serializer prints exactly this, because its string of spaces is always long enough.
\<close>

fun in_turn :: "('e + string) list \<Rightarrow> 'e + string" where
  "in_turn [] = Inr []"
| "in_turn (r # rs) = bind_sum r (\<lambda>s. bind_sum (in_turn rs) (\<lambda>t. Inr (s @ t)))"

fun between :: "string \<Rightarrow> ('e + string) list \<Rightarrow> ('e + string) list" where
  "between sep [] = []"
| "between sep [r] = [r]"
| "between sep (r # rs) = r # Inr sep # between sep rs"

definition render_items :: "bool \<Rightarrow> u32 \<Rightarrow> char \<Rightarrow> char \<Rightarrow> (u32 \<Rightarrow> (dump_error + string) list) \<Rightarrow> u32 \<Rightarrow>
    dump_error + string" where
  "render_items pretty step opn cls items ind =
     (if items 0 = [] then Inr [opn, cls]
      else if pretty then
        in_turn (Inr [opn, CHR 0x0A]
          # between [CHR '','', CHR 0x0A]
              (map (\<lambda>r. in_turn [Inr (spaces (unat (ind + step))), r]) (items (ind + step)))
          @ [Inr [CHR 0x0A], Inr (spaces (unat ind)), Inr [cls]])
      else in_turn (Inr [opn] # between [CHR '',''] (items ind) @ [Inr [cls]]))"

definition render_member :: "bool \<Rightarrow> string \<Rightarrow> dump_error + string \<Rightarrow> dump_error + string" where
  "render_member pretty k r =
     in_turn [Inr [CHR 0x22], dump_escaped strict_handler False k,
       Inr (if pretty then [CHR 0x22, CHR '':'', CHR '' ''] else [CHR 0x22, CHR '':'']), r]"

primrec render :: "bool \<Rightarrow> u32 \<Rightarrow> json \<Rightarrow> u32 \<Rightarrow> dump_error + string" where
  "render pretty step (JObj m) =
     render_items pretty step (CHR ''{'') (CHR ''}'')
       (\<lambda>n. map (\<lambda>k. render_member pretty k (the (fmlookup (fmmap (render pretty step) m) k) n))
              (sorted_list_of_fset (fmdom m)))"
| "render pretty step (JArr xs) =
     render_items pretty step (CHR ''['') (CHR '']'') (\<lambda>n. map (\<lambda>p. p n) (map (render pretty step) xs))"
| "render pretty step (JStr s) =
     (\<lambda>_. in_turn [Inr [CHR 0x22], dump_escaped strict_handler False s, Inr [CHR 0x22]])"
| "render pretty step (JBool b) = (\<lambda>_. Inr (if b then ''true'' else ''false''))"
| "render pretty step (JInt i) = (\<lambda>_. Inr (dump_integer i))"
| "render pretty step (JFloat x) = (\<lambda>_. case dump_float x of None \<Rightarrow> Inl Assertion_failed | Some t \<Rightarrow> Inr t)"
| "render pretty step JDiscarded = (\<lambda>_. Inr ''<discarded>'')"
| "render pretty step JNull = (\<lambda>_. Inr ''null'')"

text \<open>A printer writes a given text wherever the string of spaces has at least \<open>lo\<close>, and does not shorten it.\<close>

definition writes :: "nat \<Rightarrow> printer \<Rightarrow> dump_error + string \<Rightarrow> bool" where
  "writes lo p r \<longleftrightarrow> (\<forall>len \<ge> lo. \<exists>len' \<ge> len. p len = bind_sum r (\<lambda>s. Inr (s, len')))"

lemma writes_mono: "writes lo p r \<Longrightarrow> lo \<le> lo' \<Longrightarrow> writes lo' p r"
  by (auto simp: writes_def)

lemma writes_simps [simp]:
  "writes lo (lit s) (Inr s)" "writes lo (escaped_string s) (dump_escaped strict_handler False s)"
  "writes lo (\<lambda>_. Inl e) (Inl e)"
  by (auto simp: writes_def lit_def escaped_string_def)

lemma writes_indentation: "unat n \<le> lo \<Longrightarrow> writes lo (indentation n) (Inr (spaces (unat n)))"
  by (auto simp: writes_def indentation_def)

lemma writes_Cons:
  assumes "writes lo p r" "writes lo (sequence ps) (in_turn rs)"
  shows "writes lo (sequence (p # ps)) (in_turn (r # rs))"
  unfolding writes_def
proof (intro allI impI)
  fix len assume "lo \<le> len"
  with assms(1) obtain len1 where 1: "len \<le> len1" "p len = bind_sum r (\<lambda>s. Inr (s, len1))"
    unfolding writes_def by blast
  with assms(2) \<open>lo \<le> len\<close> obtain len2 where 2: "len1 \<le> len2"
    "sequence ps len1 = bind_sum (in_turn rs) (\<lambda>s. Inr (s, len2))" unfolding writes_def by (meson le_trans)
  show "\<exists>len' \<ge> len. sequence (p # ps) len = bind_sum (in_turn (r # rs)) (\<lambda>s. Inr (s, len'))"
    using 1 2 by (intro exI [of _ len2]) (cases r; cases "in_turn rs"; simp)
qed

lemma writes_sequence: "list_all2 (writes lo) ps rs \<Longrightarrow> writes lo (sequence ps) (in_turn rs)"
proof (induction rule: list_all2_induct)
  case Nil
  then show ?case by (auto simp: writes_def)
qed (rule writes_Cons)

lemma writes_separated:
  "list_all2 (writes lo) ps rs \<Longrightarrow> list_all2 (writes lo) (separated sep ps) (between sep rs)"
proof (induction sep ps arbitrary: rs rule: separated.induct)
  case (3 sep p q ps)
  then obtain r r' rs' where "rs = r # r' # rs'" "writes lo p r" "list_all2 (writes lo) (q # ps) (r' # rs')"
    by (auto simp: list_all2_Cons1)
  with "3.IH" show ?case by simp
qed (auto simp: list_all2_Cons1)

text \<open>What the string of spaces must have for a value at an indentation.\<close>

definition need :: "u32 \<Rightarrow> u32 \<Rightarrow> nat" where
  "need step ind = max INDENT_STRING (max (unat ind) (if ind = 0 then 0 else unat step))"

lemma grown:
  assumes "unat step \<le> 1024" "need step ind \<le> len" "len' = (if len < unat (ind + step) then len * 2 else len)"
  shows "need step (ind + step) \<le> len' \<and> len \<le> len'"
proof -
  have "unat (ind + step) \<le> unat ind + unat step" by (simp add: unat_plus_if_size)
  then show ?thesis using assms by (auto simp: need_def INDENT_STRING_def split: if_splits)
qed

lemma writes_items:
  assumes "unat step \<le> 1024" "\<And>n. list_all2 (writes (need step n)) (items n) (ritems n)"
  shows "writes (need step ind) (dump_items pretty step opn cls items ind) (render_items pretty step opn cls ritems ind)"
proof -
  have empty: "items 0 = [] \<longleftrightarrow> ritems 0 = []" using assms(2) [of 0] by (auto simp: list_all2_Nil list_all2_Nil2)
  have compact: "writes (need step ind) (sequence (lit [opn] # separated [CHR '',''] (items ind) @ [lit [cls]]))
      (in_turn (Inr [opn] # between [CHR '',''] (ritems ind) @ [Inr [cls]]))"
    by (intro writes_sequence) (simp add: list_all2_appendI writes_separated assms(2))
  let ?n = "ind + step"
  let ?ps = "separated [CHR '','', CHR 0x0A] (map (\<lambda>p. sequence [indentation ?n, p]) (items ?n))
      @ [lit [CHR 0x0A], indentation ind, lit [cls]]"
  let ?rs = "between [CHR '','', CHR 0x0A] (map (\<lambda>r. in_turn [Inr (spaces (unat ?n)), r]) (ritems ?n))
      @ [Inr [CHR 0x0A], Inr (spaces (unat ind)), Inr [cls]]"
  have own: "writes (need step ?n) (indentation ?n) (Inr (spaces (unat ?n)))"
    by (rule writes_indentation) (simp add: need_def)
  have "list_all2 (writes (need step ?n)) (map (\<lambda>p. sequence [indentation ?n, p]) (items ?n))
      (map (\<lambda>r. in_turn [Inr (spaces (unat ?n)), r]) (ritems ?n))"
    unfolding list_all2_map1 list_all2_map2
    by (rule list_all2_mono [OF assms(2)]) (intro writes_sequence list_all2_Cons [THEN iffD2] conjI own, simp_all)
  then have lines: "list_all2 (writes (max (need step ?n) (unat ind))) (map (\<lambda>p. sequence [indentation ?n, p]) (items ?n))
      (map (\<lambda>r. in_turn [Inr (spaces (unat ?n)), r]) (ritems ?n))"
    by (rule list_all2_mono) (erule writes_mono, simp)
  have body: "writes (max (need step ?n) (unat ind)) (sequence ?ps) (in_turn ?rs)"
    by (intro writes_sequence list_all2_appendI writes_separated lines) (simp add: writes_indentation)
  have pretty: "writes (need step ind) (sequence (lit [opn, CHR 0x0A] # grow ?n # ?ps)) (in_turn (Inr [opn, CHR 0x0A] # ?rs))"
    unfolding writes_def
  proof (intro allI impI)
    fix len assume len: "need step ind \<le> len"
    define len1 where "len1 = (if len < unat ?n then len * 2 else len)"
    have "max (need step ?n) (unat ind) \<le> len1" "len \<le> len1"
      using grown [OF assms(1) len len1_def] len by (auto simp: need_def)
    then obtain len2 where "len1 \<le> len2" "sequence ?ps len1 = bind_sum (in_turn ?rs) (\<lambda>s. Inr (s, len2))"
      using body unfolding writes_def by blast
    then show "\<exists>len' \<ge> len. sequence (lit [opn, CHR 0x0A] # grow ?n # ?ps) len =
        bind_sum (in_turn (Inr [opn, CHR 0x0A] # ?rs)) (\<lambda>s. Inr (s, len'))"
      using \<open>len \<le> len1\<close> unfolding len1_def
      by (intro exI [of _ len2]) (cases "in_turn ?rs"; simp add: lit_def grow_def)
  qed
  show ?thesis
    unfolding dump_items_def render_items_def Let_def empty using compact pretty by simp
qed

lemma writes_member: "writes lo p r \<Longrightarrow> writes lo (dump_member pretty k p) (render_member pretty k r)"
  unfolding dump_member_def render_member_def by (intro writes_sequence) simp

lemma dump_writes:
  assumes "unat step \<le> 1024"
  shows "writes (need step ind) (dump pretty step j ind) (render pretty step j ind)"
proof (induction j arbitrary: ind)
  case (JArr xs)
  then show ?case unfolding dump.simps render.simps
    by (intro writes_items [OF assms]) (simp add: list_all2_conv_all_nth)
next
  case (JObj m)
  have "writes (need step n) (the (fmlookup (fmmap (dump pretty step) m) k) n) (the (fmlookup (fmmap (render pretty step) m) k) n)"
    if "k \<in> set (sorted_list_of_fset (fmdom m))" for k n
  proof -
    from that obtain v where "fmlookup m k = Some v" by (auto simp: sorted_list_of_fset.rep_eq fmlookup_dom_iff)
    then show ?thesis using JObj [OF fmran'I, of k v n] by simp
  qed
  then show ?case unfolding dump.simps render.simps
    by (intro writes_items [OF assms]) (auto simp: list_all2_map1 list_all2_map2 list_all2_same intro!: writes_member)
next
  case (JStr s)
  then show ?case unfolding dump.simps render.simps by (intro writes_sequence) simp
qed (simp_all split: option.split)

definition render_text :: "int \<Rightarrow> json \<Rightarrow> dump_error + string" where
  "render_text indent j = (if indent \<ge> 0 then render True (word_of_int indent) j 0 else render False 0 j 0)"

lemma dump_text_render:
  assumes "indent \<le> 1024"
  shows "dump_text indent j = render_text indent j"
proof -
  have dump: "bind_sum (dump pretty step j 0 INDENT_STRING) (\<lambda>(s, _). Inr s) = render pretty step j 0"
    if "unat step \<le> 1024" for pretty step
    using dump_writes [OF that, of 0 pretty j] by (cases "render pretty step j 0") (auto simp: writes_def need_def)
  have "unat (word_of_int indent :: u32) \<le> 1024" if "indent \<ge> 0"
    using assms that by (simp add: unat_eq_nat_uint uint_word_of_int nat_le_iff)
  then show ?thesis by (simp add: dump_text_def render_text_def dump)
qed

section \<open>Arrays and objects\<close>

fun joined :: "string \<Rightarrow> string list \<Rightarrow> string" where
  "joined sep [] = []"
| "joined sep [t] = t"
| "joined sep (t # ts) = t @ sep @ joined sep ts"

lemma in_turn_ok: "in_turn (map Inr ts) = Inr (concat ts)"
  by (induction ts) simp_all

lemma in_turn_append:
  "in_turn (rs @ rs') = bind_sum (in_turn rs) (\<lambda>s. bind_sum (in_turn rs') (\<lambda>t. Inr (s @ t)))"
  by (induction rs) (simp_all add: bind_sum_def split: sum.splits)

lemma in_turn_between: "in_turn (between sep (map Inr ts)) = Inr (joined sep ts)"
  by (induction sep ts rule: joined.induct) simp_all

text \<open>What is printed between the brackets: white space apart, the items between by commas.\<close>

lemma render_items_ok:
  assumes "\<And>n. items n = map Inr (ts n)" "\<And>n. ts n \<noteq> []"
  shows "\<exists>n w1 w2 w3 w4. list_all (list_all is_ws) [w1, w2, w3, w4] \<and>
    render_items pretty step opn cls items ind =
      Inr (opn # w1 @ joined (CHR '','' # w2) (map ((@) w3) (ts n)) @ w4 @ [cls])"
proof (cases pretty)
  case True
  let ?n = "ind + step"
  have m: "map (\<lambda>r. in_turn [Inr (spaces (unat ?n)), r]) (items ?n) = map Inr (map ((@) (spaces (unat ?n))) (ts ?n))"
    by (simp add: assms(1))
  have "render_items pretty step opn cls items ind =
      Inr (opn # [CHR 0x0A] @ joined [CHR '','', CHR 0x0A] (map ((@) (spaces (unat ?n))) (ts ?n))
        @ (CHR 0x0A # spaces (unat ind)) @ [cls])"
    using True assms(2) unfolding render_items_def Let_def m
    by (simp add: assms(1) in_turn_append in_turn_between del: map_map)
  moreover have "list_all is_ws (spaces k)" for k by (simp add: spaces_def is_ws_def list_all_iff)
  ultimately show ?thesis
    by (intro exI [of _ ?n] exI [of _ "[CHR 0x0A]"] exI [of _ "spaces (unat ?n)"] exI [of _ "CHR 0x0A # spaces (unat ind)"])
      (simp add: is_ws_def)
next
  case False
  then have "render_items pretty step opn cls items ind = Inr (opn # [] @ joined [CHR '',''] (map ((@) []) (ts ind)) @ [] @ [cls])"
    using assms(2) unfolding render_items_def
    by (simp add: assms(1) in_turn_append in_turn_between map_idI)
  then show ?thesis by (intro exI [of _ ind] exI [of _ "[]"]) simp
qed

lemma ends_number_ws: "list_all is_ws w \<Longrightarrow> ends_number s \<Longrightarrow> ends_number (w @ s)"
  by (cases w) (auto simp: ends_number_def is_ws_def is_digit_def in_range_def)

lemma ends_number_marks [simp]:
  "ends_number (CHR '','' # s)" "ends_number (CHR '']'' # s)" "ends_number (CHR ''}'' # s)" "ends_number []"
  by (simp_all add: ends_number_def is_digit_def in_range_def)

text \<open>What follows the first item: the other items, each behind a comma, and the closing bracket.\<close>

primrec further :: "string \<Rightarrow> string list \<Rightarrow> string" where
  "further w [] = []"
| "further w (t # ts) = CHR '','' # w @ t @ further w ts"

lemma joined_Cons: "joined (CHR '','' # w) (t # ts) = t @ further w ts"
  by (induction ts arbitrary: t) simp_all

lemma ends_number_further:
  "list_all is_ws w4 \<Longrightarrow> c \<in> {CHR '']'', CHR ''}''} \<Longrightarrow> ends_number (further w ts @ w4 @ c # rest)"
  by (cases ts) (auto simp: ends_number_ws)

lemma readsD:
  assumes "ends_number rest" "reads j s"
  shows "\<exists>t r. scan (s @ rest) = (t, r) \<and> t \<noteq> end_array \<and>
    (\<forall>st. parse_value t r st = after_value j rest st)"
  using assms by (simp add: reads_def)

lemma read_elements:
  assumes "list_all2 (reads) xs ts" "list_all is_ws w" "list_all is_ws w4"
  shows "after_value x (further w ts @ w4 @ CHR '']'' # rest) (Open_array vs # st) =
    after_value (JArr (vs @ x # xs)) rest st"
  using assms(1)
proof (induction xs arbitrary: x ts vs)
  case Nil
  then show ?case using assms(3) by (simp add: scan_ws)
next
  case (Cons y ys)
  then obtain t ts' where ts: "ts = t # ts'" "reads y t" "list_all2 (reads) ys ts'"
    by (auto simp: list_all2_Cons1)
  let ?rest = "further w ts' @ w4 @ CHR '']'' # rest"
  have "ends_number ?rest" using assms(3) by (simp add: ends_number_further)
  from readsD [OF this ts(2)] obtain tok r where "scan (t @ ?rest) = (tok, r)" "tok \<noteq> end_array"
    "\<forall>st. parse_value tok r st = after_value y ?rest st"
    by blast
  with ts(1) assms(2) Cons.IH [OF ts(3), of y "vs @ [x]"] show ?case by (simp add: scan_ws)
qed

lemma reads_array:
  assumes "list_all2 (reads) xs ts" "xs \<noteq> []" "list_all (list_all is_ws) [w1, w2, w3, w4]"
  shows "reads (JArr xs) (CHR ''['' # w1 @ joined (CHR '','' # w2) (map ((@) w3) ts) @ w4 @ [CHR '']''])"
  unfolding reads_def
proof (intro allI impI)
  fix rest :: string
  from assms obtain x xs' t ts' where x: "xs = x # xs'" "ts = t # ts'" "reads x t"
    "list_all2 (reads) xs' ts'" by (cases xs; cases ts) auto
  have "reads y s \<Longrightarrow> reads y (w3 @ s)" for y s using assms(3) by (simp add: reads_ws)
  with x(3,4) have r: "reads x (w3 @ t)" "list_all2 (reads) xs' (map ((@) w3) ts')"
    by (auto simp: list_all2_conv_all_nth)
  let ?rest = "further w2 (map ((@) w3) ts') @ w4 @ CHR '']'' # rest"
  have "ends_number ?rest" using assms(3) by (simp add: ends_number_further)
  from readsD [OF this r(1)] obtain tok r' where s: "scan ((w3 @ t) @ ?rest) = (tok, r')" "tok \<noteq> end_array"
    "\<forall>st. parse_value tok r' st = after_value x ?rest st"
    by blast
  have "parse_value begin_array (w1 @ (w3 @ t) @ ?rest) st = after_value (JArr xs) rest st" for st
    using s read_elements [OF r(2), of w2 w4 x rest "[]" st] assms(3) x(1) by (simp add: scan_ws)
  then show "\<exists>t r. scan ((CHR ''['' # w1 @ joined (CHR '','' # w2) (map ((@) w3) ts) @ w4 @ [CHR '']'']) @ rest) = (t, r) \<and>
      t \<noteq> end_array \<and> (\<forall>st. parse_value t r st = after_value (JArr xs) rest st)"
    by (simp add: x(2) joined_Cons)
qed

text \<open>The members of an object: a key, a colon and a value.\<close>

definition member_text :: "string \<Rightarrow> string \<times> string \<Rightarrow> string" where
  "member_text w kt = (case kt of (k, t) \<Rightarrow> CHR 0x22 # escaped k @ CHR 0x22 # CHR '':'' # w @ t)"

definition put_members :: "(string, json) fmap \<Rightarrow> (string \<times> json) list \<Rightarrow> (string, json) fmap" where
  "put_members m kvs = foldl (\<lambda>m (k, v). fmupd k v m) m kvs"

definition reads_member :: "string \<times> json \<Rightarrow> string \<times> string \<Rightarrow> bool" where
  "reads_member kv kt \<longleftrightarrow> fst kt = fst kv \<and> utf8_ok (fst kv) \<and> reads (snd kv) (snd kt)"

lemma scan_member:
  "utf8_ok k \<Longrightarrow> scan (member_text w (k, t) @ rest) = (value_string k, CHR '':'' # w @ t @ rest)"
  by (simp add: member_text_def scan_quoted)

lemma parse_first_member:
  assumes "utf8_ok k" "list_all is_ws w1" "list_all is_ws w3" "list_all is_ws w" "scan (t @ rest) = (tok, r)"
  shows "parse_value begin_object (w1 @ w3 @ member_text w (k, t) @ rest) st =
    parse_value tok r (Open_object fmempty k # st)"
  using assms by (simp add: scan_ws scan_member)

lemma parse_next_member:
  assumes "utf8_ok k2" "list_all is_ws w2" "list_all is_ws w3" "list_all is_ws w" "scan (t @ rest) = (tok, r)"
  shows "after_value v (CHR '','' # w2 @ w3 @ member_text w (k2, t) @ rest) (Open_object m k # st) =
    parse_value tok r (Open_object (fmupd k v m) k2 # st)"
  using assms by (simp add: scan_ws scan_member)

lemma read_members:
  assumes "list_all2 (reads_member) kvs kts" "list_all (list_all is_ws) [w, w2, w3, w4]"
  shows "after_value v (further w2 (map ((@) w3 \<circ> member_text w) kts) @ w4 @ CHR ''}'' # rest) (Open_object m k # st) =
    after_value (JObj (put_members m ((k, v) # kvs))) rest st"
  using assms(1)
proof (induction kvs arbitrary: k v kts m)
  case Nil
  then show ?case using assms(2) by (simp add: scan_ws put_members_def)
next
  case (Cons kv kvs)
  from Cons.prems obtain kt kts' where kt: "kts = kt # kts'" "reads_member kv kt"
      "list_all2 (reads_member) kvs kts'"
    by (auto simp: list_all2_Cons1)
  then obtain t where ts: "kts = (fst kv, t) # kts'" "utf8_ok (fst kv)" "reads (snd kv) t"
    by (cases kt) (auto simp: reads_member_def)
  let ?rest = "further w2 (map ((@) w3 \<circ> member_text w) kts') @ w4 @ CHR ''}'' # rest"
  have "ends_number ?rest" using assms(2) by (simp add: ends_number_further)
  from readsD [OF this ts(3)] obtain tok r where "scan (t @ ?rest) = (tok, r)" "tok \<noteq> end_array"
    "\<forall>st. parse_value tok r st = after_value (snd kv) ?rest st"
    by blast
  then have "after_value v (further w2 (map ((@) w3 \<circ> member_text w) kts) @ w4 @ CHR ''}'' # rest) (Open_object m k # st) =
      after_value (snd kv) ?rest (Open_object (fmupd k v m) (fst kv) # st)"
    using ts(1) parse_next_member [OF ts(2), of w2 w3 w t ?rest tok r v m k st] assms(2)
    by (simp del: after_value.simps parse_value.simps)
  also note Cons.IH [OF kt(3)]
  also have "put_members (fmupd k v m) ((fst kv, snd kv) # kvs) = put_members m ((k, v) # kv # kvs)"
    by (simp add: put_members_def)
  finally show ?case .
qed

lemma reads_object:
  assumes "list_all2 (reads_member) kvs kts" "kvs \<noteq> []" "list_all (list_all is_ws) [w, w1, w2, w3, w4]"
  shows "reads (JObj (put_members fmempty kvs))
    (CHR ''{'' # w1 @ joined (CHR '','' # w2) (map ((@) w3) (map (member_text w) kts)) @ w4 @ [CHR ''}''])"
  unfolding reads_def
proof (intro allI impI)
  fix rest :: string
  from assms obtain kv kvs' kt kts' where kv: "kvs = kv # kvs'" "kts = kt # kts'"
    "reads_member kv kt" "list_all2 (reads_member) kvs' kts'"
    by (cases kvs; cases kts) auto
  then obtain t where x: "kts = (fst kv, t) # kts'" "utf8_ok (fst kv)" "reads (snd kv) t"
    by (cases kt) (auto simp: reads_member_def)
  let ?rest = "further w2 (map ((@) w3 \<circ> member_text w) kts') @ w4 @ CHR ''}'' # rest"
  have "ends_number ?rest" using assms(3) by (simp add: ends_number_further)
  from readsD [OF this x(3)] obtain tok r where "scan (t @ ?rest) = (tok, r)" "tok \<noteq> end_array"
    "\<forall>st. parse_value tok r st = after_value (snd kv) ?rest st"
    by blast
  then have "parse_value begin_object (w1 @ w3 @ member_text w (fst kv, t) @ ?rest) st =
      after_value (JObj (put_members fmempty kvs)) rest st" for st
    using parse_first_member [OF x(2), of w1 w3 w t ?rest tok r st] kv(1) assms(3)
      read_members [OF kv(4), of w w2 w3 w4 "snd kv" rest fmempty "fst kv" st]
    by (simp del: after_value.simps parse_value.simps)
  then show "\<exists>t r. scan ((CHR ''{'' # w1 @ joined (CHR '','' # w2) (map ((@) w3) (map (member_text w) kts)) @ w4 @ [CHR ''}'']) @ rest) = (t, r) \<and>
      t \<noteq> end_array \<and> (\<forall>st. parse_value t r st = after_value (JObj (put_members fmempty kvs)) rest st)"
    by (simp add: x(1) joined_Cons)
qed

text \<open>The members listed by key make the object again.\<close>

lemma put_members_lookup:
  assumes "distinct (map fst kvs)"
  shows "fmlookup (put_members m kvs) k = (case map_of kvs k of None \<Rightarrow> fmlookup m k | Some v \<Rightarrow> Some v)"
  using assms
proof (induction kvs arbitrary: m)
  case (Cons kv kvs)
  obtain a b where kv: "kv = (a, b)" by force
  have "fmlookup (put_members m (kv # kvs)) k = fmlookup (put_members (fmupd a b m) kvs) k"
    by (simp add: put_members_def kv)
  also have "\<dots> = (case map_of kvs k of None \<Rightarrow> fmlookup (fmupd a b m) k | Some v \<Rightarrow> Some v)"
    using Cons by simp
  also have "\<dots> = (case map_of (kv # kvs) k of None \<Rightarrow> fmlookup m k | Some v \<Rightarrow> Some v)"
    using Cons.prems map_of_eq_None_iff [of kvs a] by (auto simp: kv split: option.splits)
  finally show ?case .
qed (simp add: put_members_def)

lemma put_members_fmap:
  "put_members fmempty (map (\<lambda>k. (k, the (fmlookup m k))) (sorted_list_of_fset (fmdom m))) = m"
proof (rule fmap_ext)
  fix k
  let ?ks = "sorted_list_of_fset (fmdom m)"
  have "distinct (map fst (map (\<lambda>k. (k, the (fmlookup m k))) ?ks))" by (simp add: comp_def sorted_list_of_fset.rep_eq)
  from put_members_lookup [OF this, of fmempty k]
  show "fmlookup (put_members fmempty (map (\<lambda>k. (k, the (fmlookup m k))) ?ks)) k = fmlookup m k"
    by (auto simp: map_of_map_restrict restrict_map_def fmlookup_dom_iff sorted_list_of_fset.rep_eq split: option.splits)
qed

section \<open>The round trip\<close>

lemma reads_empty: "reads (JArr []) ''[]''" "reads (JObj fmempty) ''{}''"
  by (simp_all add: reads_def)

lemma render_member_ok:
  "utf8_ok k \<Longrightarrow> render_member pretty k (Inr t) = Inr (member_text (if pretty then '' '' else []) (k, t))"
  by (simp add: render_member_def dump_escaped_strict member_text_def)

definition prints :: "bool \<Rightarrow> u32 \<Rightarrow> json \<Rightarrow> bool" where
  "prints pretty step j \<longleftrightarrow>
     (\<forall>n. \<exists>s. render pretty step j n = Inr s \<and> reads j s)"

lemma prints_texts:
  assumes "\<forall>x \<in> A. prints pretty step (g x)"
  shows "\<exists>f. \<forall>n. \<forall>x \<in> A. render pretty step (g x) n = Inr (f n x) \<and> reads (g x) (f n x)"
proof -
  have "\<forall>n x. \<exists>s. x \<in> A \<longrightarrow> render pretty step (g x) n = Inr s \<and> reads (g x) s"
    using assms by (auto simp: prints_def)
  then show ?thesis by metis
qed

lemma prints_array:
  assumes "\<And>x. x \<in> set xs \<Longrightarrow> prints pretty step x"
  shows "prints pretty step (JArr xs)"
  unfolding prints_def
proof
  fix ind
  show "\<exists>s. render pretty step (JArr xs) ind = Inr s \<and> reads (JArr xs) s"
  proof (cases "xs = []")
    case True
    then show ?thesis by (simp add: render_items_def reads_empty)
  next
    case False
    from prints_texts [of "set xs" pretty step "\<lambda>x. x"] assms obtain f where
      f: "\<forall>n. \<forall>x \<in> set xs. render pretty step x n = Inr (f n x) \<and> reads x (f n x)" by blast
    let ?items = "\<lambda>n. map (\<lambda>p. p n) (map (render pretty step) xs)"
    have items: "?items n = map Inr (map (f n) xs)" for n using f by simp
    have "list_all2 (reads) xs (map (f n) xs)" for n using f by (simp add: list_all2_conv_all_nth)
    with False reads_array show ?thesis
      using render_items_ok [of ?items "\<lambda>n. map (f n) xs", OF items, of pretty step "CHR ''[''" "CHR '']''" ind]
      by (simp del: map_map) blast
  qed
qed

lemma prints_object:
  assumes "\<And>k v. fmlookup m k = Some v \<Longrightarrow> utf8_ok k \<and> prints pretty step v"
  shows "prints pretty step (JObj m)"
  unfolding prints_def
proof
  fix ind
  let ?ks = "sorted_list_of_fset (fmdom m)" and ?w = "if pretty then '' '' else []" and ?v = "\<lambda>k. the (fmlookup m k)"
  let ?D = "render pretty step"
  have ks: "k \<in> set ?ks \<Longrightarrow> \<exists>v. fmlookup m k = Some v" for k
    by (auto simp: sorted_list_of_fset.rep_eq fmlookup_dom_iff)
  show "\<exists>s. ?D (JObj m) ind = Inr s \<and> reads (JObj m) s"
  proof (cases "?ks = []")
    case True
    then have "fmdom m = {||}" by (simp add: sorted_list_of_fset.rep_eq fset_inject [symmetric])
    then have "m = fmempty" by (metis fmrestrict_fset_dom fmrestrict_fset_null)
    with True show ?thesis by (simp add: render_items_def reads_empty)
  next
    case False
    have "\<forall>k \<in> set ?ks. prints pretty step (?v k)" using ks assms by fastforce
    from prints_texts [OF this] obtain f where
      f: "\<forall>n. \<forall>k \<in> set ?ks. ?D (?v k) n = Inr (f n k) \<and> reads (?v k) (f n k)" by blast
    let ?items = "\<lambda>n. map (\<lambda>k. render_member pretty k (the (fmlookup (fmmap ?D m) k) n)) ?ks"
    let ?ts = "\<lambda>n. map (member_text ?w) (map (\<lambda>k. (k, f n k)) ?ks)"
    have "render_member pretty k (the (fmlookup (fmmap ?D m) k) n) = Inr (member_text ?w (k, f n k))"
      if "k \<in> set ?ks" for k n
    proof -
      have "?D (?v k) n = Inr (f n k)" using f that by blast
      then show ?thesis using ks [OF that] assms by (auto simp: render_member_ok)
    qed
    then have items: "?items n = map Inr (?ts n)" for n by simp
    have r: "list_all2 (reads_member) (map (\<lambda>k. (k, ?v k)) ?ks) (map (\<lambda>k. (k, f n k)) ?ks)" for n
      unfolding list_all2_map1 list_all2_map2 list_all2_same reads_member_def using f ks assms by auto
    from render_items_ok [of ?items ?ts, OF items, of pretty step "CHR ''{''" "CHR ''}''" ind] False
    obtain n w1 w2 w3 w4 where "list_all (list_all is_ws) [w1, w2, w3, w4]"
      and d: "?D (JObj m) ind =
        Inr (CHR ''{'' # w1 @ joined (CHR '','' # w2) (map ((@) w3) (?ts n)) @ w4 @ [CHR ''}''])"
      by (auto simp del: map_map)
    then have "reads (JObj (put_members fmempty (map (\<lambda>k. (k, ?v k)) ?ks)))
        (CHR ''{'' # w1 @ joined (CHR '','' # w2) (map ((@) w3) (?ts n)) @ w4 @ [CHR ''}''])"
      using False by (intro reads_object [OF r]) (simp_all add: is_ws_def)
    then show ?thesis using d by (simp add: put_members_fmap)
  qed
qed

lemma render_reads: "json_ok j \<Longrightarrow> prints pretty step j"
proof (induction j)
  case (JArr xs)
  then show ?case by (intro prints_array) (simp add: list_all_iff)
next
  case (JObj m)
  then show ?case by (intro prints_object) (auto simp: json_ok.simps(7) fmpred_iff intro: fmran'I)
next
  case (JFloat x)
  then show ?case using reads_float [of x] by (auto simp: prints_def)
qed (simp_all add: prints_def dump_escaped_strict reads_string reads_literals reads_int)

text \<open>A text that reads as a value does not start with a byte order mark.\<close>

lemma reads_first:
  assumes "reads j s" "ends_number rest"
  shows "skip_bom (s @ rest) = Some (s @ rest)"
proof (rule ccontr)
  assume no: "skip_bom (s @ rest) \<noteq> Some (s @ rest)"
  obtain t r where t: "scan s = (t, r)" "parse_value t r [] = Some (j, [])"
    using readsD [of "[]", OF _ assms(1)] by auto
  then have "s \<noteq> []" by auto
  with no obtain cs where "s = CHR 0xEF # cs" by (cases s) (auto simp: skip_bom_def split: if_splits)
  with t show False by (simp add: scan_Cons is_ws_def scan_token_def is_digit_def in_range_def)
qed

lemma parse_reads:
  assumes "reads j s" "ends_number rest" "strict \<longrightarrow> list_all is_ws rest"
  shows "parse_text strict (s @ rest) = Some j"
proof -
  obtain t r where "scan (s @ rest) = (t, r)" "parse_value t r [] = Some (j, rest)"
    using readsD [OF assms(2,1)] by auto
  moreover have "list_all is_ws rest \<Longrightarrow> scan rest = (end_of_input, [])"
    using scan_ws [of rest "[]"] by simp
  ultimately show ?thesis
    using assms by (auto simp: parse_text_def scan_first_def reads_first)
qed

lemma dump_text_reads: "json_ok j \<Longrightarrow> indent \<le> 1024 \<Longrightarrow> \<exists>s. dump_text indent j = Inr s \<and> reads j s"
  using render_reads by (simp add: dump_text_render render_text_def prints_def)

lemma parse_dump_text:
  assumes "json_ok j" "indent \<le> 1024" "dump_text indent j = Inr s" "ends_number rest" "strict \<longrightarrow> list_all is_ws rest"
  shows "parse_text strict (s @ rest) = Some j"
  using dump_text_reads [OF assms(1,2)] assms(3-) parse_reads by auto

section \<open>When printing throws\<close>

text \<open>The strings and keys of a value are UTF-8.\<close>

primrec json_utf8 :: "json \<Rightarrow> bool" where
  "json_utf8 JNull = True"
| "json_utf8 (JBool b) = True"
| "json_utf8 (JInt i) = True"
| "json_utf8 (JFloat r) = True"
| "json_utf8 (JStr s) = utf8_ok s"
| "json_utf8 (JArr xs) = list_all id (map json_utf8 xs)"
| "json_utf8 (JObj m) = fmpred (\<lambda>k ok. utf8_ok k \<and> ok) (fmmap json_utf8 m)"
| "json_utf8 JDiscarded = True"

lemma json_ok_utf8: "json_ok j \<Longrightarrow> json_utf8 j"
  by (induction j) (auto simp: list_all_iff json_ok.simps(7) fmpred_iff intro: fmran'I)

lemma isl_bind_sum: "isl (bind_sum r f) \<longleftrightarrow> isl r \<or> isl (f (projr r))"
  by (cases r) simp_all

lemma isl_in_turn: "isl (in_turn rs) \<longleftrightarrow> (\<exists>r \<in> set rs. isl r)"
  by (induction rs) (simp_all add: isl_bind_sum)

lemma isl_between: "(\<exists>r \<in> set (between sep rs). isl r) \<longleftrightarrow> (\<exists>r \<in> set rs. isl r)"
  by (induction sep rs rule: between.induct) auto

lemma isl_render_items:
  assumes "\<And>n. (\<exists>r \<in> set (items n). isl r) \<longleftrightarrow> P"
  shows "isl (render_items pretty step opn cls items ind) \<longleftrightarrow> items 0 \<noteq> [] \<and> P"
  using assms [of "ind + step"] assms [of ind]
  by (auto simp: render_items_def Let_def isl_in_turn isl_between isl_bind_sum bex_Un)

lemma isl_dump_escaped: "isl (dump_escaped strict_handler False s) \<longleftrightarrow> \<not> utf8_ok s"
  by (simp add: dump_escaped_strict)

lemma json_utf8_JObj: "json_utf8 (JObj m) \<longleftrightarrow> (\<forall>k v. fmlookup m k = Some v \<longrightarrow> utf8_ok k \<and> json_utf8 v)"
  by (auto simp: fmpred_iff)

lemma isl_render: "isl (render pretty step j n) \<longleftrightarrow> \<not> json_utf8 j"
proof (induction j arbitrary: n)
  case (JArr xs)
  let ?items = "\<lambda>n. map (\<lambda>p. p n) (map (render pretty step) xs)"
  have "(\<exists>r \<in> set (?items n). isl r) \<longleftrightarrow> \<not> json_utf8 (JArr xs)" for n
    using JArr by (auto simp: list_all_iff)
  from isl_render_items [of ?items, OF this] show ?case by auto
next
  case (JObj m)
  let ?ks = "sorted_list_of_fset (fmdom m)" and ?D = "render pretty step"
  let ?items = "\<lambda>n. map (\<lambda>k. render_member pretty k (the (fmlookup (fmmap ?D m) k) n)) ?ks"
  have "isl (render_member pretty k (the (fmlookup (fmmap ?D m) k) n)) \<longleftrightarrow> \<not> (utf8_ok k \<and> json_utf8 v)"
    if "fmlookup m k = Some v" for k v n
    using that JObj [of v n] fmran'I [OF that] by (auto simp: render_member_def isl_bind_sum isl_dump_escaped)
  note member = this
  have P: "(\<exists>r \<in> set (?items n). isl r) \<longleftrightarrow> \<not> json_utf8 (JObj m)" for n
  proof -
    define F where "F k = render_member pretty k (the (fmlookup (fmmap ?D m) k) n)" for k
    have "(\<exists>r \<in> set (map F ?ks). isl r) \<longleftrightarrow> (\<exists>k v. fmlookup m k = Some v \<and> isl (F k))"
      by (auto simp: sorted_list_of_fset.rep_eq fmlookup_dom_iff)
    also have "\<dots> \<longleftrightarrow> \<not> json_utf8 (JObj m)" unfolding json_utf8_JObj F_def using member by blast
    finally show ?thesis by (simp add: F_def)
  qed
  from P [of 0] have "\<not> json_utf8 (JObj m) \<longrightarrow> ?items 0 \<noteq> []" by force
  with isl_render_items [of ?items, OF P] show ?case by auto
next
  case (JFloat x)
  then show ?case using to_chars_total [of x] by (auto simp: dump_float_def)
qed (simp_all add: isl_bind_sum isl_dump_escaped)

lemma dump_text_throws_iff: "indent \<le> 1024 \<Longrightarrow> isl (dump_text indent j) \<longleftrightarrow> \<not> json_utf8 j"
  by (simp add: dump_text_render render_text_def isl_render)

lemma json_utf8_object [simp]:
  "json_utf8 (JObj fmempty)"
  "fmlookup m k = None \<Longrightarrow> json_utf8 (JObj (fmupd k v m)) \<longleftrightarrow> utf8_ok k \<and> json_utf8 v \<and> json_utf8 (JObj m)"
  unfolding json_utf8_JObj by (simp, metis fmupd_lookup option.distinct(1) option.inject)

declare json_utf8.simps(7) [simp del]

end
