(* ===== verification/JsonParsed.thy ===== *)
theory JsonParsed
  imports JsonText
begin

text \<open>
  What the parser yields: every string and key of a parsed value is well-formed UTF-8, escapes and
  surrogate pairs included, so that a value that has been parsed is printed without an exception. Two
  consequences of how the lexer and the serializer are written: a null byte ends the text, and the
  depth of a value is bounded by nothing but the length of the text.
\<close>

section \<open>Code points\<close>

text \<open>Unicode scalar values.\<close>

definition scalar_value :: "nat \<Rightarrow> bool" where
  "scalar_value cp \<longleftrightarrow> cp < 0xD800 \<or> 0xE000 \<le> cp \<and> cp \<le> 0x10FFFF"

lemma or_marks:
  "x < 32 \<Longrightarrow> 0xC0 OR x = 0xC0 + (x :: nat)" "x < 16 \<Longrightarrow> 0xE0 OR x = 0xE0 + (x :: nat)"
  "x < 8 \<Longrightarrow> 0xF0 OR x = 0xF0 + (x :: nat)" "x < 64 \<Longrightarrow> 0x80 OR x = 0x80 + (x :: nat)"
proof -
  have "list_all (\<lambda>x. 0xC0 OR x = 0xC0 + (x :: nat)) [0..<32]" "list_all (\<lambda>x. 0xE0 OR x = 0xE0 + (x :: nat)) [0..<16]"
    "list_all (\<lambda>x. 0xF0 OR x = 0xF0 + (x :: nat)) [0..<8]" "list_all (\<lambda>x. 0x80 OR x = 0x80 + (x :: nat)) [0..<64]"
    by code_simp+
  then show "x < 32 \<Longrightarrow> 0xC0 OR x = 0xC0 + (x :: nat)" "x < 16 \<Longrightarrow> 0xE0 OR x = 0xE0 + (x :: nat)"
    "x < 8 \<Longrightarrow> 0xF0 OR x = 0xF0 + (x :: nat)" "x < 64 \<Longrightarrow> 0x80 OR x = 0x80 + (x :: nat)"
    by (simp_all only: list_all_iff set_upt atLeastLessThan_iff le0 simp_thms)
qed

lemma and_low_six: "x AND 0x3F = x mod (64 :: nat)"
  using take_bit_eq_mask [of 6 x] by (simp add: take_bit_eq_mod mask_eq_exp_minus_1)

lemma utf8_ranges_mark:
  fixes a :: nat
  shows
  "2 \<le> a \<Longrightarrow> a < 32 \<Longrightarrow> utf8_ranges (char_of (0xC0 + a)) = Some [(0x80, 0xBF)]"
  "a < 16 \<Longrightarrow> utf8_ranges (char_of (0xE0 + a)) =
    Some [if a = 0 then (0xA0, 0xBF) else if a = 13 then (0x80, 0x9F) else (0x80, 0xBF), (0x80, 0xBF)]"
  "a < 5 \<Longrightarrow> utf8_ranges (char_of (0xF0 + a)) =
    Some [if a = 0 then (0x90, 0xBF) else if a = 4 then (0x80, 0x8F) else (0x80, 0xBF), (0x80, 0xBF), (0x80, 0xBF)]"
  by (simp_all add: utf8_ranges_def in_range_def)

lemma in_range_tail [simp]: "b < (64 :: nat) \<Longrightarrow> in_range lo hi (char_of (0x80 + b)) \<longleftrightarrow> lo \<le> 0x80 + b \<and> 0x80 + b \<le> hi"
  by (simp add: in_range_def)

lemma utf8_ok_sequence:
  fixes a b c d :: nat
  shows
  "2 \<le> a \<Longrightarrow> a < 32 \<Longrightarrow> b < 64 \<Longrightarrow> utf8_ok (map char_of [0xC0 + a, 0x80 + b])"
  "a < 16 \<Longrightarrow> b < 64 \<Longrightarrow> c < 64 \<Longrightarrow> (a = 0 \<Longrightarrow> 32 \<le> b) \<Longrightarrow> (a = 13 \<Longrightarrow> b < 32) \<Longrightarrow>
    utf8_ok (map char_of [0xE0 + a, 0x80 + b, 0x80 + c])"
  "a < 5 \<Longrightarrow> b < 64 \<Longrightarrow> c < 64 \<Longrightarrow> d < 64 \<Longrightarrow> (a = 0 \<Longrightarrow> 16 \<le> b) \<Longrightarrow> (a = 4 \<Longrightarrow> b < 16) \<Longrightarrow>
    utf8_ok (map char_of [0xF0 + a, 0x80 + b, 0x80 + c, 0x80 + d])"
  by (simp_all add: utf8_ok_def utf8_ranges_mark split: if_splits) linarith+

lemma utf8_ok_encode:
  assumes "scalar_value cp"
  shows "utf8_ok (utf8_encode cp)"
proof -
  have m: "cp mod 64 < 64" "cp div 64 mod 64 < 64" "cp div 4096 mod 64 < 64" by simp_all
  have d: "cp div 64 mod 64 = cp div 64 - 64 * (cp div 4096)" "cp div 4096 mod 64 = cp div 4096 - 64 * (cp div 262144)"
    by (simp_all add: minus_mult_div_eq_mod [symmetric] div_mult2_eq [symmetric])
  consider (one) "cp < 0x80" | (two) "0x80 \<le> cp" "cp \<le> 0x7FF" | (three) "0x800 \<le> cp" "cp \<le> 0xFFFF"
    | (four) "0x10000 \<le> cp" by linarith
  then show ?thesis
  proof cases
    case one
    then show ?thesis by (simp add: utf8_encode_def)
  next
    case two
    then have "2 \<le> cp div 64" "cp div 64 < 32" by auto
    with two m show ?thesis
      using utf8_ok_sequence(1) [of "cp div 64" "cp mod 64"]
      by (simp add: utf8_encode_def drop_bit_eq_div and_low_six or_marks)
  next
    case three
    then have "cp div 4096 < 16" "cp div 4096 = 0 \<Longrightarrow> 32 \<le> cp div 64 mod 64"
      "cp div 4096 = 13 \<Longrightarrow> cp div 64 mod 64 < 32"
      using assms d(1) by (auto simp: scalar_value_def)
    with three m show ?thesis
      using utf8_ok_sequence(2) [of "cp div 4096" "cp div 64 mod 64" "cp mod 64"]
      by (simp add: utf8_encode_def drop_bit_eq_div and_low_six or_marks)
  next
    case four
    then have "cp div 262144 < 5" "cp div 262144 = 0 \<Longrightarrow> 16 \<le> cp div 4096 mod 64"
      "cp div 262144 = 4 \<Longrightarrow> cp div 4096 mod 64 < 16"
      using assms d(2) by (auto simp: scalar_value_def)
    with four m show ?thesis
      using utf8_ok_sequence(3) [of "cp div 262144" "cp div 4096 mod 64" "cp div 64 mod 64" "cp mod 64"]
      by (simp add: utf8_encode_def drop_bit_eq_div and_low_six or_marks)
  qed
qed

section \<open>Strings\<close>

lemma hex_digit_value_less: "hex_digit_value c = Some d \<Longrightarrow> d < 16"
  by (auto simp: hex_digit_value_def in_range_def split: if_splits)

lemma get_digits_less: "get_digits fs cp inp = Some (n, r) \<Longrightarrow> n \<le> cp + (\<Sum>f\<leftarrow>fs. push_bit f 15)"
proof (induction fs cp inp rule: get_digits.induct)
  case (3 factor fs cp c cs)
  then obtain d where d: "hex_digit_value c = Some d" "n \<le> cp + push_bit factor d + (\<Sum>f\<leftarrow>fs. push_bit f 15)"
    by (auto split: option.splits)
  then have "push_bit factor d \<le> push_bit factor 15"
    using hex_digit_value_less by (fastforce simp: push_bit_eq_mult intro: mult_right_mono)
  with d(2) show ?case by simp
qed simp_all

lemma get_codepoint_less: "get_codepoint inp = Some (n, r) \<Longrightarrow> n < 0x10000"
  by (auto simp: get_codepoint_def push_bit_eq_mult dest: get_digits_less)

lemma unicode_escape_scalar: "unicode_escape inp = Some (cp, r) \<Longrightarrow> scalar_value cp"
  by (auto simp: unicode_escape_def scalar_value_def push_bit_eq_mult split: option.splits if_splits
      dest!: get_codepoint_less)

lemma next_byte_utf8:
  "next_byte_in_range rs buf inp = Some (b, r) \<Longrightarrow> \<exists>bs. b = buf @ bs \<and> utf8_from rs bs"
proof (induction rs buf inp rule: next_byte_in_range.induct)
  case (3 lo hi rs buf c cs)
  then obtain bs where "b = (buf @ [c]) @ bs" "utf8_from rs bs" "in_range lo hi c" by (auto split: if_splits)
  then show ?case by (intro exI [of _ "c # bs"]) simp
qed simp_all

lemma simple_escape_ascii: "simple_escape c = Some e \<Longrightarrow> utf8_ok [e]"
  by (auto simp: simple_escape_def split: if_splits)

lemma scan_char_utf8: "scan_char c cs = Some (b, r) \<Longrightarrow> utf8_ok b"
proof -
  assume s: "scan_char c cs = Some (b, r)"
  show ?thesis
  proof (cases "c = CHR 0x5C")
    case True
    with s show ?thesis
      by (auto simp: scan_char_def scan_escape_def split: list.splits if_splits
          intro: utf8_ok_encode unicode_escape_scalar simple_escape_ascii)
  next
    case False
    with s obtain rs where "utf8_ranges c = Some rs" "next_byte_in_range rs [c] cs = Some (b, r)"
      by (auto simp: scan_char_def split: if_splits option.splits)
    then show ?thesis using next_byte_utf8 by (fastforce simp: utf8_ok_def)
  qed
qed

lemma scan_string_utf8: "scan_string buf inp = Some (s, r) \<Longrightarrow> utf8_ok buf \<Longrightarrow> utf8_ok s"
  by (induction buf inp rule: scan_string.induct)
    (auto simp: scan_string.simps(2) split: if_splits option.splits dest: scan_char_utf8)

text \<open>The numbers of a token are in the range of its type.\<close>

fun token_ok :: "token \<Rightarrow> bool" where
  "token_ok (value_string s) = utf8_ok s"
| "token_ok (value_integer i) = json_ok (JInt i)"
| "token_ok (value_float (Some x)) = isfinite x"
| "token_ok _ = True"

lemma number_token_ok: "token_ok (number_token ty buf)"
  by (cases "strtod buf") (auto simp: number_token_def strtod_finite)

lemma scan_token_ok: "scan_token c cs = (t, r) \<Longrightarrow> token_ok t"
  by (auto simp: scan_token_def scan_literal_def scan_number_def number_token_ok split: if_splits option.splits
      dest: scan_string_utf8)

lemma scan_ok: "scan inp = (t, r) \<Longrightarrow> token_ok t"
  by (auto simp: scan_def' split: list.splits dest: scan_token_ok)

section \<open>Values\<close>

text \<open>Every value the parser builds can be printed: its strings are UTF-8, its numbers finite and in range.\<close>

fun frame_ok :: "frame \<Rightarrow> bool" where
  "frame_ok (Open_array vs) = json_ok (JArr vs)"
| "frame_ok (Open_object m k) \<longleftrightarrow> utf8_ok k \<and> json_ok (JObj m)"

lemma json_ok_uint: "json_ok (JInt (uint (u :: u64)))"
  using unsigned_less [of u, where ?'a = int] order_trans [OF _ uint_nonnegative [of u], of "- (2 ^ 63)"] by simp

lemma parse_ok:
  "parse_value t inp st = Some (v, r) \<Longrightarrow> token_ok t \<Longrightarrow> list_all frame_ok st \<Longrightarrow> json_ok v"
  "after_value j inp st = Some (v, r) \<Longrightarrow> json_ok j \<Longrightarrow> list_all frame_ok st \<Longrightarrow> json_ok v"
proof (induction t inp st and j inp st rule: parse_value_after_value.induct)
  case 1 then show ?case by (auto split: prod.splits token.splits dest!: scan_ok)
next
  case 2 then show ?case by (auto split: prod.splits if_splits dest!: scan_ok)
next
  case (9 u) then show ?case using json_ok_uint [of u] by simp
qed (auto split: prod.splits token.splits option.splits dest!: scan_ok)

lemma parse_text_ok: "parse_text strict s = Some j \<Longrightarrow> json_ok j"
  by (auto simp: parse_text_def scan_first_def split: prod.splits option.splits if_splits
      dest!: scan_ok parse_ok(1))

lemma parse_text_utf8: "parse_text strict s = Some j \<Longrightarrow> json_utf8 j"
  by (rule json_ok_utf8) (rule parse_text_ok)

section \<open>The depth of a value\<close>

text \<open>Arrays in arrays: the serializer calls itself once for each.\<close>

primrec nested :: "nat \<Rightarrow> json" where
  "nested 0 = JArr []"
| "nested (Suc n) = JArr [nested n]"

lemma json_ok_nested: "json_ok (nested n)"
  by (induction n) simp_all

lemma dump_nested: "render False step (nested n) ind = Inr (replicate (Suc n) CHR ''['' @ replicate (Suc n) CHR '']'')"
  by (induction n arbitrary: ind) (simp_all add: render_items_def replicate_append_same)

lemma parse_nested:
  "parse_text True (replicate (Suc n) CHR ''['' @ replicate (Suc n) CHR '']'') = Some (nested n)"
  using parse_dump_text [OF json_ok_nested, of "-1" n _ "[]" True] dump_nested
  by (simp add: dump_text_render render_text_def)

text \<open>A concrete text: an escaped pair of surrogates.\<close>

definition smile :: string where
  "smile = [CHR 0x22, CHR 0x5C] @ ''uD83D'' @ [CHR 0x5C] @ ''uDE00'' @ [CHR 0x22]"

lemma parse_smile: "parse_text True smile = Some (JStr [CHR 0xF0, CHR 0x9F, CHR 0x98, CHR 0x80])"
proof -
  have bytes: "char_of (240 :: nat) = CHR 0xF0" "char_of (159 :: nat) = CHR 0x9F" "char_of (152 :: nat) = CHR 0x98"
    "char_of (128 :: nat) = CHR 0x80" by code_simp+
  have "scan_string [] (tl smile) = Some ([CHR 0xF0, CHR 0x9F, CHR 0x98, CHR 0x80], [])"
    by (simp add: smile_def scan_string.simps(2) scan_char_def scan_escape_def unicode_escape_def get_codepoint_def
        hex_digit_value_def in_range_def utf8_encode_def bytes)
  then have "scan_token (hd smile) (tl smile) = (value_string [CHR 0xF0, CHR 0x9F, CHR 0x98, CHR 0x80], [])"
    by (simp add: scan_token_def smile_def is_digit_def in_range_def)
  then have "scan smile = (value_string [CHR 0xF0, CHR 0x9F, CHR 0x98, CHR 0x80], [])"
    by (simp add: smile_def scan_Cons is_ws_def)
  then show ?thesis
    by (simp add: parse_text_def scan_first_def skip_bom_def smile_def scan_def' skip_whitespace_def)
qed

section \<open>The text layer\<close>

text \<open>
  C22: a document whose strings are UTF-8, whose integers fit the library's types and whose
  floating-point numbers are finite is printed, compact or indented by up to 1024, and the text parses
  to the same document, every bit of a \<open>double\<close> included, alone or in front of more text in a stream.
  At every depth the string of spaces, doubled at most once per level, is long enough for the
  indentation.
\<close>

theorem printed_text_parses:
  assumes "json_ok j" "indent \<le> 1024"
  shows "\<exists>s. dump_text indent j = Inr s \<and> parse_text True s = Some j \<and>
    (\<forall>rest. ends_number rest \<longrightarrow> parse_text False (s @ rest) = Some j)"
proof -
  from dump_text_reads [OF assms] obtain s where s: "dump_text indent j = Inr s" by blast
  from parse_dump_text [OF assms s, of "[]" True] parse_dump_text [OF assms s, of _ False] s
  show ?thesis by auto
qed

theorem printed_text_parses_witness:
  "\<exists>s. dump_text 2 (JArr [JInt 7, JFloat 0x3FB999999999999A, JStr [CHR 0xC3, CHR 0xA9]]) = Inr s \<and>
     parse_text True s = Some (JArr [JInt 7, JFloat 0x3FB999999999999A, JStr [CHR 0xC3, CHR 0xA9]])"
proof -
  have "utf8_ok [CHR 0xC3, CHR 0xA9]" "isfinite 0x3FB999999999999A" by code_simp+
  then have "json_ok (JArr [JInt 7, JFloat 0x3FB999999999999A, JStr [CHR 0xC3, CHR 0xA9]])" by simp
  from printed_text_parses [OF this, of 2] show ?thesis by auto
qed

text \<open>
  The bound is sharp: the string of spaces is doubled once, to 1024. One more prints the null character at its
  end, which no parser accepts, and two more are outside of it.
\<close>

theorem indent_string_too_short:
  "dump_text 1025 (JArr [JInt 1]) = Inr (''['' @ CHR 0x0A # spaces 1024 @ CHR 0x00 # ''1'' @ CHR 0x0A # '']'')"
  "dump_text 1026 (JArr [JInt 1]) = Inl Buffer_overrun"
proof -
  have "dump_integer 1 = ''1''" by code_simp
  then show "dump_text 1025 (JArr [JInt 1]) = Inr (''['' @ CHR 0x0A # spaces 1024 @ CHR 0x00 # ''1'' @ CHR 0x0A # '']'')"
    "dump_text 1026 (JArr [JInt 1]) = Inl Buffer_overrun"
    by (simp_all add: dump_text_def dump_items_def lit_def grow_def indentation_def INDENT_STRING_def
        spaces_def [of 0])
qed

text \<open>
  C23: whatever text the parser accepts, with whatever escapes and numbers, the value is printed again
  without an exception, compact or with any indentation up to 1024, and the new text parses to the same
  value: strings are UTF-8 by then, and a number that is not finite has been refused.
\<close>

theorem parsed_text_prints:
  assumes "parse_text strict s = Some j" "indent \<le> 1024"
  shows "\<exists>t. dump_text indent j = Inr t \<and> parse_text True t = Some j"
proof -
  note ok = parse_text_ok [OF assms(1)]
  from dump_text_reads [OF ok assms(2)] obtain t where t: "dump_text indent j = Inr t" by blast
  with parse_dump_text [OF ok assms(2) t, of "[]" True] show ?thesis by simp
qed

theorem parsed_text_prints_witness:
  "\<exists>t. dump_text (-1) (JStr [CHR 0xF0, CHR 0x9F, CHR 0x98, CHR 0x80]) = Inr t \<and>
     parse_text True t = Some (JStr [CHR 0xF0, CHR 0x9F, CHR 0x98, CHR 0x80])"
  by (rule parsed_text_prints [OF parse_smile]) simp

text \<open>
  C29: a string is printed with its control characters, quotes and backslashes escaped, at most six
  bytes for one, if it is well-formed UTF-8, and otherwise printing throws: the table-driven decoder
  accepts exactly the byte sequences of the lexer's ranges, and the buffer of 512 bytes is written out
  before anything is stored past its end, however long the string is.
\<close>

theorem dump_escaped_exact:
  "dump_escaped strict_handler False s = (if utf8_ok s then Inr (concat (map plain_escape s)) else Inl Type316) \<and>
   length (concat (map plain_escape s)) \<le> 6 * length s"
  using dump_escaped_strict [of s] length_escaped [of s] by (simp add: escaped_def)

text \<open>
  The fast conversion of integers, which counts the digits and then writes pairs of them backwards
  into a buffer, prints the decimal text of every signed and unsigned 64-bit number.
\<close>

theorem dump_integer_decimal:
  assumes "- (2 ^ 63) \<le> x" "x < 2 ^ 64"
  shows "dump_integer x = show_int x"
  using assms by (rule dump_integer_show)

theorem dump_integer_decimal_witness:
  "dump_integer (- 9223372036854775808) = show_int (- 9223372036854775808) \<and>
   dump_integer 18446744073709551615 = show_int 18446744073709551615"
  using dump_integer_decimal [of "- 9223372036854775808"] dump_integer_decimal [of 18446744073709551615] by simp

end
