(* ===== verification/Json.thy ===== *)
theory Json
  imports Wire JsonParsed
begin

text \<open>
  The record of the functions the program takes from libraries, \<open>json::parse\<close> and \<open>dump\<close> as the
  program calls them, the payload parsers of \<open>server/protocol/Parser.cpp\<close> and the packet builders
  of \<open>server/protocol/Builder.cpp\<close>.
\<close>

section \<open>Library functions\<close>

text \<open>
  The functions of OpenSSL, which the program links against, as parameters of the model. The record
  holds no properties; each theorem that needs one states it as a hypothesis.
\<close>

record lib =
  sha256 :: "bytes \<Rightarrow> bytes"
  hmac_sha256 :: "bytes \<Rightarrow> bytes \<Rightarrow> bytes"
  pbkdf2_hmac :: "string \<Rightarrow> bytes \<Rightarrow> nat \<Rightarrow> nat \<Rightarrow> bytes"
  base64_encode :: "bytes \<Rightarrow> string"
  base64_decode :: "string \<Rightarrow> bytes option"
  gcm_encrypt :: "bytes \<Rightarrow> bytes \<Rightarrow> bytes \<Rightarrow> bytes \<Rightarrow> bytes \<times> bytes"
  gcm_decrypt :: "bytes \<Rightarrow> bytes \<Rightarrow> bytes \<Rightarrow> bytes \<Rightarrow> bytes \<Rightarrow> bytes option"
  rsa_public_pem :: string
  rsa_load_public :: "string \<Rightarrow> bool"
  rsa_public_encrypt :: "string \<Rightarrow> bytes \<Rightarrow> bytes option"
  rsa_private_decrypt :: "bytes \<Rightarrow> bytes option"

abbreviation value_string :: "json \<Rightarrow> string \<Rightarrow> string \<Rightarrow> json_error + string" where
  "value_string \<equiv> json_value get_string"

abbreviation value_bool :: "json \<Rightarrow> string \<Rightarrow> bool \<Rightarrow> json_error + bool" where
  "value_bool \<equiv> json_value get_bool"

abbreviation value_int :: "json \<Rightarrow> string \<Rightarrow> int \<Rightarrow> json_error + int" where
  "value_int \<equiv> json_value get_int"

abbreviation value_u64 :: "json \<Rightarrow> string \<Rightarrow> u64 \<Rightarrow> json_error + u64" where
  "value_u64 \<equiv> json_value get_u64"

section \<open>JSON text\<close>

text \<open>\<open>json::parse\<close>, and \<open>operator>>\<close> from a stream, which leaves what follows the value alone.\<close>

definition json_parse :: "string \<Rightarrow> json option" where
  "json_parse s = parse_text True s"

definition json_read :: "string \<Rightarrow> json option" where
  "json_read s = parse_text False s"

text \<open>
  \<open>dump()\<close> (with its default indentation \<open>-1\<close>) and \<open>dump(2)\<close>, which throw on a string that is not UTF-8. \<open>json_dump\<close> and
  \<open>json_dump2\<close> are for the places where the document cannot have such a string, because its
  strings are ASCII or were parsed from JSON text themselves.
\<close>

definition json_text :: "int \<Rightarrow> json \<Rightarrow> json_error + string" where
  "json_text indent j =
     (case dump_text indent j of Inl _ \<Rightarrow> Inl TypeError316 | Inr s \<Rightarrow> Inr s)"

definition text_or_empty :: "json_error + string \<Rightarrow> string" where
  "text_or_empty r = (case r of Inl _ \<Rightarrow> [] | Inr s \<Rightarrow> s)"

definition json_dump :: "json \<Rightarrow> string" where
  "json_dump j = text_or_empty (json_text (-1) j)"

definition json_dump2 :: "json \<Rightarrow> string" where
  "json_dump2 j = text_or_empty (json_text 2 j)"

lemma json_text_parse:
  assumes "json_ok j" "indent \<le> 1024"
  shows "\<exists>s. json_text indent j = Inr s \<and> json_parse s = Some j"
proof -
  from dump_text_reads [OF assms] obtain s where
    s: "dump_text indent j = Inr s" by blast
  then have "parse_text True (s @ []) = Some j" by (intro parse_dump_text [OF assms]) simp_all
  with s show ?thesis by (simp add: json_text_def json_parse_def)
qed

text \<open>Printing throws exactly where a string or a key is not UTF-8.\<close>

lemma json_text_throws: "indent \<le> 1024 \<Longrightarrow> isl (json_text indent j) \<longleftrightarrow> \<not> json_utf8 j"
  using dump_text_throws_iff [of indent j] by (auto simp: json_text_def split: sum.splits)

lemma json_text_compact: "json_text (-1) j = (if json_utf8 j then Inr (json_dump j) else Inl TypeError316)"
  using dump_text_throws_iff [of "-1" j]
  by (auto simp: json_text_def json_dump_def text_or_empty_def split: sum.splits)

text \<open>The strings of a document that was parsed are UTF-8, and so is what is printed of it.\<close>

lemma json_parse_utf8: "json_parse s = Some j \<Longrightarrow> json_utf8 j"
  by (auto simp: json_parse_def dest: parse_text_utf8)

lemma json_parse_prints: "json_parse s = Some j \<Longrightarrow> json_text (-1) j = Inr (json_dump j)"
  by (simp add: json_text_compact json_parse_utf8)

lemma value_string_utf8: "value_string j k d = Inr s \<Longrightarrow> json_utf8 j \<Longrightarrow> utf8_ok d \<Longrightarrow> utf8_ok s"
  by (cases j) (auto simp: json_utf8_JObj split: option.splits elim!: get_string.elims, metis json_utf8.simps(5))

lemma json_text_ok: "json_ok j \<Longrightarrow> json_text (-1) j = Inr (json_dump j)"
  using json_text_parse [of j "-1"] by (auto simp: json_dump_def text_or_empty_def)

lemma json_parse_dump [simp, codec_simps]: "json_ok j \<Longrightarrow> json_parse (json_dump j) = Some j"
  using json_text_parse [of j "-1"] by (auto simp: json_dump_def text_or_empty_def)

lemma json_parse_dump2 [simp, codec_simps]: "json_ok j \<Longrightarrow> json_parse (json_dump2 j) = Some j"
  using json_text_parse [of j 2] by (auto simp: json_dump2_def text_or_empty_def)

lemma json_read_dump2 [codec_simps]:
  assumes "json_ok j" "ends_number rest"
  shows "json_read (json_dump2 j @ rest) = Some j"
proof -
  from dump_text_reads [OF assms(1), of 2] obtain s where
    s: "dump_text 2 j = Inr s" by auto
  then have "parse_text False (s @ rest) = Some j"
    using assms by (intro parse_dump_text [OF assms(1)]) simp_all
  with s show ?thesis by (simp add: json_text_def json_read_def json_dump2_def text_or_empty_def)
qed

text \<open>\<open>json::parse(s, nullptr, false)\<close> gives a discarded value instead of throwing.\<close>

definition json_parse_nothrow :: "string \<Rightarrow> json" where
  "json_parse_nothrow s = (case json_parse s of None \<Rightarrow> JDiscarded | Some j \<Rightarrow> j)"

text \<open>A concrete, degenerate library for the examples.\<close>

definition plain_lib :: lib where
  "plain_lib = \<lparr>
     sha256 = (\<lambda>b. [of_nat (length b)]), hmac_sha256 = (\<lambda>d k. [of_nat (length d)] @ k),
     pbkdf2_hmac = (\<lambda>p s i n. bytes_of_string p @ s),
     base64_encode = string_of_bytes, base64_decode = (\<lambda>s. Some (bytes_of_string s)),
     gcm_encrypt = (\<lambda>k iv a p. (p, replicate 16 0)), gcm_decrypt = (\<lambda>k iv a c t. Some c),
     rsa_public_pem = ''PEM'', rsa_load_public = (\<lambda>_. True), rsa_public_encrypt = (\<lambda>pem b. Some b),
     rsa_private_decrypt = (\<lambda>b. Some b)\<rparr>"

section \<open>Parser\<close>

definition payloadToString :: "Packet \<Rightarrow> string" where
  "payloadToString pkt = string_of_bytes (payload pkt)"

record ParsedConnect =
  pc_nickname :: string
  pc_password :: string

record ParsedChat =
  chat_message :: string
  chat_room :: string

record ParsedPrivate =
  priv_to :: string
  priv_message :: string

record ParsedRoomOp =
  room_name :: string
  room_password :: string

text \<open>
  A parser assigns its result's fields one after the other; an exception keeps those assigned
  before it and leaves the others empty.
\<close>

definition parse_fields2 :: "Packet \<Rightarrow> string \<times> string \<Rightarrow> string \<times> string \<Rightarrow> string \<times> string" where
  "parse_fields2 pkt kd1 kd2 =
     (case json_parse (payloadToString pkt) of
        None \<Rightarrow> ([], [])
      | Some j \<Rightarrow>
        (case value_string j (fst kd1) (snd kd1) of
           Inl _ \<Rightarrow> ([], [])
         | Inr a \<Rightarrow>
           (case value_string j (fst kd2) (snd kd2) of
              Inl _ \<Rightarrow> (a, [])
            | Inr b \<Rightarrow> (a, b))))"

definition parse_field1 :: "Packet \<Rightarrow> string \<times> string \<Rightarrow> string" where
  "parse_field1 pkt kd =
     (case json_parse (payloadToString pkt) of
        None \<Rightarrow> []
      | Some j \<Rightarrow> (case value_string j (fst kd) (snd kd) of Inl _ \<Rightarrow> [] | Inr a \<Rightarrow> a))"

definition parseConnectRequest :: "Packet \<Rightarrow> ParsedConnect" where
  "parseConnectRequest pkt =
     (let (n, p) = parse_fields2 pkt (''nickname'', []) (''password'', [])
      in \<lparr>pc_nickname = n, pc_password = p\<rparr>)"

definition parseReconnectRequest :: "Packet \<Rightarrow> string" where
  "parseReconnectRequest pkt = parse_field1 pkt (''token'', [])"

definition parseChatSend :: "Packet \<Rightarrow> ParsedChat" where
  "parseChatSend pkt =
     (let (m, r) = parse_fields2 pkt (''message'', []) (''room'', ''general'')
      in \<lparr>chat_message = m, chat_room = r\<rparr>)"

definition parseChatPrivate :: "Packet \<Rightarrow> ParsedPrivate" where
  "parseChatPrivate pkt =
     (let (t, m) = parse_fields2 pkt (''to'', []) (''message'', [])
      in \<lparr>priv_to = t, priv_message = m\<rparr>)"

definition parseRoomJoin :: "Packet \<Rightarrow> ParsedRoomOp" where
  "parseRoomJoin pkt =
     (let (r, p) = parse_fields2 pkt (''room'', ''general'') (''password'', [])
      in \<lparr>room_name = r, room_password = p\<rparr>)"

definition parseRoomCreate :: "Packet \<Rightarrow> ParsedRoomOp" where
  "parseRoomCreate pkt =
     (let (r, p) = parse_fields2 pkt (''room'', []) (''password'', [])
      in \<lparr>room_name = r, room_password = p\<rparr>)"

definition parseRoomDelete :: "Packet \<Rightarrow> ParsedRoomOp" where
  "parseRoomDelete pkt =
     \<lparr>room_name = parse_field1 pkt (''room'', []), room_password = []\<rparr>"

section \<open>Builder\<close>

definition makePacket :: "MessageType \<Rightarrow> string \<Rightarrow> Packet" where
  "makePacket t s = mk_packet t (bytes_of_string s)"

definition makeSystemNotify :: "string \<Rightarrow> Packet" where
  "makeSystemNotify msg =
     makePacket MSG_SYSTEM_NOTIFY (json_dump (json_object [(''message'', JStr msg)]))"

definition makeConnectAccept :: "string \<Rightarrow> string \<Rightarrow> string \<Rightarrow> bool \<Rightarrow> Packet" where
  "makeConnectAccept token room nickname isAdmin =
     makePacket MSG_CONNECT_ACCEPT (json_dump (json_object
       [(''token'', JStr token), (''room'', JStr room), (''nickname'', JStr nickname),
        (''is_admin'', JBool isAdmin)]))"

definition makeConnectReject :: "ErrorCode \<Rightarrow> string \<Rightarrow> Packet" where
  "makeConnectReject code reason =
     makePacket MSG_CONNECT_REJECT (json_dump (json_object
       [(''code'', JInt (uint (err_code code))), (''reason'', JStr reason)]))"

definition makeReconnectRequest :: "string \<Rightarrow> Packet" where
  "makeReconnectRequest token =
     makePacket MSG_RECONNECT_REQUEST (json_dump (json_object [(''token'', JStr token)]))"

definition makeChatBroadcast :: "time \<Rightarrow> string \<Rightarrow> string \<Rightarrow> string \<Rightarrow> Packet" where
  "makeChatBroadcast now sender room msg =
     makePacket MSG_CHAT_BROADCAST (json_dump (json_object
       [(''sender'', JStr sender), (''room'', JStr room), (''message'', JStr msg),
        (''ts'', JInt now)]))"

definition makeUserListResponse :: "string \<Rightarrow> Packet" where
  "makeUserListResponse s = makePacket MSG_USER_LIST_RESPONSE s"

definition makeRoomListResponse :: "string \<Rightarrow> Packet" where
  "makeRoomListResponse s = makePacket MSG_ROOM_LIST_RESPONSE s"

definition makeAdminRoomInfoResponse :: "string \<Rightarrow> Packet" where
  "makeAdminRoomInfoResponse s = makePacket MSG_ADMIN_ROOM_INFO_RESPONSE s"

definition makePing :: Packet where "makePing = mk_packet MSG_PING []"

definition makePong :: Packet where "makePong = mk_packet MSG_PONG []"

definition makeError :: "ErrorCode \<Rightarrow> string \<Rightarrow> Packet" where
  "makeError code detail =
     makePacket MSG_ERROR (json_dump (json_object
       [(''code'', JInt (uint (err_code code))), (''detail'', JStr detail)]))"

definition makeDisconnect :: "string \<Rightarrow> Packet" where
  "makeDisconnect reason =
     makePacket MSG_DISCONNECT (json_dump (json_object [(''reason'', JStr reason)]))"

lemmas builder_defs = makeSystemNotify_def makeConnectAccept_def makeConnectReject_def
  makeReconnectRequest_def makeChatBroadcast_def makeUserListResponse_def makeRoomListResponse_def
  makeAdminRoomInfoResponse_def makePing_def makePong_def makeError_def makeDisconnect_def
  makePacket_def

lemma payloadToString_makePacket [simp, codec_simps]: "payloadToString (makePacket t s) = s"
  by (simp add: payloadToString_def makePacket_def)

lemma msg_type_makePacket [simp]: "msg_type (header (makePacket t s)) = msg_code t"
  by (simp add: makePacket_def)

text \<open>The types of the built packets, for the statements that tell outputs apart.\<close>

lemma builder_types [simp]:
  "msg_type (header (makeSystemNotify m)) = msg_code MSG_SYSTEM_NOTIFY"
  "msg_type (header (makeConnectAccept t r n a)) = msg_code MSG_CONNECT_ACCEPT"
  "msg_type (header (makeConnectReject c r)) = msg_code MSG_CONNECT_REJECT"
  "msg_type (header (makeChatBroadcast w s r m)) = msg_code MSG_CHAT_BROADCAST"
  "msg_type (header (makeError c d)) = msg_code MSG_ERROR"
  "msg_type (header (makeDisconnect d)) = msg_code MSG_DISCONNECT"
  "msg_type (header (makeUserListResponse s)) = msg_code MSG_USER_LIST_RESPONSE"
  "msg_type (header (makeRoomListResponse s)) = msg_code MSG_ROOM_LIST_RESPONSE"
  "msg_type (header (makeAdminRoomInfoResponse s)) = msg_code MSG_ADMIN_ROOM_INFO_RESPONSE"
  "msg_type (header makePong) = msg_code MSG_PONG"
  by (simp_all add: builder_defs)

end
