(* ===== verification/Crypto.thy ===== *)
theory Crypto
  imports Json
begin

text \<open>
  The wrappers of \<open>crypto/\<close> around OpenSSL and the server's table of session keys
  (\<open>server/security/CryptoEngine.cpp\<close>): hexadecimal coding and password hashing
  (\<open>sha256.cpp\<close>), message authentication (\<open>hmac.cpp\<close>), the layout IV, ciphertext, tag of an
  encrypted payload (\<open>aes.cpp\<close>). The primitives themselves are fields of \<open>lib\<close>; random bytes
  are arguments. Exceptions are values of \<open>crypto_error\<close>.
\<close>

datatype crypto_error =
    OddHexLength | InputTooShort | TagMismatch | InvalidKeySize | NoSession | NotInitialised
  | RsaFailed | Base64Failed | RandFailed

section \<open>Hexadecimal\<close>

definition hex_digit :: "nat \<Rightarrow> char" where
  "hex_digit d = (if d < 10 then char_of (48 + d) else char_of (87 + d))"

text \<open>The value of a character \<open>std::hex\<close> reads as a digit.\<close>

definition hex_value :: "char \<Rightarrow> nat option" where
  "hex_value c = (let n = of_char c in
     if 48 \<le> n \<and> n \<le> 57 then Some (n - 48)
     else if 97 \<le> n \<and> n \<le> 102 then Some (n - 87)
     else if 65 \<le> n \<and> n \<le> 70 then Some (n - 55)
     else None)"

definition byte_hex :: "byte \<Rightarrow> string" where
  "byte_hex b = [hex_digit (unat b div 16), hex_digit (unat b mod 16)]"

definition bytesToHex :: "bytes \<Rightarrow> string" where
  "bytesToHex bs = concat (map byte_hex bs)"

definition is_space :: "char \<Rightarrow> bool" where
  "is_space c \<longleftrightarrow> c \<in> {CHR '' '', CHR 0x09, CHR 0x0A, CHR 0x0B, CHR 0x0C, CHR 0x0D}"

text \<open>
  \<open>ss >> std::hex >> byte\<close> on a two-character string, then the cast to \<open>uint8_t\<close>: leading white
  space and a sign are accepted, reading stops at the first character that is no digit, and a
  failed extraction stores 0.
\<close>

definition read_hex2 :: "char \<Rightarrow> char \<Rightarrow> byte" where
  "read_hex2 a b =
     (case hex_value a of
        Some x \<Rightarrow> (case hex_value b of Some y \<Rightarrow> of_nat (16 * x + y) | None \<Rightarrow> of_nat x)
      | None \<Rightarrow>
        (case hex_value b of
           None \<Rightarrow> 0
         | Some y \<Rightarrow> if is_space a \<or> a = CHR ''+'' then of_nat y
                      else if a = CHR ''-'' then - of_nat y else 0))"

fun read_hex_pairs :: "string \<Rightarrow> bytes" where
  "read_hex_pairs (a # b # s) = read_hex2 a b # read_hex_pairs s"
| "read_hex_pairs _ = []"

definition fromHex :: "string \<Rightarrow> crypto_error + bytes" where
  "fromHex hex = (if length hex mod 2 \<noteq> 0 then Inl OddHexLength else Inr (read_hex_pairs hex))"

lemma hex_value_digit [simp]: "d < 16 \<Longrightarrow> hex_value (hex_digit d) = Some d"
  by (auto simp: hex_value_def hex_digit_def Let_def)

lemma read_hex2_byte [simp]:
  "read_hex2 (hex_digit (unat b div 16)) (hex_digit (unat b mod 16)) = b"
proof -
  have "unat b < 256" using unsigned_less [of b, where ?'a = nat] by simp
  then have "unat b div 16 < 16" by simp
  then show ?thesis by (simp add: read_hex2_def mult_div_mod_eq)
qed

lemma length_bytesToHex [simp]: "length (bytesToHex bs) = 2 * length bs"
  by (induction bs) (simp_all add: bytesToHex_def byte_hex_def)

lemma read_hex_pairs_bytesToHex: "read_hex_pairs (bytesToHex bs) = bs"
  by (induction bs) (simp_all add: bytesToHex_def byte_hex_def)

lemma fromHex_bytesToHex [simp, codec_simps]: "fromHex (bytesToHex bs) = Inr bs"
  by (simp add: fromHex_def read_hex_pairs_bytesToHex)

lemma utf8_ok_bytesToHex [simp]: "utf8_ok (bytesToHex bs)"
proof (rule utf8_ok_ascii)
  have d: "code_of (hex_digit d) < 0x80" if "d < 16" for d using that by (simp add: hex_digit_def)
  have "unat b div 16 < 16" for b :: byte using unsigned_less [of b, where ?'a = nat] by simp
  with d show "list_all (\<lambda>c. code_of c < 0x80) (bytesToHex bs)"
    by (induction bs) (simp_all add: bytesToHex_def byte_hex_def)
qed

lemma bytesToHex_inject [simp]: "bytesToHex a = bytesToHex b \<longleftrightarrow> a = b"
  by (metis read_hex_pairs_bytesToHex)

section \<open>Hashing\<close>

definition HASH_LEN :: nat where "HASH_LEN = 32"
definition SALT_LEN :: nat where "SALT_LEN = 16"
definition PBKDF2_ITERATIONS :: nat where "PBKDF2_ITERATIONS = 100000"

definition sha256_hash :: "lib \<Rightarrow> bytes \<Rightarrow> string" where
  "sha256_hash L data = bytesToHex (sha256 L data)"

definition pbkdf2 :: "lib \<Rightarrow> string \<Rightarrow> bytes \<Rightarrow> string" where
  "pbkdf2 L password slt = bytesToHex (pbkdf2_hmac L password slt PBKDF2_ITERATIONS HASH_LEN)"

text \<open>\<open>std::copy_n\<close> of the decoded salt into a zero-initialised 16-byte array.\<close>

definition salt_array :: "bytes \<Rightarrow> bytes" where
  "salt_array v = take SALT_LEN v @ replicate (SALT_LEN - length v) 0"

lemma salt_array_id [simp]: "length v = SALT_LEN \<Longrightarrow> salt_array v = v"
  by (simp add: salt_array_def)

text \<open>\<open>CRYPTO_memcmp\<close> guarded by the size comparison.\<close>

definition const_time_eq :: "'a list \<Rightarrow> 'a list \<Rightarrow> bool" where
  "const_time_eq a b \<longleftrightarrow> length a = length b \<and> list_all (\<lambda>(x, y). x = y) (zip a b)"

lemma const_time_eq_iff [simp]: "const_time_eq a b \<longleftrightarrow> a = b"
proof (induction a arbitrary: b)
  case (Cons x a)
  then show ?case by (cases b) (auto simp: const_time_eq_def)
qed (auto simp: const_time_eq_def)

definition hmac_verify :: "lib \<Rightarrow> bytes \<Rightarrow> bytes \<Rightarrow> bytes \<Rightarrow> bool" where
  "hmac_verify L data key expected = const_time_eq (hmac_sha256 L data key) expected"

section \<open>AES-256-GCM payloads\<close>

definition KEY_LEN :: nat where "KEY_LEN = 32"
definition IV_LEN :: nat where "IV_LEN = 16"
definition TAG_LEN :: nat where "TAG_LEN = 16"

lemmas crypto_len_defs = KEY_LEN_def IV_LEN_def TAG_LEN_def SALT_LEN_def HASH_LEN_def

definition aes_encrypt :: "lib \<Rightarrow> bytes \<Rightarrow> bytes \<Rightarrow> bytes \<Rightarrow> bytes \<Rightarrow> bytes" where
  "aes_encrypt L key iv plaintext aad =
     (let (ct, tag) = gcm_encrypt L key iv aad plaintext in iv @ ct @ tag)"

definition aes_decrypt :: "lib \<Rightarrow> bytes \<Rightarrow> bytes \<Rightarrow> bytes \<Rightarrow> crypto_error + bytes" where
  "aes_decrypt L key ciphertext aad =
     (if length ciphertext < IV_LEN + TAG_LEN then Inl InputTooShort
      else let iv = take IV_LEN ciphertext;
               tag = drop (length ciphertext - TAG_LEN) ciphertext;
               enc_len = length ciphertext - IV_LEN - TAG_LEN;
               enc_data = take enc_len (drop IV_LEN ciphertext)
           in case gcm_decrypt L key iv aad enc_data tag of
                None \<Rightarrow> Inl TagMismatch
              | Some plaintext \<Rightarrow> Inr plaintext)"

text \<open>What GCM promises on one message: the tag is 16 bytes and decryption undoes encryption.\<close>

definition gcm_inverts :: "lib \<Rightarrow> bytes \<Rightarrow> bytes \<Rightarrow> bytes \<Rightarrow> bytes \<Rightarrow> bool" where
  "gcm_inverts L key iv aad pt \<longleftrightarrow>
     (case gcm_encrypt L key iv aad pt of
        (ct, tag) \<Rightarrow> length tag = TAG_LEN \<and> gcm_decrypt L key iv aad ct tag = Some pt)"

lemma aes_roundtrip:
  assumes "length iv = IV_LEN" "gcm_inverts L key iv aad pt"
  shows "aes_decrypt L key (aes_encrypt L key iv pt aad) aad = Inr pt"
proof -
  obtain ct tag where e: "gcm_encrypt L key iv aad pt = (ct, tag)" by force
  with assms(2) have "length tag = TAG_LEN" "gcm_decrypt L key iv aad ct tag = Some pt"
    by (simp_all add: gcm_inverts_def)
  with e assms(1) show ?thesis
    by (simp add: aes_encrypt_def aes_decrypt_def Let_def)
qed

section \<open>The crypto engine\<close>

record CryptoEngine =
  initialised :: bool
  jwt_secret :: bytes
  session_keys :: "(fd, bytes) fmap"

definition engine_initialize :: "bytes \<Rightarrow> CryptoEngine \<Rightarrow> CryptoEngine" where
  "engine_initialize rand32 e =
     (if initialised e then e else e\<lparr>jwt_secret := rand32, initialised := True\<rparr>)"

definition getJWTSecret :: "CryptoEngine \<Rightarrow> crypto_error + bytes" where
  "getJWTSecret e = (if initialised e then Inr (jwt_secret e) else Inl NotInitialised)"

definition getPublicKeyPEM :: "lib \<Rightarrow> CryptoEngine \<Rightarrow> crypto_error + string" where
  "getPublicKeyPEM L e = (if initialised e then Inr (rsa_public_pem L) else Inl NotInitialised)"

text \<open>\<open>emplace\<close> does not replace an existing entry.\<close>

definition establishSession :: "fd \<Rightarrow> bytes \<Rightarrow> CryptoEngine \<Rightarrow> crypto_error + CryptoEngine" where
  "establishSession f aes_key e =
     (if length aes_key \<noteq> KEY_LEN then Inl InvalidKeySize
      else Inr (case fmlookup (session_keys e) f of
                  None \<Rightarrow> e\<lparr>session_keys := fmupd f aes_key (session_keys e)\<rparr>
                | Some _ \<Rightarrow> e))"

definition engine_removeSession :: "fd \<Rightarrow> CryptoEngine \<Rightarrow> CryptoEngine" where
  "engine_removeSession f e = e\<lparr>session_keys := fmdrop f (session_keys e)\<rparr>"

definition hasSession :: "CryptoEngine \<Rightarrow> fd \<Rightarrow> bool" where
  "hasSession e f \<longleftrightarrow> fmlookup (session_keys e) f \<noteq> None"

definition encryptPayload :: "lib \<Rightarrow> CryptoEngine \<Rightarrow> bytes \<Rightarrow> fd \<Rightarrow> bytes \<Rightarrow> crypto_error + bytes" where
  "encryptPayload L e iv f plaintext =
     (case fmlookup (session_keys e) f of
        None \<Rightarrow> Inl NoSession
      | Some key \<Rightarrow> Inr (aes_encrypt L key iv plaintext []))"

definition decryptPayload :: "lib \<Rightarrow> CryptoEngine \<Rightarrow> fd \<Rightarrow> bytes \<Rightarrow> crypto_error + bytes" where
  "decryptPayload L e f ciphertext =
     (case fmlookup (session_keys e) f of
        None \<Rightarrow> Inl NoSession
      | Some key \<Rightarrow> aes_decrypt L key ciphertext [])"

end
