(* ===== verification/Store.thy ===== *)
theory Store
  imports Crypto
begin

text \<open>
  The database of the server, \<open>server/utils/Database.cpp\<close>: the tables as \<open>createTables\<close> declares
  them, with their uniqueness constraints and foreign keys (\<open>PRAGMA foreign_keys=ON\<close>). A SQL
  statement of the sources is the operation on tables it denotes; whether SQLite prepares and
  runs it is part of the environment, together with the clocks and the random generators.
\<close>

section \<open>Tables\<close>

record user_row =
  u_password_hash :: string
  u_salt :: string
  u_role :: string
  u_created_at :: time
  u_last_login :: time
  u_failed_attempts :: int
  u_locked_until :: time
  u_last_room :: string
  u_is_muted :: bool
  u_mute_until :: time

record room_row =
  r_password_hash :: string
  r_salt :: string
  r_creator_nick :: string
  r_created_at :: time

record history_row =
  hr_timestamp :: time
  hr_sender :: string
  hr_room :: string
  hr_message :: string
  hr_msg_type :: string

record audit_row =
  ar_event_id :: string
  ar_timestamp :: time
  ar_event_type :: string
  ar_actor :: string
  ar_target :: string
  ar_action :: string
  ar_result :: string
  ar_ip_address :: string
  ar_details :: string
  ar_prev_hash :: string
  ar_hash :: string

record ban_row =
  b_ip_address :: string
  b_nickname :: string
  b_reason :: string
  b_banned_at :: time

text \<open>
  \<open>Users.nickname\<close> and \<open>Rooms.room_name\<close> are unique, \<open>RoomBans\<close> is unique in the pair; the other
  tables are lists in row-id order.
\<close>

record Database =
  m_open :: bool
  Users :: "(string, user_row) fmap"
  Rooms :: "(string, room_row) fmap"
  RoomBans :: "(string \<times> string) fset"
  GlobalBans :: "ban_row list"
  ChatHistoryTable :: "history_row list"
  AuditLog :: "audit_row list"

datatype sql =
    SQL_INSERT_USER | SQL_SELECT_AUTH | SQL_UPDATE_LAST_LOGIN | SQL_SELECT_NICK | SQL_SELECT_ROLE
  | SQL_INC_FAILED | SQL_RESET_FAILED | SQL_SELECT_LOCKED
  | SQL_INSERT_ROOM | SQL_SELECT_ROOM_PASSWORD | SQL_DELETE_ROOM | SQL_SELECT_ROOM_CREATOR
  | SQL_SELECT_ROOMS | SQL_INSERT_ROOMBAN | SQL_DELETE_ROOMBAN | SQL_SELECT_ROOMBANS
  | SQL_UPDATE_LAST_ROOM | SQL_SELECT_LAST_ROOM | SQL_UPDATE_MUTE | SQL_SELECT_MUTE
  | SQL_INSERT_GLOBALBAN | SQL_SELECT_GLOBALBANS | SQL_SELECT_GLOBALBAN_OF | SQL_DELETE_GLOBALBAN
  | SQL_INSERT_HISTORY | SQL_SELECT_HISTORY | SQL_CLEANUP_HISTORY
  | SQL_INSERT_AUDIT | SQL_SELECT_AUDIT

text \<open>
  The environment of one call: the clocks (the steady one in nanoseconds), whether SQLite prepares and runs a statement
  (constraint violations are modelled on the tables), the random draws of the C++ generators and
  the bytes of the system's generator, whether a file can be opened, and what SQLite does with
  a statement whose text is not the one the source means (a quote in a concatenated value).
\<close>

record env =
  now :: time
  steady :: int
  prepare_ok :: "sql \<Rightarrow> bool"
  step_ok :: "sql \<Rightarrow> bool"
  draw :: "nat \<Rightarrow> nat"
  draw_tid :: "nat \<Rightarrow> nat"
  rand_bytes :: "nat \<Rightarrow> bytes"
  file_ok :: bool
  exec_text :: "string \<Rightarrow> Database \<Rightarrow> Database"
  query_text :: "string \<Rightarrow> Database \<Rightarrow> ban_row list"

text \<open>A statement that is prepared and stepped without an error of the engine.\<close>

definition sql_runs :: "env \<Rightarrow> sql \<Rightarrow> bool" where
  "sql_runs E q \<longleftrightarrow> prepare_ok E q \<and> step_ok E q"

text \<open>\<open>sqlite3_bind_text(stmt, i, s.c_str(), -1, ...)\<close> stores the text up to the first NUL.\<close>

definition NUL :: char where "NUL = CHR 0x00"

definition c_str :: "string \<Rightarrow> string" where
  "c_str s = takeWhile (\<lambda>c. c \<noteq> NUL) s"

lemma c_str_id [simp]: "NUL \<notin> set s \<Longrightarrow> c_str s = s"
  by (auto simp: c_str_def takeWhile_eq_all_conv)

lemma NUL_c_str [simp]: "NUL \<notin> set (c_str s)"
  by (auto simp: c_str_def dest: set_takeWhileD)

lemma c_str_idem [simp]: "c_str (c_str s) = c_str s"
  by simp

lemma hex_digit_plain: "d < 16 \<Longrightarrow> hex_digit d \<noteq> NUL \<and> hex_digit d \<noteq> CHR ''G''"
proof -
  assume d: "d < 16"
  have "of_char (hex_digit d) = (of_char c :: nat) \<Longrightarrow> of_char c \<in> {48..57} \<union> {97..(102::nat)}" for c
    using d by (auto simp: hex_digit_def split: if_splits)
  from this [of NUL] this [of "CHR ''G''"] show ?thesis by (auto simp: NUL_def)
qed

lemma set_bytesToHex: "c \<in> set (bytesToHex bs) \<Longrightarrow> \<exists>d < 16. c = hex_digit d"
proof -
  assume "c \<in> set (bytesToHex bs)"
  then obtain b :: byte where "c = hex_digit (unat b div 16) \<or> c = hex_digit (unat b mod 16)"
    by (auto simp: bytesToHex_def byte_hex_def)
  moreover have "unat b div 16 < 16" using unsigned_less [of b, where ?'a = nat] by simp
  moreover have "unat b mod 16 < 16" by simp
  ultimately show ?thesis by blast
qed

lemma NUL_bytesToHex [simp]: "NUL \<notin> set (bytesToHex bs)"
proof
  assume "NUL \<in> set (bytesToHex bs)"
  then obtain d where "d < 16" "NUL = hex_digit d" using set_bytesToHex by metis
  then show False using hex_digit_plain by metis
qed

text \<open>An environment in which every statement runs, for the examples.\<close>

definition plain_env :: env where
  "plain_env = \<lparr>now = 1000, steady = 0, prepare_ok = (\<lambda>_. True), step_ok = (\<lambda>_. True),
     draw = (\<lambda>n. n), draw_tid = (\<lambda>n. n), rand_bytes = (\<lambda>n. replicate n 7), file_ok = True,
     exec_text = (\<lambda>_ db. db), query_text = (\<lambda>_ _. [])\<rparr>"

lemma sql_runs_plain [simp]: "sql_runs plain_env q"
  by (simp add: sql_runs_def plain_env_def)

section \<open>Opening\<close>

definition Database_init :: Database where
  "Database_init = \<lparr>m_open = False, Users = fmempty, Rooms = fmempty, RoomBans = {||},
     GlobalBans = [], ChatHistoryTable = [], AuditLog = []\<rparr>"

text \<open>
  \<open>open\<close> with the contents of the file at \<open>path\<close>, as \<open>stored\<close>: the handle is marked open before
  the tables are created, also when that fails.
\<close>

definition db_open :: "bool \<Rightarrow> bool \<Rightarrow> Database \<Rightarrow> Database \<Rightarrow> bool \<times> Database" where
  "db_open sqlite_open_ok create_ok stored db =
     (if \<not> sqlite_open_ok then (False, db) else (create_ok, stored\<lparr>m_open := True\<rparr>))"

definition db_close :: "Database \<Rightarrow> Database" where
  "db_close db = db\<lparr>m_open := False\<rparr>"

end
