(* ===== verification/AuditTrail.thy ===== *)
theory AuditTrail
  imports Store Interfaces
begin

text \<open>
  The audit log, \<open>server/security/AuditLogger.cpp\<close>: events are hashed together with the hash of
  the event before, buffered, and written to the table in batches of 100. Every sequence of
  logging and flushing whose insertions succeed leaves a linked chain, in which the stored hashes are
  the digests of the stored rows unless a text had a NUL; what \<open>verifyChain\<close> checks of such a table is
  characterised exactly.
\<close>

section \<open>Audit events\<close>

datatype AuditEventType = AUTH | CONNECT | DISCONNECT | MESSAGE | FILE | ADMIN_EVENT | SECURITY

datatype AuditResult = SUCCESS | FAILURE | BLOCKED

fun typeToStr :: "AuditEventType \<Rightarrow> string" where
  "typeToStr AUTH = ''AUTH''"
| "typeToStr CONNECT = ''CONNECT''"
| "typeToStr DISCONNECT = ''DISCONNECT''"
| "typeToStr MESSAGE = ''MESSAGE''"
| "typeToStr FILE = ''FILE''"
| "typeToStr ADMIN_EVENT = ''ADMIN''"
| "typeToStr SECURITY = ''SECURITY''"

fun resultToStr :: "AuditResult \<Rightarrow> string" where
  "resultToStr SUCCESS = ''SUCCESS''"
| "resultToStr FAILURE = ''FAILURE''"
| "resultToStr BLOCKED = ''BLOCKED''"

record AuditEvent =
  event_id :: string
  timestamp :: time
  event_type :: AuditEventType
  actor :: string
  target :: string
  action :: string
  result :: AuditResult
  ip_address :: string
  details :: string
  prev_hash :: string
  hash :: string

record AuditLogger =
  m_prevHash :: string
  m_buffer :: "AuditEvent list"
  uuid_pos :: nat

definition GENESIS :: string where "GENESIS = ''GENESIS''"

definition AuditLogger_init :: AuditLogger where
  "AuditLogger_init = \<lparr>m_prevHash = GENESIS, m_buffer = [], uuid_pos = 0\<rparr>"

definition sha256Hex :: "lib \<Rightarrow> string \<Rightarrow> string" where
  "sha256Hex L data = bytesToHex (sha256 L (bytes_of_string data))"

text \<open>\<open>generateUUID\<close> draws 31 digits from the generator's stream, starting where it stands.\<close>

definition hex_draws :: "env \<Rightarrow> nat \<Rightarrow> nat \<Rightarrow> string" where
  "hex_draws E from n = map (\<lambda>i. hex_digit (draw E (from + i) mod 16)) [0..<n]"

definition generateUUID :: "env \<Rightarrow> nat \<Rightarrow> string" where
  "generateUUID E p =
     hex_draws E p 8 @ ''-'' @ hex_draws E (p + 8) 4 @ ''-4'' @ hex_draws E (p + 12) 3 @ ''-''
     @ [hex_digit (8 + draw E (p + 15) mod 4)] @ hex_draws E (p + 16) 3 @ ''-''
     @ hex_draws E (p + 19) 12"

definition computeHash :: "lib \<Rightarrow> AuditEvent \<Rightarrow> string" where
  "computeHash L e = sha256Hex L
     (event_id e @ show_int (timestamp e) @ typeToStr (event_type e) @ actor e @ target e @ action e
      @ resultToStr (result e) @ ip_address e @ details e @ prev_hash e)"

definition audit_row_of :: "AuditEvent \<Rightarrow> audit_row" where
  "audit_row_of e = \<lparr>ar_event_id = c_str (event_id e), ar_timestamp = timestamp e,
     ar_event_type = c_str (typeToStr (event_type e)), ar_actor = c_str (actor e),
     ar_target = c_str (target e), ar_action = c_str (action e),
     ar_result = c_str (resultToStr (result e)), ar_ip_address = c_str (ip_address e),
     ar_details = c_str (details e), ar_prev_hash = c_str (prev_hash e), ar_hash = c_str (hash e)\<rparr>"

definition audit_flush :: "env \<Rightarrow> AuditLogger \<times> Database \<Rightarrow> AuditLogger \<times> Database" where
  "audit_flush E st =
     (let (a, db) = st in
      if \<not> m_open db \<or> m_buffer a = [] then (a, db)
      else (a\<lparr>m_buffer := []\<rparr>,
            db\<lparr>AuditLog := AuditLog db @
                 (if sql_runs E SQL_INSERT_AUDIT then map audit_row_of (m_buffer a) else [])\<rparr>))"

definition audit_log :: "lib \<Rightarrow> env \<Rightarrow> AuditEventType \<Rightarrow> string \<Rightarrow> string \<Rightarrow> string \<Rightarrow> AuditResult \<Rightarrow>
    string \<Rightarrow> string \<Rightarrow> AuditLogger \<times> Database \<Rightarrow> AuditLogger \<times> Database" where
  "audit_log L E ty act tgt actn res ip det st =
     (let (a, db) = st;
          e0 = \<lparr>event_id = generateUUID E (uuid_pos a), timestamp = now E, event_type = ty,
                actor = act, target = tgt, action = actn, result = res, ip_address = ip,
                details = det, prev_hash = m_prevHash a, hash = []\<rparr>;
          e = e0\<lparr>hash := computeHash L e0\<rparr>;
          a' = a\<lparr>m_prevHash := hash e, m_buffer := m_buffer a @ [e], uuid_pos := uuid_pos a + 31\<rparr>
      in if length (m_buffer a') \<ge> 100 then audit_flush E (a', db) else (a', db))"

text \<open>
  \<open>verifyChain\<close> walks the rows in order and compares each row's \<open>prev_hash\<close> with the hash
  \<^emph>\<open>stored\<close> in the row before. It also recomputes a hash (with fixed type and result fields) into
  a local variable, which nothing reads. A \<open>SELECT\<close> that has been prepared is taken to deliver all its
  rows: the loop does not tell a step that fails from the end of the rows.
\<close>

fun verify_rows :: "lib \<Rightarrow> string \<Rightarrow> audit_row list \<Rightarrow> bool" where
  "verify_rows L prevHash [] = True"
| "verify_rows L prevHash (r # rs) =
     (let e = \<lparr>event_id = ar_event_id r, timestamp = ar_timestamp r, event_type = AUTH,
               actor = ar_actor r, target = ar_target r, action = ar_action r, result = SUCCESS,
               ip_address = ar_ip_address r, details = ar_details r, prev_hash = ar_prev_hash r,
               hash = []\<rparr>
      in if prev_hash e \<noteq> prevHash then False
         else let unused = computeHash L e in verify_rows L (ar_hash r) rs)"

definition verifyChain :: "lib \<Rightarrow> env \<Rightarrow> Database \<Rightarrow> bool" where
  "verifyChain L E db \<longleftrightarrow>
     m_open db \<and> prepare_ok E SQL_SELECT_AUDIT \<and> verify_rows L GENESIS (AuditLog db)"

text \<open>\<open>exportToCSV\<close>: the text written to the file, \<open>None\<close> where the function returns false.\<close>

definition csv_row :: "audit_row \<Rightarrow> string" where
  "csv_row r = ar_event_id r @ '','' @ show_int (ar_timestamp r) @ '','' @ ar_event_type r @ '',''
     @ ar_actor r @ '','' @ ar_target r @ '','' @ ar_action r @ '','' @ ar_result r @ '',''
     @ ar_ip_address r @ '','' @ ar_details r @ [CHR 0x0A]"

definition exportToCSV :: "env \<Rightarrow> bool \<Rightarrow> Database \<Rightarrow> string option" where
  "exportToCSV E file_opens db =
     (if \<not> m_open db \<or> \<not> file_opens \<or> \<not> prepare_ok E SQL_SELECT_AUDIT then None
      else Some (''event_id,timestamp,event_type,actor,target,action,result,ip_address,details''
                 @ [CHR 0x0A] @ concat (map csv_row (AuditLog db))))"

section \<open>The chain\<close>

text \<open>The rows link from \<open>p\<close>: each names the hash stored before it, and \<open>q\<close> is the last hash.\<close>

fun linked :: "string \<Rightarrow> audit_row list \<Rightarrow> string \<Rightarrow> bool" where
  "linked p [] q \<longleftrightarrow> p = q"
| "linked p (r # rs) q \<longleftrightarrow> ar_prev_hash r = p \<and> linked (ar_hash r) rs q"

lemma linked_append: "linked p (xs @ ys) q \<longleftrightarrow> (\<exists>m. linked p xs m \<and> linked m ys q)"
  by (induction xs arbitrary: p) auto

lemma verify_rows_linked: "verify_rows L p rs \<longleftrightarrow> (\<exists>q. linked p rs q)"
  by (induction rs arbitrary: p) (auto simp: Let_def)

text \<open>The digest of a row's own columns.\<close>

definition row_digest :: "lib \<Rightarrow> audit_row \<Rightarrow> string" where
  "row_digest L r = sha256Hex L
     (ar_event_id r @ show_int (ar_timestamp r) @ ar_event_type r @ ar_actor r @ ar_target r
      @ ar_action r @ ar_result r @ ar_ip_address r @ ar_details r @ ar_prev_hash r)"

lemma sha256Hex_plain [simp]:
  "NUL \<notin> set (sha256Hex L s)" "sha256Hex L s \<noteq> GENESIS"
proof -
  have "c \<in> set (sha256Hex L s) \<Longrightarrow> c \<noteq> NUL \<and> c \<noteq> CHR ''G''" for c
    using set_bytesToHex hex_digit_plain by (fastforce simp: sha256Hex_def)
  from this [of NUL] this [of "CHR ''G''"]
  show "NUL \<notin> set (sha256Hex L s)" "sha256Hex L s \<noteq> GENESIS"
    by (auto simp: GENESIS_def)
qed

lemma generateUUID_plain [simp]: "NUL \<notin> set (generateUUID E p)"
proof -
  have "NUL \<notin> set (hex_draws E q n)" for q n
  proof -
    have "hex_digit (x mod 16) \<noteq> NUL" for x using hex_digit_plain [of "x mod 16"] by simp
    then show ?thesis unfolding hex_draws_def by (metis (no_types, lifting) ex_map_conv)
  qed
  moreover have "NUL \<noteq> hex_digit (8 + x mod 4)" for x
  proof -
    have "8 + x mod 4 < 16" using mod_less_divisor [of 4 x] by linarith
    then show ?thesis using hex_digit_plain by metis
  qed
  moreover have "NUL \<noteq> CHR ''-''" "NUL \<noteq> CHR ''4''" by (simp_all add: NUL_def)
  ultimately show ?thesis
    by (simp add: generateUUID_def)
qed

lemma names_plain [simp]: "NUL \<notin> set (typeToStr t)" "NUL \<notin> set (resultToStr r)"
  by (cases t; simp add: NUL_def) (cases r; simp add: NUL_def)

text \<open>
  A logger at work: calls of \<open>log\<close> and of \<open>flush\<close>, each in an environment of its own, in which the
  insertions may succeed or fail.
\<close>

datatype audit_call =
    Log env AuditEventType string string string AuditResult string string
  | Flush env

primrec audit_do :: "lib \<Rightarrow> audit_call \<Rightarrow> AuditLogger \<times> Database \<Rightarrow> AuditLogger \<times> Database" where
  "audit_do L (Log E ty act tgt actn res ip det) st = audit_log L E ty act tgt actn res ip det st"
| "audit_do L (Flush E) st = audit_flush E st"

primrec call_inserts :: "audit_call \<Rightarrow> bool" where
  "call_inserts (Log E ty act tgt actn res ip det) = sql_runs E SQL_INSERT_AUDIT"
| "call_inserts (Flush E) = sql_runs E SQL_INSERT_AUDIT"

primrec call_plain :: "audit_call \<Rightarrow> bool" where
  "call_plain (Log E ty act tgt actn res ip det) \<longleftrightarrow> NUL \<notin> set (act @ tgt @ actn @ ip @ det)"
| "call_plain (Flush E) = True"

text \<open>The columns of the row that a call stands for, and those of a row.\<close>

primrec call_columns :: "audit_call \<Rightarrow> (time \<times> string list) list" where
  "call_columns (Log E ty act tgt actn res ip det) =
     [(now E, [typeToStr ty, c_str act, c_str tgt, c_str actn, resultToStr res, c_str ip, c_str det])]"
| "call_columns (Flush E) = []"

definition row_columns :: "audit_row \<Rightarrow> time \<times> string list" where
  "row_columns r = (ar_timestamp r, [ar_event_type r, ar_actor r, ar_target r, ar_action r, ar_result r,
     ar_ip_address r, ar_details r])"

inductive audit_moves :: "lib \<Rightarrow> AuditLogger \<times> Database \<Rightarrow> AuditLogger \<times> Database \<Rightarrow> bool"
  for L where
  moves: "call_inserts c \<Longrightarrow> audit_moves L st (audit_do L c st)"

definition chain_rows :: "AuditLogger \<times> Database \<Rightarrow> audit_row list" where
  "chain_rows st = AuditLog (snd st) @ map audit_row_of (m_buffer (fst st))"

definition audit_inv :: "AuditLogger \<times> Database \<Rightarrow> bool" where
  "audit_inv st \<longleftrightarrow> m_open (snd st) \<and> NUL \<notin> set (m_prevHash (fst st)) \<and>
     linked GENESIS (chain_rows st) (m_prevHash (fst st))"

definition audit_start :: "AuditLogger \<times> Database \<Rightarrow> bool" where
  "audit_start st \<longleftrightarrow> fst st = AuditLogger_init \<and> m_open (snd st) \<and> AuditLog (snd st) = []"

lemma audit_flush_rows: "sql_runs E SQL_INSERT_AUDIT \<Longrightarrow> chain_rows (audit_flush E st) = chain_rows st"
  by (cases st) (simp add: audit_flush_def chain_rows_def)

lemma audit_flush_frame:
  "m_open (snd (audit_flush E st)) = m_open (snd st)" "m_prevHash (fst (audit_flush E st)) = m_prevHash (fst st)"
  by (cases st, simp add: audit_flush_def)+

lemma audit_flush_empties:
  "m_open db \<Longrightarrow> m_buffer (fst (audit_flush E (a, db))) = []"
  by (simp add: audit_flush_def)

text \<open>A call adds the row of the new event, if it logs one, to the rows stored and buffered.\<close>

definition new_event :: "lib \<Rightarrow> env \<Rightarrow> AuditEventType \<Rightarrow> string \<Rightarrow> string \<Rightarrow> string \<Rightarrow> AuditResult \<Rightarrow>
    string \<Rightarrow> string \<Rightarrow> AuditLogger \<Rightarrow> AuditEvent" where
  "new_event L E ty act tgt actn res ip det a =
     (let e0 = \<lparr>event_id = generateUUID E (uuid_pos a), timestamp = now E, event_type = ty,
                actor = act, target = tgt, action = actn, result = res, ip_address = ip,
                details = det, prev_hash = m_prevHash a, hash = []\<rparr>
      in e0\<lparr>hash := computeHash L e0\<rparr>)"

lemma audit_log_adds:
  assumes "sql_runs E SQL_INSERT_AUDIT" "st' = audit_log L E ty act tgt actn res ip det st"
    "e = new_event L E ty act tgt actn res ip det (fst st)"
  shows "chain_rows st' = chain_rows st @ [audit_row_of e]" "m_prevHash (fst st') = hash e"
    "m_open (snd st') = m_open (snd st)"
proof -
  define a' where "a' = (fst st)\<lparr>m_prevHash := hash e, m_buffer := m_buffer (fst st) @ [e],
    uuid_pos := uuid_pos (fst st) + 31\<rparr>"
  have "st' = (if length (m_buffer a') \<ge> 100 then audit_flush E (a', snd st) else (a', snd st))"
    using assms(2,3) by (simp add: audit_log_def new_event_def a'_def Let_def case_prod_beta)
  moreover have "chain_rows (a', snd st) = chain_rows st @ [audit_row_of e]" "m_prevHash a' = hash e"
    by (simp_all add: chain_rows_def a'_def)
  ultimately show "chain_rows st' = chain_rows st @ [audit_row_of e]" "m_prevHash (fst st') = hash e"
    "m_open (snd st') = m_open (snd st)"
    using audit_flush_rows [OF assms(1)] by (auto simp: audit_flush_frame)
qed

lemma new_event_row:
  assumes "NUL \<notin> set (m_prevHash a)" "r = audit_row_of (new_event L E ty act tgt actn res ip det a)"
  shows "ar_prev_hash r = m_prevHash a" "ar_hash r = hash (new_event L E ty act tgt actn res ip det a)"
    "[row_columns r] = call_columns (Log E ty act tgt actn res ip det)"
    "NUL \<notin> set (act @ tgt @ actn @ ip @ det) \<Longrightarrow> ar_hash r = row_digest L r"
  using assms by (simp_all add: new_event_def audit_row_of_def row_columns_def row_digest_def computeHash_def Let_def)

lemma audit_do_adds:
  assumes "audit_inv st" "call_inserts c"
  shows "\<exists>rs. chain_rows (audit_do L c st) = chain_rows st @ rs \<and> map row_columns rs = call_columns c \<and>
    (call_plain c \<longrightarrow> list_all (\<lambda>r. ar_hash r = row_digest L r) rs) \<and> audit_inv (audit_do L c st)"
proof (cases c)
  case (Log E ty act tgt actn res ip det)
  let ?e = "new_event L E ty act tgt actn res ip det (fst st)"
  have ins: "sql_runs E SQL_INSERT_AUDIT" using assms(2) Log by simp
  have nul: "NUL \<notin> set (m_prevHash (fst st))" using assms(1) by (simp add: audit_inv_def)
  have "NUL \<notin> set (hash ?e)" by (simp add: new_event_def computeHash_def Let_def)
  then show ?thesis
    using assms(1) Log audit_log_adds [OF ins refl refl, of L ty act tgt actn res ip det st]
      new_event_row [OF nul refl, where L = L and E = E and ty = ty and act = act and tgt = tgt and actn = actn
        and res = res and ip = ip and det = det]
    by (intro exI [of _ "[audit_row_of ?e]"]) (auto simp: audit_inv_def linked_append)
next
  case (Flush E)
  then have "chain_rows (audit_do L c st) = chain_rows st" using assms(2) by (simp add: audit_flush_rows)
  then show ?thesis using assms(1) Flush by (simp add: audit_inv_def audit_flush_frame)
qed

interpretation audit: invariant_system audit_start "audit_moves L" audit_inv for L
proof
  show "audit_start s \<Longrightarrow> audit_inv s" for s
    by (auto simp: audit_start_def audit_inv_def AuditLogger_init_def chain_rows_def GENESIS_def NUL_def)
  show "audit_inv s \<Longrightarrow> audit_moves L s t \<Longrightarrow> audit_inv t" for s t
    by (blast elim!: audit_moves.cases dest: audit_do_adds)
qed

lemma audit_run_reachable:
  "\<forall>c \<in> set calls. call_inserts c \<Longrightarrow> (audit_moves L)\<^sup>*\<^sup>* st (fold (audit_do L) calls st)"
proof (induction calls arbitrary: st)
  case (Cons c calls)
  then have "audit_moves L st (audit_do L c st)" by (intro moves) simp
  moreover have "(audit_moves L)\<^sup>*\<^sup>* (audit_do L c st) (fold (audit_do L) calls (audit_do L c st))"
    using Cons by simp
  ultimately show ?case by (simp add: converse_rtranclp_into_rtranclp)
qed simp

lemma audit_run_rows:
  assumes "audit_inv st" "\<forall>c \<in> set calls. call_inserts c"
  shows "map row_columns (chain_rows (fold (audit_do L) calls st)) =
      map row_columns (chain_rows st) @ concat (map call_columns calls) \<and>
    (list_all call_plain calls \<and> list_all (\<lambda>r. ar_hash r = row_digest L r) (chain_rows st) \<longrightarrow>
      list_all (\<lambda>r. ar_hash r = row_digest L r) (chain_rows (fold (audit_do L) calls st)))"
  using assms
proof (induction calls arbitrary: st)
  case (Cons c calls)
  then obtain rs where rs: "chain_rows (audit_do L c st) = chain_rows st @ rs" "map row_columns rs = call_columns c"
    "call_plain c \<longrightarrow> list_all (\<lambda>r. ar_hash r = row_digest L r) rs" "audit_inv (audit_do L c st)"
    using audit_do_adds [of st c L] by auto
  show ?case using Cons.IH [OF rs(4)] Cons.prems(2) rs(1-3) by simp
qed simp

section \<open>Properties\<close>

lemma linked_nth:
  "(\<exists>q. linked p rs q) \<longleftrightarrow>
     (\<forall>i < length rs. ar_prev_hash (rs ! i) = (if i = 0 then p else ar_hash (rs ! (i - 1))))"
proof (induction rs arbitrary: p)
  case (Cons r rs)
  have prev: "ar_hash ((r # rs) ! i) = (if i = 0 then ar_hash r else ar_hash (rs ! (i - 1)))" for i
    by (cases i) simp_all
  have "(\<forall>i < length (r # rs). ar_prev_hash ((r # rs) ! i) =
          (if i = 0 then p else ar_hash ((r # rs) ! (i - 1)))) \<longleftrightarrow>
        ar_prev_hash r = p \<and>
        (\<forall>i < length rs. ar_prev_hash (rs ! i) = (if i = 0 then ar_hash r else ar_hash (rs ! (i - 1))))"
    by (simp add: All_less_Suc2 prev)
  then show ?case using Cons.IH [of "ar_hash r"] by auto
qed auto

text \<open>
  C27: from a fresh logger on an empty open table, after any calls of \<open>log\<close> and \<open>flush\<close> in which the
  insertions succeed, and a final flush, the table has one row per logged event, in order and with the
  event's columns (each up to its first NUL), \<open>verifyChain\<close>, whose query can be prepared, accepts it,
  and nothing is left in the buffer. If none of the logged texts contains a NUL, every stored hash is the digest of its row's
  columns.
\<close>

theorem audit_chain_linked:
  assumes "audit_start st" "\<forall>c \<in> set calls. call_inserts c" "sql_runs E SQL_INSERT_AUDIT"
    and "prepare_ok E SQL_SELECT_AUDIT" "(a, db) = audit_flush E (fold (audit_do L) calls st)"
  shows "verifyChain L E db \<and> m_buffer a = [] \<and>
    map row_columns (AuditLog db) = concat (map call_columns calls) \<and>
    (list_all call_plain calls \<longrightarrow> list_all (\<lambda>r. ar_hash r = row_digest L r) (AuditLog db))"
proof -
  let ?st = "fold (audit_do L) calls st"
  have inv: "audit_inv st" using assms(1) by (rule audit.inv_init)
  have inv': "audit_inv ?st" using audit.inv_reachable [OF assms(1) audit_run_reachable [OF assms(2)]] .
  have empty: "chain_rows st = []" using assms(1) by (simp add: audit_start_def chain_rows_def AuditLogger_init_def)
  have buf: "m_buffer a = []" "m_open db"
    using inv' assms(5) audit_flush_empties [of "snd ?st" E "fst ?st"] audit_flush_frame(1) [of E ?st]
    by (auto simp: audit_inv_def) (metis fst_conv snd_conv prod.collapse)+
  have rows: "AuditLog db = chain_rows ?st"
    using audit_flush_rows [OF assms(3), of ?st] buf(1) unfolding assms(5) [symmetric] by (simp add: chain_rows_def)
  have "verifyChain L E db" using inv' buf(2) assms(4) by (auto simp: verifyChain_def rows verify_rows_linked audit_inv_def)
  then show ?thesis using audit_run_rows [OF inv assms(2), of L] buf(1) by (simp add: rows empty)
qed

definition opened :: Database where
  "opened = Database_init\<lparr>m_open := True\<rparr>"

lemma plain_prepare [simp]: "prepare_ok plain_env q"
  by (simp add: plain_env_def)

definition one_logged :: "AuditLogger \<times> Database" where
  "one_logged = audit_log plain_lib plain_env AUTH ''alice'' [] ''LOGIN'' SUCCESS ''10.0.0.1'' []
     (AuditLogger_init, opened)"

lemma opened_start: "audit_start (AuditLogger_init, opened)"
  by (simp add: audit_start_def opened_def Database_init_def)

theorem audit_chain_linked_witness:
  "verifyChain plain_lib plain_env (snd (audit_flush plain_env one_logged)) \<and>
   map row_columns (AuditLog (snd (audit_flush plain_env one_logged))) =
     [(1000, [''AUTH'', ''alice'', [], ''LOGIN'', ''SUCCESS'', ''10.0.0.1'', []])] \<and>
   list_all (\<lambda>r. ar_hash r = row_digest plain_lib r) (AuditLog (snd (audit_flush plain_env one_logged)))"
proof -
  let ?c = "Log plain_env AUTH ''alice'' [] ''LOGIN'' SUCCESS ''10.0.0.1'' []"
  have one: "one_logged = fold (audit_do plain_lib) [?c] (AuditLogger_init, opened)" by (simp add: one_logged_def)
  have "c_str ''alice'' = ''alice''" "c_str [] = []" "c_str ''LOGIN'' = ''LOGIN''" "c_str ''10.0.0.1'' = ''10.0.0.1''"
    by (simp_all add: c_str_def NUL_def)
  moreover have "now plain_env = 1000" "call_plain ?c" by (simp_all add: plain_env_def NUL_def)
  ultimately show ?thesis
    using audit_chain_linked [OF opened_start _ _ _ prod.collapse, of "[?c]" plain_env plain_lib]
    by (simp only: one) simp
qed

text \<open>
  Exactly what \<open>verifyChain\<close> decides: that every row names the hash stored in the row before
  it. The other columns, and whether a stored hash is the digest of its row, play no part.
\<close>

theorem verifyChain_decides_links:
  "verifyChain L E db \<longleftrightarrow> m_open db \<and> prepare_ok E SQL_SELECT_AUDIT \<and>
     (\<forall>i < length (AuditLog db). ar_prev_hash (AuditLog db ! i) =
        (if i = 0 then GENESIS else ar_hash (AuditLog db ! (i - 1))))"
  by (simp add: verifyChain_def verify_rows_linked linked_nth)

text \<open>A row whose actor was changed after it was stored still verifies.\<close>

definition tampered :: Database where
  "tampered = (let db = snd (audit_flush plain_env one_logged)
     in db\<lparr>AuditLog := map (\<lambda>r. r\<lparr>ar_actor := ''mallory''\<rparr>) (AuditLog db)\<rparr>)"

theorem verifyChain_decides_links_witness:
  "verifyChain plain_lib plain_env tampered \<and>
   \<not> list_all (\<lambda>r. ar_hash r = row_digest plain_lib r) (AuditLog tampered)"
proof -
  have rows: "AuditLog tampered = map (\<lambda>r. r\<lparr>ar_actor := ''mallory''\<rparr>)
      (AuditLog (snd (audit_flush plain_env one_logged)))"
    by (simp add: tampered_def Let_def)
  have one: "\<exists>r. AuditLog tampered = [r] \<and> ar_prev_hash r = GENESIS \<and>
      ar_hash r \<noteq> row_digest plain_lib r"
  proof -
    have c: "c_str ''alice'' = ''alice''" "c_str ''LOGIN'' = ''LOGIN''" "c_str GENESIS = GENESIS"
      "c_str ''10.0.0.1'' = ''10.0.0.1''" "c_str [] = []" "c_str ''AUTH'' = ''AUTH''"
      "c_str ''SUCCESS'' = ''SUCCESS''"
      by (simp_all add: c_str_def NUL_def GENESIS_def)
    have "\<exists>r. AuditLog tampered = [r] \<and> ar_prev_hash r = GENESIS \<and>
        ar_hash r = sha256Hex plain_lib (generateUUID plain_env 0 @ show_int (now plain_env)
          @ ''AUTHaliceLOGINSUCCESS10.0.0.1'' @ GENESIS) \<and>
        row_digest plain_lib r = sha256Hex plain_lib (generateUUID plain_env 0
          @ show_int (now plain_env) @ ''AUTHmalloryLOGINSUCCESS10.0.0.1'' @ GENESIS)"
      unfolding rows
      by (simp add: one_logged_def audit_log_def audit_flush_def opened_def Database_init_def
          AuditLogger_init_def Let_def audit_row_of_def row_digest_def computeHash_def c)
    then show ?thesis by (auto simp: sha256Hex_def plain_lib_def)
  qed
  have "m_open tampered"
    by (simp add: tampered_def one_logged_def audit_log_def audit_flush_def opened_def Let_def)
  with one have "verifyChain plain_lib plain_env tampered"
    by (auto simp: verifyChain_decides_links)
  with one show ?thesis by auto
qed

text \<open>
  C39: a logger started on a table that already holds rows (a server restart) begins again from
  \<open>GENESIS\<close>, so that its first flushed event breaks the chain, whatever is logged.
\<close>

theorem restarted_logger_breaks_chain:
  assumes "AuditLog db \<noteq> []" "ar_hash (last (AuditLog db)) \<noteq> GENESIS" "m_open db"
    and "sql_runs E SQL_INSERT_AUDIT"
  shows "\<not> verifyChain L E'
    (snd (audit_flush E (audit_log L E ty act tgt actn res ip det (AuditLogger_init, db))))"
proof -
  let ?rows = "AuditLog (snd (audit_flush E
      (audit_log L E ty act tgt actn res ip det (AuditLogger_init, db))))"
  have "\<exists>r. ?rows = AuditLog db @ [r] \<and> ar_prev_hash r = GENESIS"
    using assms(3,4) by (auto simp: audit_log_def audit_flush_def AuditLogger_init_def Let_def
        audit_row_of_def GENESIS_def NUL_def)
  then obtain r where r: "?rows = AuditLog db @ [r]" "ar_prev_hash r = GENESIS" by blast
  have "linked p rs q \<Longrightarrow> rs \<noteq> [] \<Longrightarrow> q = ar_hash (last rs)" for p rs q
    by (induction rs arbitrary: p) auto
  with r assms(1,2) have "\<not> (\<exists>q. linked GENESIS ?rows q)"
    by (auto simp: linked_append)
  then show ?thesis by (simp add: verifyChain_def verify_rows_linked)
qed

theorem restarted_logger_breaks_chain_witness:
  "\<not> verifyChain plain_lib plain_env (snd (audit_flush plain_env
     (audit_log plain_lib plain_env AUTH ''bob'' [] ''LOGIN'' SUCCESS [] []
       (AuditLogger_init, snd (audit_flush plain_env one_logged)))))"
proof (rule restarted_logger_breaks_chain)
  let ?db = "snd (audit_flush plain_env one_logged)"
  have one: "\<exists>r. AuditLog ?db = [r] \<and> ar_hash r \<noteq> GENESIS"
    by (simp add: one_logged_def audit_log_def audit_flush_def opened_def Database_init_def
        AuditLogger_init_def Let_def audit_row_of_def computeHash_def)
  then show "AuditLog ?db \<noteq> []" "ar_hash (last (AuditLog ?db)) \<noteq> GENESIS" by auto
  show "m_open ?db"
    by (simp add: one_logged_def audit_log_def audit_flush_def opened_def Let_def)
qed simp

end
