(* ===== verification/Intrusion.thy ===== *)
theory Intrusion
  imports AuditTrail
begin

text \<open>
  The intrusion detector, \<open>server/security/IntrusionDetector.cpp\<close>: threat scores per address,
  the temporary and permanent bans they trigger, manual bans, the white list, and the ban list's
  file and table. Time is read once per call; scores stay far below the range of \<open>int\<close>.
\<close>

datatype ViolationType = FAILED_AUTH | RATE_LIMIT_EXCEEDED | HMAC_FAILURE | REPLAY_ATTACK
  | INJECTION_ATTEMPT | HANDSHAKE_FAIL | INVALID_PACKET | PORT_SCAN

datatype IPStatus = ALLOWED | IP_BLOCKED | WHITELISTED

record Violation =
  v_timestamp :: time
  v_type :: ViolationType

record IPRecord =
  ip :: string
  threat_score :: int
  violations :: "Violation list"
  ban_until :: time
  first_seen :: time
  connection_count :: int
  temp_ban_count :: int

definition IPRecord_zero :: IPRecord where
  "IPRecord_zero = \<lparr>ip = [], threat_score = 0, violations = [], ban_until = 0, first_seen = 0,
     connection_count = 0, temp_ban_count = 0\<rparr>"

text \<open>The last field is the contents of \<open>ban_list.json\<close>.\<close>

record IntrusionDetector =
  m_bannedNicks :: "string fset"
  m_records :: "(string, IPRecord) fmap"
  m_permBans :: "string fset"
  m_tempBans :: "(string, time) fmap"
  m_whitelist :: "string fset"
  ban_file :: "string option"

definition IntrusionDetector_init :: IntrusionDetector where
  "IntrusionDetector_init = \<lparr>m_bannedNicks = {||}, m_records = fmempty, m_permBans = {||},
     m_tempBans = fmempty, m_whitelist = {||}, ban_file = None\<rparr>"

definition THREAT_THRESHOLD :: int where "THREAT_THRESHOLD = 100"
definition ATTACK_THRESHOLD :: int where "ATTACK_THRESHOLD = 200"
definition PERM_BAN_THRESHOLD :: int where "PERM_BAN_THRESHOLD = 500"
definition MAX_TEMP_BANS :: int where "MAX_TEMP_BANS = 3"

lemmas ids_consts = THREAT_THRESHOLD_def ATTACK_THRESHOLD_def PERM_BAN_THRESHOLD_def
  MAX_TEMP_BANS_def

section \<open>Operations\<close>

fun scoreForViolation :: "ViolationType \<Rightarrow> int" where
  "scoreForViolation FAILED_AUTH = 10"
| "scoreForViolation RATE_LIMIT_EXCEEDED = 5"
| "scoreForViolation HMAC_FAILURE = 20"
| "scoreForViolation REPLAY_ATTACK = 50"
| "scoreForViolation INJECTION_ATTEMPT = 30"
| "scoreForViolation HANDSHAKE_FAIL = 15"
| "scoreForViolation INVALID_PACKET = 10"
| "scoreForViolation PORT_SCAN = 100"

fun violationToStr :: "ViolationType \<Rightarrow> string" where
  "violationToStr FAILED_AUTH = ''FAILED_AUTH''"
| "violationToStr RATE_LIMIT_EXCEEDED = ''RATE_LIMIT_EXCEEDED''"
| "violationToStr HMAC_FAILURE = ''HMAC_FAILURE''"
| "violationToStr REPLAY_ATTACK = ''REPLAY_ATTACK''"
| "violationToStr INJECTION_ATTEMPT = ''INJECTION_ATTEMPT''"
| "violationToStr HANDSHAKE_FAIL = ''HANDSHAKE_FAIL''"
| "violationToStr INVALID_PACKET = ''INVALID_PACKET''"
| "violationToStr PORT_SCAN = ''PORT_SCAN''"

text \<open>\<open>m_records[a]\<close> with the initialisation of a record that has no address yet.\<close>

definition touch_record :: "env \<Rightarrow> string \<Rightarrow> IntrusionDetector \<Rightarrow> IPRecord" where
  "touch_record E a d =
     (let rec = (case fmlookup (m_records d) a of Some r \<Rightarrow> r | None \<Rightarrow> IPRecord_zero)
      in if ip rec = [] then rec\<lparr>ip := a, first_seen := now E\<rparr> else rec)"

definition checkIP :: "env \<Rightarrow> string \<Rightarrow> IntrusionDetector \<Rightarrow> IPStatus \<times> IntrusionDetector" where
  "checkIP E a d =
     (if a |\<in>| m_whitelist d then (WHITELISTED, d)
      else if a |\<in>| m_permBans d then (IP_BLOCKED, d)
      else
        (let admit = (\<lambda>d'. let rec = touch_record E a d'
                in (ALLOWED, d'\<lparr>m_records := fmupd a
                      (rec\<lparr>connection_count := connection_count rec + 1\<rparr>) (m_records d')\<rparr>))
         in case fmlookup (m_tempBans d) a of
              Some until \<Rightarrow>
                if now E < until then (IP_BLOCKED, d)
                else admit (d\<lparr>m_tempBans := fmdrop a (m_tempBans d)\<rparr>)
            | None \<Rightarrow> admit d))"

text \<open>\<open>exportBanList\<close>: sets and maps are written in the order of their keys.\<close>

definition ban_list_json :: "env \<Rightarrow> IntrusionDetector \<Rightarrow> json" where
  "ban_list_json E d = JArr (
     map (\<lambda>a. json_object [(''ip'', JStr a), (''type'', JStr ''PERMANENT''), (''ts'', JInt (now E))])
       (sorted_list_of_fset (m_permBans d)) @
     map (\<lambda>a. json_object [(''ip'', JStr a), (''type'', JStr ''TEMPORARY''),
            (''until'', JInt (the (fmlookup (m_tempBans d) a)))])
       (sorted_list_of_fset (fmdom (m_tempBans d))) @
     map (\<lambda>n. json_object [(''nick'', JStr n), (''type'', JStr ''NICKNAME''), (''ts'', JInt (now E))])
       (sorted_list_of_fset (m_bannedNicks d)))"

definition exportBanList :: "env \<Rightarrow> IntrusionDetector \<Rightarrow> IntrusionDetector" where
  "exportBanList E d =
     (if file_ok E then d\<lparr>ban_file := Some (json_dump2 (ban_list_json E d))\<rparr> else d)"

text \<open>
  \<open>checkThresholds\<close> on the record of \<open>m_records[a]\<close>; the audit log is threaded through. The
  record is written back where the source updates it through the reference.
\<close>

definition checkThresholds :: "lib \<Rightarrow> env \<Rightarrow> string \<Rightarrow> IPRecord \<Rightarrow>
    IntrusionDetector \<times> AuditLogger \<times> Database \<Rightarrow> IntrusionDetector \<times> AuditLogger \<times> Database" where
  "checkThresholds L E a rec st =
     (let (d, al) = st in
      if threat_score rec \<ge> PERM_BAN_THRESHOLD then
        if ip rec |\<notin>| m_permBans d then
          (exportBanList E (d\<lparr>m_permBans := finsert (ip rec) (m_permBans d)\<rparr>),
           audit_log L E SECURITY (ip rec) [] ''PERM_BAN'' BLOCKED (ip rec)
             (''score='' @ show_int (threat_score rec)) al)
        else (d, al)
      else
        let ban = (\<lambda>secs. if fmlookup (m_tempBans d) (ip rec) = None
              then (rec\<lparr>temp_ban_count := temp_ban_count rec + 1\<rparr>,
                    d\<lparr>m_tempBans := fmupd (ip rec) (now E + secs) (m_tempBans d)\<rparr>)
              else (rec, d));
            (rec', d') = (if threat_score rec \<ge> ATTACK_THRESHOLD then ban 86400
                          else if threat_score rec \<ge> THREAT_THRESHOLD then ban 3600
                          else (rec, d));
            d'' = d'\<lparr>m_records := fmupd a rec' (m_records d')\<rparr>
        in if temp_ban_count rec' \<ge> MAX_TEMP_BANS \<and> ip rec' |\<notin>| m_permBans d''
           then (exportBanList E (d''\<lparr>m_permBans := finsert (ip rec') (m_permBans d'')\<rparr>), al)
           else (d'', al))"

text \<open>At most 200 violations are kept.\<close>

definition push_violation :: "Violation \<Rightarrow> Violation list \<Rightarrow> Violation list" where
  "push_violation v vs = (let vs' = vs @ [v] in if length vs' > 200 then tl vs' else vs')"

definition reportViolation :: "lib \<Rightarrow> env \<Rightarrow> string \<Rightarrow> ViolationType \<Rightarrow> fd \<Rightarrow>
    IntrusionDetector \<times> AuditLogger \<times> Database \<Rightarrow> IntrusionDetector \<times> AuditLogger \<times> Database" where
  "reportViolation L E a ty f st =
     (if a = [] \<and> f < 0 then st
      else
        let (d, al) = st;
            rec0 = touch_record E a d;
            rec = rec0\<lparr>threat_score := threat_score rec0 + scoreForViolation ty,
                       violations := push_violation \<lparr>v_timestamp = now E, v_type = ty\<rparr> (violations rec0)\<rparr>;
            d' = d\<lparr>m_records := fmupd a rec (m_records d)\<rparr>;
            al' = audit_log L E SECURITY a [] (''VIOLATION_'' @ violationToStr ty) BLOCKED a
                    (''score='' @ show_int (threat_score rec)) al
        in checkThresholds L E a rec (d', al'))"

definition tempBan :: "env \<Rightarrow> string \<Rightarrow> int \<Rightarrow> IntrusionDetector \<Rightarrow> IntrusionDetector" where
  "tempBan E a durationSec d = d\<lparr>m_tempBans := fmupd a (now E + durationSec) (m_tempBans d)\<rparr>"

definition permBan :: "env \<Rightarrow> string \<Rightarrow> IntrusionDetector \<Rightarrow> IntrusionDetector" where
  "permBan E a d = exportBanList E (d\<lparr>m_permBans := finsert a (m_permBans d)\<rparr>)"

definition permBanNick :: "env \<Rightarrow> string \<Rightarrow> IntrusionDetector \<Rightarrow> IntrusionDetector" where
  "permBanNick E nick d = exportBanList E (d\<lparr>m_bannedNicks := finsert nick (m_bannedNicks d)\<rparr>)"

definition ids_unban :: "string \<Rightarrow> IntrusionDetector \<Rightarrow> IntrusionDetector" where
  "ids_unban a d =
     (let d' = d\<lparr>m_permBans := m_permBans d |-| {|a|}, m_tempBans := fmdrop a (m_tempBans d)\<rparr>
      in case fmlookup (m_records d') a of
           Some r \<Rightarrow> d'\<lparr>m_records := fmupd a (r\<lparr>threat_score := 0, temp_ban_count := 0\<rparr>) (m_records d')\<rparr>
         | None \<Rightarrow> d')"

definition unbanNick :: "string \<Rightarrow> IntrusionDetector \<Rightarrow> IntrusionDetector" where
  "unbanNick nick d = d\<lparr>m_bannedNicks := m_bannedNicks d |-| {|nick|}\<rparr>"

text \<open>
  The statement of \<open>permBanUser\<close> is concatenated: it means the insertion only where no value
  contains a quote (or a NUL); otherwise its effect is SQLite's reading of the text.
\<close>

definition quote_free :: "string \<Rightarrow> bool" where
  "quote_free s \<longleftrightarrow> CHR 0x27 \<notin> set s \<and> NUL \<notin> set s"

definition quoted :: "string \<Rightarrow> string" where
  "quoted s = [CHR 0x27] @ s @ [CHR 0x27]"

definition permBanUser :: "env \<Rightarrow> string \<Rightarrow> string \<Rightarrow> string \<Rightarrow>
    IntrusionDetector \<times> Database \<Rightarrow> IntrusionDetector \<times> Database" where
  "permBanUser E a nick reason st =
     (let (d, db) = st;
          d' = d\<lparr>m_permBans := finsert a (m_permBans d),
                 m_bannedNicks := finsert nick (m_bannedNicks d)\<rparr>;
          sql = ''INSERT INTO GlobalBans (ip_address, nickname, reason, banned_at) VALUES (''
                @ quoted a @ '', '' @ quoted nick @ '', '' @ quoted reason @ '', ''
                @ show_int (now E) @ '');''
      in (d', if \<not> (quote_free a \<and> quote_free nick \<and> quote_free reason) then exec_text E sql db
              else if m_open db \<and> sql_runs E SQL_INSERT_GLOBALBAN
                then db\<lparr>GlobalBans := GlobalBans db @
                       [\<lparr>b_ip_address = a, b_nickname = nick, b_reason = reason, b_banned_at = now E\<rparr>]\<rparr>
              else db))"

definition ban_matches :: "string \<Rightarrow> ban_row \<Rightarrow> bool" where
  "ban_matches q b \<longleftrightarrow> b_ip_address b = q \<or> b_nickname b = q"

text \<open>The statements of \<open>unbanUser\<close> are concatenated, too.\<close>

definition unbanUser :: "env \<Rightarrow> string \<Rightarrow>
    IntrusionDetector \<times> Database \<Rightarrow> IntrusionDetector \<times> Database" where
  "unbanUser E q st =
     (if q = [] then st
      else
        let (d, db) = st;
            d1 = unbanNick q (ids_unban q d);
            cond = ''ip_address='' @ quoted q @ '' OR nickname='' @ quoted q @ '';'';
            rows = (if \<not> quote_free q
                      then query_text E (''SELECT ip_address, nickname FROM GlobalBans WHERE '' @ cond) db
                    else if prepare_ok E SQL_SELECT_GLOBALBAN_OF \<and> m_open db
                      then filter (ban_matches q) (GlobalBans db) else []);
            d2 = fold (\<lambda>b. unbanNick (b_nickname b) \<circ> ids_unban (b_ip_address b)) rows d1
        in (d2, if \<not> quote_free q then exec_text E (''DELETE FROM GlobalBans WHERE '' @ cond) db
                else if m_open db \<and> sql_runs E SQL_DELETE_GLOBALBAN
                  then db\<lparr>GlobalBans := filter (\<lambda>b. \<not> ban_matches q b) (GlobalBans db)\<rparr>
                else db))"

definition load_ban :: "ban_row \<Rightarrow> IntrusionDetector \<Rightarrow> IntrusionDetector" where
  "load_ban b d =
     d\<lparr>m_permBans := (if b_ip_address b \<noteq> [] then finsert (b_ip_address b) (m_permBans d) else m_permBans d),
       m_bannedNicks := (if b_nickname b \<noteq> [] then finsert (b_nickname b) (m_bannedNicks d) else m_bannedNicks d)\<rparr>"

definition loadBansFromDB :: "env \<Rightarrow> Database \<Rightarrow> IntrusionDetector \<Rightarrow> IntrusionDetector" where
  "loadBansFromDB E db d =
     (if m_open db \<and> prepare_ok E SQL_SELECT_GLOBALBANS then fold load_ban (GlobalBans db) d else d)"

definition isBannedNick :: "IntrusionDetector \<Rightarrow> string \<Rightarrow> bool" where
  "isBannedNick d nick \<longleftrightarrow> nick |\<in>| m_bannedNicks d"

definition addWhitelist :: "string \<Rightarrow> IntrusionDetector \<Rightarrow> IntrusionDetector" where
  "addWhitelist a d = d\<lparr>m_whitelist := finsert a (m_whitelist d)\<rparr>"

text \<open>\<open>(int)(s * 0.9)\<close> is \<open>9 s div 10\<close>: the double nearest 0.9 is slightly above it.\<close>

definition decay_score :: "int \<Rightarrow> int" where
  "decay_score s = (if s > 0 then max 0 (9 * s div 10) else s)"

definition decayScores :: "env \<Rightarrow> IntrusionDetector \<Rightarrow> IntrusionDetector" where
  "decayScores E d =
     d\<lparr>m_records := fmmap (\<lambda>r. r\<lparr>threat_score := decay_score (threat_score r)\<rparr>) (m_records d),
       m_tempBans := fmfilter (\<lambda>a. \<not> now E \<ge> the (fmlookup (m_tempBans d) a)) (m_tempBans d)\<rparr>"

text \<open>
  \<open>loadBanList\<close>: range-for over a JSON value visits the elements of an array, the values of an
  object, nothing of null, and any other value once. An entry that is no object, or has a field
  of the wrong type, throws out of the function; the bans read before it stay.
\<close>

definition json_elements :: "json \<Rightarrow> json list" where
  "json_elements j = (case j of
       JArr js \<Rightarrow> js
     | JObj m \<Rightarrow> map (\<lambda>k. the (fmlookup m k)) (sorted_list_of_fset (fmdom m))
     | JNull \<Rightarrow> []
     | _ \<Rightarrow> [j])"

definition load_entry :: "env \<Rightarrow> json \<Rightarrow> IntrusionDetector \<Rightarrow> json_error + IntrusionDetector" where
  "load_entry E entry d =
     (case value_string entry ''ip'' [] of Inl e \<Rightarrow> Inl e | Inr a \<Rightarrow>
      (case value_string entry ''type'' [] of Inl e \<Rightarrow> Inl e | Inr ty \<Rightarrow>
       if ty = ''PERMANENT'' \<and> a \<noteq> [] then Inr (d\<lparr>m_permBans := finsert a (m_permBans d)\<rparr>)
       else if ty = ''TEMPORARY'' \<and> a \<noteq> [] then
         (case json_value get_longlong entry ''until'' 0 of Inl e \<Rightarrow> Inl e | Inr until \<Rightarrow>
            Inr (if until > now E then d\<lparr>m_tempBans := fmupd a until (m_tempBans d)\<rparr> else d))
       else if ty = ''NICKNAME'' then
         (case value_string entry ''nick'' [] of Inl e \<Rightarrow> Inl e | Inr nick \<Rightarrow>
            Inr (if nick \<noteq> [] then d\<lparr>m_bannedNicks := finsert nick (m_bannedNicks d)\<rparr> else d))
       else Inr d))"

fun load_entries :: "env \<Rightarrow> json list \<Rightarrow> IntrusionDetector \<Rightarrow> json_error option \<times> IntrusionDetector" where
  "load_entries E [] d = (None, d)"
| "load_entries E (e # es) d =
     (case load_entry E e d of Inl er \<Rightarrow> (Some er, d) | Inr d' \<Rightarrow> load_entries E es d')"

definition loadBanList :: "env \<Rightarrow> IntrusionDetector \<Rightarrow> json_error option \<times> IntrusionDetector" where
  "loadBanList E d =
     (case ban_file d of
        None \<Rightarrow> (None, d)
      | Some text \<Rightarrow>
        (case json_read text of None \<Rightarrow> (None, d) | Some j \<Rightarrow> load_entries E (json_elements j) d))"

definition exportCEF :: "env \<Rightarrow> string \<Rightarrow> ViolationType \<Rightarrow> int \<Rightarrow> string" where
  "exportCEF E a ty severity =
     ''CEF:0|VCS|SecureChat|1.0'' @ ''|'' @ violationToStr ty @ ''|'' @ violationToStr ty
     @ ''|'' @ show_int severity @ ''|src='' @ a @ '' cs1='' @ violationToStr ty
     @ '' cs1Label=ViolationType'' @ '' rt='' @ show_int (now E)"

section \<open>Violation records\<close>

interpretation violation_log: bounded_log 200 push_violation
  by unfold_locales (simp only: push_violation_def Let_def newest_push)

section \<open>Permanent bans\<close>

text \<open>The calls the running server makes, apart from lifting a ban.\<close>

datatype ids_call =
    CheckIP env string
  | Report env string ViolationType fd
  | TempBan env string int
  | PermBan env string
  | PermBanNick env string
  | PermBanUser env string string string
  | UnbanNick string
  | LoadDB env
  | LoadList env
  | Decay env

fun ids_do :: "lib \<Rightarrow> ids_call \<Rightarrow> IntrusionDetector \<times> AuditLogger \<times> Database \<Rightarrow>
    IntrusionDetector \<times> AuditLogger \<times> Database" where
  "ids_do L (CheckIP E a) (d, al, db) = (snd (checkIP E a d), al, db)"
| "ids_do L (Report E a ty f) st = reportViolation L E a ty f st"
| "ids_do L (TempBan E a secs) (d, al, db) = (tempBan E a secs d, al, db)"
| "ids_do L (PermBan E a) (d, al, db) = (permBan E a d, al, db)"
| "ids_do L (PermBanNick E n) (d, al, db) = (permBanNick E n d, al, db)"
| "ids_do L (PermBanUser E a n r) (d, al, db) =
     (let (d', db') = permBanUser E a n r (d, db) in (d', al, db'))"
| "ids_do L (UnbanNick n) (d, al, db) = (unbanNick n d, al, db)"
| "ids_do L (LoadDB E) (d, al, db) = (loadBansFromDB E db d, al, db)"
| "ids_do L (LoadList E) (d, al, db) = (snd (loadBanList E d), al, db)"
| "ids_do L (Decay E) (d, al, db) = (decayScores E d, al, db)"

lemma exportBanList_frame [simp, frame_simps]:
  "m_permBans (exportBanList E d) = m_permBans d"
  "m_whitelist (exportBanList E d) = m_whitelist d"
  "m_tempBans (exportBanList E d) = m_tempBans d"
  "m_bannedNicks (exportBanList E d) = m_bannedNicks d"
  "m_records (exportBanList E d) = m_records d"
  by (simp_all add: exportBanList_def)

lemma checkIP_frame [simp, frame_simps]:
  "m_permBans (snd (checkIP E a d)) = m_permBans d"
  "m_whitelist (snd (checkIP E a d)) = m_whitelist d"
  "m_bannedNicks (snd (checkIP E a d)) = m_bannedNicks d"
  by (simp_all add: checkIP_def Let_def split: option.splits)

lemma checkThresholds_grows:
  "m_permBans d |\<subseteq>| m_permBans (fst (checkThresholds L E a rec (d, al)))"
  "m_whitelist (fst (checkThresholds L E a rec (d, al))) = m_whitelist d"
  "m_bannedNicks (fst (checkThresholds L E a rec (d, al))) = m_bannedNicks d"
  by (auto simp: checkThresholds_def Let_def split: prod.splits if_splits)

lemma reportViolation_grows:
  "m_permBans (fst st) |\<subseteq>| m_permBans (fst (reportViolation L E a ty f st))"
  "m_whitelist (fst (reportViolation L E a ty f st)) = m_whitelist (fst st)"
  "m_bannedNicks (fst (reportViolation L E a ty f st)) = m_bannedNicks (fst st)"
proof -
  obtain d al where st: "st = (d, al)" by (cases st)
  consider "reportViolation L E a ty f st = st"
    | d' rec al' where "reportViolation L E a ty f st = checkThresholds L E a rec (d', al')"
        "m_permBans d' = m_permBans d" "m_whitelist d' = m_whitelist d"
        "m_bannedNicks d' = m_bannedNicks d"
    by (cases "a = [] \<and> f < 0") (auto simp: st reportViolation_def Let_def)
  then have "m_permBans (fst st) |\<subseteq>| m_permBans (fst (reportViolation L E a ty f st)) \<and>
    m_whitelist (fst (reportViolation L E a ty f st)) = m_whitelist (fst st) \<and>
    m_bannedNicks (fst (reportViolation L E a ty f st)) = m_bannedNicks (fst st)"
  proof cases
    case (2 d' rec al')
    then show ?thesis
      using checkThresholds_grows [where d = d' and L = L and E = E and a = a and rec = rec and al = al']
      by (simp add: st)
  qed simp
  then show "m_permBans (fst st) |\<subseteq>| m_permBans (fst (reportViolation L E a ty f st))"
    "m_whitelist (fst (reportViolation L E a ty f st)) = m_whitelist (fst st)"
    "m_bannedNicks (fst (reportViolation L E a ty f st)) = m_bannedNicks (fst st)"
    by blast+
qed

lemma load_ban_grows: "m_permBans d |\<subseteq>| m_permBans (fold load_ban bs d)"
  "m_whitelist (fold load_ban bs d) = m_whitelist d"
  by (induction bs arbitrary: d) (fastforce simp: load_ban_def)+

lemma load_entry_grows:
  "load_entry E e d = Inr d' \<Longrightarrow> m_permBans d |\<subseteq>| m_permBans d' \<and> m_whitelist d' = m_whitelist d"
  by (auto simp: load_entry_def split: sum.splits if_splits)

lemma load_entries_grows:
  "m_permBans d |\<subseteq>| m_permBans (snd (load_entries E es d)) \<and>
   m_whitelist (snd (load_entries E es d)) = m_whitelist d"
proof (induction es arbitrary: d)
  case (Cons e es)
  show ?case
  proof (cases "load_entry E e d")
    case (Inr d')
    then show ?thesis using Cons [of d'] load_entry_grows [OF Inr] by auto
  qed simp
qed simp

lemma loadBanList_grows:
  "m_permBans d |\<subseteq>| m_permBans (snd (loadBanList E d)) \<and>
   m_whitelist (snd (loadBanList E d)) = m_whitelist d"
  by (simp add: loadBanList_def load_entries_grows split: option.splits)

definition perm_banned :: "string \<Rightarrow> IntrusionDetector \<times> AuditLogger \<times> Database \<Rightarrow> bool" where
  "perm_banned a st \<longleftrightarrow> a |\<in>| m_permBans (fst st) \<and> a |\<notin>| m_whitelist (fst st)"

lemma ids_do_grows:
  "m_permBans (fst st) |\<subseteq>| m_permBans (fst (ids_do L c st)) \<and>
   m_whitelist (fst (ids_do L c st)) = m_whitelist (fst st)"
proof -
  obtain d al db where st: "st = (d, al, db)" by (cases st)
  show ?thesis
  proof (cases c)
    case (Report E a ty f)
    then show ?thesis by (simp add: st reportViolation_grows(1) [of "(d, al, db)", simplified]
          reportViolation_grows(2) [of _ _ _ _ _ "(d, al, db)", simplified])
  qed (auto simp: st tempBan_def permBan_def permBanNick_def permBanUser_def unbanNick_def Let_def
      loadBansFromDB_def load_ban_grows loadBanList_grows decayScores_def
      dest: fsubsetD [OF load_ban_grows(1)] fsubsetD [OF conjunct1 [OF loadBanList_grows]])
qed

interpretation ids: event_machine "ids_do L" "perm_banned a" for L a
  using ids_do_grows by unfold_locales (fastforce simp: perm_banned_def)

text \<open>
  A permanently banned address that is not on the white list is refused at every later
  connection, whatever calls the server makes in between other than lifting bans of addresses:
  violations, manual bans, decay, reloading of the lists.
\<close>

theorem perm_banned_stays_blocked:
  assumes "perm_banned a st"
  shows "fst (checkIP E a (fst (fold (ids_do L) calls st))) = IP_BLOCKED"
  using ids.inv_run [OF assms, of L calls] by (simp add: perm_banned_def checkIP_def)

theorem perm_banned_stays_blocked_witness:
  "fst (checkIP plain_env ''6.6.6.6'' (fst (fold (ids_do plain_lib)
     [Decay plain_env, Report plain_env ''7.7.7.7'' PORT_SCAN (-1), CheckIP plain_env ''6.6.6.6'']
     (permBan plain_env ''6.6.6.6'' IntrusionDetector_init, AuditLogger_init, opened))))
   = IP_BLOCKED"
  by (rule perm_banned_stays_blocked)
    (simp add: perm_banned_def permBan_def IntrusionDetector_init_def)

text \<open>A record is stored under its own address, and a report touches only the reported key.\<close>

definition records_ok :: "IntrusionDetector \<Rightarrow> bool" where
  "records_ok d \<longleftrightarrow> fmpred (\<lambda>k r. ip r = k) (m_records d)"

definition same_for :: "string \<Rightarrow> IntrusionDetector \<Rightarrow> IntrusionDetector \<Rightarrow> bool" where
  "same_for a d d' \<longleftrightarrow> (a |\<in>| m_permBans d' \<longleftrightarrow> a |\<in>| m_permBans d) \<and>
     (a |\<in>| m_whitelist d' \<longleftrightarrow> a |\<in>| m_whitelist d) \<and>
     fmlookup (m_tempBans d') a = fmlookup (m_tempBans d) a \<and>
     fmlookup (m_records d') a = fmlookup (m_records d) a"

lemma same_for_checkIP: "same_for a d d' \<Longrightarrow> fst (checkIP E a d') = fst (checkIP E a d)"
  by (auto simp: same_for_def checkIP_def Let_def split: option.splits)

lemma touch_record_ip: "records_ok d \<Longrightarrow> ip (touch_record E k d) = k"
  by (auto simp: records_ok_def touch_record_def IPRecord_zero_def Let_def split: option.splits
      dest: fmpredD)

lemma checkThresholds_other:
  assumes "ip rec = k" "k \<noteq> a" "records_ok d" "fmlookup (m_records d) k = Some rec"
  shows "same_for a d (fst (checkThresholds L E k rec (d, al))) \<and>
    records_ok (fst (checkThresholds L E k rec (d, al)))"
proof -
  have "fmpred (\<lambda>k r. ip r = k) (fmupd k rec' (m_records d))" if "ip rec' = k" for rec'
    using assms(3) that by (auto simp: records_ok_def intro: fmpred_upd)
  with assms show ?thesis
    by (auto simp: checkThresholds_def same_for_def records_ok_def Let_def split: if_splits prod.splits)
qed

lemma reportViolation_other:
  assumes "k \<noteq> a" "records_ok (fst st)"
  shows "same_for a (fst st) (fst (reportViolation L E k ty f st)) \<and>
    records_ok (fst (reportViolation L E k ty f st))"
proof (cases "k = [] \<and> f < 0")
  case True
  then show ?thesis using assms by (simp add: reportViolation_def same_for_def)
next
  case False
  obtain d al where st: "st = (d, al)" by (cases st)
  define rec where "rec = (touch_record E k d)\<lparr>
     threat_score := threat_score (touch_record E k d) + scoreForViolation ty,
     violations := push_violation \<lparr>v_timestamp = now E, v_type = ty\<rparr> (violations (touch_record E k d))\<rparr>"
  define d1 where "d1 = d\<lparr>m_records := fmupd k rec (m_records d)\<rparr>"
  have ip: "ip rec = k" using touch_record_ip assms(2) by (simp add: rec_def st)
  have run: "\<exists>al'. reportViolation L E k ty f st = checkThresholds L E k rec (d1, al')"
    using False unfolding reportViolation_def if_not_P [OF False] by (intro exI [of _ "audit_log L E SECURITY k [] (''VIOLATION_'' @ violationToStr ty)
        BLOCKED k (''score='' @ show_int (threat_score rec)) al"])
      (simp add: st rec_def d1_def Let_def)
  have "records_ok d1" "same_for a d d1"
    using assms ip by (auto simp: records_ok_def d1_def st same_for_def intro: fmpred_upd)
  moreover have "fmlookup (m_records d1) k = Some rec" by (simp add: d1_def)
  ultimately show ?thesis
    using run checkThresholds_other [OF ip assms(1), of d1] by (auto simp: st same_for_def)
qed

section \<open>Thresholds\<close>

text \<open>The detector's view of an address that was reported for violations worth \<open>s\<close> since \<open>t\<close>.\<close>

definition scored :: "string \<Rightarrow> time \<Rightarrow> int \<Rightarrow> IntrusionDetector \<Rightarrow> bool" where
  "scored a t s d \<longleftrightarrow>
     (case fmlookup (m_records d) a of
        None \<Rightarrow> s = 0
      | Some r \<Rightarrow> ip r = a \<and> threat_score r = s \<and>
          temp_ban_count r = (if s \<ge> THREAT_THRESHOLD then 1 else 0)) \<and>
     (case fmlookup (m_tempBans d) a of
        None \<Rightarrow> s < THREAT_THRESHOLD
      | Some u \<Rightarrow> s \<ge> THREAT_THRESHOLD \<and> u \<ge> t + 3600) \<and>
     (a |\<in>| m_permBans d \<longleftrightarrow> s \<ge> PERM_BAN_THRESHOLD)"

lemma score_bounds: "5 \<le> scoreForViolation ty" "scoreForViolation ty \<le> 100"
  by (cases ty; simp)+

text \<open>Below the permanent threshold the first report over 100 sets the temporary ban.\<close>

lemma checkThresholds_scored:
  assumes rec: "ip rec = a" "threat_score rec = s" "temp_ban_count rec = (if s' \<ge> 100 then 1 else 0)"
    and d: "fmlookup (m_records d) a = Some rec"
      "case fmlookup (m_tempBans d) a of None \<Rightarrow> s' < 100 | Some u \<Rightarrow> s' \<ge> 100 \<and> u \<ge> t + 3600"
      "a |\<in>| m_permBans d \<longleftrightarrow> s' \<ge> 500"
    and s: "s' \<le> s" "s \<le> s' + 100" and t: "t \<le> now E"
  shows "scored a t s (fst (checkThresholds L E a rec (d, al)))"
proof (cases "s \<ge> 500")
  case True
  then show ?thesis
    using assms by (auto simp: checkThresholds_def scored_def ids_consts Let_def split: option.splits)
next
  case False
  show ?thesis
  proof (cases "fmlookup (m_tempBans d) a")
    case None
    then have "s' < 100" "s < 200" using d(2) s(2) by simp_all
    with None False assms show ?thesis
      by (simp add: checkThresholds_def scored_def ids_consts Let_def)
  next
    case (Some u)
    with False assms show ?thesis
      by (simp add: checkThresholds_def scored_def ids_consts Let_def)
  qed
qed

lemma reportViolation_scored:
  assumes "scored a t s (fst st)" "a \<noteq> []" "t \<le> now E"
  shows "scored a t (s + scoreForViolation ty) (fst (reportViolation L E a ty f st))"
proof -
  obtain d al where st: "st = (d, al)" by (cases st)
  define rec0 where "rec0 = touch_record E a d"
  define rec where "rec = rec0\<lparr>threat_score := threat_score rec0 + scoreForViolation ty,
     violations := push_violation \<lparr>v_timestamp = now E, v_type = ty\<rparr> (violations rec0)\<rparr>"
  define al' where "al' = audit_log L E SECURITY a [] (''VIOLATION_'' @ violationToStr ty) BLOCKED a
     (''score='' @ show_int (threat_score rec)) al"
  have run: "reportViolation L E a ty f st =
      checkThresholds L E a rec (d\<lparr>m_records := fmupd a rec (m_records d)\<rparr>, al')"
    using assms(2) by (simp add: st reportViolation_def rec0_def rec_def al'_def Let_def)
  have r: "ip rec = a" "threat_score rec = s + scoreForViolation ty"
    "temp_ban_count rec = (if s \<ge> 100 then 1 else 0)"
    using assms(1,2) by (auto simp: st rec_def rec0_def touch_record_def scored_def ids_consts
        IPRecord_zero_def Let_def split: option.splits)
  show ?thesis unfolding run
    by (rule checkThresholds_scored [where s' = s])
      (use assms score_bounds [of ty] in \<open>auto simp: r st scored_def ids_consts split: option.splits\<close>)
qed

lemma reports_scored:
  assumes "scored a t s (fst st)" "a \<noteq> []" "list_all (\<lambda>(E, ty). t \<le> now E) rs"
  shows "scored a t (s + sum_list (map (scoreForViolation \<circ> snd) rs))
    (fst (fold (\<lambda>(E, ty). reportViolation L E a ty f) rs st))"
  using assms
proof (induction rs arbitrary: s st)
  case (Cons r rs)
  obtain E ty where r: "r = (E, ty)" by force
  with Cons have "scored a t (s + scoreForViolation ty) (fst (reportViolation L E a ty f st))"
    using reportViolation_scored by simp
  from Cons.IH [OF this] Cons.prems show ?case by (simp add: r add.assoc)
qed simp

lemma reports_whitelist:
  "m_whitelist (fst (fold (\<lambda>(E, ty). reportViolation L E a ty f) rs st)) = m_whitelist (fst st)"
  by (induction rs arbitrary: st) (auto simp: reportViolation_grows)

text \<open>
  How violations turn into bans. An address without history that is reported for a list of
  violations from time \<open>t\<close> on is refused during the hour after \<open>t\<close> exactly if their scores add
  up to at least 100, and its ban is permanent exactly if they add up to at least 500.
\<close>

theorem reports_ban_by_score:
  fixes L :: lib and f :: fd and al :: AuditLogger and db :: Database
  assumes "a \<noteq> []" "fmlookup (m_records d) a = None" "fmlookup (m_tempBans d) a = None"
    and "a |\<notin>| m_permBans d" "a |\<notin>| m_whitelist d"
    and "list_all (\<lambda>(E, ty). t \<le> now E) rs" "now E' < t + 3600"
  defines "points \<equiv> sum_list (map (scoreForViolation \<circ> snd) rs)"
    and "d' \<equiv> fst (fold (\<lambda>(E, ty). reportViolation L E a ty f) rs (d, al, db))"
  shows "(fst (checkIP E' a d') = IP_BLOCKED \<longleftrightarrow> points \<ge> 100) \<and>
         (a |\<in>| m_permBans d' \<longleftrightarrow> points \<ge> 500)"
proof -
  have "scored a t 0 (fst (d, al, db))"
    using assms(2-4) by (simp add: scored_def ids_consts)
  then have sc: "scored a t points d'"
    unfolding d'_def points_def using reports_scored assms(1,6) by fastforce
  have wl: "a |\<notin>| m_whitelist d'" using assms(5) by (simp add: d'_def reports_whitelist)
  show ?thesis
  proof (cases "fmlookup (m_tempBans d') a")
    case None
    with sc wl show ?thesis by (auto simp: scored_def checkIP_def ids_consts Let_def)
  next
    case (Some u)
    with sc assms(7) have "now E' < u" "points \<ge> 100" by (simp_all add: scored_def ids_consts)
    with Some sc wl show ?thesis by (simp add: scored_def checkIP_def ids_consts Let_def)
  qed
qed

theorem reports_ban_by_score_witness:
  "fst (checkIP plain_env ''9.9.9.9''
     (fst (fold (\<lambda>(E, ty). reportViolation plain_lib E ''9.9.9.9'' ty (-1))
       [(plain_env, REPLAY_ATTACK), (plain_env, REPLAY_ATTACK)]
       (IntrusionDetector_init, AuditLogger_init, opened)))) = IP_BLOCKED"
  using reports_ban_by_score [of "''9.9.9.9''" IntrusionDetector_init 1000
      "[(plain_env, REPLAY_ATTACK), (plain_env, REPLAY_ATTACK)]" plain_env plain_lib "-1"
      AuditLogger_init opened]
  by (simp add: IntrusionDetector_init_def plain_env_def)

section \<open>The ban list's file\<close>

lemma load_entries_append:
  "load_entries E (xs @ ys) d =
     (case load_entries E xs d of (Some er, d') \<Rightarrow> (Some er, d') | (None, d') \<Rightarrow> load_entries E ys d')"
  by (induction xs arbitrary: d) (simp_all split: sum.splits)

lemma load_perm_entries:
  "load_entries E (map (\<lambda>a. json_object
       [(''ip'', JStr a), (''type'', JStr ''PERMANENT''), (''ts'', JInt t)]) xs) d =
     (None, d\<lparr>m_permBans := m_permBans d |\<union>| fset_of_list (filter (\<lambda>a. a \<noteq> []) xs)\<rparr>)"
  by (induction xs arbitrary: d) (simp_all add: json_object_def load_entry_def funion_finsert_left)

lemma load_nick_entries:
  "load_entries E (map (\<lambda>a. json_object
       [(''nick'', JStr a), (''type'', JStr ''NICKNAME''), (''ts'', JInt t)]) xs) d =
     (None, d\<lparr>m_bannedNicks := m_bannedNicks d |\<union>| fset_of_list (filter (\<lambda>a. a \<noteq> []) xs)\<rparr>)"
  by (induction xs arbitrary: d) (simp_all add: json_object_def load_entry_def funion_finsert_left)

definition load_temp :: "env \<Rightarrow> (string \<Rightarrow> time) \<Rightarrow> string list \<Rightarrow> (string, time) fmap \<Rightarrow> (string, time) fmap" where
  "load_temp E u xs m = fold (\<lambda>a m. if a \<noteq> [] \<and> u a > now E then fmupd a (u a) m else m) xs m"

lemma load_temp_entries:
  "(\<forall>a \<in> set xs. int64_of (u a) = u a) \<Longrightarrow>
   load_entries E (map (\<lambda>a. json_object
       [(''ip'', JStr a), (''type'', JStr ''TEMPORARY''), (''until'', JInt (u a))]) xs) d =
     (None, d\<lparr>m_tempBans := load_temp E u xs (m_tempBans d)\<rparr>)"
  by (induction xs arbitrary: d) (auto simp: json_object_def load_entry_def load_temp_def)

lemma load_temp_lookup:
  "fmlookup (load_temp E u xs m) a =
     (if a \<in> set xs \<and> a \<noteq> [] \<and> u a > now E then Some (u a) else fmlookup m a)"
  by (induction xs arbitrary: m) (auto simp: load_temp_def)

text \<open>A detector started on the file \<open>d\<close> was exported to.\<close>

definition restarted :: "env \<Rightarrow> IntrusionDetector \<Rightarrow> json_error option \<times> IntrusionDetector" where
  "restarted E d = loadBanList E (IntrusionDetector_init\<lparr>ban_file := ban_file d\<rparr>)"

definition int64_ok :: "int \<Rightarrow> bool" where
  "int64_ok i \<longleftrightarrow> - (2 ^ 63) \<le> i \<and> i < 2 ^ 63"

definition file_faithful :: "env \<Rightarrow> IntrusionDetector \<Rightarrow> bool" where
  "file_faithful E d \<longleftrightarrow> file_ok E \<and> int64_ok (now E) \<and> fBall (m_permBans d) utf8_ok \<and>
     fBall (m_bannedNicks d) utf8_ok \<and>
     fBall (fmdom (m_tempBans d)) (\<lambda>a. utf8_ok a \<and> int64_ok (the (fmlookup (m_tempBans d) a)))"

lemma int64_of_ok: "int64_ok i \<Longrightarrow> int64_of i = i"
  by (simp add: int64_ok_def int64_of_def signed_take_bit_int_eq_self)

lemma json_ok_ban_list: "file_faithful E d \<Longrightarrow> json_ok (ban_list_json E d)"
  by (auto simp: file_faithful_def ban_list_json_def json_object_def int64_ok_def list_all_iff)

lemma read_ban_list: "file_faithful E d \<Longrightarrow> json_read (json_dump2 (ban_list_json E d)) = Some (ban_list_json E d)"
  using json_read_dump2 [OF json_ok_ban_list, of E d "[]"] by simp

lemma restarted_exported:
  assumes "file_faithful E d"
  shows "fst (restarted E' (exportBanList E d)) = None \<and>
    m_permBans (snd (restarted E' (exportBanList E d))) = m_permBans d |-| {|[]|} \<and>
    m_bannedNicks (snd (restarted E' (exportBanList E d))) = m_bannedNicks d |-| {|[]|} \<and>
    m_tempBans (snd (restarted E' (exportBanList E d))) =
      load_temp E' (\<lambda>a. the (fmlookup (m_tempBans d) a))
        (sorted_list_of_fset (fmdom (m_tempBans d))) fmempty"
proof -
  have ne: "ffilter (\<lambda>a. a \<noteq> []) X = X |-| {|[]|}" for X :: "string fset"
    by (rule fset_eqI) auto
  have u: "\<forall>a \<in> set (sorted_list_of_fset (fmdom (m_tempBans d))).
      int64_of (the (fmlookup (m_tempBans d) a)) = the (fmlookup (m_tempBans d) a)"
    using assms by (auto simp: file_faithful_def int64_of_ok)
  have "file_ok E" using assms by (simp add: file_faithful_def)
  then show ?thesis
    using read_ban_list [OF assms]
    by (simp add: restarted_def exportBanList_def loadBanList_def
        ban_list_json_def json_elements_def load_entries_append load_perm_entries
        load_nick_entries load_temp_entries [OF u] ne IntrusionDetector_init_def)
qed

text \<open>
  The ban list survives a restart: what \<open>exportBanList\<close> wrote, \<open>loadBanList\<close> reads back:
  every permanent ban and every banned nickname (empty names apart), and the temporary bans that
  have not expired meanwhile, with their end, where the names are UTF-8 and the times fit 64 bits.
\<close>

theorem ban_list_roundtrip:
  assumes "file_faithful E d" "a \<noteq> []"
  shows "m_permBans (snd (restarted E' (exportBanList E d))) = m_permBans d |-| {|[]|} \<and>
    m_bannedNicks (snd (restarted E' (exportBanList E d))) = m_bannedNicks d |-| {|[]|} \<and>
    fmlookup (m_tempBans (snd (restarted E' (exportBanList E d)))) a =
      (case fmlookup (m_tempBans d) a of
         None \<Rightarrow> None | Some u \<Rightarrow> if now E' < u then Some u else None)"
  using restarted_exported [OF assms(1), of E'] assms(2)
  by (auto simp: load_temp_lookup fmlookup_dom_iff split: option.splits)

definition banned_sample :: IntrusionDetector where
  "banned_sample = IntrusionDetector_init\<lparr>m_permBans := {|''6.6.6.6''|},
     m_tempBans := fmupd ''5.5.5.5'' 5000 fmempty\<rparr>"

lemma file_faithful_sample: "file_faithful plain_env banned_sample"
  by (simp add: file_faithful_def plain_env_def banned_sample_def IntrusionDetector_init_def int64_ok_def)

theorem ban_list_roundtrip_witness:
  "fmlookup (m_tempBans (snd (restarted (plain_env\<lparr>now := 4000\<rparr>)
      (exportBanList plain_env banned_sample)))) ''5.5.5.5'' = Some 5000"
  using ban_list_roundtrip [OF file_faithful_sample, of "''5.5.5.5''" "plain_env\<lparr>now := 4000\<rparr>"]
  by (simp add: banned_sample_def)

lemma ids_unban_frame [simp, frame_simps]:
  "ban_file (ids_unban a d) = ban_file d" "ban_file (unbanNick n d) = ban_file d"
  "m_permBans (ids_unban a d) = m_permBans d |-| {|a|}" "m_permBans (unbanNick n d) = m_permBans d"
  by (simp_all add: ids_unban_def unbanNick_def Let_def split: option.splits)

lemma fold_unban_frame:
  "ban_file (fold (\<lambda>b. unbanNick (b_nickname b) \<circ> ids_unban (b_ip_address b)) rows d) = ban_file d"
  "a |\<notin>| m_permBans d \<Longrightarrow>
   a |\<notin>| m_permBans (fold (\<lambda>b. unbanNick (b_nickname b) \<circ> ids_unban (b_ip_address b)) rows d)"
  by (induction rows arbitrary: d) simp_all

text \<open>
  Lifting a ban does not reach the file: after \<open>unbanUser\<close> the address is free, but a server
  restarted on the file the ban was exported to bans it again.
\<close>

theorem lifted_ban_returns:
  assumes "file_faithful E d" "a \<noteq> []" "a |\<in>| m_permBans d"
  shows "a |\<notin>| m_permBans (fst (unbanUser E a (exportBanList E d, db))) \<and>
    a |\<in>| m_permBans (snd (restarted E' (fst (unbanUser E a (exportBanList E d, db)))))"
proof -
  have "a |\<notin>| m_permBans (fst (unbanUser E a (exportBanList E d, db)))"
    using assms(2) by (simp add: unbanUser_def Let_def fold_unban_frame(2))
  moreover have "restarted E' (fst (unbanUser E a (exportBanList E d, db))) =
      restarted E' (exportBanList E d)"
    using assms(2) by (simp add: restarted_def unbanUser_def Let_def fold_unban_frame)
  ultimately show ?thesis using restarted_exported [OF assms(1)] assms(2,3) by simp
qed

theorem lifted_ban_returns_witness:
  "''6.6.6.6'' |\<in>| m_permBans (snd (restarted plain_env (fst (unbanUser plain_env
      ''6.6.6.6'' (exportBanList plain_env banned_sample, opened)))))"
  using lifted_ban_returns [OF file_faithful_sample, of "''6.6.6.6''" opened plain_env]
  by (simp add: banned_sample_def)

end
