(* ===== verification/Handshake.thy ===== *)
theory Handshake
  imports Intrusion
begin

text \<open>
  The key exchange: the server's side, \<open>server/security/KeyExchange.cpp\<close>, with its callback into
  the crypto engine, and the client's side, \<open>client/security/ClientCrypto.cpp\<close>. Lengths on the wire
  are \<open>uint32_t\<close>; the guards are computed at that width, as in the sources, and a read outside a
  vector (undefined behaviour) is the value \<open>None\<close>. Both sides end with the same key.
\<close>

definition HANDSHAKE_TIMEOUT_SEC :: int where "HANDSHAKE_TIMEOUT_SEC = 30"
definition MAX_HANDSHAKE_FAILURES :: int where "MAX_HANDSHAKE_FAILURES = 3"
definition IP_BLOCK_SECONDS :: int where "IP_BLOCK_SECONDS = 300"

datatype HandshakeState =
  WAITING_HELLO | SENT_KEY_OFFER | WAITING_KEY_ACCEPT | ESTABLISHED | FAILED

record PerClientState =
  hs_state :: HandshakeState
  hs_server_nonce :: bytes
  hs_client_nonce :: bytes
  handshake_time :: time
  peer_ip :: string

record KeyExchange =
  clients :: "(fd, PerClientState) fmap"
  ip_failures :: "(string, int \<times> time) fmap"

text \<open>The state the server's side works on: the exchange, the engine, the detector and its log.\<close>

type_synonym kx_state = "KeyExchange \<times> CryptoEngine \<times> IntrusionDetector \<times> AuditLogger \<times> Database"

definition addClient :: "env \<Rightarrow> fd \<Rightarrow> string \<Rightarrow> KeyExchange \<Rightarrow> KeyExchange" where
  "addClient E f ip_addr kx = kx\<lparr>clients := fmupd f \<lparr>hs_state = WAITING_HELLO,
     hs_server_nonce = replicate 16 0, hs_client_nonce = replicate 16 0, handshake_time = now E,
     peer_ip = ip_addr\<rparr> (clients kx)\<rparr>"

definition removeClient :: "fd \<Rightarrow> KeyExchange \<Rightarrow> KeyExchange" where
  "removeClient f kx = kx\<lparr>clients := fmdrop f (clients kx)\<rparr>"

definition buildErrorPacket :: "ErrorCode \<Rightarrow> Packet" where
  "buildErrorPacket c = mk_packet MSG_ERROR [err_code c]"

definition hs_fail :: Packet where
  "hs_fail = buildErrorPacket ERR_CRYPTO_HANDSHAKE_FAIL"

definition isBlocked :: "env \<Rightarrow> KeyExchange \<Rightarrow> string \<Rightarrow> bool" where
  "isBlocked E kx ip_addr \<longleftrightarrow>
     (case fmlookup (ip_failures kx) ip_addr of
        None \<Rightarrow> False
      | Some (count, blocked_until) \<Rightarrow> count \<ge> MAX_HANDSHAKE_FAILURES \<and> now E < blocked_until)"

definition set_client :: "fd \<Rightarrow> PerClientState \<Rightarrow> KeyExchange \<Rightarrow> KeyExchange" where
  "set_client f cs kx = kx\<lparr>clients := fmupd f cs (clients kx)\<rparr>"

definition handleHello :: "lib \<Rightarrow> env \<Rightarrow> fd \<Rightarrow> KeyExchange \<Rightarrow> Packet \<times> KeyExchange" where
  "handleHello L E f kx =
     (case fmlookup (clients kx) f of
        None \<Rightarrow> (hs_fail, kx)
      | Some cs \<Rightarrow>
        if hs_state cs \<noteq> WAITING_HELLO then (hs_fail, set_client f (cs\<lparr>hs_state := FAILED\<rparr>) kx)
        else if isBlocked E kx (peer_ip cs) then (hs_fail, set_client f (cs\<lparr>hs_state := FAILED\<rparr>) kx)
        else
          let nonce = rand_bytes E 16;
              pem = rsa_public_pem L;
              pem_len = (of_nat (length pem) :: u32)
          in (mk_packet MSG_CRYPTO_KEY_OFFER (be32 pem_len @ bytes_of_string pem @ nonce),
              set_client f (cs\<lparr>hs_server_nonce := nonce, hs_state := SENT_KEY_OFFER,
                handshake_time := now E\<rparr>) kx))"

definition recordFailure :: "lib \<Rightarrow> env \<Rightarrow> string \<Rightarrow> kx_state \<Rightarrow> kx_state" where
  "recordFailure L E ip_addr st =
     (let (kx, e, ids) = st;
          (count, blocked_until) =
            (case fmlookup (ip_failures kx) ip_addr of Some p \<Rightarrow> p | None \<Rightarrow> (0, 0));
          count' = count + 1;
          until' = (if count' \<ge> MAX_HANDSHAKE_FAILURES then now E + IP_BLOCK_SECONDS else blocked_until)
      in (kx\<lparr>ip_failures := fmupd ip_addr (count', until') (ip_failures kx)\<rparr>, e,
          reportViolation L E ip_addr HANDSHAKE_FAIL (-1) ids))"

text \<open>The four bytes of a big-endian length at the front of a payload of at least four bytes.\<close>

definition read_be32 :: "bytes \<Rightarrow> u32" where
  "read_be32 p = of_be32 (p ! 0) (p ! 1) (p ! 2) (p ! 3)"

text \<open>\<open>vector(begin() + 4, begin() + 4 + n)\<close>, undefined outside the vector.\<close>

definition slice4 :: "bytes \<Rightarrow> nat \<Rightarrow> bytes option" where
  "slice4 p n = (if 4 + n \<le> length p then Some (take n (drop 4 p)) else None)"

definition handleKeyAccept :: "lib \<Rightarrow> env \<Rightarrow> fd \<Rightarrow> Packet \<Rightarrow> kx_state \<Rightarrow>
    (crypto_error + Packet \<times> kx_state) option" where
  "handleKeyAccept L E f incoming st =
     (let (kx, e, ids) = st in
      case fmlookup (clients kx) f of
        None \<Rightarrow> Some (Inr (hs_fail, st))
      | Some cs \<Rightarrow>
        let failed = (\<lambda>_ :: unit. Some (Inr (hs_fail,
              recordFailure L E (peer_ip cs) (set_client f (cs\<lparr>hs_state := FAILED\<rparr>) kx, e, ids))));
            p = payload incoming
        in if hs_state cs \<noteq> SENT_KEY_OFFER then failed ()
           else if length p < 4 then failed ()
           else
             let blob_len = read_be32 p in
             if length p < unat (4 + blob_len) then failed ()
             else
               (case slice4 p (unat blob_len) of
                  None \<Rightarrow> None
                | Some rsa_blob \<Rightarrow>
                  (case rsa_private_decrypt L rsa_blob of
                     None \<Rightarrow> failed ()
                   | Some decrypted \<Rightarrow>
                     if length decrypted \<noteq> 48 then failed ()
                     else
                       let aes_key = take 32 decrypted;
                           kx' = set_client f (cs\<lparr>hs_client_nonce := drop 32 decrypted,
                                   hs_state := ESTABLISHED\<rparr>) kx
                       in (case establishSession f aes_key e of
                             Inl er \<Rightarrow> Some (Inl er)
                           | Inr e' \<Rightarrow> Some (Inr (mk_packet MSG_CRYPTO_HANDSHAKE_OK [], (kx', e', ids)))))))"

definition isEstablished :: "KeyExchange \<Rightarrow> fd \<Rightarrow> bool" where
  "isEstablished kx f \<longleftrightarrow>
     (case fmlookup (clients kx) f of None \<Rightarrow> False | Some cs \<Rightarrow> hs_state cs = ESTABLISHED)"

definition handshake_overdue :: "env \<Rightarrow> PerClientState \<Rightarrow> bool" where
  "handshake_overdue E cs \<longleftrightarrow> hs_state cs \<noteq> ESTABLISHED \<and> hs_state cs \<noteq> FAILED \<and>
     now E - handshake_time cs > HANDSHAKE_TIMEOUT_SEC"

text \<open>The descriptors to disconnect, and the violations reported for them.\<close>

definition reapTimedOutHandshakes :: "lib \<Rightarrow> env \<Rightarrow> KeyExchange \<Rightarrow>
    IntrusionDetector \<times> AuditLogger \<times> Database \<Rightarrow> fd list \<times> IntrusionDetector \<times> AuditLogger \<times> Database" where
  "reapTimedOutHandshakes L E kx ids =
     (let overdue = filter (\<lambda>f. handshake_overdue E (the (fmlookup (clients kx) f)))
                      (sorted_list_of_fset (fmdom (clients kx)))
      in (overdue,
          fold (\<lambda>f. reportViolation L E (peer_ip (the (fmlookup (clients kx) f))) PORT_SCAN (-1)) overdue ids))"

section \<open>The client's side\<close>

record ClientCrypto =
  cc_server_nonce :: bytes
  cc_client_nonce :: bytes
  aes_session_key :: bytes
  cc_aes :: "bytes option"
  handshake_done :: bool
  server_pem :: string

definition cc_disconnect :: "ClientCrypto \<Rightarrow> ClientCrypto" where
  "cc_disconnect c = c\<lparr>handshake_done := False, aes_session_key := [], cc_aes := None,
     cc_server_nonce := replicate 16 0, cc_client_nonce := replicate 16 0\<rparr>"

definition startHandshake :: "ClientCrypto \<Rightarrow> Packet \<times> ClientCrypto" where
  "startHandshake c = (mk_packet MSG_CRYPTO_HELLO [], cc_disconnect c)"

text \<open>The outer \<open>None\<close> is a read outside the payload; \<open>Inl\<close> is an exception, with the state it leaves.\<close>

definition processKeyOffer :: "lib \<Rightarrow> env \<Rightarrow> Packet \<Rightarrow> ClientCrypto \<Rightarrow>
    ((crypto_error + Packet) \<times> ClientCrypto) option" where
  "processKeyOffer L E pkt c =
     (if msg_type (header pkt) \<noteq> msg_code MSG_CRYPTO_KEY_OFFER then Some (Inl NotInitialised, c)
      else
        let p = payload pkt in
        if length p < 4 + 16 then Some (Inl InputTooShort, c)
        else
          let pem_len = read_be32 p in
          if length p < unat (4 + pem_len + 16) then Some (Inl InputTooShort, c)
          else
            (case slice4 p (unat pem_len) of
               None \<Rightarrow> None
             | Some pem_bytes \<Rightarrow>
               let pem = string_of_bytes pem_bytes in
               if \<not> rsa_load_public L pem then Some (Inl RsaFailed, c)
               else if length p < 4 + unat pem_len + 16 then None
               else
                 let c1 = c\<lparr>server_pem := pem,
                            cc_server_nonce := take 16 (drop (4 + unat pem_len) p),
                            aes_session_key := rand_bytes E 32,
                            cc_client_nonce := rand_bytes E 16\<rparr>;
                     blob = aes_session_key c1 @ cc_client_nonce c1
                 in (case rsa_public_encrypt L pem blob of
                       None \<Rightarrow> Some (Inl RsaFailed, c1)
                     | Some rsa_blob \<Rightarrow>
                       if length (aes_session_key c1) \<noteq> KEY_LEN then Some (Inl InvalidKeySize, c1)
                       else Some (Inr (mk_packet MSG_CRYPTO_KEY_ACCEPT
                                (be32 (of_nat (length rsa_blob)) @ rsa_blob)),
                              c1\<lparr>cc_aes := Some (aes_session_key c1)\<rparr>))))"

definition processHandshakeOk :: "Packet \<Rightarrow> ClientCrypto \<Rightarrow> crypto_error + ClientCrypto" where
  "processHandshakeOk pkt c =
     (if msg_type (header pkt) \<noteq> msg_code MSG_CRYPTO_HANDSHAKE_OK then Inl NotInitialised
      else if cc_aes c = None then Inl NotInitialised
      else Inr (c\<lparr>handshake_done := True\<rparr>))"

definition encryptPacket :: "lib \<Rightarrow> bytes \<Rightarrow> ClientCrypto \<Rightarrow> bytes \<Rightarrow> crypto_error + bytes" where
  "encryptPacket L iv c plaintext =
     (if \<not> handshake_done c then Inl NotInitialised
      else case cc_aes c of None \<Rightarrow> Inl NoSession | Some key \<Rightarrow> Inr (aes_encrypt L key iv plaintext []))"

definition decryptPacket :: "lib \<Rightarrow> ClientCrypto \<Rightarrow> bytes \<Rightarrow> crypto_error + bytes" where
  "decryptPacket L c ciphertext =
     (if \<not> handshake_done c then Inl NotInitialised
      else case cc_aes c of None \<Rightarrow> Inl NoSession | Some key \<Rightarrow> aes_decrypt L key ciphertext [])"

section \<open>Lengths on the wire\<close>

lemma read_be32_be32 [simp, codec_simps]: "read_be32 (be32 w @ r) = w"
  by (simp add: read_be32_def be32_alt)

lemma slice4_be32 [simp]: "slice4 (be32 w @ a @ b) (length a) = Some a"
  by (simp add: slice4_def)

lemma unat_of_nat_u32: "n < 2 ^ 32 \<Longrightarrow> unat (of_nat n :: u32) = n"
  by (simp add: unat_of_nat)

lemma unat_four_plus:
  "unat (4 + w) = (if unat w < 2 ^ 32 - 4 then 4 + unat w else unat w - (2 ^ 32 - 4))" for w :: u32
proof -
  have "unat (4 + w) = (4 + unat w) mod 2 ^ 32" by (simp add: unat_word_ariths)
  moreover have "unat w < 2 ^ 32" using unsigned_less [of w, where ?'a = nat] by simp
  ultimately show ?thesis by (auto simp: mod_if)
qed

text \<open>
  Where the server's length check is sound. On payloads shorter than 4 GiB the key
  acceptance reads inside the payload unless the announced length is one of the last four
  values of \<open>uint32_t\<close>: then \<open>4 + blob_len\<close> wraps around, the check passes and the copy runs
  outside the vector.
\<close>

theorem key_accept_out_of_range_iff:
  assumes "fmlookup (clients kx) f = Some cs" "length (payload pkt) < 2 ^ 32"
  shows "handleKeyAccept L E f pkt (kx, e, ids) = None \<longleftrightarrow>
    hs_state cs = SENT_KEY_OFFER \<and> 4 \<le> length (payload pkt) \<and>
    unat (read_be32 (payload pkt)) \<ge> 2 ^ 32 - 4"
proof (cases "hs_state cs = SENT_KEY_OFFER \<and> 4 \<le> length (payload pkt)")
  case True
  let ?n = "unat (read_be32 (payload pkt))"
  have n: "?n < 2 ^ 32" using unsigned_less [of "read_be32 (payload pkt)", where ?'a = nat] by simp
  show ?thesis
  proof (cases "?n < 2 ^ 32 - 4")
    case small: True
    then have g: "unat (4 + read_be32 (payload pkt)) = 4 + ?n" by (simp add: unat_four_plus)
    have "handleKeyAccept L E f pkt (kx, e, ids) \<noteq> None"
      using True by (auto simp: handleKeyAccept_def assms(1) Let_def g slice4_def split: option.splits sum.splits)
    with small show ?thesis by simp
  next
    case False
    have "unat (4 + read_be32 (payload pkt)) \<le> 3" using False n by (simp add: unat_four_plus)
    then have "\<not> length (payload pkt) < unat (4 + read_be32 (payload pkt))" using True by linarith
    moreover have "slice4 (payload pkt) ?n = None" using False assms(2) by (simp add: slice4_def)
    ultimately show ?thesis using True False by (simp add: handleKeyAccept_def assms(1) Let_def)
  qed
next
  case False
  then show ?thesis by (auto simp: handleKeyAccept_def assms(1) Let_def not_le)
qed

definition sample_client :: "HandshakeState \<Rightarrow> PerClientState" where
  "sample_client s = \<lparr>hs_state = s, hs_server_nonce = replicate 16 7,
     hs_client_nonce = replicate 16 0, handshake_time = 1000, peer_ip = ''3.3.3.3''\<rparr>"

definition sample_kx :: "HandshakeState \<Rightarrow> KeyExchange" where
  "sample_kx s = \<lparr>clients = fmupd 5 (sample_client s) fmempty, ip_failures = fmempty\<rparr>"

lemma sample_kx_client [simp]: "fmlookup (clients (sample_kx s)) 5 = Some (sample_client s)"
  by (simp add: sample_kx_def)

definition fresh_engine :: CryptoEngine where
  "fresh_engine = \<lparr>initialised = True, jwt_secret = replicate 32 1, session_keys = fmempty\<rparr>"

theorem key_accept_out_of_range_iff_witness:
  "handleKeyAccept plain_lib plain_env 5 (mk_packet MSG_CRYPTO_KEY_ACCEPT [0xFF, 0xFF, 0xFF, 0xFE, 1])
     (sample_kx SENT_KEY_OFFER, fresh_engine, IntrusionDetector_init, AuditLogger_init, opened) = None"
proof -
  have "read_be32 [0xFF, 0xFF, 0xFF, 0xFE, 1] = 0xFFFFFFFE"
    by (simp add: read_be32_def of_be32_def push_bit_eq_mult)
  then show ?thesis
    by (subst key_accept_out_of_range_iff [OF sample_kx_client]) (simp_all add: sample_client_def)
qed

section \<open>Agreement\<close>

text \<open>RSA as the exchange uses it: the server's key decrypts what was encrypted with its PEM.\<close>

definition rsa_works :: "lib \<Rightarrow> bytes \<Rightarrow> bool" where
  "rsa_works L blob \<longleftrightarrow> rsa_load_public L (rsa_public_pem L) \<and> length (rsa_public_pem L) < 2 ^ 31 \<and>
     (case rsa_public_encrypt L (rsa_public_pem L) blob of
        None \<Rightarrow> False
      | Some c \<Rightarrow> length c < 2 ^ 31 \<and> rsa_private_decrypt L c = Some blob)"

lemma unat_twenty_plus:
  assumes "n < 2 ^ 31"
  shows "unat (20 + (of_nat n :: u32)) = 20 + n"
proof -
  have "20 + (of_nat n :: u32) = of_nat (20 + n)" by simp
  moreover have "unat (of_nat (20 + n) :: u32) = 20 + n"
    using assms by (intro unat_of_nat_u32) simp
  ultimately show ?thesis by (simp only:)
qed

lemma client_accepts_offer:
  assumes "rsa_works L (rand_bytes E 32 @ rand_bytes E 16)" "length nonce = 16"
    and "length (rand_bytes E 32) = 32"
  shows "\<exists>blob c'. processKeyOffer L E (mk_packet MSG_CRYPTO_KEY_OFFER
      (be32 (of_nat (length (rsa_public_pem L))) @ bytes_of_string (rsa_public_pem L) @ nonce)) c =
      Some (Inr (mk_packet MSG_CRYPTO_KEY_ACCEPT (be32 (of_nat (length blob)) @ blob)), c') \<and>
    cc_aes c' = Some (rand_bytes E 32) \<and> cc_server_nonce c' = nonce \<and> length blob < 2 ^ 31 \<and>
    rsa_private_decrypt L blob = Some (rand_bytes E 32 @ rand_bytes E 16)"
proof -
  let ?pem = "rsa_public_pem L"
  obtain blob where b: "rsa_public_encrypt L ?pem (rand_bytes E 32 @ rand_bytes E 16) = Some blob"
    "length blob < 2 ^ 31" "rsa_private_decrypt L blob = Some (rand_bytes E 32 @ rand_bytes E 16)"
    and pem: "rsa_load_public L ?pem" "length ?pem < 2 ^ 31"
    using assms(1) by (auto simp: rsa_works_def split: option.splits)
  have n: "unat (of_nat (length ?pem) :: u32) = length ?pem"
    using pem(2) by (intro unat_of_nat_u32) simp
  have sl: "slice4 (be32 (of_nat (length ?pem)) @ bytes_of_string ?pem @ nonce) (length ?pem) =
      Some (bytes_of_string ?pem)"
    using slice4_be32 [of _ "bytes_of_string ?pem" nonce] by simp
  show ?thesis
    using b pem assms(2,3)
    by (simp add: processKeyOffer_def Let_def unat_twenty_plus [OF pem(2)] n sl KEY_LEN_def)
qed

lemma server_accepts_key:
  assumes "fmlookup (clients kx) f = Some cs" "hs_state cs = SENT_KEY_OFFER"
    and "rsa_private_decrypt L blob = Some (key @ nonce)" "length key = 32" "length nonce = 16"
    and "length blob < 2 ^ 31" "fmlookup (session_keys e) f = None"
  shows "handleKeyAccept L E f (mk_packet MSG_CRYPTO_KEY_ACCEPT (be32 (of_nat (length blob)) @ blob)) (kx, e, ids) =
    Some (Inr (mk_packet MSG_CRYPTO_HANDSHAKE_OK [],
      set_client f (cs\<lparr>hs_client_nonce := nonce, hs_state := ESTABLISHED\<rparr>) kx,
      e\<lparr>session_keys := fmupd f key (session_keys e)\<rparr>, ids))"
proof -
  have n: "unat (of_nat (length blob) :: u32) = length blob"
    using assms(6) by (intro unat_of_nat_u32) simp
  then have "unat (4 + (of_nat (length blob) :: u32)) = 4 + length blob"
    using assms(6) by (simp add: unat_four_plus)
  then show ?thesis
    using assms slice4_be32 [of "of_nat (length blob)" blob "[]"]
    by (simp add: handleKeyAccept_def Let_def n establishSession_def KEY_LEN_def)
qed

text \<open>
  C4: the handshake agrees on a key. A fresh client at a server that is waiting for it, that has
  not blocked its address and holds no key for its descriptor, exchanges the four messages; then
  the server's engine holds the client's key, both count the handshake as done, the client
  knows the server's nonce, and a payload encrypted by either side is decrypted by the other.
\<close>

theorem handshake_agrees:
  assumes "fmlookup (clients kx) f = Some cs" "hs_state cs = WAITING_HELLO"
    and "\<not> isBlocked E kx (peer_ip cs)" "fmlookup (session_keys e) f = None"
    and "rsa_works L (rand_bytes E' 32 @ rand_bytes E' 16)"
    and "length (rand_bytes E' 32) = 32" "length (rand_bytes E' 16) = 16" "length (rand_bytes E 16) = 16"
  shows "\<exists>offer kx1 accept c1 ok kx2 e2 c2.
    handleHello L E f kx = (offer, kx1) \<and>
    processKeyOffer L E' offer c = Some (Inr accept, c1) \<and>
    handleKeyAccept L E'' f accept (kx1, e, ids) = Some (Inr (ok, kx2, e2, ids)) \<and>
    processHandshakeOk ok c1 = Inr c2 \<and>
    isEstablished kx2 f \<and> handshake_done c2 \<and> cc_server_nonce c2 = rand_bytes E 16 \<and>
    fmlookup (session_keys e2) f = Some (rand_bytes E' 32) \<and> cc_aes c2 = Some (rand_bytes E' 32) \<and>
    (\<forall>iv m. length iv = IV_LEN \<and> gcm_inverts L (rand_bytes E' 32) iv [] m \<longrightarrow>
       bind_sum (encryptPacket L iv c2 m) (decryptPayload L e2 f) = Inr m \<and>
       bind_sum (encryptPayload L e2 iv f m) (decryptPacket L c2) = Inr m)"
proof -
  let ?pem = "rsa_public_pem L"
  let ?offer = "mk_packet MSG_CRYPTO_KEY_OFFER
      (be32 (of_nat (length ?pem)) @ bytes_of_string ?pem @ rand_bytes E 16)"
  let ?cs1 = "cs\<lparr>hs_server_nonce := rand_bytes E 16, hs_state := SENT_KEY_OFFER, handshake_time := now E\<rparr>"
  let ?kx1 = "set_client f ?cs1 kx"
  have hello: "handleHello L E f kx = (?offer, ?kx1)"
    using assms(1-3) by (simp add: handleHello_def Let_def)
  obtain blob c1 where c1: "processKeyOffer L E' ?offer c =
      Some (Inr (mk_packet MSG_CRYPTO_KEY_ACCEPT (be32 (of_nat (length blob)) @ blob)), c1)"
    "cc_aes c1 = Some (rand_bytes E' 32)" "cc_server_nonce c1 = rand_bytes E 16" "length blob < 2 ^ 31"
    "rsa_private_decrypt L blob = Some (rand_bytes E' 32 @ rand_bytes E' 16)"
    using client_accepts_offer [OF assms(5,8,6), of c] by blast
  let ?e2 = "e\<lparr>session_keys := fmupd f (rand_bytes E' 32) (session_keys e)\<rparr>"
  let ?kx2 = "set_client f (?cs1\<lparr>hs_client_nonce := rand_bytes E' 16, hs_state := ESTABLISHED\<rparr>) ?kx1"
  have acc: "handleKeyAccept L E'' f (mk_packet MSG_CRYPTO_KEY_ACCEPT (be32 (of_nat (length blob)) @ blob))
      (?kx1, e, ids) = Some (Inr (mk_packet MSG_CRYPTO_HANDSHAKE_OK [], ?kx2, ?e2, ids))"
    by (rule server_accepts_key) (use c1 assms in \<open>simp_all add: set_client_def\<close>)
  let ?c2 = "c1\<lparr>handshake_done := True\<rparr>"
  have ok: "processHandshakeOk (mk_packet MSG_CRYPTO_HANDSHAKE_OK []) c1 = Inr ?c2"
    using c1(2) by (simp add: processHandshakeOk_def)
  have crypt: "bind_sum (encryptPacket L iv ?c2 m) (decryptPayload L ?e2 f) = Inr m \<and>
      bind_sum (encryptPayload L ?e2 iv f m) (decryptPacket L ?c2) = Inr m"
    if "length iv = IV_LEN" "gcm_inverts L (rand_bytes E' 32) iv [] m" for iv m
    using aes_roundtrip [OF that]
    by (simp add: encryptPacket_def decryptPayload_def encryptPayload_def decryptPacket_def c1(2) bind_sum_def)
  have est: "isEstablished ?kx2 f" by (simp add: isEstablished_def set_client_def)
  show ?thesis
  proof (intro exI conjI)
    show "handleHello L E f kx = (?offer, ?kx1)" by (rule hello)
    show "processKeyOffer L E' ?offer c =
        Some (Inr (mk_packet MSG_CRYPTO_KEY_ACCEPT (be32 (of_nat (length blob)) @ blob)), c1)" by (rule c1(1))
    show "handleKeyAccept L E'' f (mk_packet MSG_CRYPTO_KEY_ACCEPT (be32 (of_nat (length blob)) @ blob))
      (?kx1, e, ids) = Some (Inr (mk_packet MSG_CRYPTO_HANDSHAKE_OK [], ?kx2, ?e2, ids))" by (rule acc)
    show "processHandshakeOk (mk_packet MSG_CRYPTO_HANDSHAKE_OK []) c1 = Inr ?c2" by (rule ok)
  qed (use c1 crypt est in \<open>simp_all\<close>)
qed

definition sample_cc :: ClientCrypto where
  "sample_cc = \<lparr>cc_server_nonce = [], cc_client_nonce = [], aes_session_key = [], cc_aes = None,
     handshake_done = False, server_pem = []\<rparr>"

theorem handshake_agrees_witness:
  "\<exists>offer kx1 accept c1 ok kx2 e2 c2.
    handleHello plain_lib plain_env 5 (sample_kx WAITING_HELLO) = (offer, kx1) \<and>
    processKeyOffer plain_lib plain_env offer sample_cc = Some (Inr accept, c1) \<and>
    handleKeyAccept plain_lib plain_env 5 accept
      (kx1, fresh_engine, IntrusionDetector_init, AuditLogger_init, opened) = Some (Inr (ok, kx2, e2,
        IntrusionDetector_init, AuditLogger_init, opened)) \<and>
    processHandshakeOk ok c1 = Inr c2 \<and> fmlookup (session_keys e2) 5 = cc_aes c2"
proof -
  have rsa: "rsa_works plain_lib (rand_bytes plain_env 32 @ rand_bytes plain_env 16)"
    by (simp add: rsa_works_def plain_lib_def plain_env_def)
  have free: "\<not> isBlocked plain_env (sample_kx WAITING_HELLO) (peer_ip (sample_client WAITING_HELLO))"
    by (simp add: isBlocked_def sample_kx_def)
  have waiting: "hs_state (sample_client WAITING_HELLO) = WAITING_HELLO" by (simp add: sample_client_def)
  have no_key: "fmlookup (session_keys fresh_engine) 5 = None" by (simp add: fresh_engine_def)
  have len: "length (rand_bytes plain_env n) = n" for n by (simp add: plain_env_def)
  show ?thesis
    using handshake_agrees [OF sample_kx_client waiting free no_key rsa len len len, of sample_cc plain_env
        "(IntrusionDetector_init, AuditLogger_init, opened)"]
    by (elim exE conjE) (intro exI conjI, assumption+, simp)
qed

section \<open>Established clients have a key\<close>

text \<open>
  The calls of the server on the exchange: a connection, a hello, a key acceptance that returns,
  and the end of a session, which also drops the engine's key.
\<close>

inductive kx_step :: "lib \<Rightarrow> kx_state \<Rightarrow> kx_state \<Rightarrow> bool" for L where
  connect: "kx_step L (kx, e, ids) (addClient E f a kx, e, ids)"
| hello: "handleHello L E f kx = (pkt, kx') \<Longrightarrow> kx_step L (kx, e, ids) (kx', e, ids)"
| accept: "handleKeyAccept L E f pkt st = Some (Inr (resp, st')) \<Longrightarrow> kx_step L st st'"
| remove: "kx_step L (kx, e, ids) (removeClient f kx, engine_removeSession f e, ids)"

inductive_cases kx_stepE: "kx_step L st st'"

definition kx_start :: "kx_state \<Rightarrow> bool" where
  "kx_start st \<longleftrightarrow> clients (fst st) = fmempty"

definition kx_inv :: "kx_state \<Rightarrow> bool" where
  "kx_inv st \<longleftrightarrow> fmpred (\<lambda>f cs. hs_state cs = ESTABLISHED \<longrightarrow> hasSession (fst (snd st)) f) (clients (fst st))"

lemma kx_inv_alt: "kx_inv (kx, e, ids) \<longleftrightarrow> (\<forall>f. isEstablished kx f \<longrightarrow> hasSession e f)"
  by (auto simp: kx_inv_def isEstablished_def fmpred_iff split: option.splits)

lemma isEstablished_set_client [simp]:
  "isEstablished (set_client f cs kx) g \<longleftrightarrow>
     (if g = f then hs_state cs = ESTABLISHED else isEstablished kx g)"
  by (simp add: isEstablished_def set_client_def)

lemma handleHello_established:
  "handleHello L E f kx = (pkt, kx') \<Longrightarrow> isEstablished kx' g \<Longrightarrow> isEstablished kx g"
  by (auto simp: handleHello_def Let_def split: option.splits if_splits)

lemma recordFailure_frame [simp, frame_simps]:
  "isEstablished (fst (recordFailure L E a (kx, r))) g = isEstablished kx g"
  "fst (snd (recordFailure L E a (kx, e, ids))) = e"
  by (auto simp: recordFailure_def isEstablished_def Let_def split: prod.splits)

lemma establishSession_has:
  "establishSession f k e = Inr e' \<Longrightarrow> hasSession e' g \<longleftrightarrow> g = f \<or> hasSession e g"
  by (auto simp: establishSession_def hasSession_def split: if_splits option.splits)

lemma handleKeyAccept_inv:
  assumes "handleKeyAccept L E f pkt (kx, e, ids) = Some (Inr (resp, kx', e', ids'))"
  shows "(isEstablished kx' g \<longrightarrow> isEstablished kx g \<or> hasSession e' g) \<and>
    (hasSession e g \<longrightarrow> hasSession e' g)"
proof -
  consider (same) "kx' = kx" "e' = e"
    | (fail) cs where "recordFailure L E (peer_ip cs)
        (set_client f (cs\<lparr>hs_state := FAILED\<rparr>) kx, e, ids) = (kx', e', ids')"
    | (ok) cs k where "kx' = set_client f cs kx" "establishSession f k e = Inr e'"
    using assms
    by (auto simp: handleKeyAccept_def Let_def split: option.splits if_splits sum.splits)
  then show ?thesis
  proof cases
    case fail
    then have "kx' = fst (recordFailure L E (peer_ip cs) (set_client f (cs\<lparr>hs_state := FAILED\<rparr>) kx, e, ids))"
      "e' = e"
      using recordFailure_frame(2) [of L E "peer_ip cs" "set_client f (cs\<lparr>hs_state := FAILED\<rparr>) kx" e ids]
      by simp_all
    then show ?thesis by simp
  next
    case ok
    then show ?thesis using establishSession_has by auto
  qed auto
qed

interpretation exchange: invariant_system kx_start "kx_step L" kx_inv for L
proof
  show "kx_start s \<Longrightarrow> kx_inv s" for s by (simp add: kx_start_def kx_inv_def)
  show "kx_inv s \<Longrightarrow> kx_step L s t \<Longrightarrow> kx_inv t" for s t
  proof (erule kx_stepE)
    fix E f pkt resp
    assume inv: "kx_inv s" and run: "handleKeyAccept L E f pkt s = Some (Inr (resp, t))"
    obtain kx e ids kx' e' ids' where st: "s = (kx, e, ids)" "t = (kx', e', ids')"
      by (cases s, cases t)
    show "kx_inv t"
      using inv handleKeyAccept_inv [OF run [unfolded st]] by (auto simp: st kx_inv_alt)
  next
    fix kx e ids E f pkt kx'
    assume "kx_inv s" "s = (kx, e, ids)" "t = (kx', e, ids)" "handleHello L E f kx = (pkt, kx')"
    then show "kx_inv t" using handleHello_established by (auto simp: kx_inv_alt)
  qed (auto simp: kx_inv_alt addClient_def removeClient_def isEstablished_def hasSession_def
      engine_removeSession_def split: option.splits if_splits)
qed

text \<open>
  In every state the server reaches, a client whose handshake counts as established has a
  session key in the engine, so that its packets are never sent or read in the clear.
\<close>

theorem established_client_has_key:
  assumes "clients kx0 = fmempty" "(kx_step L)\<^sup>*\<^sup>* (kx0, e0, ids0) (kx, e, ids)" "isEstablished kx f"
  shows "hasSession e f"
  using exchange.inv_reachable [OF _ assms(2)] assms(1,3) by (simp add: kx_start_def kx_inv_alt)

theorem established_client_has_key_witness:
  "\<exists>kx e. isEstablished kx 5 \<and> hasSession e 5 \<and>
    (kx_step plain_lib)\<^sup>*\<^sup>*
      (\<lparr>clients = fmempty, ip_failures = fmempty\<rparr>, fresh_engine, IntrusionDetector_init, AuditLogger_init, opened)
      (kx, e, IntrusionDetector_init, AuditLogger_init, opened)"
proof -
  let ?ids = "(IntrusionDetector_init, AuditLogger_init, opened)"
  let ?kx0 = "\<lparr>clients = fmempty, ip_failures = fmempty\<rparr> :: KeyExchange"
  let ?kx1 = "addClient plain_env 5 ''3.3.3.3'' ?kx0"
  obtain p kx2 where h: "handleHello plain_lib plain_env 5 ?kx1 = (p, kx2)" by force
  then obtain cs where cs: "fmlookup (clients kx2) 5 = Some cs" "hs_state cs = SENT_KEY_OFFER"
    by (auto simp: handleHello_def addClient_def isBlocked_def set_client_def Let_def)
  let ?key = "replicate 32 1" and ?nonce = "replicate 16 2"
  note acc = server_accepts_key [OF cs, of plain_lib "?key @ ?nonce" ?key ?nonce fresh_engine plain_env ?ids]
  obtain kx3 e3 ok where a: "handleKeyAccept plain_lib plain_env 5
      (mk_packet MSG_CRYPTO_KEY_ACCEPT (be32 (of_nat (length (?key @ ?nonce))) @ ?key @ ?nonce))
      (kx2, fresh_engine, ?ids) = Some (Inr (ok, kx3, e3, ?ids))" "isEstablished kx3 5"
    using acc by (simp add: plain_lib_def fresh_engine_def)
  have "(kx_step plain_lib)\<^sup>*\<^sup>* (?kx0, fresh_engine, ?ids) (kx3, e3, ?ids)"
    using kx_step.connect [of plain_lib ?kx0 fresh_engine ?ids plain_env 5 "''3.3.3.3''"]
      kx_step.hello [OF h, of fresh_engine ?ids] kx_step.accept [OF a(1)]
    by (meson rtranclp.rtrancl_into_rtrancl rtranclp.rtrancl_refl)
  with a(2) established_client_has_key [OF _ this a(2)] show ?thesis by auto
qed

end
