(* ===== verification/Config.thy ===== *)
theory Config
  imports Json
begin

text \<open>
  The server's configuration, \<open>server/utils/Config.cpp\<close>: defaults, and loading from a JSON file,
  where an exception keeps the fields assigned before it and makes the load fail.
\<close>

record ServerConfig =
  cfg_port :: "16 word"
  max_client :: int
  thread_pool_size :: int
  session_timeout_sec :: int
  require_auth :: bool
  max_auth_attempts :: int
  rate_limit_msg_per_sec :: int
  connect_rate_per_min :: int
  auth_rate_per_min :: int
  file_transfer_per_hour :: int
  enable_encryption :: bool
  enable_audit_log :: bool
  default_room :: string
  max_rooms :: int
  max_clients :: int
  history_size :: int
  admin_password_hash :: string

definition ServerConfig_default :: ServerConfig where
  "ServerConfig_default = \<lparr>cfg_port = 9000, max_client = 256, thread_pool_size = 32,
     session_timeout_sec = 3600, require_auth = False, max_auth_attempts = 5,
     rate_limit_msg_per_sec = 10, connect_rate_per_min = 5, auth_rate_per_min = 5,
     file_transfer_per_hour = 20, enable_encryption = False, enable_audit_log = True,
     default_room = ''general'', max_rooms = 32, max_clients = 256, history_size = 100,
     admin_password_hash = []\<rparr>"

text \<open>An assignment \<open>m_cfg.f = s.value(key, m_cfg.f)\<close>, and a sequence of them in a \<open>try\<close> block.\<close>

type_synonym cfg_step = "ServerConfig \<Rightarrow> json_error + ServerConfig"

definition assign :: "(json \<Rightarrow> json_error + 'a) \<Rightarrow> json \<Rightarrow> string \<Rightarrow> (ServerConfig \<Rightarrow> 'a) \<Rightarrow>
    ('a \<Rightarrow> ServerConfig \<Rightarrow> ServerConfig) \<Rightarrow> cfg_step" where
  "assign get s key fld upd c =
     (case json_value get s key (fld c) of Inl e \<Rightarrow> Inl e | Inr v \<Rightarrow> Inr (upd v c))"

fun try_steps :: "cfg_step list \<Rightarrow> ServerConfig \<Rightarrow> bool \<times> ServerConfig" where
  "try_steps [] c = (True, c)"
| "try_steps (f # fs) c = (case f c of Inl _ \<Rightarrow> (False, c) | Inr c' \<Rightarrow> try_steps fs c')"

fun get_u16 :: "json \<Rightarrow> json_error + 16 word" where
  "get_u16 (JInt i) = Inr (word_of_int i)"
| "get_u16 (JFloat r) = Inr (word_of_int (truncated r))"
| "get_u16 (JBool b) = Inr (if b then 1 else 0)"
| "get_u16 _ = Inl TypeError302"

definition json_member :: "json \<Rightarrow> string \<Rightarrow> json option" where
  "json_member j key = (case j of JObj m \<Rightarrow> fmlookup m key | _ \<Rightarrow> None)"

definition config_steps :: "json \<Rightarrow> cfg_step list" where
  "config_steps j =
     (case json_member j ''server'' of None \<Rightarrow> [] | Some s \<Rightarrow>
        [assign get_u16 s ''port'' cfg_port (\<lambda>v. cfg_port_update (\<lambda>_. v)),
         assign get_int s ''max_clients'' max_clients (\<lambda>v. max_clients_update (\<lambda>_. v)),
         assign get_int s ''thread_pool_size'' thread_pool_size (\<lambda>v. thread_pool_size_update (\<lambda>_. v)),
         assign get_int s ''session_timeout_seconds'' session_timeout_sec
           (\<lambda>v. session_timeout_sec_update (\<lambda>_. v))]) @
     (case json_member j ''security'' of None \<Rightarrow> [] | Some s \<Rightarrow>
        [assign get_bool s ''require_auth'' require_auth (\<lambda>v. require_auth_update (\<lambda>_. v)),
         assign get_int s ''max_auth_attempts'' max_auth_attempts (\<lambda>v. max_auth_attempts_update (\<lambda>_. v)),
         assign get_int s ''rate_limit_msg_per_sec'' rate_limit_msg_per_sec
           (\<lambda>v. rate_limit_msg_per_sec_update (\<lambda>_. v)),
         assign get_int s ''connect_rate_per_min'' connect_rate_per_min
           (\<lambda>v. connect_rate_per_min_update (\<lambda>_. v)),
         assign get_int s ''auth_rate_per_min'' auth_rate_per_min (\<lambda>v. auth_rate_per_min_update (\<lambda>_. v)),
         assign get_int s ''file_transfer_per_hour'' file_transfer_per_hour
           (\<lambda>v. file_transfer_per_hour_update (\<lambda>_. v)),
         assign get_bool s ''enable_encryption'' enable_encryption (\<lambda>v. enable_encryption_update (\<lambda>_. v)),
         assign get_bool s ''enable_audit_log'' enable_audit_log (\<lambda>v. enable_audit_log_update (\<lambda>_. v))]) @
     (case json_member j ''rooms'' of None \<Rightarrow> [] | Some s \<Rightarrow>
        [assign get_string s ''default_room'' default_room (\<lambda>v. default_room_update (\<lambda>_. v)),
         assign get_int s ''max_rooms'' max_rooms (\<lambda>v. max_rooms_update (\<lambda>_. v)),
         assign get_int s ''history_size'' history_size (\<lambda>v. history_size_update (\<lambda>_. v))]) @
     (case json_member j ''admin'' of None \<Rightarrow> [] | Some s \<Rightarrow>
        [assign get_string s ''admin_password_hash'' (\<lambda>_. [])
           (\<lambda>v. admin_password_hash_update (\<lambda>_. v))])"

text \<open>\<open>text\<close> is the contents of the file, \<open>None\<close> where it does not open.\<close>

definition config_load :: "string option \<Rightarrow> ServerConfig \<Rightarrow> bool \<times> ServerConfig" where
  "config_load text c =
     (case text of
        None \<Rightarrow> (False, c)
      | Some s \<Rightarrow> (case json_parse s of None \<Rightarrow> (False, c) | Some j \<Rightarrow> try_steps (config_steps j) c))"

lemma assign_missing:
  "fmlookup m key = None \<Longrightarrow> (\<And>c. upd (fld c) c = c) \<Longrightarrow> assign get (JObj m) key fld upd c = Inr c"
  by (simp add: assign_def)

end
