(* ===== verification/Session.thy ===== *)
theory Session
  imports Handshake Config
begin

text \<open>
  A client's session on the server, \<open>server/core/ClientSession.cpp\<close>: the read buffer and the loop
  that cuts packets out of it, sending with encryption, mutes and timeouts. However the network
  cuts a stream into chunks, the packets delivered are the same; what the server sends over an
  established session, the client reads and decrypts to the same payload.
\<close>

datatype UserRole = R_USER | R_ADMIN | R_OWNER

text \<open>The enumeration is ordered by privilege, as its underlying integers.\<close>

fun role_rank :: "UserRole \<Rightarrow> nat" where
  "role_rank R_USER = 0" | "role_rank R_ADMIN = 1" | "role_rank R_OWNER = 2"

lemma role_rank_inject [simp]: "role_rank a = role_rank b \<longleftrightarrow> a = b"
  by (cases a; cases b) simp_all

instantiation UserRole :: linorder
begin

definition less_eq_UserRole :: "UserRole \<Rightarrow> UserRole \<Rightarrow> bool" where
  "a \<le> b \<longleftrightarrow> role_rank a \<le> role_rank b"

definition less_UserRole :: "UserRole \<Rightarrow> UserRole \<Rightarrow> bool" where
  "a < b \<longleftrightarrow> role_rank a < role_rank b"

instance
  by standard (auto simp: less_eq_UserRole_def less_UserRole_def)

end

record ClientSession =
  m_readBuffer :: bytes
  m_fd :: fd
  m_ip :: string
  m_nickname :: string
  m_room :: string
  m_authenticated :: bool
  m_muted :: bool
  m_muteUntil :: time
  m_role :: UserRole
  m_connectTime :: time
  m_lastActive :: time
  m_msgCount :: u32
  m_lastPingTime :: time
  s_running :: bool

definition ClientSession_new :: "env \<Rightarrow> fd \<Rightarrow> string \<Rightarrow> ClientSession" where
  "ClientSession_new E f a = \<lparr>m_readBuffer = [], m_fd = f, m_ip = a, m_nickname = [], m_room = [],
     m_authenticated = False, m_muted = False, m_muteUntil = 0, m_role = R_USER,
     m_connectTime = now E, m_lastActive = now E, m_msgCount = 0, m_lastPingTime = now E,
     s_running = False\<rparr>"

definition session_start :: "ClientSession \<Rightarrow> ClientSession" where
  "session_start s = s\<lparr>s_running := True\<rparr>"

definition session_stop :: "ClientSession \<Rightarrow> ClientSession" where
  "session_stop s = s\<lparr>s_running := False, m_fd := (if m_fd s \<ge> 0 then -1 else m_fd s)\<rparr>"

definition isTimedOut :: "ServerConfig \<Rightarrow> env \<Rightarrow> ClientSession \<Rightarrow> bool" where
  "isTimedOut cfg E s \<longleftrightarrow> now E - m_lastActive s > session_timeout_sec cfg"

definition isMuted :: "env \<Rightarrow> ClientSession \<Rightarrow> bool" where
  "isMuted E s \<longleftrightarrow> m_muted s \<and> (m_muteUntil s = 0 \<or> now E < m_muteUntil s)"

section \<open>Cutting packets out of the buffer\<close>

text \<open>
  The loop of \<open>appendAndParseBytes\<close> at an offset of the buffer: the packets handed to the server,
  and the offset it stops at, \<open>None\<close> where a malformed header closes the connection.
\<close>

function parse_at :: "bytes \<Rightarrow> nat \<Rightarrow> Packet list \<times> nat option" where
  "parse_at buf offset =
     (if length buf - offset < sizeof_PacketHeader then ([], Some offset)
      else
        (case header_of_bytes (drop offset buf) of
           None \<Rightarrow> ([], Some offset)
         | Some hdr \<Rightarrow>
           if magic0 hdr \<noteq> MAGIC_BYTE_0 \<or> magic1 hdr \<noteq> MAGIC_BYTE_1 \<or> version hdr \<noteq> PROTOCOL_VERSION
             then ([], None)
           else if payload_length hdr > MAX_PAYLOAD_LEN then ([], None)
           else
             let totalPacketSize = sizeof_PacketHeader + unat (payload_length hdr) in
             if length buf - offset < totalPacketSize then ([], Some offset)
             else
               let pl = take (unat (payload_length hdr)) (drop (offset + sizeof_PacketHeader) buf) in
               if checksum hdr \<noteq> computeCRC32 pl then parse_at buf (offset + totalPacketSize)
               else let (ps, stop) = parse_at buf (offset + totalPacketSize)
                    in (\<lparr>header = hdr, payload = pl\<rparr> # ps, stop)))"
  by pat_completeness auto
termination
  by (relation "measure (\<lambda>(buf, offset). length buf - offset)") (auto simp: sizeof_PacketHeader_def)

declare parse_at.simps [simp del]

text \<open>
  The packets received, whether the header was malformed (then a violation is reported for the
  address and the session is disconnected), and the session with its buffer.
\<close>

definition appendAndParseBytes :: "bytes \<Rightarrow> ClientSession \<Rightarrow> Packet list \<times> bool \<times> ClientSession" where
  "appendAndParseBytes data s =
     (let buf = m_readBuffer s @ data in
      case parse_at buf 0 of
        (ps, None) \<Rightarrow> (ps, True, s\<lparr>m_readBuffer := buf\<rparr>)
      | (ps, Some offset) \<Rightarrow> (ps, False, s\<lparr>m_readBuffer := drop offset buf\<rparr>))"

definition leftover_of :: "bytes \<Rightarrow> nat option \<Rightarrow> byte leftover" where
  "leftover_of buf stop = (case stop of None \<Rightarrow> Malformed | Some off \<Rightarrow> Rest (drop off buf))"

definition server_frames :: "bytes \<Rightarrow> Packet list \<times> byte leftover" where
  "server_frames buf = (case parse_at buf 0 of (ps, stop) \<Rightarrow> (ps, leftover_of buf stop))"

text \<open>One iteration is a scan of the bytes from the offset on.\<close>

lemma parse_at_scan:
  "parse_at buf off =
     (case scan_packet Need (drop off buf) of
        Need \<Rightarrow> ([], Some off)
      | Bad \<Rightarrow> ([], None)
      | Frame po n \<Rightarrow> (case po of
            None \<Rightarrow> parse_at buf (off + n)
          | Some p \<Rightarrow> (p # fst (parse_at buf (off + n)), snd (parse_at buf (off + n)))))"
proof (cases "header_of_bytes (drop off buf)")
  case None
  then have "length (drop off buf) < 17" using header_of_bytes_Some_iff [of "drop off buf"] by auto
  with None show ?thesis
    by (simp add: scan_packet_def parse_at.simps [of buf off] sizeof_PacketHeader_def)
next
  case (Some h)
  then have len: "17 \<le> length buf - off" using header_of_bytes_Some_iff [of "drop off buf"] by auto
  have d: "drop (17 + off) buf = drop (off + 17) buf" by (simp add: add.commute)
  consider (bad) "magic0 h \<noteq> MAGIC_BYTE_0 \<or> magic1 h \<noteq> MAGIC_BYTE_1 \<or> version h \<noteq> PROTOCOL_VERSION
      \<or> payload_length h > MAX_PAYLOAD_LEN"
    | (good) "magic0 h = MAGIC_BYTE_0" "magic1 h = MAGIC_BYTE_1" "version h = PROTOCOL_VERSION"
      "\<not> payload_length h > MAX_PAYLOAD_LEN" by blast
  then show ?thesis
  proof cases
    case bad
    then show ?thesis using Some len
      by (auto simp add: scan_packet_def parse_at.simps [of buf off] sizeof_PacketHeader_def)
  next
    case good
    let ?n = "17 + unat (payload_length h)"
    let ?pl = "take (unat (payload_length h)) (drop (off + 17) buf)"
    have scan: "scan_packet Need (drop off buf) = (if length buf - off < ?n then Need
        else if checksum h \<noteq> computeCRC32 ?pl then Frame None ?n
        else Frame (Some \<lparr>header = h, payload = ?pl\<rparr>) ?n)"
      using good by (simp add: scan_packet_def Some d Let_def)
    have run: "parse_at buf off = (if length buf - off < ?n then ([], Some off)
        else if checksum h \<noteq> computeCRC32 ?pl then parse_at buf (off + ?n)
        else (\<lparr>header = h, payload = ?pl\<rparr> # fst (parse_at buf (off + ?n)), snd (parse_at buf (off + ?n))))"
      using good len
      by (subst parse_at.simps) (simp add: Some sizeof_PacketHeader_def Let_def case_prod_beta)
    show ?thesis unfolding run scan by simp
  qed
qed

lemma parse_at_shift:
  "parse_at buf (off + k) =
     (fst (parse_at (drop off buf) k), map_option (\<lambda>o'. off + o') (snd (parse_at (drop off buf) k)))"
proof (induction "length buf - (off + k)" arbitrary: k rule: less_induct)
  case less
  have d: "drop (k + off) buf = drop (off + k) buf" by (simp add: add.commute)
  show ?case
  proof (cases "scan_packet Need (drop (off + k) buf)")
    case (Frame po n)
    then have "0 < n" "n \<le> length (drop (off + k) buf)" using scan_packet_progress by blast+
    then have IH: "parse_at buf (off + (k + n)) = (fst (parse_at (drop off buf) (k + n)),
        map_option (\<lambda>o'. off + o') (snd (parse_at (drop off buf) (k + n))))"
      by (intro less) simp
    show ?thesis
      using IH by (simp add: parse_at_scan [of buf "off + k"] parse_at_scan [of "drop off buf" k] d Frame
          add.assoc split: option.split)
  qed (simp_all add: parse_at_scan [of buf "off + k"] parse_at_scan [of "drop off buf" k] d)
qed

lemma server_frames_unfold:
  "server_frames b =
     (case scan_packet Need b of
        Need \<Rightarrow> ([], Rest b)
      | Bad \<Rightarrow> ([], Malformed)
      | Frame po n \<Rightarrow> deliver po (server_frames (drop n b)))"
proof (cases "scan_packet Need b")
  case (Frame po n)
  have lo: "leftover_of b (map_option (\<lambda>o'. n + o') stop) = leftover_of (drop n b) stop" for stop
    by (simp add: leftover_of_def add.commute split: option.split)
  show ?thesis
    using parse_at_shift [of b n 0]
    by (simp add: server_frames_def parse_at_scan [of b 0] Frame lo case_prod_beta deliver_def
        split: option.split)
qed (simp_all add: server_frames_def parse_at_scan [of b 0] leftover_of_def)

interpretation server_reader: framing "scan_packet Need" server_frames
proof unfold_locales
  fix b c :: bytes and po :: "Packet option" and n
  show "scan_packet Need b = Frame po n \<Longrightarrow> 0 < n \<and> n \<le> length b"
    by (rule scan_packet_progress)
  show "scan_packet Need b = Frame po n \<Longrightarrow> scan_packet Need (b @ c) = Frame po n"
    by (simp add: scan_packet_mono)
  show "scan_packet Need b = Bad \<Longrightarrow> scan_packet Need (b @ c) = Bad"
    by (simp add: scan_packet_mono)
qed (simp_all add: server_frames_unfold [of b for b])

text \<open>The packets of a session that receives chunks one after the other, until it is closed.\<close>

fun receive_chunks :: "bytes list \<Rightarrow> ClientSession \<Rightarrow> Packet list \<times> bool \<times> ClientSession" where
  "receive_chunks [] s = ([], False, s)"
| "receive_chunks (c # cs) s =
     (case appendAndParseBytes c s of
        (ps, True, s') \<Rightarrow> (ps, True, s')
      | (ps, False, s') \<Rightarrow> (case receive_chunks cs s' of (qs, bad, s'') \<Rightarrow> (ps @ qs, bad, s'')))"

lemma append_frames:
  "server_frames (m_readBuffer s @ c) =
     (case appendAndParseBytes c s of
        (ps, bad, s') \<Rightarrow> (ps, if bad then Malformed else Rest (m_readBuffer s')))"
  by (simp add: server_frames_def appendAndParseBytes_def leftover_of_def split: prod.split option.split)

lemma receive_chunks_feed:
  "server_reader.feed cs (m_readBuffer s) =
     (case receive_chunks cs s of (ps, bad, s') \<Rightarrow> (ps, if bad then Malformed else Rest (m_readBuffer s')))"
proof (induction cs arbitrary: s)
  case (Cons c cs)
  obtain ps bad s' where a: "appendAndParseBytes c s = (ps, bad, s')"
    by (cases "appendAndParseBytes c s")
  have fr: "server_frames (m_readBuffer s @ c) = (ps, if bad then Malformed else Rest (m_readBuffer s'))"
    using append_frames [of s c] by (simp add: a)
  show ?case
    by (cases bad) (use Cons.IH [of s'] in \<open>auto simp: a fr split: prod.splits\<close>)
qed simp

lemma empty_buffer_stable: "server_frames [] = ([], Rest [])"
  by (simp add: server_frames_unfold scan_packet_def)

text \<open>
  C6: the session delivers a stream of packets exactly once each and in order, however the
  network cuts it into chunks: nothing is lost, repeated or reordered, the connection is not
  closed, and no bytes remain in the buffer.
\<close>

theorem session_delivers_stream:
  assumes "list_all sendable ps" "concat chunks = concat (map packetToBytes ps)" "m_readBuffer s = []"
  shows "\<exists>s'. receive_chunks chunks s = (map stamped ps, False, s') \<and> m_readBuffer s' = []"
proof -
  have "list_all2 (\<lambda>f p. scan_packet Need f = Frame (Some p) (length f))
      (map packetToBytes ps) (map stamped ps)"
    using assms(1) scan_packet_packetToBytes
    by (induction ps) auto
  then have "server_frames (concat (map packetToBytes ps)) = (map stamped ps, Rest [])"
    using empty_buffer_stable by (rule server_reader.loop_frames)
  then have "server_reader.feed chunks (m_readBuffer s) = (map stamped ps, Rest [])"
    using server_reader.feed_loop [OF empty_buffer_stable, of chunks] assms(2,3) by simp
  then show ?thesis
    using receive_chunks_feed [of chunks s] by (auto split: prod.splits if_splits)
qed

theorem session_delivers_stream_witness:
  "\<exists>s'. receive_chunks [take 20 (packetToBytes makePing @ packetToBytes makePong), [],
      drop 20 (packetToBytes makePing @ packetToBytes makePong)] (ClientSession_new plain_env 5 ''1.1.1.1'') =
    (map stamped [makePing, makePong], False, s') \<and> m_readBuffer s' = []"
proof (rule session_delivers_stream)
  show "list_all sendable [makePing, makePong]"
    by (simp add: makePing_def makePong_def sendable_mk_packet)
  show "m_readBuffer (ClientSession_new plain_env 5 ''1.1.1.1'') = []"
    by (simp add: ClientSession_new_def)
  show "concat [take 20 (packetToBytes makePing @ packetToBytes makePong), [],
      drop 20 (packetToBytes makePing @ packetToBytes makePong)] =
    concat (map packetToBytes [makePing, makePong])"
    by (simp del: take_append drop_append)
qed

section \<open>Sending\<close>

text \<open>The result of one call of \<open>send\<close>: a count, \<open>EAGAIN\<close>, \<open>EINTR\<close> or another error.\<close>

datatype send_result = Sent nat | SendAgain | SendIntr | SendFail

fun send_all :: "send_result list \<Rightarrow> bytes \<Rightarrow> bytes \<times> bool" where
  "send_all rs [] = ([], True)"
| "send_all [] (b # bs) = ([], False)"
| "send_all (SendFail # rs) (b # bs) = ([], False)"
| "send_all (SendAgain # rs) (b # bs) = send_all rs (b # bs)"
| "send_all (SendIntr # rs) (b # bs) = send_all rs (b # bs)"
| "send_all (Sent n # rs) (b # bs) =
     (if n = 0 then ([], False)
      else let (out, ok) = send_all rs (drop n (b # bs)) in (take n (b # bs) @ out, ok))"

lemma send_all_complete: "send_all rs bs = (out, True) \<Longrightarrow> out = bs"
  by (induction rs bs arbitrary: out rule: send_all.induct) (auto split: if_splits prod.splits)

lemma send_all_prefix: "send_all rs bs = (out, ok) \<Longrightarrow> prefix out bs"
proof (induction rs bs arbitrary: out ok rule: send_all.induct)
  case (6 n rs b bs)
  show ?case
  proof (cases "n = 0")
    case False
    obtain out' ok' where r: "send_all rs (drop n (b # bs)) = (out', ok')" by force
    then have "prefix out' (drop n (b # bs))" using "6.IH" False by blast
    then obtain zs where "drop n (b # bs) = out' @ zs" by (auto simp: prefix_def)
    then have "b # bs = take n (b # bs) @ out' @ zs" by (metis append_take_drop_id)
    then show ?thesis using "6.prems" False r by (metis (no_types, lifting) append.assoc case_prod_conv
          fst_conv prefixI send_all.simps(6))
  qed (use "6.prems" in simp)
qed auto

definition handshake_packet :: "Packet \<Rightarrow> bool" where
  "handshake_packet p \<longleftrightarrow> msg_type (header p) \<in> {msg_code MSG_CRYPTO_HELLO, msg_code MSG_CRYPTO_KEY_OFFER,
     msg_code MSG_CRYPTO_KEY_ACCEPT, msg_code MSG_CRYPTO_HANDSHAKE_OK}"

text \<open>Replacing the payload, with the two header fields that depend on it.\<close>

definition with_payload :: "bytes \<Rightarrow> Packet \<Rightarrow> Packet" where
  "with_payload pl p = \<lparr>header = (header p)\<lparr>payload_length := of_nat (length pl), checksum := computeCRC32 pl\<rparr>,
     payload = pl\<rparr>"

definition seal_packet :: "lib \<Rightarrow> env \<Rightarrow> CryptoEngine \<Rightarrow> fd \<Rightarrow> Packet \<Rightarrow> crypto_error + Packet" where
  "seal_packet L E e f pkt =
     (if handshake_packet pkt \<or> \<not> hasSession e f then Inr pkt
      else bind_sum (encryptPayload L e (rand_bytes E IV_LEN) f (payload pkt)) (\<lambda>c. Inr (with_payload c pkt)))"

text \<open>The bytes handed to the network and whether the call succeeded.\<close>

definition sendPacket :: "lib \<Rightarrow> env \<Rightarrow> CryptoEngine \<Rightarrow> send_result list \<Rightarrow> ClientSession \<Rightarrow> Packet \<Rightarrow> bytes \<times> bool" where
  "sendPacket L E e rs s pkt =
     (if m_fd s < 0 then ([], False)
      else case seal_packet L E e (m_fd s) pkt of
             Inl _ \<Rightarrow> ([], False)
           | Inr to_send \<Rightarrow> send_all rs (packetToBytes to_send))"

text \<open>What GCM promises on a payload, with the length of its ciphertext.\<close>

definition gcm_good :: "lib \<Rightarrow> bytes \<Rightarrow> bytes \<Rightarrow> bytes \<Rightarrow> bool" where
  "gcm_good L key iv m \<longleftrightarrow> gcm_inverts L key iv [] m \<and> length (fst (gcm_encrypt L key iv [] m)) = length m"

lemma length_aes_encrypt:
  assumes "gcm_good L key iv m" "length iv = IV_LEN"
  shows "length (aes_encrypt L key iv m []) = length m + 32"
  using assms by (auto simp: gcm_good_def gcm_inverts_def aes_encrypt_def crypto_len_defs split: prod.splits)

lemma sendable_with_payload:
  "sendable p \<Longrightarrow> length c \<le> unat MAX_PAYLOAD_LEN \<Longrightarrow> sendable (with_payload c p)"
  by (simp add: sendable_def with_payload_def)

lemma with_payload_sel [simp]:
  "payload (with_payload c p) = c" "msg_type (header (with_payload c p)) = msg_type (header p)"
  by (simp_all add: with_payload_def)

lemma stamped_sel [simp]:
  "payload (stamped p) = payload p" "msg_type (header (stamped p)) = msg_type (header p)"
  by (simp_all add: stamped_def)

text \<open>What a successful send puts on the wire is what the client's reader takes off it.\<close>

lemma sealed_packet_read:
  assumes "sendPacket L E e rs s p = (out, True)" "fmlookup (session_keys e) (m_fd s) = Some key"
    and "\<not> handshake_packet p" "sendable p" "length (payload p) + 32 \<le> unat MAX_PAYLOAD_LEN"
    and "length (rand_bytes E IV_LEN) = IV_LEN" "gcm_good L key (rand_bytes E IV_LEN) (payload p)"
    and "socket_bytes sock = out @ rest"
    and "q = with_payload (aes_encrypt L key (rand_bytes E IV_LEN) (payload p) []) p"
  shows "\<exists>sock'. readPacketFromFd sock = Some (stamped q, sock') \<and> socket_bytes sock' = rest"
    and "aes_decrypt L key (payload q) [] = Inr (payload p)"
proof -
  have "seal_packet L E e (m_fd s) p = Inr q"
    using assms(2,3,9) by (simp add: seal_packet_def hasSession_def encryptPayload_def)
  then have out: "out = packetToBytes q"
    using assms(1) send_all_complete by (auto simp: sendPacket_def split: if_splits)
  have "sendable q"
    using assms(4,5,9) length_aes_encrypt [OF assms(7,6)] by (simp add: sendable_with_payload)
  moreover have "socket_bytes sock = packetToBytes q @ rest" using assms(8) by (simp add: out)
  ultimately show "\<exists>sock'. readPacketFromFd sock = Some (stamped q, sock') \<and> socket_bytes sock' = rest"
    using readPacket_bytes [of sock "(header q)\<lparr>checksum := computeCRC32 (payload q)\<rparr>" "payload q" rest]
      sendable_length [of q]
    by (auto simp: packetToBytes_header sendable_def stamped_def)
  show "aes_decrypt L key (payload q) [] = Inr (payload p)"
    unfolding assms(9) using assms(6,7) by (simp add: aes_roundtrip gcm_good_def)
qed

text \<open>
  C7: the encrypted channel to the client. What \<open>sendPacket\<close> reports as sent on a session whose
  key the client holds, the client's reader turns, however the network chops it up, into one
  packet of the same type whose payload decrypts to the payload sent, and the bytes after it
  are untouched.
\<close>

theorem sent_packet_reaches_client:
  assumes "sendPacket L E e rs s p = (out, True)" "fmlookup (session_keys e) (m_fd s) = Some key"
    and "handshake_done c" "cc_aes c = Some key" "\<not> handshake_packet p"
    and "sendable p" "length (payload p) + 32 \<le> unat MAX_PAYLOAD_LEN"
    and "length (rand_bytes E IV_LEN) = IV_LEN" "gcm_good L key (rand_bytes E IV_LEN) (payload p)"
    and "socket_bytes sock = out @ rest"
  shows "\<exists>q sock'. readPacketFromFd sock = Some (q, sock') \<and> socket_bytes sock' = rest \<and>
    msg_type (header q) = msg_type (header p) \<and> decryptPacket L c (payload q) = Inr (payload p)"
proof -
  let ?q = "with_payload (aes_encrypt L key (rand_bytes E IV_LEN) (payload p) []) p"
  note r = sealed_packet_read [OF assms(1,2,5-10) refl]
  then obtain sock' where "readPacketFromFd sock = Some (stamped ?q, sock')" "socket_bytes sock' = rest" by blast
  moreover have "decryptPacket L c (payload (stamped ?q)) = Inr (payload p)"
    using assms(3,4) r(2) by (simp add: decryptPacket_def)
  ultimately show ?thesis by auto
qed

definition keyed_engine :: CryptoEngine where
  "keyed_engine = fresh_engine\<lparr>session_keys := fmupd 5 [9] fmempty\<rparr>"

lemma socket_bytes_one: "bs \<noteq> [] \<Longrightarrow> socket_bytes [None, Some bs] = bs"
  by (cases bs) simp_all

lemma send_all_one: "bs \<noteq> [] \<Longrightarrow> length bs \<le> n \<Longrightarrow> send_all [SendIntr, SendAgain, Sent n] bs = (bs, True)"
  by (cases bs) simp_all

theorem sent_packet_reaches_client_witness:
  "\<exists>out q sock. sendPacket plain_lib plain_env keyed_engine [SendIntr, SendAgain, Sent 100]
       (ClientSession_new plain_env 5 ''1.1.1.1'') (mk_packet MSG_SYSTEM_NOTIFY [1, 2]) = (out, True) \<and>
     readPacketFromFd [None, Some out] = Some (q, sock) \<and>
     decryptPacket plain_lib (sample_cc\<lparr>cc_aes := Some [9], handshake_done := True\<rparr>) (payload q) = Inr [1, 2]"
proof -
  let ?s = "ClientSession_new plain_env 5 ''1.1.1.1''" and ?p = "mk_packet MSG_SYSTEM_NOTIFY [1, 2]"
  let ?rs = "[SendIntr, SendAgain, Sent 100]" and ?iv = "rand_bytes plain_env IV_LEN"
  let ?c = "sample_cc\<lparr>cc_aes := Some [9], handshake_done := True\<rparr>"
  let ?q = "with_payload (aes_encrypt plain_lib [9] ?iv [1, 2] []) ?p"
  have iv: "length ?iv = IV_LEN" by (simp add: plain_env_def)
  have g: "gcm_good plain_lib [9] ?iv [1, 2]"
    by (simp add: gcm_good_def gcm_inverts_def plain_lib_def TAG_LEN_def)
  have np: "\<not> handshake_packet ?p" by (simp add: handshake_packet_def)
  have f: "m_fd ?s = 5" by (simp add: ClientSession_new_def)
  have k: "fmlookup (session_keys keyed_engine) (m_fd ?s) = Some [9]" by (simp add: keyed_engine_def f)
  have seal: "seal_packet plain_lib plain_env keyed_engine 5 ?p = Inr ?q"
    using k np by (simp add: f seal_packet_def hasSession_def encryptPayload_def)
  have len: "length (packetToBytes ?q) = 51"
    using length_aes_encrypt [OF g iv] by (simp add: length_packetToBytes)
  then have ne: "packetToBytes ?q \<noteq> []" by (metis length_0_conv zero_neq_numeral)
  have out: "sendPacket plain_lib plain_env keyed_engine ?rs ?s ?p = (packetToBytes ?q, True)"
    using send_all_one [OF ne, of 100] len by (simp add: sendPacket_def f seal)
  have "socket_bytes [None, Some (packetToBytes ?q)] = packetToBytes ?q @ []"
    using socket_bytes_one [OF ne] by simp
  from sent_packet_reaches_client [OF out k _ _ np _ _ iv _ this, of ?c] g show ?thesis
    using out by (auto simp: sendable_mk_packet MAX_PAYLOAD_LEN_def)
qed

end
