(* ===== verification/TcpConnection.thy ===== *)
theory TcpConnection
  imports Session
begin

text \<open>
  The client's connection, \<open>client/core/TcpClient.cpp\<close>: connecting with retries, sending with the
  encryption in front of it, one iteration of the receiving thread with the handshake packets it
  answers, and disconnecting. The callbacks an iteration makes are returned as a list; the
  connection manager is what they call. Output to \<open>std::cerr\<close> is left out.
\<close>

section \<open>State\<close>

text \<open>
  Besides the members of the class: what the coming calls of \<open>::send\<close> return, how many
  packets have been prepared (each encryption draws a fresh initialisation vector), and the bytes handed to the network so far. \<open>tc_thread\<close>
  says whether the receiving thread can still be joined.
\<close>

record TcpClient =
  tc_fd :: fd
  tc_host :: string
  tc_port :: nat
  tc_connected :: bool
  tc_thread :: bool
  tc_isAdmin :: bool
  tc_crypto :: ClientCrypto
  tc_sends :: "int list"
  tc_drawn :: nat
  tc_wire :: bytes

definition ClientCrypto_new :: ClientCrypto where
  "ClientCrypto_new = \<lparr>cc_server_nonce = replicate 16 0, cc_client_nonce = replicate 16 0, aes_session_key = [],
     cc_aes = None, handshake_done = False, server_pem = []\<rparr>"

definition TcpClient_new :: "int list \<Rightarrow> TcpClient" where
  "TcpClient_new sends = \<lparr>tc_fd = -1, tc_host = [], tc_port = 0, tc_connected = False, tc_thread = False,
     tc_isAdmin = False, tc_crypto = ClientCrypto_new, tc_sends = sends, tc_drawn = 0, tc_wire = []\<rparr>"

definition tc_isReady :: "TcpClient \<Rightarrow> bool" where
  "tc_isReady c = handshake_done (tc_crypto c)"

section \<open>Sending\<close>

text \<open>
  The loop over \<open>::send\<close>, given the results of its calls: a result that is not positive ends it,
  also an interrupted call. The bytes sent, whether all were, and the results not used.
\<close>

fun client_send_all :: "int list \<Rightarrow> bytes \<Rightarrow> bytes \<times> bool \<times> int list" where
  "client_send_all rs [] = ([], True, rs)"
| "client_send_all [] (b # bs) = ([], False, [])"
| "client_send_all (n # rs) (b # bs) =
     (if n \<le> 0 then ([], False, rs)
      else let (out, ok, rs') = client_send_all rs (drop (nat n) (b # bs))
           in (take (nat n) (b # bs) @ out, ok, rs'))"

text \<open>\<open>iv n\<close> is the \<open>n\<close>-th vector the random generator gives.\<close>

definition client_seal :: "lib \<Rightarrow> (nat \<Rightarrow> bytes) \<Rightarrow> TcpClient \<Rightarrow> Packet \<Rightarrow> crypto_error + Packet" where
  "client_seal L iv c pkt =
     (if handshake_packet pkt \<or> \<not> tc_isReady c then Inr pkt
      else bind_sum (encryptPacket L (iv (tc_drawn c)) (tc_crypto c) (payload pkt))
             (\<lambda>ct. Inr (with_payload ct pkt)))"

definition tc_sendPacket :: "lib \<Rightarrow> (nat \<Rightarrow> bytes) \<Rightarrow> Packet \<Rightarrow> TcpClient \<Rightarrow> bool \<times> TcpClient" where
  "tc_sendPacket L iv pkt c =
     (if \<not> tc_connected c \<or> tc_fd c < 0 then (False, c)
      else
        case client_seal L iv c pkt of
          Inl _ \<Rightarrow> (False, c)
        | Inr to_send \<Rightarrow>
          let (out, ok, rs) = client_send_all (tc_sends c) (packetToBytes to_send)
          in (ok, c\<lparr>tc_sends := rs, tc_wire := tc_wire c @ out, tc_drawn := tc_drawn c + 1\<rparr>))"

section \<open>Connecting and disconnecting\<close>

datatype connect_result = NoSocket | BadAddress | Refused | Opened fd

definition tryConnect :: "connect_result \<Rightarrow> TcpClient \<Rightarrow> bool \<times> TcpClient" where
  "tryConnect r c = (case r of Opened f \<Rightarrow> (True, c\<lparr>tc_fd := f\<rparr>) | _ \<Rightarrow> (False, c\<lparr>tc_fd := -1\<rparr>))"

definition nl :: string where "nl = [CHR 0x0A]"

text \<open>
  The attempts with the delay before each. The result also has what was printed and how long the
  thread slept.
\<close>

fun connect_attempts :: "lib \<Rightarrow> (nat \<Rightarrow> bytes) \<Rightarrow> (nat \<Rightarrow> connect_result) \<Rightarrow> (nat \<times> nat) list \<Rightarrow> TcpClient \<Rightarrow>
    bool \<times> string \<times> nat \<times> TcpClient" where
  "connect_attempts L iv net [] c = (False, [], 0, c)"
| "connect_attempts L iv net ((attempt, delay) # rest) c =
     (let pre = (if delay > 0 then ''Retrying in '' @ show_nat delay @ ''s...'' @ nl else [])
                @ ''Connecting to '' @ tc_host c @ '':'' @ show_nat (tc_port c) @ '' (Attempt ''
                @ show_nat (attempt + 1) @ ''/4)...'' @ nl;
          (ok, c1) = tryConnect (net attempt) c
      in if ok then
           let (hello, cr) = startHandshake (tc_crypto c1);
               (_, c2) = tc_sendPacket L iv hello (c1\<lparr>tc_connected := True, tc_thread := True, tc_crypto := cr\<rparr>)
           in (True, pre, delay, c2)
         else
           let (r, text, slept, c2) = connect_attempts L iv net rest c1
           in (r, pre @ ''Connection attempt '' @ show_nat (attempt + 1) @ '' failed.'' @ nl @ text, delay + slept, c2))"

definition connectToServer :: "lib \<Rightarrow> (nat \<Rightarrow> bytes) \<Rightarrow> (nat \<Rightarrow> connect_result) \<Rightarrow> string \<Rightarrow> nat \<Rightarrow> TcpClient \<Rightarrow>
    bool \<times> string \<times> nat \<times> TcpClient" where
  "connectToServer L iv net host port c =
     connect_attempts L iv net [(0, 0), (1, 2), (2, 4), (3, 8)] (c\<lparr>tc_host := host, tc_port := port\<rparr>)"

text \<open>The receiving thread is joined, or detached where it is the caller.\<close>

definition tc_disconnect :: "TcpClient \<Rightarrow> TcpClient" where
  "tc_disconnect c =
     (if \<not> tc_connected c then c
      else c\<lparr>tc_connected := False, tc_crypto := cc_disconnect (tc_crypto c), tc_fd := -1, tc_thread := False\<rparr>)"

section \<open>Receiving\<close>

datatype callback = OnPacket Packet | OnDisconnected | OnHandshakeDone bool

text \<open>
  The server's public key is not checked against the store of known servers: the code that looks at
  it has an empty body. \<open>None\<close> is a read outside the payload.
\<close>

definition handleHandshakePacket :: "lib \<Rightarrow> env \<Rightarrow> (nat \<Rightarrow> bytes) \<Rightarrow> Packet \<Rightarrow> TcpClient \<Rightarrow>
    (callback list \<times> TcpClient) option" where
  "handleHandshakePacket L E iv pkt c =
     (if msg_type (header pkt) = msg_code MSG_CRYPTO_KEY_OFFER then
        (case processKeyOffer L E pkt (tc_crypto c) of
           None \<Rightarrow> None
         | Some (Inr accept_pkt, cr) \<Rightarrow> Some ([], snd (tc_sendPacket L iv accept_pkt (c\<lparr>tc_crypto := cr\<rparr>)))
         | Some (Inl _, cr) \<Rightarrow> Some ([OnHandshakeDone False], tc_disconnect (c\<lparr>tc_crypto := cr\<rparr>)))
      else if msg_type (header pkt) = msg_code MSG_CRYPTO_HANDSHAKE_OK then
        (case processHandshakeOk pkt (tc_crypto c) of
           Inr cr \<Rightarrow> Some ([OnHandshakeDone True], c\<lparr>tc_crypto := cr\<rparr>)
         | Inl _ \<Rightarrow> Some ([OnHandshakeDone False], tc_disconnect c))
      else Some ([], c))"

text \<open>
  One iteration of \<open>receiveThread\<close> for the result of \<open>readPacketFromFd\<close>: the callbacks, whether
  the loop breaks, and the state.
\<close>

definition receive_one :: "lib \<Rightarrow> env \<Rightarrow> (nat \<Rightarrow> bytes) \<Rightarrow> Packet option \<Rightarrow> TcpClient \<Rightarrow>
    (callback list \<times> bool \<times> TcpClient) option" where
  "receive_one L E iv r c =
     (case r of
        None \<Rightarrow> if tc_connected c then Some ([OnDisconnected], True, c\<lparr>tc_connected := False\<rparr>)
                 else Some ([], True, c)
      | Some pkt \<Rightarrow>
        if msg_type (header pkt) = msg_code MSG_CRYPTO_KEY_OFFER \<or>
           msg_type (header pkt) = msg_code MSG_CRYPTO_HANDSHAKE_OK then
          map_option (\<lambda>(cbs, c'). (cbs, False, c')) (handleHandshakePacket L E iv pkt c)
        else if tc_isReady c then
          (case decryptPacket L (tc_crypto c) (payload pkt) of
             Inl _ \<Rightarrow> Some ([OnDisconnected], True, tc_disconnect c)
           | Inr pl \<Rightarrow> Some ([OnPacket (pkt\<lparr>payload := pl\<rparr>)], False, c))
        else if msg_type (header pkt) = msg_code MSG_CONNECT_REJECT then Some ([OnPacket pkt], False, c)
        else Some ([OnDisconnected], True, tc_disconnect c))"

section \<open>Invariant\<close>

text \<open>An open connection has a descriptor, and a finished handshake a key.\<close>

definition tc_ok :: "TcpClient \<Rightarrow> bool" where
  "tc_ok c \<longleftrightarrow> (tc_connected c \<longrightarrow> 0 \<le> tc_fd c) \<and>
     (handshake_done (tc_crypto c) \<longrightarrow> cc_aes (tc_crypto c) \<noteq> None)"

lemma sendPacket_frame [simp, frame_simps]:
  "tc_fd (snd (tc_sendPacket L iv p c)) = tc_fd c"
  "tc_connected (snd (tc_sendPacket L iv p c)) = tc_connected c"
  "tc_thread (snd (tc_sendPacket L iv p c)) = tc_thread c"
  "tc_isAdmin (snd (tc_sendPacket L iv p c)) = tc_isAdmin c"
  "tc_crypto (snd (tc_sendPacket L iv p c)) = tc_crypto c"
  by (auto simp: tc_sendPacket_def Let_def split: sum.split prod.split)

lemma cc_disconnect_sel [simp]: "\<not> handshake_done (cc_disconnect c)" "cc_aes (cc_disconnect c) = None"
  by (simp_all add: cc_disconnect_def)

lemma tc_ok_new [simp]: "tc_ok (TcpClient_new rs)"
  by (simp add: tc_ok_def TcpClient_new_def ClientCrypto_new_def)

lemma tc_ok_send [simp]: "tc_ok (snd (tc_sendPacket L iv p c)) = tc_ok c"
  by (simp add: tc_ok_def)

lemma tc_ok_disconnect [simp]: "tc_ok c \<Longrightarrow> tc_ok (tc_disconnect c)"
  by (simp add: tc_ok_def tc_disconnect_def)

lemma tc_ok_offline [simp]: "tc_ok c \<Longrightarrow> tc_ok (c\<lparr>tc_connected := False\<rparr>)"
  by (simp add: tc_ok_def)

lemma processKeyOffer_done:
  "processKeyOffer L E pkt c = Some (r, c') \<Longrightarrow>
     handshake_done c' = handshake_done c \<and> (cc_aes c \<noteq> None \<longrightarrow> cc_aes c' \<noteq> None)"
  by (auto simp: processKeyOffer_def Let_def split: if_splits option.splits)

lemma handleHandshakePacket_ok:
  assumes "tc_ok c" "handleHandshakePacket L E iv pkt c = Some (cbs, c')"
  shows "tc_ok c'"
proof (cases "msg_type (header pkt) = msg_code MSG_CRYPTO_KEY_OFFER")
  case True
  then obtain r cr where k: "processKeyOffer L E pkt (tc_crypto c) = Some (r, cr)"
    using assms(2) by (auto simp: handleHandshakePacket_def simp del: msg_code.simps split: option.splits)
  have "tc_ok (c\<lparr>tc_crypto := cr\<rparr>)"
    using assms(1) processKeyOffer_done [OF k] by (auto simp: tc_ok_def)
  then show ?thesis using assms(2) True k
    by (auto simp: handleHandshakePacket_def simp del: msg_code.simps split: sum.splits)
next
  case False
  then show ?thesis using assms
    by (auto simp: handleHandshakePacket_def processHandshakeOk_def tc_ok_def tc_disconnect_def
        simp del: msg_code.simps split: if_splits)
qed

lemma receive_one_ok:
  assumes "tc_ok c" "receive_one L E iv r c = Some (cbs, stop, c')"
  shows "tc_ok c'"
  using assms handleHandshakePacket_ok [of c L E iv]
  by (auto simp: receive_one_def simp del: msg_code.simps split: option.splits if_splits sum.splits)

section \<open>The channel to the server\<close>

lemma client_send_all_complete: "client_send_all rs bs = (out, True, rs') \<Longrightarrow> out = bs"
  by (induction rs bs arbitrary: out rs' rule: client_send_all.induct) (auto split: if_splits prod.splits)

lemma client_send_all_prefix: "prefix (fst (client_send_all rs bs)) bs"
proof (induction rs bs rule: client_send_all.induct)
  case (3 n rs b bs)
  show ?case
  proof (cases "n \<le> 0")
    case False
    obtain out ok rs' where r: "client_send_all rs (drop (nat n) (b # bs)) = (out, ok, rs')"
      by (cases "client_send_all rs (drop (nat n) (b # bs))")
    with 3 False have "prefix out (drop (nat n) (b # bs))" by force
    then have "prefix (take (nat n) (b # bs) @ out) (take (nat n) (b # bs) @ drop (nat n) (b # bs))"
      by (simp only: same_prefix_prefix)
    then show ?thesis using False r by simp
  qed simp
qed simp_all

text \<open>A session with an empty buffer that receives the bytes of one packet.\<close>

lemma append_one_packet:
  assumes "sendable q" "m_readBuffer s = []"
  shows "appendAndParseBytes (packetToBytes q) s = ([stamped q], False, s\<lparr>m_readBuffer := []\<rparr>)"
proof -
  have "server_frames (concat [packetToBytes q]) = ([stamped q], Rest [])"
    by (rule server_reader.loop_frames [OF _ empty_buffer_stable])
      (simp add: scan_packet_packetToBytes [OF assms(1)])
  then have "server_frames (m_readBuffer s @ packetToBytes q) = ([stamped q], Rest [])"
    using assms(2) by simp
  with append_frames [of s "packetToBytes q"] show ?thesis
    by (auto simp: appendAndParseBytes_def Let_def split: prod.splits option.splits if_splits)
qed

text \<open>What a successful send puts on the wire where client and server hold the same key.\<close>

definition sealed_packet :: "lib \<Rightarrow> bytes \<Rightarrow> bytes \<Rightarrow> Packet \<Rightarrow> Packet" where
  "sealed_packet L key v p = with_payload (aes_encrypt L key v (payload p) []) p"

lemma client_seal_ready:
  assumes "tc_isReady c" "cc_aes (tc_crypto c) = Some key" "\<not> handshake_packet p"
  shows "client_seal L iv c p = Inr (sealed_packet L key (iv (tc_drawn c)) p)"
  using assms by (simp add: client_seal_def tc_isReady_def encryptPacket_def sealed_packet_def)

lemma sealed_packet_received:
  assumes "length v = IV_LEN" "gcm_good L key v (payload p)" "sendable p" "length (payload p) + 32 \<le> unat MAX_PAYLOAD_LEN"
    and "fmlookup (session_keys e) f = Some key"
  shows "sendable (sealed_packet L key v p)"
    and "decryptPayload L e f (payload (stamped (sealed_packet L key v p))) = Inr (payload p)"
proof -
  show "sendable (sealed_packet L key v p)" unfolding sealed_packet_def
    using length_aes_encrypt [OF assms(2,1)] assms(3,4) by (intro sendable_with_payload) simp_all
  show "decryptPayload L e f (payload (stamped (sealed_packet L key v p))) = Inr (payload p)"
    using aes_roundtrip [of v L key "[]" "payload p"] assms(1,2,5)
    by (simp add: decryptPayload_def sealed_packet_def gcm_good_def)
qed

lemma sealed_packet_type [simp]:
  "msg_type (header (stamped (sealed_packet L key v p))) = msg_type (header p)"
  by (simp add: sealed_packet_def)

lemma sent_on_wire:
  assumes "tc_sendPacket L iv p c = (True, c')" "client_seal L iv c p = Inr q"
  shows "tc_wire c' = tc_wire c @ packetToBytes q"
  using assms client_send_all_complete
  by (auto simp: tc_sendPacket_def Let_def split: if_splits prod.splits)

text \<open>
  C8: the encrypted channel from the client. What the client's \<open>sendPacket\<close> reports as sent after
  the handshake is one packet for the server's session, of the same type, whose payload the
  server's engine decrypts to the payload sent; nothing is left in the session's buffer.
\<close>

theorem client_packet_reaches_server:
  assumes "tc_sendPacket L iv p c = (True, c')" "tc_isReady c" "cc_aes (tc_crypto c) = Some key"
    and "\<not> handshake_packet p" "sendable p" "length (payload p) + 32 \<le> unat MAX_PAYLOAD_LEN"
    and "length (iv (tc_drawn c)) = IV_LEN" "gcm_good L key (iv (tc_drawn c)) (payload p)"
    and "fmlookup (session_keys e) f = Some key" "m_readBuffer s = []"
  shows "\<exists>out q. tc_wire c' = tc_wire c @ out \<and>
    appendAndParseBytes out s = ([q], False, s\<lparr>m_readBuffer := []\<rparr>) \<and>
    msg_type (header q) = msg_type (header p) \<and> decryptPayload L e f (payload q) = Inr (payload p)"
proof -
  let ?q = "sealed_packet L key (iv (tc_drawn c)) p"
  note r = sealed_packet_received [OF assms(7,8,5,6,9)]
  have "tc_wire c' = tc_wire c @ packetToBytes ?q"
    by (rule sent_on_wire [OF assms(1)]) (rule client_seal_ready [OF assms(2,3,4)])
  moreover have "appendAndParseBytes (packetToBytes ?q) s = ([stamped ?q], False, s\<lparr>m_readBuffer := []\<rparr>)"
    by (rule append_one_packet [OF r(1) assms(10)])
  ultimately show ?thesis using r(2) sealed_packet_type [of L key "iv (tc_drawn c)" p] by metis
qed

section \<open>Connecting\<close>

lemma tryConnect_fails: "(\<forall>g. r \<noteq> Opened g) \<Longrightarrow> tryConnect r c = (False, c\<lparr>tc_fd := -1\<rparr>)"
  by (cases r) (simp_all add: tryConnect_def)

lemma connect_attempts_spec:
  assumes "connect_attempts L iv net as c = (ok, text, slept, c')" "\<not> tc_connected c"
  shows "ok \<longleftrightarrow> (\<exists>a \<in> fst ` set as. \<exists>f. net a = Opened f)"
    and "slept \<le> sum_list (map snd as)"
    and "tc_connected c' = ok"
    and "\<not> handshake_done (tc_crypto c) \<Longrightarrow> \<not> handshake_done (tc_crypto c')"
    and "ok \<Longrightarrow> \<exists>a \<in> fst ` set as. net a = Opened (tc_fd c')"
proof (atomize (full), use assms in \<open>induction as arbitrary: c ok text slept c'\<close>)
  case (Cons ad as)
  obtain a d where ad: "ad = (a, d)" by force
  show ?case
  proof (cases "\<exists>f. net a = Opened f")
    case True
    then show ?thesis using Cons.prems
      by (auto simp: ad tryConnect_def startHandshake_def Let_def case_prod_beta)
  next
    case False
    then have t: "tryConnect (net a) c = (False, c\<lparr>tc_fd := -1\<rparr>)" by (intro tryConnect_fails) simp
    obtain ok' text' slept' c'' where r: "connect_attempts L iv net as (c\<lparr>tc_fd := -1\<rparr>) = (ok', text', slept', c'')"
      by (cases "connect_attempts L iv net as (c\<lparr>tc_fd := -1\<rparr>)")
    with Cons.prems t have "ok = ok'" "slept = d + slept'" "c' = c''" by (auto simp: ad Let_def)
    with Cons.IH [OF r] Cons.prems(2) False show ?thesis by (auto simp: ad)
  qed
qed simp

text \<open>
  Connecting succeeds exactly where one of the four attempts opens a socket, and then uses that
  socket; a client that gives up is not connected. It never sleeps more than 14 seconds in all, and
  no handshake is taken for done before the server has answered.
\<close>

theorem connect_within_four_attempts:
  assumes "connectToServer L iv net host port (TcpClient_new rs) = (ok, text, slept, c)"
  shows "(ok \<longleftrightarrow> (\<exists>a < 4. \<exists>f. net a = Opened f)) \<and> tc_connected c = ok \<and> \<not> tc_isReady c \<and>
    (ok \<longrightarrow> (\<exists>a < 4. net a = Opened (tc_fd c))) \<and> slept \<le> 14"
proof -
  let ?as = "[(0, 0), (1, 2), (2, 4), (3, 8)] :: (nat \<times> nat) list"
  have d: "fst ` set ?as = {a. a < 4}" by auto
  have n: "\<not> tc_connected ((TcpClient_new rs)\<lparr>tc_host := host, tc_port := port\<rparr>)"
    "\<not> handshake_done (tc_crypto ((TcpClient_new rs)\<lparr>tc_host := host, tc_port := port\<rparr>))"
    by (simp_all add: TcpClient_new_def ClientCrypto_new_def)
  note r = connect_attempts_spec [OF assms [unfolded connectToServer_def] n(1), unfolded d]
  from r(1,2,3) r(4) [OF n(2)] r(5) show ?thesis by (auto simp: tc_isReady_def)
qed

definition second_opens :: "nat \<Rightarrow> connect_result" where
  "second_opens a = (if a = 1 then Opened 3 else Refused)"

theorem connect_within_four_attempts_witness:
  "\<exists>ok text slept c. connectToServer plain_lib (\<lambda>_. []) second_opens ''h'' 7 (TcpClient_new [100]) = (ok, text, slept, c) \<and>
     ok \<and> tc_fd c = 3 \<and> slept \<le> 14"
proof -
  obtain ok printed slept c where r: "connectToServer plain_lib (\<lambda>_. []) second_opens ''h'' 7 (TcpClient_new [100])
      = (ok, printed, slept, c)"
    by (cases "connectToServer plain_lib (\<lambda>_. []) second_opens ''h'' 7 (TcpClient_new [100])")
  from connect_within_four_attempts [OF r] show ?thesis using r
    by (auto simp: second_opens_def split: if_splits intro!: exI [of _ 1])
qed

definition ready_client :: TcpClient where
  "ready_client = (TcpClient_new [1000])\<lparr>tc_fd := 3, tc_connected := True,
     tc_crypto := ClientCrypto_new\<lparr>cc_aes := Some [9], handshake_done := True\<rparr>\<rparr>"

lemma ready_client_sel [simp]:
  "tc_connected ready_client" "tc_fd ready_client = 3" "tc_isReady ready_client"
  "cc_aes (tc_crypto ready_client) = Some [9]" "tc_sends ready_client = [1000]" "tc_drawn ready_client = 0"
  "tc_wire ready_client = []" "\<not> tc_isAdmin ready_client"
  by (simp_all add: ready_client_def TcpClient_new_def tc_isReady_def)

lemma plain_gcm_good: "gcm_good plain_lib key v m"
  by (simp add: gcm_good_def gcm_inverts_def plain_lib_def TAG_LEN_def)

lemma client_send_all_one: "0 < n \<Longrightarrow> length bs \<le> nat n \<Longrightarrow> bs \<noteq> [] \<Longrightarrow> client_send_all [n] bs = (bs, True, [])"
  by (cases bs) simp_all

lemma ready_client_sends:
  assumes "length (payload p) < 900" "\<not> handshake_packet p"
  shows "\<exists>c'. tc_sendPacket plain_lib (\<lambda>_. replicate 16 7) p ready_client = (True, c')"
proof -
  let ?q = "sealed_packet plain_lib [9] (replicate 16 7) p"
  have s: "client_seal plain_lib (\<lambda>_. replicate 16 7) ready_client p = Inr ?q"
    using client_seal_ready [of ready_client "[9]" p plain_lib "\<lambda>_. replicate 16 7"] assms(2) by simp
  have "length (payload ?q) = length (payload p) + 32"
    using length_aes_encrypt [OF plain_gcm_good, of "replicate 16 7"] by (simp add: sealed_packet_def IV_LEN_def)
  then have "length (packetToBytes ?q) \<le> 1000" "packetToBytes ?q \<noteq> []"
    using assms(1) by (auto simp: length_packetToBytes simp flip: length_greater_0_conv)
  then show ?thesis using client_send_all_one [of 1000 "packetToBytes ?q"] by (simp add: tc_sendPacket_def s)
qed

theorem client_packet_reaches_server_witness:
  "\<exists>c' out q. tc_sendPacket plain_lib (\<lambda>_. replicate 16 7) (mk_packet MSG_CHAT_SEND [1, 2]) ready_client = (True, c') \<and>
     tc_wire c' = out \<and>
     appendAndParseBytes out (ClientSession_new plain_env 5 ''1.1.1.1'') =
       ([q], False, ClientSession_new plain_env 5 ''1.1.1.1'') \<and>
     decryptPayload plain_lib keyed_engine 5 (payload q) = Inr [1, 2]"
proof -
  let ?p = "mk_packet MSG_CHAT_SEND [1, 2]" and ?iv = "\<lambda>_ :: nat. replicate 16 (7 :: byte)"
  let ?s = "ClientSession_new plain_env 5 ''1.1.1.1''"
  have np: "\<not> handshake_packet ?p" by (simp add: handshake_packet_def)
  obtain c' where c': "tc_sendPacket plain_lib ?iv ?p ready_client = (True, c')"
    using ready_client_sends [of ?p] np by auto
  have b: "m_readBuffer ?s = []" "?s\<lparr>m_readBuffer := []\<rparr> = ?s" by (simp_all add: ClientSession_new_def)
  have k: "fmlookup (session_keys keyed_engine) 5 = Some [9]" by (simp add: keyed_engine_def)
  from client_packet_reaches_server [OF c' _ _ np _ _ _ plain_gcm_good k b(1)] c' b(2) show ?thesis
    by (auto simp: IV_LEN_def sendable_mk_packet MAX_PAYLOAD_LEN_def)
qed

end
