(* ===== verification/ClientPaths.thy ===== *)
theory ClientPaths
  imports Prelude
begin

text \<open>
  Names of downloaded files, \<open>getUniqueFilename\<close> of \<open>client/core/ConnectionManager.cpp\<close> with the parts
  of \<open>std::filesystem::path\<close> it uses on a POSIX system. The directory is the finite set of names that
  exist; the search for a free one ends because the set is finite. The counter is a \<open>nat\<close>: the bound
  proved below keeps it under the \<open>int\<close> of the source for every directory of fewer than two thousand
  million names.
\<close>

section \<open>Parts of a path\<close>

definition path_filename :: "string \<Rightarrow> string" where
  "path_filename p = rev (takeWhile (\<lambda>c. c \<noteq> CHR ''/'') (rev p))"

text \<open>The position of the dot that starts the extension.\<close>

definition ext_dot :: "string \<Rightarrow> nat option" where
  "ext_dot f =
     (if f = ''.'' \<or> f = ''..'' then None
      else case find_char (CHR ''.'') (rev f) of
             None \<Rightarrow> None
           | Some i \<Rightarrow> (let d = length f - 1 - i in if d = 0 then None else Some d))"

definition path_stem :: "string \<Rightarrow> string" where
  "path_stem p = (let f = path_filename p in case ext_dot f of None \<Rightarrow> f | Some d \<Rightarrow> take d f)"

definition path_extension :: "string \<Rightarrow> string" where
  "path_extension p = (let f = path_filename p in case ext_dot f of None \<Rightarrow> [] | Some d \<Rightarrow> drop d f)"

lemma stem_extension: "path_stem p @ path_extension p = path_filename p"
  by (simp add: path_stem_def path_extension_def Let_def split: option.split)

section \<open>A name that is not taken\<close>

definition numbered :: "string \<Rightarrow> string \<Rightarrow> nat \<Rightarrow> string" where
  "numbered stem ext counter = stem @ '' ('' @ show_nat counter @ '')'' @ ext"

lemma numbered_inject [simp]: "numbered s e i = numbered s e j \<longleftrightarrow> i = j"
  by (simp add: numbered_def)

lemma finite_taken: "finite {i. n \<le> i \<and> numbered s e i |\<in>| fs}"
proof (rule finite_imageD)
  show "finite (numbered s e ` {i. n \<le> i \<and> numbered s e i |\<in>| fs})"
    by (rule finite_subset [of _ "fset fs"]) auto
  show "inj_on (numbered s e) {i. n \<le> i \<and> numbered s e i |\<in>| fs}"
    by (rule inj_onI) simp
qed

function unique_from :: "string fset \<Rightarrow> string \<Rightarrow> string \<Rightarrow> nat \<Rightarrow> string" where
  "unique_from fs stem ext counter =
     (if numbered stem ext counter |\<notin>| fs then numbered stem ext counter
      else unique_from fs stem ext (counter + 1))"
  by pat_completeness auto
termination
proof (relation "measure (\<lambda>(fs, s, e, n). card {i. n \<le> i \<and> numbered s e i |\<in>| fs})", simp, unfold in_measure)
  fix fs s e and n :: nat
  assume "\<not> numbered s e n |\<notin>| fs"
  then have "{i. n + 1 \<le> i \<and> numbered s e i |\<in>| fs} \<subset> {i. n \<le> i \<and> numbered s e i |\<in>| fs}" 
    by (auto intro!: psubsetI dest!: equalityD2 [THEN subsetD, of _ _ n])
  then show "(case (fs, s, e, n + 1) of (fs, s, e, n) \<Rightarrow> card {i. n \<le> i \<and> numbered s e i |\<in>| fs})
      < (case (fs, s, e, n) of (fs, s, e, n) \<Rightarrow> card {i. n \<le> i \<and> numbered s e i |\<in>| fs})"
    using finite_taken by (simp add: psubset_card_mono)
qed

declare unique_from.simps [simp del]

definition getUniqueFilename :: "string fset \<Rightarrow> string \<Rightarrow> string" where
  "getUniqueFilename fs baseName =
     (if baseName |\<notin>| fs then baseName
      else unique_from fs (path_stem baseName) (path_extension baseName) 1)"

lemma unique_from_spec:
  "\<exists>k \<ge> n. unique_from fs s e n = numbered s e k \<and> numbered s e k |\<notin>| fs \<and>
     (\<forall>i. n \<le> i \<and> i < k \<longrightarrow> numbered s e i |\<in>| fs)"
proof (induction fs s e n rule: unique_from.induct)
  case (1 fs s e n)
  show ?case
  proof (cases "numbered s e n |\<in>| fs")
    case True
    with 1 obtain k where k: "n + 1 \<le> k" "unique_from fs s e (n + 1) = numbered s e k" "numbered s e k |\<notin>| fs"
      "\<forall>i. n + 1 \<le> i \<and> i < k \<longrightarrow> numbered s e i |\<in>| fs" by auto
    with True have "\<forall>i. n \<le> i \<and> i < k \<longrightarrow> numbered s e i |\<in>| fs" by (metis Suc_eq_plus1 le_eq_less_or_eq Suc_leI)
    with k True show ?thesis by (intro exI [of _ k]) (simp add: unique_from.simps [of fs s e n])
  next
    case False
    then show ?thesis by (intro exI [of _ n]) (auto simp: unique_from.simps [of fs s e n])
  qed
qed

lemma probes_bounded:
  assumes "\<forall>i. n \<le> i \<and> i < k \<longrightarrow> numbered s e i |\<in>| fs"
  shows "k \<le> n + fcard fs"
proof -
  have "card (numbered s e ` {n..<k}) = card {n..<k}" by (rule card_image) (rule inj_onI, simp)
  moreover have "numbered s e ` {n..<k} \<subseteq> fset fs" using assms by auto
  ultimately have "card {n..<k} \<le> fcard fs" by (metis card_mono fcard.rep_eq finite_fset)
  then show ?thesis by simp
qed

text \<open>
  C33: the search for a file name ends: it returns a name that does not exist yet, the wanted one
  exactly where that is free and otherwise its stem with the first free number (the names with the
  numbers from 1 up to it are all taken), reached after at most as many probes as the directory has
  names, with the extension unchanged.
\<close>

theorem unique_filename_fresh:
  "getUniqueFilename fs b |\<notin>| fs \<and>
   (b |\<notin>| fs \<longrightarrow> getUniqueFilename fs b = b) \<and>
   (b |\<in>| fs \<longrightarrow> (\<exists>k \<ge> 1. k \<le> fcard fs + 1 \<and>
      getUniqueFilename fs b = path_stem b @ '' ('' @ show_nat k @ '')'' @ path_extension b \<and>
      (\<forall>i. 1 \<le> i \<and> i < k \<longrightarrow> path_stem b @ '' ('' @ show_nat i @ '')'' @ path_extension b |\<in>| fs)))"
proof (cases "b |\<in>| fs")
  case True
  obtain k where k: "1 \<le> k" "unique_from fs (path_stem b) (path_extension b) 1 = numbered (path_stem b) (path_extension b) k"
    "numbered (path_stem b) (path_extension b) k |\<notin>| fs"
    "\<forall>i. 1 \<le> i \<and> i < k \<longrightarrow> numbered (path_stem b) (path_extension b) i |\<in>| fs"
    using unique_from_spec by metis
  with probes_bounded [OF k(4)] True show ?thesis
    by (auto simp: getUniqueFilename_def numbered_def intro!: exI [of _ k])
qed (simp add: getUniqueFilename_def)

theorem unique_filename_fresh_witness:
  "getUniqueFilename {|''a.txt'', ''a (2).txt''|} ''a.txt'' = ''a (1).txt'' \<and>
   getUniqueFilename {|''a.txt''|} ''b.txt'' = ''b.txt''"
proof -
  have p: "path_stem ''a.txt'' = ''a''" "path_extension ''a.txt'' = ''.txt''" by code_simp+
  have s: "show_nat (Suc 0) = ''1''" by code_simp
  obtain k where k: "1 \<le> k" "getUniqueFilename {|''a.txt'', ''a (2).txt''|} ''a.txt'' = ''a ('' @ show_nat k @ '').txt''"
      "\<forall>i. 1 \<le> i \<and> i < k \<longrightarrow> ''a ('' @ show_nat i @ '').txt'' |\<in>| {|''a.txt'', ''a (2).txt''|}"
    using unique_filename_fresh [of "{|''a.txt'', ''a (2).txt''|}" "''a.txt''"] by (auto simp: p)
  from k(3) [rule_format, of 1] have "\<not> 1 < k" by (auto simp: s)
  then have "k = 1" using k(1) by simp
  then show ?thesis using k(2) unique_filename_fresh [of "{|''a.txt''|}" "''b.txt''"] by (simp add: s)
qed

lemma getUniqueFilename_fresh: "getUniqueFilename fs b |\<notin>| fs"
  using unique_from_spec [of 1 fs "path_stem b" "path_extension b"] by (auto simp: getUniqueFilename_def)

lemma getUniqueFilename_ne: "b \<noteq> [] \<Longrightarrow> getUniqueFilename fs b \<noteq> []"
  using unique_from_spec [of 1 fs "path_stem b" "path_extension b"] by (auto simp: getUniqueFilename_def numbered_def)

end
