(* ===== verification/Commands.thy ===== *)
theory Commands
  imports Crypto
begin

text \<open>
  The client's command lines: the parser of \<open>client/commands/CommandParser.cpp\<close> and what the
  handlers of \<open>client/commands/CommandHandler.cpp\<close> that only look at the command decide: a usage
  message, a packet to send, or an exception of \<open>std::stoi\<close>. The handlers that need the connection
  manager's tables are in the theory of that class.
\<close>

section \<open>Commands\<close>

datatype CommandType =
    CMD_QUIT | CMD_LIST | CMD_ROOMS | CMD_JOIN | CMD_LEAVE | CMD_CREATE | CMD_MSG | CMD_SEND | CMD_WHOIS
  | CMD_HELP | CMD_ACCEPT | CMD_REJECT
  | CMD_KICK | CMD_UNKICK | CMD_MUTE | CMD_UNMUTE | CMD_BAN | CMD_UNBAN | CMD_PROMOTE | CMD_DEMOTE
  | CMD_BROADCAST | CMD_SHUTDOWN | CMD_DELETE_ROOM | CMD_ROOMS_ADMIN
  | CMD_UNKNOWN | CMD_TEXT

datatype CommandValidationResult = VALID | INVALID | REQUIRES_ADMIN

record Command =
  cmd_type :: CommandType
  cmd_args :: "string list"
  cmd_raw :: string

definition isCommand :: "string \<Rightarrow> bool" where
  "isCommand input \<longleftrightarrow> input \<noteq> [] \<and> hd input = CHR ''/''"

definition stringToCommandType :: "string \<Rightarrow> CommandType" where
  "stringToCommandType s =
     (if s = ''/quit'' then CMD_QUIT else if s = ''/list'' then CMD_LIST
      else if s = ''/rooms'' then CMD_ROOMS else if s = ''/join'' then CMD_JOIN
      else if s = ''/leave'' then CMD_LEAVE else if s = ''/create'' then CMD_CREATE
      else if s = ''/msg'' then CMD_MSG else if s = ''/send'' then CMD_SEND
      else if s = ''/whois'' then CMD_WHOIS else if s = ''/accept'' then CMD_ACCEPT
      else if s = ''/reject'' then CMD_REJECT else if s = ''/help'' then CMD_HELP
      else if s = ''/kick'' then CMD_KICK else if s = ''/unkick'' then CMD_UNKICK
      else if s = ''/mute'' then CMD_MUTE else if s = ''/unmute'' then CMD_UNMUTE
      else if s = ''/ban'' then CMD_BAN else if s = ''/unban'' then CMD_UNBAN
      else if s = ''/promote'' then CMD_PROMOTE else if s = ''/demote'' then CMD_DEMOTE
      else if s = ''/broadcast'' then CMD_BROADCAST else if s = ''/delete'' then CMD_DELETE_ROOM
      else if s = ''/rooms_admin'' then CMD_ROOMS_ADMIN
      else CMD_UNKNOWN)"

text \<open>\<open>iss >> token\<close> until it fails: the maximal runs of characters that are not white space.\<close>

function ws_tokens :: "string \<Rightarrow> string list" where
  "ws_tokens s =
     (let t = dropWhile is_space s in
      if t = [] then []
      else takeWhile (\<lambda>c. \<not> is_space c) t # ws_tokens (dropWhile (\<lambda>c. \<not> is_space c) t))"
  by pat_completeness auto
termination
proof (relation "measure length", simp, unfold in_measure)
  fix s t :: string
  assume t: "t = dropWhile is_space s" and "t \<noteq> []"
  then have "\<not> is_space (hd t)" using hd_dropWhile [of is_space s] by simp
  with \<open>t \<noteq> []\<close> have "length (dropWhile (\<lambda>c. \<not> is_space c) t) < length t"
    by (cases t) (auto intro: le_imp_less_Suc length_dropWhile_le)
  also have "length t \<le> length s" unfolding t by (rule length_dropWhile_le)
  finally show "length (dropWhile (\<lambda>c. \<not> is_space c) t) < length s" .
qed

declare ws_tokens.simps [simp del]

definition parse_command :: "string \<Rightarrow> Command" where
  "parse_command input =
     (if \<not> isCommand input then \<lparr>cmd_type = CMD_TEXT, cmd_args = [], cmd_raw = input\<rparr>
      else case ws_tokens input of
             [] \<Rightarrow> \<lparr>cmd_type = CMD_UNKNOWN, cmd_args = [], cmd_raw = input\<rparr>
           | token # args \<Rightarrow> \<lparr>cmd_type = stringToCommandType token, cmd_args = args, cmd_raw = input\<rparr>)"

definition validate_command :: "Command \<Rightarrow> CommandValidationResult" where
  "validate_command cmd =
     (if cmd_type cmd = CMD_TEXT then VALID
      else if cmd_type cmd = CMD_UNKNOWN then INVALID
      else if cmd_type cmd \<in> {CMD_KICK, CMD_UNKICK, CMD_MUTE, CMD_UNMUTE, CMD_BAN, CMD_UNBAN, CMD_PROMOTE,
           CMD_DEMOTE, CMD_BROADCAST, CMD_ROOMS_ADMIN} then REQUIRES_ADMIN
      else VALID)"

section \<open>Numbers in commands\<close>

text \<open>\<open>std::stoi\<close>: white space, an optional sign, digits up to the first other character.\<close>

datatype stoi_error = InvalidArgument | OutOfRange

definition stoi :: "string \<Rightarrow> stoi_error + int" where
  "stoi str =
     (let s = dropWhile is_space str;
          (neg, ds) = (case s of
             [] \<Rightarrow> (False, [])
           | c # cs \<Rightarrow> if c = CHR ''-'' then (True, cs) else if c = CHR ''+'' then (False, cs) else (False, s))
      in case ds of
           [] \<Rightarrow> Inl InvalidArgument
         | d # _ \<Rightarrow>
           if digit_value d = None then Inl InvalidArgument
           else
             let v = (if neg then - int (read_digits 0 ds) else int (read_digits 0 ds)) in
             if v < - (2 ^ 31) \<or> v > 2 ^ 31 - 1 then Inl OutOfRange else Inr v)"

section \<open>Requests of the handlers\<close>

text \<open>
  What a handler does: print a usage line, send a packet with an empty payload or with the text of
  a JSON document, let an exception of \<open>std::stoi\<close> out, or nothing.
\<close>

datatype request = Usage string | Request MessageType "json option" | Throws stoi_error | Silent

definition handleList :: "Command \<Rightarrow> request" where
  "handleList cmd = Request MSG_USER_LIST_REQUEST None"

definition handleRooms :: "Command \<Rightarrow> request" where
  "handleRooms cmd = Request MSG_ROOM_LIST_REQUEST None"

text \<open>The document of \<open>/join\<close> and \<open>/create\<close>.\<close>

definition room_request :: "string list \<Rightarrow> json" where
  "room_request as = json_object ((''room'', JStr (as ! 0)) #
     (if length as > 1 then [(''password'', JStr (as ! 1))] else []))"

definition handleJoin :: "Command \<Rightarrow> request" where
  "handleJoin cmd =
     (if cmd_args cmd = [] then Usage ''[SYSTEM] Usage: /join <room_name> [password]''
      else Request MSG_ROOM_JOIN (Some (room_request (cmd_args cmd))))"

definition handleLeave :: "Command \<Rightarrow> request" where
  "handleLeave cmd = Request MSG_ROOM_LEAVE None"

definition handleCreate :: "Command \<Rightarrow> request" where
  "handleCreate cmd =
     (if cmd_args cmd = [] then Usage ''[SYSTEM] Usage: /create <room_name> [password]''
      else Request MSG_ROOM_CREATE (Some (room_request (cmd_args cmd))))"

definition handleDeleteRoom :: "Command \<Rightarrow> request" where
  "handleDeleteRoom cmd =
     (if cmd_args cmd = [] then Usage ''[SYSTEM] Usage: /delete <room_name>''
      else Request MSG_ROOM_DELETE (Some (json_object [(''room'', JStr (cmd_args cmd ! 0))])))"

definition handleRoomsAdmin :: "Command \<Rightarrow> request" where
  "handleRoomsAdmin cmd = Request MSG_ADMIN_ROOM_INFO_REQUEST None"

text \<open>The loop that joins arguments from position \<open>i\<close> on with single spaces.\<close>

definition join_args :: "nat \<Rightarrow> string list \<Rightarrow> string" where
  "join_args i as =
     foldl (\<lambda>text k. text @ as ! k @ (if k = length as - 1 then [] else '' '')) [] [i..<length as]"

definition handleMsg :: "Command \<Rightarrow> request" where
  "handleMsg cmd =
     (let as = cmd_args cmd in
      if length as < 2 then Usage ''[SYSTEM] Usage: /msg <username> <message>''
      else Request MSG_CHAT_PRIVATE (Some (json_object
             [(''to'', JStr (as ! 0)), (''message'', JStr (join_args 1 as))])))"

definition handleWhois :: "Command \<Rightarrow> request" where
  "handleWhois cmd =
     (if cmd_args cmd = [] then Usage ''[SYSTEM] Usage: /whois <username>''
      else Request MSG_WHOIS_REQUEST (Some (json_object [(''target'', JStr (cmd_args cmd ! 0))])))"

definition handleAdminCommand :: "Command \<Rightarrow> request" where
  "handleAdminCommand cmd =
     (let as = cmd_args cmd; ty = cmd_type cmd in
      if ty = CMD_KICK then
        if as = [] then Usage ''[SYSTEM] Usage: /kick <username> [reason]''
        else Request MSG_ADMIN_KICK (Some (json_object
          [(''target'', JStr (as ! 0)), (''reason'', JStr (if length as > 1 then as ! 1 else []))]))
      else if ty = CMD_UNKICK then
        if length as < 2 then Usage ''[SYSTEM] Usage: /unkick <user> <room>''
        else Request MSG_ADMIN_UNKICK (Some (json_object
          [(''target'', JStr (as ! 0)), (''room'', JStr (as ! 1))]))
      else if ty = CMD_MUTE then
        if as = [] then Usage ''[SYSTEM] Usage: /mute <username> [seconds]''
        else (case (if length as > 1 then stoi (as ! 1) else Inr (-1)) of
                Inl e \<Rightarrow> Throws e
              | Inr d \<Rightarrow> Request MSG_ADMIN_MUTE (Some (json_object
                  [(''target'', JStr (as ! 0)), (''duration'', JInt d)])))
      else if ty = CMD_UNMUTE then
        if as = [] then Usage ''[SYSTEM] Usage: /unmute <username>''
        else Request MSG_ADMIN_MUTE (Some (json_object
          [(''target'', JStr (as ! 0)), (''duration'', JInt 0)]))
      else if ty = CMD_BAN then
        if as = [] then Usage ''[SYSTEM] Usage: /ban <username> [reason]''
        else Request MSG_ADMIN_BAN (Some (json_object ((''target'', JStr (as ! 0)) #
          (if length as > 1 then [(''reason'', JStr (as ! 1))] else []))))
      else if ty = CMD_UNBAN then
        if as = [] then Usage ''[SYSTEM] Usage: /unban <username>''
        else Request MSG_ADMIN_BAN (Some (json_object
          [(''target'', JStr (as ! 0)), (''unban'', JBool True)]))
      else if ty = CMD_PROMOTE then
        if as = [] then Usage ''[SYSTEM] Usage: /promote <username>''
        else Request MSG_ADMIN_PROMOTE (Some (json_object [(''target'', JStr (as ! 0))]))
      else if ty = CMD_DEMOTE then
        if as = [] then Usage ''[SYSTEM] Usage: /demote <username>''
        else Request MSG_ADMIN_PROMOTE (Some (json_object
          [(''target'', JStr (as ! 0)), (''demote'', JBool True)]))
      else if ty = CMD_BROADCAST then
        if as = [] then Usage ''[SYSTEM] Usage: /broadcast <message>''
        else Request MSG_ADMIN_BROADCAST (Some (json_object [(''message'', JStr (join_args 0 as))]))
      else Silent)"

lemmas handler_defs = handleList_def handleRooms_def handleJoin_def handleLeave_def handleCreate_def
  handleDeleteRoom_def handleRoomsAdmin_def handleMsg_def handleWhois_def handleAdminCommand_def

text \<open>The administrators' commands, which share one handler.\<close>

definition admin_commands :: "CommandType list" where
  "admin_commands = [CMD_KICK, CMD_UNKICK, CMD_MUTE, CMD_UNMUTE, CMD_BAN, CMD_UNBAN, CMD_PROMOTE, CMD_DEMOTE,
     CMD_BROADCAST]"

section \<open>Words of a line\<close>

definition is_word :: "string \<Rightarrow> bool" where
  "is_word w \<longleftrightarrow> w \<noteq> [] \<and> list_all (\<lambda>c. \<not> is_space c) w"

fun join_words :: "string list \<Rightarrow> string" where
  "join_words [] = []"
| "join_words [w] = w"
| "join_words (w # v # ws) = w @ '' '' @ join_words (v # ws)"

lemma is_space_space [simp]: "is_space (CHR '' '')"
  by (simp add: is_space_def)

lemma ws_tokens_skip [simp]: "is_space c \<Longrightarrow> ws_tokens (c # s) = ws_tokens s"
  by (subst (1 2) ws_tokens.simps) simp

lemma is_space_ascii: "is_space c \<Longrightarrow> code_of c < 0x80"
  by (auto simp: is_space_def)

text \<open>The words of a UTF-8 line are UTF-8.\<close>

lemma ws_tokens_utf8: "utf8_ok s \<Longrightarrow> list_all utf8_ok (ws_tokens s)"
proof (induction s rule: ws_tokens.induct)
  case (1 s)
  let ?t = "dropWhile is_space s"
  have t: "utf8_ok ?t" using "1.prems" is_space_ascii by (rule utf8_ok_dropWhile)
  show ?case
  proof (cases "?t = []")
    case False
    then have "list_all utf8_ok (ws_tokens (dropWhile (\<lambda>c. \<not> is_space c) ?t))"
      using "1.IH" utf8_ok_cut(2) [OF t is_space_ascii] by simp
    with False utf8_ok_cut(1) [OF t is_space_ascii] show ?thesis
      by (subst ws_tokens.simps) (simp add: Let_def)
  qed (subst ws_tokens.simps, simp)
qed

lemma utf8_ok_join_words: "list_all utf8_ok ws \<Longrightarrow> utf8_ok (join_words ws)"
  by (induction ws rule: join_words.induct) simp_all

lemma parse_command_utf8: "utf8_ok line \<Longrightarrow> list_all utf8_ok (cmd_args (parse_command line))"
  using ws_tokens_utf8 [of line] by (auto simp: parse_command_def split: list.split)

lemma takeWhile_word: "list_all (\<lambda>c. \<not> is_space c) w \<Longrightarrow> s = [] \<or> is_space (hd s) \<Longrightarrow>
    takeWhile (\<lambda>c. \<not> is_space c) (w @ s) = w \<and> dropWhile (\<lambda>c. \<not> is_space c) (w @ s) = s"
  by (cases s) (induction w, auto)+

lemma ws_tokens_word:
  assumes "is_word w" "s = [] \<or> is_space (hd s)"
  shows "ws_tokens (w @ s) = w # ws_tokens s"
proof -
  from assms(1) obtain c cs where w: "w = c # cs" "\<not> is_space c" "list_all (\<lambda>c. \<not> is_space c) cs"
    by (cases w) (auto simp: is_word_def)
  then show ?thesis
    using takeWhile_word [of cs s] assms(2) by (subst ws_tokens.simps) simp
qed

lemma ws_tokens_Nil [simp]: "ws_tokens [] = []"
  by (simp add: ws_tokens.simps)

lemma ws_tokens_join: "list_all is_word ws \<Longrightarrow> ws_tokens (join_words ws) = ws"
proof (induction ws rule: join_words.induct)
  case (2 w)
  then show ?case using ws_tokens_word [of w "[]"] by simp
next
  case (3 w v ws)
  then show ?case using ws_tokens_word [of w "'' '' @ join_words (v # ws)"] by simp
qed simp

lemma ws_tokens_words: "list_all is_word (ws_tokens s)"
proof (induction s rule: ws_tokens.induct)
  case (1 s)
  show ?case
  proof (cases "dropWhile is_space s")
    case Nil
    then show ?thesis by (subst ws_tokens.simps) simp
  next
    case (Cons c cs)
    then have "\<not> is_space c" using hd_dropWhile [of is_space s] by simp
    moreover have "list_all (\<lambda>c. \<not> is_space c) (takeWhile (\<lambda>c. \<not> is_space c) cs)"
      by (auto simp: list_all_iff dest: set_takeWhileD)
    ultimately show ?thesis using Cons "1.IH" [OF refl]
      by (subst ws_tokens.simps) (simp add: is_word_def [of "c # _"])
  qed
qed

lemma foldl_append_acc: "foldl (\<lambda>t k. t @ f k) a ks = a @ concat (map f ks)"
  by (induction ks arbitrary: a) simp_all

lemma join_args_words: "join_args i as = join_words (drop i as)"
proof -
  have "i \<le> length as \<Longrightarrow> concat (map (\<lambda>k. as ! k @ (if k = length as - 1 then [] else '' '')) [i..<length as])
      = join_words (drop i as)"
  proof (induction "length as - i" arbitrary: i)
    case (Suc n)
    then have i: "i < length as" by simp
    then have d: "drop i as = as ! i # drop (Suc i) as" by (simp add: Cons_nth_drop_Suc)
    have "concat (map (\<lambda>k. as ! k @ (if k = length as - 1 then [] else '' '')) [Suc i..<length as])
      = join_words (drop (Suc i) as)"
      using Suc by simp
    then show ?case using i d
      by (cases "drop (Suc i) as") (auto simp: upt_conv_Cons)
  qed simp
  then show ?thesis
    by (cases "i \<le> length as") (simp_all add: join_args_def foldl_append_acc)
qed

text \<open>
  A command line made of a command word and arguments parses into that command with exactly
  those arguments: the words of the line, however the command is spelled.
\<close>

theorem parse_command_line:
  assumes "list_all is_word (c # as)" and "hd c = CHR ''/''"
  shows "parse_command (join_words (c # as)) =
     \<lparr>cmd_type = stringToCommandType c, cmd_args = as, cmd_raw = join_words (c # as)\<rparr>"
proof -
  have "isCommand (join_words (c # as))"
    using assms by (cases as) (simp_all add: isCommand_def is_word_def hd_append)
  then show ?thesis using ws_tokens_join [OF assms(1)] by (simp add: parse_command_def)
qed

theorem parse_command_line_witness:
  "parse_command ''/msg bob hello there'' =
     \<lparr>cmd_type = CMD_MSG, cmd_args = [''bob'', ''hello'', ''there''], cmd_raw = ''/msg bob hello there''\<rparr>"
  using parse_command_line [of "''/msg''" "[''bob'', ''hello'', ''there'']"]
  by (simp add: is_word_def is_space_def stringToCommandType_def)

section \<open>Numbers\<close>

lemma digit_not_space: "digit_value c \<noteq> None \<Longrightarrow> \<not> is_space c \<and> c \<noteq> CHR ''-'' \<and> c \<noteq> CHR ''+''"
  by (auto simp: is_space_def digit_value_def)

lemma stoi_show_int:
  assumes "- (2 ^ 31) \<le> i" "i < 2 ^ 31"
  shows "stoi (show_int i) = Inr i"
proof -
  obtain c cs where c: "show_nat (nat \<bar>i\<bar>) = c # cs" "digit_value c \<noteq> None"
    using show_nat_digits [of "nat \<bar>i\<bar>"] by (cases "show_nat (nat \<bar>i\<bar>)") auto
  note r = read_digits_show [of "nat \<bar>i\<bar>", unfolded c(1)]
  show ?thesis
  proof (cases "i < 0")
    case True
    then have "show_int i = CHR ''-'' # c # cs" using c(1) by (simp add: show_int_def)
    with True c r assms show ?thesis by (simp add: stoi_def is_space_def)
  next
    case False
    then have "show_int i = c # cs" using c(1) by (simp add: show_int_def)
    with False c digit_not_space [OF c(2)] r assms show ?thesis by (simp add: stoi_def Let_def)
  qed
qed

lemma stoi_range: "stoi s = Inr i \<Longrightarrow> - (2 ^ 31) \<le> i \<and> i < 2 ^ 31"
  by (auto simp: stoi_def Let_def split: list.splits if_splits)

end
