(* ===== verification/ClientFiles.thy ===== *)
theory ClientFiles
  imports TcpConnection ClientPaths Commands
begin

text \<open>
  The state of the client's connection manager, \<open>client/core/ConnectionManager.h\<close>, and the file
  transfers of \<open>ConnectionManager.cpp\<close>: offers, the upload of an accepted file in chunks, and the
  download that writes the chunks of the sender into a new file.
\<close>

section \<open>State\<close>

datatype AuthState = PENDING_HANDSHAKE | HANDSHAKE_FAILED | PENDING_AUTH | REJECTED | AUTHENTICATED

record DownloadState =
  ds_filename :: string
  ds_sender :: string
  expectedSize :: u64
  receivedSize :: u64
  expectedHash :: string
  localFilepath :: string
  isFirstChunk :: bool

text \<open>Where the main thread is in \<open>run\<close>.\<close>

datatype run_phase = NotStarted | AwaitHandshake | AwaitReconnect | AskLogin | AwaitAuth | Chatting | Returned

text \<open>How the process ended: \<open>std::exit\<close>, an exception nothing catches, or undefined behaviour.\<close>

datatype exit_state = Alive | Exited int | Terminated | Undefined

text \<open>
  The manager with its connection, what it printed on \<open>std::cout\<close>, the files of its directory
  (regular files, by the name they are opened with), the upload threads it started, the retry
  threads with the attempts they have left, and the seconds the ping thread has counted.
\<close>

record ConnectionManager =
  cm_tcp :: TcpClient
  cm_running :: bool
  cm_authState :: AuthState
  cm_nickname :: string
  m_pendingUploads :: "(string, string) fmap"
  m_activeDownloads :: "(string, DownloadState) fmap"
  m_lastIncomingTransferId :: string
  cm_files :: "(string, bytes) fmap"
  cm_console :: string
  cm_phase :: run_phase
  cm_workers :: "(string \<times> string) list"
  cm_retries :: "(Packet \<times> nat) list"
  cm_ticks :: nat
  cm_exit :: exit_state

text \<open>The client's environment: clocks and key material, the vectors of the packets, and which
  files it may read and write.\<close>

record cenv =
  ce_env :: env
  ce_iv :: "nat \<Rightarrow> bytes"
  ce_reads :: "string \<Rightarrow> bool"
  ce_writes :: "string \<Rightarrow> bool"

definition ConnectionManager_new :: "TcpClient \<Rightarrow> (string, bytes) fmap \<Rightarrow> ConnectionManager" where
  "ConnectionManager_new c fs = \<lparr>cm_tcp = c, cm_running = False, cm_authState = PENDING_HANDSHAKE, cm_nickname = [],
     m_pendingUploads = fmempty, m_activeDownloads = fmempty, m_lastIncomingTransferId = [], cm_files = fs,
     cm_console = [], cm_phase = NotStarted, cm_workers = [], cm_retries = [], cm_ticks = 0, cm_exit = Alive\<rparr>"

section \<open>Effects\<close>

definition say :: "string \<Rightarrow> ConnectionManager \<Rightarrow> ConnectionManager" where
  "say t m = m\<lparr>cm_console := cm_console m @ t\<rparr>"

definition crash :: "ConnectionManager \<Rightarrow> ConnectionManager" where
  "crash m = m\<lparr>cm_exit := Terminated\<rparr>"

definition cm_send :: "lib \<Rightarrow> cenv \<Rightarrow> Packet \<Rightarrow> ConnectionManager \<Rightarrow> bool \<times> ConnectionManager" where
  "cm_send L C pkt m = (let (ok, c) = tc_sendPacket L (ce_iv C) pkt (cm_tcp m) in (ok, m\<lparr>cm_tcp := c\<rparr>))"

text \<open>Printing a document before going on: a string that is not UTF-8 makes \<open>dump\<close> throw, which nothing
  catches.\<close>

definition with_text :: "json \<Rightarrow> ConnectionManager \<Rightarrow> (string \<Rightarrow> ConnectionManager) \<Rightarrow> ConnectionManager" where
  "with_text j m k = (case json_text (-1) j of Inl _ \<Rightarrow> crash m | Inr s \<Rightarrow> k s)"

text \<open>A document sent without looking at the result.\<close>

definition send_doc :: "lib \<Rightarrow> cenv \<Rightarrow> MessageType \<Rightarrow> json \<Rightarrow> ConnectionManager \<Rightarrow> ConnectionManager" where
  "send_doc L C t j m = with_text j m (\<lambda>s. snd (cm_send L C (makePacket t s) m))"

lemma with_text_eq: "with_text j m k = (if json_utf8 j then k (json_dump j) else crash m)"
  by (simp add: with_text_def json_text_compact)

lemma with_text_ok [simp]: "json_ok j \<Longrightarrow> with_text j m k = k (json_dump j)"
  by (simp add: with_text_def json_text_ok)

lemma with_text_keeps: "(\<And>s. f (k s) = f m) \<Longrightarrow> f (crash m) = f m \<Longrightarrow> f (with_text j m k) = f m"
  by (simp add: with_text_def split: sum.split)

text \<open>\<open>std::ifstream\<close>, and \<open>std::ofstream\<close> with \<open>trunc\<close> and with \<open>app\<close>; \<open>None\<close> where it does not open.\<close>

definition file_read :: "cenv \<Rightarrow> string \<Rightarrow> ConnectionManager \<Rightarrow> bytes option" where
  "file_read C p m = (if ce_reads C p then fmlookup (cm_files m) p else None)"

definition file_trunc :: "cenv \<Rightarrow> string \<Rightarrow> bytes \<Rightarrow> ConnectionManager \<Rightarrow> ConnectionManager option" where
  "file_trunc C p d m = (if p = [] \<or> \<not> ce_writes C p then None else Some (m\<lparr>cm_files := fmupd p d (cm_files m)\<rparr>))"

definition file_append :: "cenv \<Rightarrow> string \<Rightarrow> bytes \<Rightarrow> ConnectionManager \<Rightarrow> ConnectionManager option" where
  "file_append C p d m =
     (if p = [] \<or> \<not> ce_writes C p then None
      else Some (m\<lparr>cm_files := fmupd p ((case fmlookup (cm_files m) p of None \<Rightarrow> [] | Some o' \<Rightarrow> o') @ d) (cm_files m)\<rparr>))"

fun is_discarded :: "json \<Rightarrow> bool" where
  "is_discarded JDiscarded = True"
| "is_discarded _ = False"

text \<open>\<open>get<std::vector<uint8_t>>()\<close>.\<close>

fun get_u8 :: "json \<Rightarrow> json_error + byte" where
  "get_u8 (JInt i) = Inr (word_of_int i)"
| "get_u8 (JFloat r) = Inr (word_of_int (truncated r))"
| "get_u8 (JBool b) = Inr (if b then 1 else 0)"
| "get_u8 _ = Inl TypeError302"

fun get_each :: "(json \<Rightarrow> json_error + 'a) \<Rightarrow> json list \<Rightarrow> json_error + 'a list" where
  "get_each get [] = Inr []"
| "get_each get (j # js) = bind_sum (get j) (\<lambda>x. bind_sum (get_each get js) (\<lambda>xs. Inr (x # xs)))"

fun get_bytes :: "json \<Rightarrow> json_error + bytes" where
  "get_bytes (JArr js) = get_each get_u8 js"
| "get_bytes _ = Inl TypeError302"

section \<open>The tables\<close>

definition registerUpload :: "string \<Rightarrow> string \<Rightarrow> ConnectionManager \<Rightarrow> ConnectionManager" where
  "registerUpload filename filepath m = m\<lparr>m_pendingUploads := fmupd filename filepath (m_pendingUploads m)\<rparr>"

definition getIncomingFileName :: "string \<Rightarrow> ConnectionManager \<Rightarrow> string" where
  "getIncomingFileName tid m =
     (case fmlookup (m_activeDownloads m) tid of Some d \<Rightarrow> ds_filename d | None \<Rightarrow> [])"

text \<open>The first transfer of a sender in the order of the identifiers.\<close>

definition getTransferIdBySender :: "string \<Rightarrow> ConnectionManager \<Rightarrow> string" where
  "getTransferIdBySender sender m =
     (case find (\<lambda>t. ds_sender (the (fmlookup (m_activeDownloads m) t)) = sender)
        (sorted_list_of_fset (fmdom (m_activeDownloads m))) of
        Some t \<Rightarrow> t | None \<Rightarrow> [])"

section \<open>Offers\<close>

text \<open>
  \<open>handleFileRequest\<close>: the offer is printed, then the transfer is recorded. \<open>value("size", 0)\<close>
  reads an \<open>int\<close>. An exception of the library ends the process; what was printed before it stays.
\<close>

definition offer_size :: "json \<Rightarrow> json_error + int" where
  "offer_size j = value_int j ''size'' 0"

definition handleFileRequest :: "json \<Rightarrow> ConnectionManager \<Rightarrow> ConnectionManager" where
  "handleFileRequest j m =
     (if is_discarded j then m
      else case value_string j ''from'' [] of
        Inl _ \<Rightarrow> crash (say ''[FILE] User '' m)
      | Inr from \<Rightarrow>
      (case value_string j ''filename'' [] of
        Inl _ \<Rightarrow> crash (say (''[FILE] User '' @ from @ '' wants to send file: '') m)
      | Inr filename \<Rightarrow>
      (case offer_size j of
        Inl _ \<Rightarrow> crash (say (''[FILE] User '' @ from @ '' wants to send file: '' @ filename @ '' ('') m)
      | Inr sz \<Rightarrow>
        let m1 = say (''[FILE] User '' @ from @ '' wants to send file: '' @ filename @ '' ('' @ show_int sz
                   @ '' bytes). '' @ ''Type /accept or /reject'' @ nl) m in
        (case value_string j ''sha256'' [] of
          Inl _ \<Rightarrow> crash m1
        | Inr sha \<Rightarrow>
        (case value_string j ''transfer_id'' [] of
          Inl _ \<Rightarrow> crash m1
        | Inr tid \<Rightarrow>
          m1\<lparr>m_activeDownloads := fmupd tid \<lparr>ds_filename = filename, ds_sender = from,
               expectedSize = word_of_int sz, receivedSize = 0, expectedHash = sha, localFilepath = [],
               isFirstChunk = True\<rparr> (m_activeDownloads m1),
             m_lastIncomingTransferId := tid\<rparr>)))))"

section \<open>Upload\<close>

definition handleFileAccept :: "json \<Rightarrow> ConnectionManager \<Rightarrow> ConnectionManager" where
  "handleFileAccept j m =
     (if is_discarded j then m
      else case value_string j ''transfer_id'' [] of Inl _ \<Rightarrow> crash m | Inr tid \<Rightarrow>
      (case value_string j ''filename'' [] of Inl _ \<Rightarrow> crash m | Inr filename \<Rightarrow>
        let filepath = (case fmlookup (m_pendingUploads m) filename of Some p \<Rightarrow> p | None \<Rightarrow> []) in
        if filepath = [] then
          say (''[SYSTEM] Accepted transfer for file '' @ filename @ '' but cannot find local file mapping.'' @ nl) m
        else
          (say (''[SYSTEM] Transfer for file '' @ filename @ '' accepted. Starting upload...'' @ nl) m)
            \<lparr>cm_workers := cm_workers m @ [(tid, filepath)]\<rparr>))"

definition CHUNK :: nat where "CHUNK = 4096"

definition data_doc :: "string \<Rightarrow> bool \<Rightarrow> bytes \<Rightarrow> json" where
  "data_doc tid firstChunk chunk =
     json_object ([(''transfer_id'', JStr tid), (''data'', JArr (map (\<lambda>b. JInt (uint b)) chunk))] @
       (if firstChunk then [(''is_start'', JBool True)] else []))"

definition end_doc :: "string \<Rightarrow> json" where
  "end_doc tid = json_object [(''transfer_id'', JStr tid), (''is_end'', JBool True)]"

text \<open>The loop over the file: reads of at most \<open>CHUNK\<close> bytes, each of them sent where it has any.\<close>

function upload_loop :: "lib \<Rightarrow> cenv \<Rightarrow> string \<Rightarrow> bool \<Rightarrow> bytes \<Rightarrow> ConnectionManager \<Rightarrow> ConnectionManager" where
  "upload_loop L C tid firstChunk rest m =
     (let chunk = take CHUNK rest in
      if chunk = [] then m
      else upload_loop L C tid False (drop CHUNK rest)
             (send_doc L C MSG_FILE_DATA (data_doc tid firstChunk chunk) m))"
  by pat_completeness auto
termination
  by (relation "measure (\<lambda>(_, _, _, _, rest, _). length rest)") (auto simp: CHUNK_def)

declare upload_loop.simps [simp del]

definition uploadWorker :: "lib \<Rightarrow> cenv \<Rightarrow> string \<Rightarrow> string \<Rightarrow> ConnectionManager \<Rightarrow> ConnectionManager" where
  "uploadWorker L C transferId filepath m =
     (case file_read C filepath m of
        None \<Rightarrow> say (''[SYSTEM] Cannot read file for upload: '' @ filepath @ nl) m
      | Some content \<Rightarrow>
          send_doc L C MSG_FILE_COMPLETE (end_doc transferId) (upload_loop L C transferId True content m))"

section \<open>Download\<close>

definition set_download :: "string \<Rightarrow> DownloadState \<Rightarrow> ConnectionManager \<Rightarrow> ConnectionManager" where
  "set_download tid d m = m\<lparr>m_activeDownloads := fmupd tid d (m_activeDownloads m)\<rparr>"

definition add_received :: "bytes \<Rightarrow> DownloadState \<Rightarrow> DownloadState" where
  "add_received chunk d = d\<lparr>receivedSize := receivedSize d + of_nat (length chunk)\<rparr>"

definition handleFileData :: "cenv \<Rightarrow> json \<Rightarrow> ConnectionManager \<Rightarrow> ConnectionManager" where
  "handleFileData C j m =
     (if is_discarded j then m
      else case value_string j ''transfer_id'' [] of Inl _ \<Rightarrow> crash m | Inr tid \<Rightarrow>
      (case json_value get_bytes j ''data'' [] of Inl _ \<Rightarrow> crash m | Inr chunk \<Rightarrow>
      (case fmlookup (m_activeDownloads m) tid of None \<Rightarrow> m | Some d \<Rightarrow>
      (case value_bool j ''is_start'' False of Inl _ \<Rightarrow> crash m | Inr start \<Rightarrow>
        if start \<or> isFirstChunk d then
          let path = getUniqueFilename (fmdom (cm_files m)) (ds_filename d);
              d1 = d\<lparr>localFilepath := path, isFirstChunk := False\<rparr>
          in (case file_trunc C path chunk m of
                None \<Rightarrow> set_download tid d1 m
              | Some m1 \<Rightarrow> set_download tid (if chunk = [] then d1 else add_received chunk d1) m1)
        else
          (case file_append C (localFilepath d) chunk m of
             None \<Rightarrow> m
           | Some m1 \<Rightarrow> if chunk = [] then m1 else set_download tid (add_received chunk d) m1)))))"

text \<open>Neither the size nor the hash of the offer is looked at.\<close>

definition handleFileComplete :: "lib \<Rightarrow> cenv \<Rightarrow> json \<Rightarrow> ConnectionManager \<Rightarrow> ConnectionManager" where
  "handleFileComplete L C j m =
     (if is_discarded j then m
      else case value_string j ''transfer_id'' [] of Inl _ \<Rightarrow> crash m | Inr tid \<Rightarrow>
      (case fmlookup (m_activeDownloads m) tid of
         None \<Rightarrow> m
       | Some d \<Rightarrow>
         let m1 = say (''[SYSTEM] File download complete: '' @ ds_filename d @ '' (''
                    @ show_nat (unat (receivedSize d)) @ '' bytes).'' @ nl) m
         in with_text (json_object [(''transfer_id'', JStr tid)]) m1
              (\<lambda>s. let m2 = snd (cm_send L C (makePacket MSG_FILE_ACK s) m1)
                   in m2\<lparr>m_activeDownloads := fmdrop tid (m_activeDownloads m2)\<rparr>)))"

section \<open>Upload and download\<close>

lemma manager_frame [simp, frame_simps]:
  "cm_tcp (say t m) = cm_tcp m" "cm_files (say t m) = cm_files m" "m_activeDownloads (say t m) = m_activeDownloads m"
  "cm_exit (say t m) = cm_exit m" "cm_authState (say t m) = cm_authState m" "cm_running (say t m) = cm_running m"
  "cm_phase (say t m) = cm_phase m" "cm_nickname (say t m) = cm_nickname m"
  "cm_tcp (crash m) = cm_tcp m" "cm_authState (crash m) = cm_authState m" "cm_phase (crash m) = cm_phase m"
  "cm_console (say t m) = cm_console m @ t" "cm_exit (crash m) = Terminated"
  by (simp_all add: say_def crash_def)

lemma cm_send_frame [simp, frame_simps]:
  "cm_tcp (snd (cm_send L C p m)) = snd (tc_sendPacket L (ce_iv C) p (cm_tcp m))"
  "fst (cm_send L C p m) = fst (tc_sendPacket L (ce_iv C) p (cm_tcp m))"
  "cm_files (snd (cm_send L C p m)) = cm_files m" "m_activeDownloads (snd (cm_send L C p m)) = m_activeDownloads m"
  "cm_exit (snd (cm_send L C p m)) = cm_exit m" "cm_authState (snd (cm_send L C p m)) = cm_authState m"
  "cm_running (snd (cm_send L C p m)) = cm_running m" "cm_phase (snd (cm_send L C p m)) = cm_phase m"
  "cm_console (snd (cm_send L C p m)) = cm_console m" "cm_nickname (snd (cm_send L C p m)) = cm_nickname m"
  by (simp_all add: cm_send_def case_prod_beta Let_def)

text \<open>The chunks of a file, and the documents an upload sends for them.\<close>

function chunks_of :: "bytes \<Rightarrow> bytes list" where
  "chunks_of rest = (if rest = [] then [] else take CHUNK rest # chunks_of (drop CHUNK rest))"
  by pat_completeness auto
termination
  by (relation "measure length") (auto simp: CHUNK_def)

declare chunks_of.simps [simp del]

definition upload_docs :: "string \<Rightarrow> bytes \<Rightarrow> json list" where
  "upload_docs tid content =
     (case chunks_of content of [] \<Rightarrow> [] | c # cs \<Rightarrow> data_doc tid True c # map (data_doc tid False) cs)"

lemma CHUNK_pos [simp]: "0 < CHUNK" "CHUNK \<noteq> 0"
  by (simp_all add: CHUNK_def)

lemma chunks_of_Nil [simp]: "chunks_of [] = []"
  by (simp add: chunks_of.simps)

lemma upload_loop_Nil [simp]: "upload_loop L C tid b [] m = m"
  by (simp add: upload_loop.simps)

lemma concat_chunks: "concat (chunks_of content) = content"
  by (induction content rule: chunks_of.induct) (subst chunks_of.simps, simp)

lemma chunk_bounds: "c \<in> set (chunks_of content) \<Longrightarrow> c \<noteq> [] \<and> length c \<le> CHUNK"
proof (induction content rule: chunks_of.induct)
  case (1 rest)
  then show ?case
    by (cases "rest = []") (auto simp: chunks_of.simps [of rest])
qed

lemma upload_loop_rest:
  "upload_loop L C tid False rest m =
     fold (send_doc L C MSG_FILE_DATA) (map (data_doc tid False) (chunks_of rest)) m"
proof (induction rest arbitrary: m rule: chunks_of.induct)
  case (1 rest)
  then show ?case
    by (cases "rest = []") (simp_all add: upload_loop.simps [of L C tid False rest] chunks_of.simps [of rest])
qed

lemma uploadWorker_docs:
  assumes "file_read C filepath m = Some content"
  shows "uploadWorker L C tid filepath m =
     send_doc L C MSG_FILE_COMPLETE (end_doc tid) (fold (send_doc L C MSG_FILE_DATA) (upload_docs tid content) m)"
  using assms
  by (cases "content = []")
    (simp_all add: uploadWorker_def upload_docs_def upload_loop.simps [of L C tid True content]
      chunks_of.simps [of content] upload_loop_rest)

lemma get_bytes_data [simp]: "get_bytes (JArr (map (\<lambda>b. JInt (uint b)) chunk)) = Inr chunk"
  by (induction chunk) simp_all

lemma data_doc_fields [simp]:
  "value_string (data_doc tid fst' chunk) ''transfer_id'' [] = Inr tid"
  "json_value get_bytes (data_doc tid fst' chunk) ''data'' [] = Inr chunk"
  "value_bool (data_doc tid fst' chunk) ''is_start'' False = Inr fst'"
  "\<not> is_discarded (data_doc tid fst' chunk)"
  by (simp_all add: data_doc_def json_object_def del: get_bytes.simps)

text \<open>The effect of a download on the state: the file and the record of the transfer.\<close>

definition downloaded :: "string \<Rightarrow> string \<Rightarrow> bytes \<Rightarrow> DownloadState \<Rightarrow> ConnectionManager \<Rightarrow> ConnectionManager" where
  "downloaded tid path content d m =
     m\<lparr>cm_files := fmupd path content (cm_files m),
       m_activeDownloads := fmupd tid (add_received content (d\<lparr>localFilepath := path, isFirstChunk := False\<rparr>))
         (m_activeDownloads m)\<rparr>"

lemma download_first:
  assumes "fmlookup (m_activeDownloads m) tid = Some d" "ds_filename d \<noteq> []" "chunk \<noteq> []"
    and "path = getUniqueFilename (fmdom (cm_files m)) (ds_filename d)" "ce_writes C path"
  shows "handleFileData C (data_doc tid True chunk) m = downloaded tid path chunk d m"
  using assms getUniqueFilename_ne [of "ds_filename d" "fmdom (cm_files m)"]
  by (simp add: handleFileData_def file_trunc_def set_download_def downloaded_def Let_def)

lemma download_next:
  assumes "path \<noteq> []" "ce_writes C path" "chunk \<noteq> []"
  shows "handleFileData C (data_doc tid False chunk) (downloaded tid path content d m) =
    downloaded tid path (content @ chunk) d m"
  using assms
  by (simp add: handleFileData_def file_append_def set_download_def downloaded_def add_received_def algebra_simps)

lemma download_rest:
  assumes "path \<noteq> []" "ce_writes C path" "\<forall>c \<in> set cs. c \<noteq> []"
  shows "fold (handleFileData C) (map (data_doc tid False) cs) (downloaded tid path content d m) =
    downloaded tid path (content @ concat cs) d m"
  using assms(3)
proof (induction cs arbitrary: content)
  case (Cons c cs)
  then show ?case using download_next [OF assms(1,2), of c tid content d m] by simp
qed simp

lemma download_docs:
  assumes "fmlookup (m_activeDownloads m) tid = Some d" "ds_filename d \<noteq> []" "content \<noteq> []"
    and "path = getUniqueFilename (fmdom (cm_files m)) (ds_filename d)" "ce_writes C path"
  shows "fold (handleFileData C) (upload_docs tid content) m = downloaded tid path content d m"
proof -
  obtain c cs where c: "chunks_of content = c # cs"
    using assms(3) by (simp add: chunks_of.simps [of content])
  then have ne: "c \<noteq> []" "\<forall>x \<in> set cs. x \<noteq> []" using chunk_bounds [of _ content] by auto
  have "path \<noteq> []" using getUniqueFilename_ne assms(2,4) by simp
  from download_rest [OF this assms(5) ne(2)] show ?thesis
    using download_first [OF assms(1,2) ne(1) assms(4,5)] concat_chunks [of content]
    by (simp add: upload_docs_def c)
qed

end
