(* ===== verification/Calendar.thy ===== *)
theory Calendar
  imports Prelude
begin

text \<open>
  What the program uses of \<open>std::gmtime\<close> and \<open>std::put_time\<close>: the time of day and the civil date of a
  number of seconds since 1970, printed by the client for chat messages and by the server's logger
  for its lines and file names. The calendar is the proleptic Gregorian one, counted year by year
  and month by month; two days never have the same printed date.
\<close>

section \<open>Time of day\<close>

text \<open>\<open>std::put_time(std::gmtime(&t), "%H:%M:%S")\<close>.\<close>

definition two_digits :: "int \<Rightarrow> string" where
  "two_digits n = [digit_char (nat (n div 10)), digit_char (nat (n mod 10))]"

definition hms :: "int \<Rightarrow> string" where
  "hms t = two_digits (t div 3600 mod 24) @ '':'' @ two_digits (t div 60 mod 60) @ '':'' @ two_digits (t mod 60)"

lemma two_digits_inject:
  assumes "0 \<le> m" "m < 100" "0 \<le> n" "n < 100"
  shows "two_digits m = two_digits n \<longleftrightarrow> m = n"
proof
  assume "two_digits m = two_digits n"
  with assms have "nat (m div 10) = nat (n div 10)" "nat (m mod 10) = nat (n mod 10)"
    by (simp_all add: two_digits_def)
  moreover have "0 \<le> m div 10" "0 \<le> n div 10" "0 \<le> m mod 10" "0 \<le> n mod 10" using assms by simp_all
  ultimately have "m div 10 = n div 10" "m mod 10 = n mod 10" by (simp_all only: eq_nat_nat_iff)
  then show "m = n" by (metis mult_div_mod_eq)
qed simp

section \<open>Dates\<close>

definition is_leap :: "nat \<Rightarrow> bool" where
  "is_leap y \<longleftrightarrow> 4 dvd y \<and> (\<not> 100 dvd y \<or> 400 dvd y)"

definition year_days :: "nat \<Rightarrow> nat" where
  "year_days y = (if is_leap y then 366 else 365)"

definition month_lengths :: "nat \<Rightarrow> nat list" where
  "month_lengths y = [31, if is_leap y then 29 else 28, 31, 30, 31, 30, 31, 31, 30, 31, 30, 31]"

text \<open>The year a day falls in, with its number within the year.\<close>

function year_of :: "nat \<Rightarrow> nat \<Rightarrow> nat \<times> nat" where
  "year_of y d = (if d < year_days y then (y, d) else year_of (y + 1) (d - year_days y))"
  by pat_completeness auto
termination by (relation "measure snd") (auto simp: year_days_def split: if_splits)

declare year_of.simps [simp del]

fun month_of :: "nat list \<Rightarrow> nat \<Rightarrow> nat \<Rightarrow> nat \<times> nat" where
  "month_of (l # ls) m r = (if r < l then (m, r + 1) else month_of ls (m + 1) (r - l))"
| "month_of [] m r = (m, r + 1)"

text \<open>Year, month and day of the month of the day \<open>d\<close> after 1 January 1970.\<close>

definition civil :: "nat \<Rightarrow> nat \<times> nat \<times> nat" where
  "civil d = (let (y, r) = year_of 1970 d in (y, month_of (month_lengths y) 1 r))"

definition date_of :: "string \<Rightarrow> nat \<Rightarrow> string" where
  "date_of sep d =
     (case civil d of (y, m, k) \<Rightarrow> show_nat y @ sep @ two_digits (int m) @ sep @ two_digits (int k))"

text \<open>Counting back: the days before a date.\<close>

fun days_before_year :: "nat \<Rightarrow> nat \<Rightarrow> nat" where
  "days_before_year y 0 = 0"
| "days_before_year y (Suc n) = year_days y + days_before_year (y + 1) n"

definition day_number :: "nat \<times> nat \<times> nat \<Rightarrow> nat" where
  "day_number dt = (case dt of (y, m, k) \<Rightarrow>
     days_before_year 1970 (y - 1970) + sum_list (take (m - 1) (month_lengths y)) + (k - 1))"

lemma year_of_correct:
  "year_of y d = (y', r) \<Longrightarrow> y \<le> y' \<and> r < year_days y' \<and> days_before_year y (y' - y) + r = d"
proof (induction y d rule: year_of.induct)
  case (1 y d)
  show ?case
  proof (cases "d < year_days y")
    case True
    with "1.prems" show ?thesis by (auto simp: year_of.simps [of y d])
  next
    case False
    with "1.prems" have rec: "year_of (y + 1) (d - year_days y) = (y', r)" by (simp add: year_of.simps [of y d])
    from "1.IH" [OF False this] have ih: "y + 1 \<le> y'" "r < year_days y'"
      "days_before_year (y + 1) (y' - (y + 1)) + r = d - year_days y" by auto
    then have "y' - y = Suc (y' - (y + 1))" by simp
    with ih False show ?thesis by simp
  qed
qed

lemma month_of_correct:
  "month_of ls m r = (m', k) \<Longrightarrow> r < sum_list ls \<Longrightarrow>
     m \<le> m' \<and> m' < m + length ls \<and> 1 \<le> k \<and> k \<le> ls ! (m' - m) \<and> sum_list (take (m' - m) ls) + (k - 1) = r"
proof (induction ls m r rule: month_of.induct)
  case (1 l ls m r)
  show ?case
  proof (cases "r < l")
    case False
    with "1.prems" have "month_of ls (m + 1) (r - l) = (m', k)" "r - l < sum_list ls" by auto
    from "1.IH" [OF False this] have ih: "m + 1 \<le> m'" "m' < m + 1 + length ls" "1 \<le> k"
      "k \<le> ls ! (m' - (m + 1))" "sum_list (take (m' - (m + 1)) ls) + (k - 1) = r - l" by auto
    then have "m' - m = Suc (m' - (m + 1))" by simp
    with ih False show ?thesis by simp
  qed (use "1.prems" in auto)
qed simp

lemma month_lengths_facts:
  "sum_list (month_lengths y) = year_days y" "length (month_lengths y) = 12"
  by (simp_all add: month_lengths_def year_days_def)

lemma month_length_bound: "i < 12 \<Longrightarrow> month_lengths y ! i \<le> 31"
proof -
  assume "i < 12"
  then have "month_lengths y ! i \<in> set (month_lengths y)" by (simp add: month_lengths_facts)
  then show ?thesis by (auto simp: month_lengths_def)
qed

lemma civil_correct:
  assumes "civil d = (y, m, k)"
  shows "day_number (y, m, k) = d" "1 \<le> m" "m \<le> 12" "1 \<le> k" "k \<le> 31"
proof -
  obtain r where yr: "year_of 1970 d = (y, r)" and mo: "month_of (month_lengths y) 1 r = (m, k)"
    using assms by (auto simp: civil_def split: prod.splits)
  note Y = year_of_correct [OF yr]
  have M: "1 \<le> m" "m < 1 + 12" "1 \<le> k" "k \<le> month_lengths y ! (m - 1)"
    "sum_list (take (m - 1) (month_lengths y)) + (k - 1) = r"
    using month_of_correct [OF mo] Y by (simp_all add: month_lengths_facts)
  then show "1 \<le> m" "m \<le> 12" "1 \<le> k" by auto
  have "m - 1 < 12" using M(1,2) by linarith
  from month_length_bound [OF this, of y] show "k \<le> 31" using M(4) by linarith
  show "day_number (y, m, k) = d" using Y M(5) by (simp add: day_number_def)
qed

lemma date_of_inject: "date_of sep a = date_of sep b \<longleftrightarrow> a = b"
proof
  assume eq: "date_of sep a = date_of sep b"
  obtain y m k where a: "civil a = (y, m, k)" by (cases "civil a")
  obtain y' m' k' where b: "civil b = (y', m', k')" by (cases "civil b")
  have len: "length (two_digits x) = 2" for x by (simp add: two_digits_def)
  from eq a b have "show_nat y = show_nat y' \<and> two_digits (int m) = two_digits (int m') \<and>
      two_digits (int k) = two_digits (int k')"
    by (simp add: date_of_def append_eq_append_conv len)
  with civil_correct [OF a] civil_correct [OF b] have "(y, m, k) = (y', m', k')"
    by (simp add: two_digits_inject)
  with civil_correct(1) [OF a] civil_correct(1) [OF b] show "a = b" by simp
qed simp

end
