(* ===== verification/ClientManager.thy ===== *)
theory ClientManager
  imports ClientFiles Calendar
begin

text \<open>
  The client's connection manager, \<open>client/core/ConnectionManager.cpp\<close>: what it prints for the
  packets it receives, the login, the lines the user types and the commands of
  \<open>client/commands/CommandHandler.cpp\<close> that need its tables, and the threads it starts, as one
  machine over the events of the process. A callback or handler runs as one step; the steps of the
  threads interleave.
\<close>

section \<open>Printing\<close>

text \<open>
  Output that may be cut short: the text printed so far with the fault that stopped it, an
  exception of the JSON library or a null pointer of \<open>std::gmtime\<close>.
\<close>

datatype fault = Thrown json_error | NullTime

type_synonym 'a talk = "string \<times> (fault + 'a)"

definition tell :: "string \<Rightarrow> unit talk" where
  "tell s = (s, Inr ())"

definition ask :: "json_error + 'a \<Rightarrow> 'a talk" where
  "ask r = ([], case r of Inl e \<Rightarrow> Inl (Thrown e) | Inr a \<Rightarrow> Inr a)"

definition andthen :: "'a talk \<Rightarrow> ('a \<Rightarrow> 'b talk) \<Rightarrow> 'b talk" where
  "andthen t k = (case snd t of Inl f \<Rightarrow> (fst t, Inl f) | Inr a \<Rightarrow> (fst t @ fst (k a), snd (k a)))"

lemma talk_simps [simp]:
  "andthen (tell s) k = (s @ fst (k ()), snd (k ()))"
  "andthen (ask (Inr a)) g = g a"
  "andthen (ask (Inl e)) h = ([], Inl (Thrown e))"
  by (simp_all add: andthen_def tell_def ask_def)

text \<open>\<open>std::gmtime\<close> gives a null pointer where the year does not fit the \<open>int\<close> of \<open>struct tm\<close>.\<close>

definition gmtime_max :: int where "gmtime_max = 67768036191676799"

definition clock :: "int \<Rightarrow> string talk" where
  "clock t = ([], if t > gmtime_max then Inl NullTime else Inr (hms t))"

definition strip_hash :: "string \<Rightarrow> string" where
  "strip_hash r = (if r \<noteq> [] \<and> hd r = CHR ''#'' then tl r else r)"

text \<open>One chat message; a message of the history (\<open>in_array\<close>) without a time has no room either.\<close>

definition print_chat :: "bool \<Rightarrow> string \<Rightarrow> json \<Rightarrow> unit talk" where
  "print_chat in_array nickname item =
     andthen (ask (json_value get_longlong item ''ts'' 0)) (\<lambda>ts.
     andthen (ask (value_string item ''sender'' [])) (\<lambda>sender.
     andthen (ask (value_string item ''room'' [])) (\<lambda>r.
     andthen (if ts > 0
                then andthen (clock (ts + 7 * 3600)) (\<lambda>t. tell (''['' @ t @ ''] ['' @ strip_hash r @ ''] ''))
              else if in_array then tell []
              else tell (''['' @ strip_hash r @ ''] '')) (\<lambda>_.
     andthen (if sender = nickname then tell [] else tell (sender @ '': '')) (\<lambda>_.
     andthen (ask (value_string item ''message'' [])) (\<lambda>text. tell (text @ nl)))))))"

fun print_all :: "string \<Rightarrow> json list \<Rightarrow> unit talk" where
  "print_all nickname [] = tell []"
| "print_all nickname (j # js) = andthen (print_chat True nickname j) (\<lambda>_. print_all nickname js)"

definition print_broadcast :: "string \<Rightarrow> json \<Rightarrow> unit talk" where
  "print_broadcast nickname j =
     (case j of JArr js \<Rightarrow> print_all nickname js | JObj m \<Rightarrow> print_chat False nickname j | _ \<Rightarrow> tell [])"

definition print_notify :: "json \<Rightarrow> unit talk" where
  "print_notify j = andthen (tell ''[SYSTEM] '') (\<lambda>_. andthen (ask (value_string j ''message'' [])) (\<lambda>s. tell (s @ nl)))"

definition print_private :: "string \<Rightarrow> json \<Rightarrow> unit talk" where
  "print_private nickname j =
     andthen (ask (value_string j ''from'' [])) (\<lambda>from.
       if from = nickname then
         andthen (tell ''[PRIVATE] You -> '') (\<lambda>_. andthen (ask (value_string j ''to'' [])) (\<lambda>to.
         andthen (tell (to @ '': '')) (\<lambda>_. andthen (ask (value_string j ''message'' [])) (\<lambda>s. tell (s @ nl)))))
       else
         andthen (tell (''[PRIVATE] '' @ from @ '': '')) (\<lambda>_.
         andthen (ask (value_string j ''message'' [])) (\<lambda>s. tell (s @ nl))))"

definition print_error :: "json \<Rightarrow> unit talk" where
  "print_error j =
     andthen (tell ''[ERROR] '') (\<lambda>_.
     andthen (ask (value_string j ''reason'' [])) (\<lambda>reason.
     andthen (ask (value_string j ''detail'' reason)) (\<lambda>s. tell (s @ nl))))"

fun list_entry :: "json \<Rightarrow> string" where
  "list_entry (JStr s) = s"
| "list_entry j = json_dump j"

fun join_comma :: "string list \<Rightarrow> string" where
  "join_comma [] = []"
| "join_comma [x] = x"
| "join_comma (x # y # xs) = x @ '', '' @ join_comma (y # xs)"

definition print_list :: "json \<Rightarrow> unit talk" where
  "print_list j =
     tell (''[INFO] '' @ (case j of JArr js \<Rightarrow> join_comma (map (list_entry) js) | _ \<Rightarrow> json_dump2 j) @ nl)"

definition print_whois :: "json \<Rightarrow> unit talk" where
  "print_whois j =
     (case (case j of JObj m \<Rightarrow> fmlookup m ''error'' | _ \<Rightarrow> None) of
        Some e \<Rightarrow> andthen (tell ''[SYSTEM] '') (\<lambda>_. andthen (ask (get_string e)) (\<lambda>s. tell (s @ nl)))
      | None \<Rightarrow>
        andthen (tell (''=== WHOIS INFO ==='' @ nl @ '' Nickname: '')) (\<lambda>_.
        andthen (ask (value_string j ''nickname'' [])) (\<lambda>n.
        andthen (tell (n @ nl @ '' IP: '')) (\<lambda>_. andthen (ask (value_string j ''ip'' [])) (\<lambda>a.
        andthen (tell (a @ nl @ '' Room: '')) (\<lambda>_. andthen (ask (value_string j ''room'' [])) (\<lambda>r.
        andthen (tell (r @ nl @ '' Muted: '')) (\<lambda>_. andthen (ask (value_bool j ''is_muted'' False)) (\<lambda>b.
          tell ((if b then ''Yes'' else ''No'') @ nl @ ''=================='' @ nl))))))))))"

text \<open>Printing in a handler without a \<open>try\<close>, and in one that catches \<open>std::exception\<close>.\<close>

definition print_plain :: "unit talk \<Rightarrow> ConnectionManager \<Rightarrow> ConnectionManager" where
  "print_plain t m =
     (case snd t of
        Inr _ \<Rightarrow> say (fst t) m
      | Inl (Thrown _) \<Rightarrow> crash (say (fst t) m)
      | Inl NullTime \<Rightarrow> (say (fst t) m)\<lparr>cm_exit := Undefined\<rparr>)"

definition print_caught :: "unit talk \<Rightarrow> ConnectionManager \<Rightarrow> ConnectionManager" where
  "print_caught t m =
     (case snd t of Inl NullTime \<Rightarrow> (say (fst t) m)\<lparr>cm_exit := Undefined\<rparr> | _ \<Rightarrow> say (fst t) m)"

section \<open>Packets from the server\<close>

definition cm_stop :: "ConnectionManager \<Rightarrow> ConnectionManager" where
  "cm_stop m = m\<lparr>cm_running := False\<rparr>"

definition onHandshakeDone :: "bool \<Rightarrow> ConnectionManager \<Rightarrow> ConnectionManager" where
  "onHandshakeDone success m = m\<lparr>cm_authState := (if \<not> success then HANDSHAKE_FAILED else PENDING_AUTH)\<rparr>"

definition token_file :: string where "token_file = ''token.txt''"

text \<open>Opening the token file may fail; nothing looks at that.\<close>

definition save_token :: "cenv \<Rightarrow> string \<Rightarrow> ConnectionManager \<Rightarrow> ConnectionManager" where
  "save_token C token m =
     (case file_trunc C token_file (bytes_of_string token) m of None \<Rightarrow> m | Some m' \<Rightarrow> m')"

definition on_connect_accept :: "cenv \<Rightarrow> json \<Rightarrow> ConnectionManager \<Rightarrow> ConnectionManager" where
  "on_connect_accept C j m =
     (if is_discarded j then m\<lparr>cm_authState := AUTHENTICATED\<rparr>
      else case value_string j ''token'' [] of Inl _ \<Rightarrow> crash m | Inr token \<Rightarrow>
        let m1 = (if token \<noteq> [] then save_token C token m else m) in
        (case value_string j ''room'' ''general'' of Inl _ \<Rightarrow> crash m1 | Inr room \<Rightarrow>
        (case value_string j ''nickname'' [] of Inl _ \<Rightarrow> crash m1 | Inr nick \<Rightarrow>
          (say (''[+] Connected successfully! You are in #'' @ room @ nl) (m1\<lparr>cm_nickname := nick\<rparr>))
            \<lparr>cm_authState := AUTHENTICATED\<rparr>)))"

definition drop_token :: "ConnectionManager \<Rightarrow> ConnectionManager" where
  "drop_token m = m\<lparr>cm_files := fmdrop token_file (cm_files m)\<rparr>"

definition on_connect_reject :: "json \<Rightarrow> ConnectionManager \<Rightarrow> ConnectionManager" where
  "on_connect_reject j m =
     (let refuse = (\<lambda>m. (drop_token m)\<lparr>cm_authState := REJECTED\<rparr>) in
      if is_discarded j then refuse m
      else case value_string j ''reason'' ''Unknown'' of
        Inl _ \<Rightarrow> crash m
      | Inr reason \<Rightarrow>
        let m1 = (if \<not> str_contains ''token'' reason
                  then say (''[-] Connection rejected: '' @ reason @ nl) m else m)
        in if str_contains ''banned'' reason then m1\<lparr>cm_exit := Exited 0\<rparr> else refuse m1)"

text \<open>A handler that does nothing with a text that is not JSON.\<close>

definition parsed :: "(json \<Rightarrow> unit talk) \<Rightarrow> json \<Rightarrow> ConnectionManager \<Rightarrow> ConnectionManager" where
  "parsed h j m = (if is_discarded j then m else print_plain (h j) m)"

definition onPacketReceived :: "lib \<Rightarrow> cenv \<Rightarrow> Packet \<Rightarrow> ConnectionManager \<Rightarrow> ConnectionManager" where
  "onPacketReceived L C pkt m =
     (let j = json_parse_nothrow (payloadToString pkt); nick = cm_nickname m in
      case msg_of_code (msg_type (header pkt)) of
        None \<Rightarrow> m
      | Some t \<Rightarrow>
        if t = MSG_CONNECT_ACCEPT then on_connect_accept C j m
        else if t = MSG_CONNECT_REJECT then on_connect_reject j m
        else if t = MSG_CHAT_BROADCAST then
          if is_discarded j then m else print_caught (print_broadcast nick j) m
        else if t = MSG_SYSTEM_NOTIFY then parsed print_notify j m
        else if t = MSG_CHAT_PRIVATE then parsed (print_private nick) j m
        else if t = MSG_ERROR then parsed print_error j m
        else if t \<in> {MSG_USER_LIST_RESPONSE, MSG_USER_LISTALL_RESPONSE, MSG_ROOM_LIST_RESPONSE,
             MSG_ADMIN_ROOM_INFO_RESPONSE} then parsed (print_list) j m
        else if t = MSG_WHOIS_RESPONSE then parsed print_whois j m
        else if t = MSG_FILE_REQUEST then handleFileRequest j m
        else if t = MSG_FILE_ACCEPT then handleFileAccept j m
        else if t = MSG_FILE_REJECT then
          if is_discarded j then m else say (''[SYSTEM] Transfer was rejected.'' @ nl) m
        else if t = MSG_FILE_DATA then handleFileData C j m
        else if t = MSG_FILE_COMPLETE then handleFileComplete L C j m
        else if t = MSG_FILE_ACK then say (''[SYSTEM] File transfer completed successfully.'' @ nl) m
        else m)"

section \<open>The receiving thread\<close>

text \<open>The callbacks the constructor installs.\<close>

fun on_callback :: "lib \<Rightarrow> cenv \<Rightarrow> callback \<Rightarrow> ConnectionManager \<Rightarrow> ConnectionManager" where
  "on_callback L C (OnPacket pkt) m = onPacketReceived L C pkt m"
| "on_callback L C (OnHandshakeDone success) m = onHandshakeDone success m"
| "on_callback L C OnDisconnected m = cm_stop (say (nl @ ''[SYSTEM] Disconnected from server.'' @ nl) m)"

definition cm_receive :: "lib \<Rightarrow> cenv \<Rightarrow> Packet option \<Rightarrow> ConnectionManager \<Rightarrow> bool \<times> ConnectionManager" where
  "cm_receive L C r m =
     (case receive_one L (ce_env C) (ce_iv C) r (cm_tcp m) of
        None \<Rightarrow> (True, m\<lparr>cm_exit := Undefined\<rparr>)
      | Some (cbs, stop, c) \<Rightarrow> (stop, fold (on_callback L C) cbs (m\<lparr>cm_tcp := c\<rparr>)))"

lemma readPacketFromFd_progress:
  assumes "readPacketFromFd s = Some (p, s')"
  shows "length (socket_bytes s') < length (socket_bytes s)"
proof -
  obtain h s1 where h: "recvAll s 17 = Some (h, s1)"
    using assms by (auto simp: readPacketFromFd_def sizeof_PacketHeader_def split: option.splits)
  have "length (socket_bytes s') \<le> length (socket_bytes s1)"
    using assms recvAll_spec [of s1]
    by (fastforce simp: readPacketFromFd_def sizeof_PacketHeader_def h split: option.splits if_splits prod.splits)
  with recvAll_spec [OF h] show ?thesis by simp
qed

text \<open>The loop over a whole connection, given what its \<open>recv\<close> calls give.\<close>

function receiveThread :: "lib \<Rightarrow> cenv \<Rightarrow> socket \<Rightarrow> ConnectionManager \<Rightarrow> ConnectionManager" where
  "receiveThread L C s m =
     (if \<not> tc_connected (cm_tcp m) \<or> cm_exit m \<noteq> Alive then m
      else case readPacketFromFd s of
             None \<Rightarrow> snd (cm_receive L C None m)
           | Some (p, s') \<Rightarrow>
             (case cm_receive L C (Some p) m of
                (stop, m') \<Rightarrow> if stop then m' else receiveThread L C s' m'))"
  by pat_completeness auto
termination
  by (relation "measure (\<lambda>(_, _, s, _). length (socket_bytes s))") (auto dest: readPacketFromFd_progress)

declare receiveThread.simps [simp del]

end
