(* ===== verification/ClientRun.thy ===== *)
theory ClientRun
  imports ClientManager
begin

text \<open>
  The main thread of the client, \<open>ConnectionManager::run\<close>, with the commands of
  \<open>client/commands/CommandHandler.cpp\<close> and the start of \<open>client/main.cpp\<close> (the POSIX branches): the
  login, the lines the user types, and the machine of all events of the process with its invariant.
\<close>

section \<open>Commands\<close>

definition run_request :: "lib \<Rightarrow> cenv \<Rightarrow> request \<Rightarrow> ConnectionManager \<Rightarrow> ConnectionManager" where
  "run_request L C r m =
     (case r of
        Usage s \<Rightarrow> say (s @ nl) m
      | Request t None \<Rightarrow> snd (cm_send L C (mk_packet t []) m)
      | Request t (Some j) \<Rightarrow> send_doc L C t j m
      | Throws _ \<Rightarrow> crash m
      | Silent \<Rightarrow> m)"

definition handleQuit :: "ConnectionManager \<Rightarrow> ConnectionManager" where
  "handleQuit m = (let m1 = say (''Disconnecting from server...'' @ nl) m in m1\<lparr>cm_tcp := tc_disconnect (cm_tcp m1)\<rparr>)"

definition send_request_doc :: "lib \<Rightarrow> string \<Rightarrow> string \<Rightarrow> bytes \<Rightarrow> json" where
  "send_request_doc L to filename content =
     json_object [(''to'', JStr to), (''filename'', JStr filename), (''size'', JInt (int (length content))),
       (''sha256'', JStr (sha256_hash L content))]"

definition handleSend :: "lib \<Rightarrow> cenv \<Rightarrow> Command \<Rightarrow> ConnectionManager \<Rightarrow> ConnectionManager" where
  "handleSend L C cmd m =
     (let as = cmd_args cmd in
      if length as < 2 then say (''[SYSTEM] Usage: /send <username> <filepath>'' @ nl) m
      else
        let to = as ! 0; filepath = as ! 1 in
        case file_read C filepath m of
          None \<Rightarrow> say (''[SYSTEM] Cannot open file: '' @ filepath @ nl) m
        | Some content \<Rightarrow>
          let filename = path_filename filepath in
          with_text (send_request_doc L to filename content) m
            (\<lambda>s. let m1 = snd (cm_send L C (makePacket MSG_FILE_REQUEST s) m)
                 in say (''[SYSTEM] File transfer request sent to '' @ to @ nl) (registerUpload filename filepath m1)))"

text \<open>\<open>/accept\<close> and \<open>/reject\<close> differ in the words they print and the packet they send.\<close>

definition answer_offer :: "lib \<Rightarrow> cenv \<Rightarrow> MessageType \<Rightarrow> string \<Rightarrow> (string \<Rightarrow> string) \<Rightarrow> string \<Rightarrow> Command \<Rightarrow>
    ConnectionManager \<Rightarrow> ConnectionManager" where
  "answer_offer L C t verb named unnamed cmd m =
     (let reply = (\<lambda>tid.
            with_text (json_object [(''transfer_id'', JStr tid)]) m
              (\<lambda>s. let m1 = snd (cm_send L C (makePacket t s) m);
                       fname = getIncomingFileName tid m1
                   in say ((if fname \<noteq> [] then named fname else unnamed) @ nl) m1))
      in case cmd_args cmd of
           [] \<Rightarrow>
             let tid = m_lastIncomingTransferId m in
             if tid = [] then say (''[SYSTEM] No pending transfer to '' @ verb @ ''.'' @ nl) m else reply tid
         | sender # _ \<Rightarrow>
             let tid = getTransferIdBySender sender m in
             if tid = [] then say (''[SYSTEM] No pending transfer from user: '' @ sender @ nl) m else reply tid)"

definition cmd_handleAccept :: "lib \<Rightarrow> cenv \<Rightarrow> Command \<Rightarrow> ConnectionManager \<Rightarrow> ConnectionManager" where
  "cmd_handleAccept L C =
     answer_offer L C MSG_FILE_ACCEPT ''accept''
       (\<lambda>f. ''[SYSTEM] Accepted transfer for file '' @ f @ ''. Waiting for file...'')
       ''[SYSTEM] Accepted transfer. Waiting for file...''"

definition cmd_handleReject :: "lib \<Rightarrow> cenv \<Rightarrow> Command \<Rightarrow> ConnectionManager \<Rightarrow> ConnectionManager" where
  "cmd_handleReject L C =
     answer_offer L C MSG_FILE_REJECT ''reject''
       (\<lambda>f. ''[SYSTEM] Rejected transfer for file '' @ f @ ''.'')
       ''[SYSTEM] Rejected transfer.''"

definition help_client :: string where
  "help_client =
      nl @ ''--- VCS SecureChat Commands ---'' @ nl
      @ ''[Client Commands]'' @ nl
      @ '' /join <room_name> [password]  : Join a chat room'' @ nl
      @ '' /leave                        : Leave the current chat room'' @ nl
      @ '' /create <room_name> [pass]    : Create a new chat room'' @ nl
      @ '' /delete <room_name>           : Delete a room (Creator/Admin/Owner)'' @ nl
      @ '' /list                         : List all users in the current room'' @ nl
      @ '' /rooms                        : List all active public rooms'' @ nl
      @ '' /msg <username> <message>     : Send a private message'' @ nl
      @ '' /send <username> <filepath>   : Send a file securely'' @ nl
      @ '' /accept [username]            : Accept an incoming file transfer'' @ nl
      @ '' /reject [username]            : Reject an incoming file transfer'' @ nl
      @ '' /whois <username>             : Request public profile info'' @ nl
      @ '' /help                         : Display this help menu'' @ nl
      @ '' /quit                         : Disconnect and exit'' @ nl"

definition help_admin :: string where
  "help_admin =
      nl @ ''[Admin Commands]'' @ nl
      @ '' /kick <username> [reason]     : Kick a user from current room'' @ nl
      @ '' /unkick <username> <room>     : Remove user from room's kick list'' @ nl
      @ '' /mute <username> [seconds]    : Prevent a user from sending messages'' @ nl
      @ '' /unmute <username>            : Remove a mute restriction'' @ nl
      @ '' /ban <username> [reason]      : Permanently ban a user'' @ nl
      @ '' /unban <username>             : Remove a ban from a user'' @ nl
      @ '' /broadcast <message>          : Send a global system message'' @ nl
      @ '' /rooms_admin                  : View detailed info of all rooms'' @ nl"

definition handleHelp :: "ConnectionManager \<Rightarrow> ConnectionManager" where
  "handleHelp m = say (help_client @ (if tc_isAdmin (cm_tcp m) then help_admin else [])
      @ ''-------------------------------'' @ nl @ nl) m"

definition handleCommand :: "lib \<Rightarrow> cenv \<Rightarrow> Command \<Rightarrow> ConnectionManager \<Rightarrow> ConnectionManager" where
  "handleCommand L C cmd m =
     (if \<not> tc_isReady (cm_tcp m) then say (''[SYSTEM] Not connected to server!'' @ nl) m
      else
        let request = (\<lambda>h. run_request L C (h cmd) m) in
        case cmd_type cmd of
          CMD_QUIT \<Rightarrow> handleQuit m
        | CMD_LIST \<Rightarrow> request handleList
        | CMD_ROOMS \<Rightarrow> request handleRooms
        | CMD_JOIN \<Rightarrow> request handleJoin
        | CMD_LEAVE \<Rightarrow> request handleLeave
        | CMD_CREATE \<Rightarrow> request handleCreate
        | CMD_DELETE_ROOM \<Rightarrow> request handleDeleteRoom
        | CMD_ROOMS_ADMIN \<Rightarrow> request handleRoomsAdmin
        | CMD_MSG \<Rightarrow> request handleMsg
        | CMD_SEND \<Rightarrow> handleSend L C cmd m
        | CMD_WHOIS \<Rightarrow> request handleWhois
        | CMD_HELP \<Rightarrow> handleHelp m
        | CMD_ACCEPT \<Rightarrow> cmd_handleAccept L C cmd m
        | CMD_REJECT \<Rightarrow> cmd_handleReject L C cmd m
        | CMD_KICK \<Rightarrow> request handleAdminCommand
        | CMD_UNKICK \<Rightarrow> request handleAdminCommand
        | CMD_MUTE \<Rightarrow> request handleAdminCommand
        | CMD_UNMUTE \<Rightarrow> request handleAdminCommand
        | CMD_BAN \<Rightarrow> request handleAdminCommand
        | CMD_UNBAN \<Rightarrow> request handleAdminCommand
        | CMD_PROMOTE \<Rightarrow> request handleAdminCommand
        | CMD_DEMOTE \<Rightarrow> request handleAdminCommand
        | CMD_BROADCAST \<Rightarrow> request handleAdminCommand
        | _ \<Rightarrow> say (''[SYSTEM] Unknown or invalid command.'' @ nl) m)"

section \<open>The login\<close>

definition login_check :: "ConnectionManager \<Rightarrow> ConnectionManager" where
  "login_check m =
     (if cm_running m \<and> cm_authState m \<noteq> AUTHENTICATED then (say ''Enter nickname: '' m)\<lparr>cm_phase := AskLogin\<rparr>
      else if \<not> cm_running m then m\<lparr>cm_phase := Returned\<rparr>
      else (say (''Type /help for a list of commands.'' @ nl) m)\<lparr>cm_phase := Chatting, cm_ticks := 0\<rparr>)"

text \<open>\<open>std::getline\<close> on the token file.\<close>

definition read_token :: "cenv \<Rightarrow> ConnectionManager \<Rightarrow> string" where
  "read_token C m =
     (case file_read C token_file m of
        None \<Rightarrow> [] | Some b \<Rightarrow> takeWhile (\<lambda>c. c \<noteq> CHR 0x0A) (string_of_bytes b))"

definition run_start :: "ConnectionManager \<Rightarrow> ConnectionManager" where
  "run_start m = (if cm_running m then m else m\<lparr>cm_running := True, cm_phase := AwaitHandshake\<rparr>)"

text \<open>A wake-up of the main thread: its waits end where their conditions hold.\<close>

definition run_wake :: "lib \<Rightarrow> cenv \<Rightarrow> ConnectionManager \<Rightarrow> ConnectionManager" where
  "run_wake L C m =
     (case cm_phase m of
        AwaitHandshake \<Rightarrow>
          if \<not> (cm_authState m \<noteq> PENDING_HANDSHAKE \<or> \<not> cm_running m) then m
          else if \<not> cm_running m then m\<lparr>cm_phase := Returned\<rparr>
          else if cm_authState m = HANDSHAKE_FAILED then
            (cm_stop (say (''[SYSTEM] Crypto handshake failed.'' @ nl) m))\<lparr>cm_phase := Returned\<rparr>
          else
            let token = read_token C m in
            if token \<noteq> [] then
              with_text (json_object [(''token'', JStr token)]) m
                (\<lambda>s. (snd (cm_send L C (makePacket MSG_RECONNECT_REQUEST s) m))\<lparr>cm_phase := AwaitReconnect\<rparr>)
            else login_check m
      | AwaitReconnect \<Rightarrow>
          if cm_authState m = AUTHENTICATED \<or> cm_authState m = REJECTED \<or> \<not> cm_running m then login_check m else m
      | AwaitAuth \<Rightarrow>
          if cm_authState m = AUTHENTICATED \<or> cm_authState m = REJECTED \<or> \<not> cm_running m then login_check m else m
      | Chatting \<Rightarrow> if \<not> cm_running m then m\<lparr>cm_phase := Returned\<rparr> else m
      | _ \<Rightarrow> m)"

definition login_doc :: "string \<Rightarrow> string \<Rightarrow> json" where
  "login_doc nick pass = json_object [(''nickname'', JStr nick), (''password'', JStr pass)]"

text \<open>The two lines of a login; \<open>None\<close> is the end of the input.\<close>

definition run_login :: "lib \<Rightarrow> cenv \<Rightarrow> string option \<Rightarrow> string option \<Rightarrow> ConnectionManager \<Rightarrow> ConnectionManager" where
  "run_login L C nick pass m =
     (if cm_phase m \<noteq> AskLogin then m
      else case nick of
        None \<Rightarrow> (cm_stop m)\<lparr>cm_phase := Returned\<rparr>
      | Some n \<Rightarrow>
        let m1 = say ''Enter password: '' m in
        (case pass of
           None \<Rightarrow> (cm_stop m1)\<lparr>cm_phase := Returned\<rparr>
         | Some p \<Rightarrow>
           with_text (login_doc n p) (say nl m1)
             (\<lambda>s. (snd (cm_send L C (makePacket MSG_CONNECT_REQUEST s) ((say nl m1)\<lparr>cm_authState := PENDING_AUTH\<rparr>)))
                \<lparr>cm_phase := AwaitAuth\<rparr>)))"

section \<open>Lines\<close>

definition strip_cr :: "string \<Rightarrow> string" where
  "strip_cr s = (if s \<noteq> [] \<and> last s = CHR 0x0D then butlast s else s)"

definition erase_line :: string where
  "erase_line = [CHR 0x1B] @ ''[A'' @ [CHR 0x1B] @ ''[2K'' @ [CHR 0x0D]"

definition chat_doc :: "string \<Rightarrow> json" where
  "chat_doc input = json_object [(''message'', JStr input)]"

definition send_chat :: "lib \<Rightarrow> cenv \<Rightarrow> string \<Rightarrow> ConnectionManager \<Rightarrow> ConnectionManager" where
  "send_chat L C input m =
     with_text (chat_doc input) m
       (\<lambda>s. let pkt = makePacket MSG_CHAT_SEND s;
                (ok, m1) = cm_send L C pkt m
            in if ok then m1 else m1\<lparr>cm_retries := cm_retries m1 @ [(pkt, 3)]\<rparr>)"

definition run_command :: "lib \<Rightarrow> cenv \<Rightarrow> string \<Rightarrow> ConnectionManager \<Rightarrow> ConnectionManager" where
  "run_command L C input m =
     (let cmd = parse_command input in
      if validate_command cmd = INVALID then
        say (''[SYSTEM] Unknown command. Type /help for a list of commands.'' @ nl) m
      else
        let m1 = (if cmd_type cmd = CMD_SEND \<and> length (cmd_args cmd) \<ge> 2
                  then registerUpload (path_filename (cmd_args cmd ! 1)) (cmd_args cmd ! 1) m else m);
            m2 = handleCommand L C cmd m1
        in if cmd_type cmd = CMD_QUIT \<and> cm_exit m2 = Alive then (cm_stop m2)\<lparr>cm_phase := Returned\<rparr> else m2)"

text \<open>One pass of the loop over the lines; at the end of the input it goes on without a line.\<close>

definition run_line :: "lib \<Rightarrow> cenv \<Rightarrow> string option \<Rightarrow> ConnectionManager \<Rightarrow> ConnectionManager" where
  "run_line L C line m =
     (if cm_phase m \<noteq> Chatting \<or> \<not> cm_running m then m
      else case line of
        None \<Rightarrow> m
      | Some raw \<Rightarrow>
        let m1 = say erase_line m; input = strip_cr raw in
        if input = [] then m1
        else if isCommand input then run_command L C input m1
        else send_chat L C input m1)"

section \<open>The other threads\<close>

definition txt_retry_failed :: string where
  "txt_retry_failed =
     [CHR 0xC4, CHR 0x90, CHR 0xC3, CHR 0xA3] @ '' x'' @ [CHR 0xE1, CHR 0xBA, CHR 0xA3]
       @ ''y ra l'' @ [CHR 0xE1, CHR 0xBB, CHR 0x97] @ ''i, vui l'' @ [CHR 0xC3, CHR 0xB2]
       @ ''ng ki'' @ [CHR 0xE1, CHR 0xBB, CHR 0x83] @ ''m tra l''
       @ [CHR 0xE1, CHR 0xBA, CHR 0xA1] @ ''i ''
       @ [CHR 0xC4, CHR 0x91, CHR 0xC6, CHR 0xB0, CHR 0xE1, CHR 0xBB, CHR 0x9D] @ ''ng truy''
       @ [CHR 0xE1, CHR 0xBB, CHR 0x81] @ ''n.''"

text \<open>A second of the ping thread.\<close>

definition ping_second :: "lib \<Rightarrow> cenv \<Rightarrow> ConnectionManager \<Rightarrow> ConnectionManager" where
  "ping_second L C m =
     (if cm_phase m \<noteq> Chatting \<or> \<not> cm_running m then m
      else
        let ticks = cm_ticks m + 1 in
        if ticks \<ge> 30 then snd (cm_send L C (mk_packet MSG_PING []) (m\<lparr>cm_ticks := 0\<rparr>))
        else m\<lparr>cm_ticks := ticks\<rparr>)"

text \<open>The next attempt of the first retry thread, after its delay.\<close>

definition retry_chat :: "lib \<Rightarrow> cenv \<Rightarrow> ConnectionManager \<Rightarrow> ConnectionManager" where
  "retry_chat L C m =
     (case cm_retries m of
        [] \<Rightarrow> m
      | (pkt, left) # rest \<Rightarrow>
        (case cm_send L C pkt m of
           (ok, m1) \<Rightarrow>
             if ok then m1\<lparr>cm_retries := rest\<rparr>
             else if left \<le> 1 then
               (say (nl @ ''[SYSTEM] '' @ txt_retry_failed @ nl) m1)\<lparr>cm_retries := rest\<rparr>
             else m1\<lparr>cm_retries := rest @ [(pkt, left - 1)]\<rparr>))"

text \<open>The first upload thread runs.\<close>

definition run_upload :: "lib \<Rightarrow> cenv \<Rightarrow> ConnectionManager \<Rightarrow> ConnectionManager" where
  "run_upload L C m =
     (case cm_workers m of
        [] \<Rightarrow> m | (tid, path) # rest \<Rightarrow> uploadWorker L C tid path (m\<lparr>cm_workers := rest\<rparr>))"

text \<open>\<open>SIGINT\<close>.\<close>

definition signalHandler :: "ConnectionManager \<Rightarrow> ConnectionManager" where
  "signalHandler m = cm_stop m"

section \<open>The program\<close>

text \<open>\<open>main\<close>: the options, the connection, and the manager at the start of \<open>run\<close>.\<close>

fun parse_args :: "string list \<Rightarrow> string \<Rightarrow> nat \<Rightarrow> stoi_error + string \<times> nat" where
  "parse_args (a # v # rest) host port =
     (if a = ''--host'' then parse_args rest v port
      else if a = ''--port'' then
        (case stoi v of Inl e \<Rightarrow> Inl e | Inr i \<Rightarrow> parse_args rest host (unat (word_of_int i :: 16 word)))
      else parse_args (v # rest) host port)"
| "parse_args _ host port = Inr (host, port)"

datatype started = StartFailed int string | Started ConnectionManager | StartCrashed

definition client_main :: "lib \<Rightarrow> cenv \<Rightarrow> (nat \<Rightarrow> connect_result) \<Rightarrow> int list \<Rightarrow> (string, bytes) fmap \<Rightarrow> string list \<Rightarrow>
    started" where
  "client_main L C net sends fs argv =
     (case parse_args argv ''127.0.0.1'' 9000 of
        Inl _ \<Rightarrow> StartCrashed
      | Inr (host, port) \<Rightarrow>
        (case connectToServer L (ce_iv C) net host port (TcpClient_new sends) of
           (ok, text, _, c) \<Rightarrow>
             if \<not> ok then StartFailed 1 text
             else Started (run_start (say (text @ ''Connected to server! Starting Connection Manager...'' @ nl)
                    (ConnectionManager_new c fs)))))"

text \<open>\<open>main\<close> after \<open>run\<close> has returned.\<close>

definition client_finish :: "ConnectionManager \<Rightarrow> ConnectionManager" where
  "client_finish m =
     (if cm_phase m \<noteq> Returned then m
      else (cm_stop m)\<lparr>cm_tcp := tc_disconnect (cm_tcp m), cm_exit := Exited 0\<rparr>)"

datatype client_event =
    Wake | Login "string option" "string option" | Line "string option" | Received "Packet option" | Second
  | Retry | Upload | Interrupt | Finish

fun client_step :: "lib \<Rightarrow> cenv \<Rightarrow> client_event \<Rightarrow> ConnectionManager \<Rightarrow> ConnectionManager" where
  "client_step L C ev m =
     (if cm_exit m \<noteq> Alive then m
      else case ev of
        Wake \<Rightarrow> run_wake L C m
      | Login n p \<Rightarrow> run_login L C n p m
      | Line l \<Rightarrow> run_line L C l m
      | Received r \<Rightarrow> if tc_connected (cm_tcp m) then snd (cm_receive L C r m) else m
      | Second \<Rightarrow> ping_second L C m
      | Retry \<Rightarrow> retry_chat L C m
      | Upload \<Rightarrow> run_upload L C m
      | Interrupt \<Rightarrow> signalHandler m
      | Finish \<Rightarrow> client_finish m)"

end
