(* ===== verification/ClientSafety.thy ===== *)
theory ClientSafety
  imports ClientRun
begin

text \<open>
  The invariant of the client over all events of its threads, and what the client does with packets
  it should not trust: before the handshake, and with payloads of an unexpected shape.
\<close>

section \<open>What the handlers leave alone\<close>

text \<open>The part of the state the invariant is about.\<close>

definition cm_core :: "ConnectionManager \<Rightarrow> fd \<times> bool \<times> ClientCrypto \<times> AuthState \<times> run_phase" where
  "cm_core m = (tc_fd (cm_tcp m), tc_connected (cm_tcp m), tc_crypto (cm_tcp m), cm_authState m, cm_phase m)"

lemma core_effects [simp]:
  "cm_core (say t m) = cm_core m"
  "cm_core (crash m) = cm_core m"
  "cm_core (snd (cm_send L C p m)) = cm_core m"
  "cm_core (registerUpload f path m) = cm_core m"
  "cm_core (set_download tid d m) = cm_core m"
  "cm_core (m\<lparr>cm_exit := e\<rparr>) = cm_core m"
  "cm_core (m\<lparr>cm_files := fs\<rparr>) = cm_core m"
  "cm_core (m\<lparr>m_activeDownloads := ds\<rparr>) = cm_core m"
  "cm_core (m\<lparr>m_lastIncomingTransferId := tid\<rparr>) = cm_core m"
  "cm_core (m\<lparr>cm_nickname := nick\<rparr>) = cm_core m"
  "cm_core (m\<lparr>cm_workers := ws\<rparr>) = cm_core m"
  "cm_core (m\<lparr>cm_retries := rs\<rparr>) = cm_core m"
  "cm_core (m\<lparr>cm_ticks := k\<rparr>) = cm_core m"
  "cm_core (m\<lparr>cm_running := b\<rparr>) = cm_core m"
  by (simp_all add: cm_core_def say_def crash_def registerUpload_def set_download_def)

lemma core_with_text [simp]: "(\<And>s. cm_core (k s) = cm_core m) \<Longrightarrow> cm_core (with_text j m k) = cm_core m"
  by (rule with_text_keeps) simp_all

lemma core_send_doc [simp]: "cm_core (send_doc L C ty j m) = cm_core m"
  by (simp add: send_doc_def)

lemma core_print [simp]:
  "cm_core (print_plain t m) = cm_core m" "cm_core (print_caught t m) = cm_core m" "cm_core (parsed h j m) = cm_core m"
  by (auto simp: print_plain_def print_caught_def parsed_def split: sum.split fault.split)

lemma core_files:
  "file_trunc C p d m = Some m' \<Longrightarrow> cm_core m' = cm_core m"
  "file_append C p d m = Some m' \<Longrightarrow> cm_core m' = cm_core m"
  by (auto simp: file_trunc_def file_append_def split: if_splits)

lemma core_file_handlers [simp]:
  "cm_core (handleFileRequest j m) = cm_core m"
  "cm_core (handleFileAccept j m) = cm_core m"
  "cm_core (handleFileData C j m) = cm_core m"
  "cm_core (handleFileComplete L C j m) = cm_core m"
  by (auto simp: handleFileRequest_def handleFileAccept_def handleFileData_def handleFileComplete_def Let_def
      dest: core_files split: sum.split option.split)

lemma core_upload_loop [simp]: "cm_core (upload_loop L C tid b rest m) = cm_core m"
proof (induction L C tid b rest m rule: upload_loop.induct)
  case (1 L C tid b rest m)
  then show ?case by (cases "take CHUNK rest = []") (simp_all add: upload_loop.simps [of L C tid b rest m] Let_def)
qed

lemma core_upload [simp]: "cm_core (uploadWorker L C tid p m) = cm_core m"
  by (simp add: uploadWorker_def split: option.split)

lemma core_requests [simp]:
  "cm_core (run_request L C r m) = cm_core m"
  "cm_core (handleSend L C cmd m) = cm_core m"
  "cm_core (answer_offer L C t v nm un cmd m) = cm_core m"
  "cm_core (handleHelp m) = cm_core m"
  by (auto simp: run_request_def handleSend_def answer_offer_def handleHelp_def Let_def
      split: request.split option.split list.split)

section \<open>The invariant\<close>

text \<open>
  The connection is well formed; while a client is connected it counts as authenticated only with a
  finished handshake; and the main thread is past the handshake only after an answer to it.
\<close>

definition cm_ok :: "ConnectionManager \<Rightarrow> bool" where
  "cm_ok m \<longleftrightarrow> tc_ok (cm_tcp m) \<and>
     (cm_authState m = AUTHENTICATED \<longrightarrow> tc_connected (cm_tcp m) \<longrightarrow> tc_isReady (cm_tcp m)) \<and>
     (cm_phase m \<in> {AskLogin, AwaitReconnect, AwaitAuth, Chatting} \<longrightarrow> cm_authState m \<noteq> PENDING_HANDSHAKE)"

lemma cm_ok_core: "cm_core m = cm_core m' \<Longrightarrow> cm_ok m = cm_ok m'"
  by (simp add: cm_ok_def cm_core_def tc_ok_def tc_isReady_def)

lemma cm_ok_same: "cm_core m' = cm_core m \<Longrightarrow> cm_ok m \<Longrightarrow> cm_ok m'"
  using cm_ok_core by blast

lemma receive_one_callbacks:
  assumes "receive_one L E iv r c = Some (cbs, stop, c')"
  shows "cbs \<in> {[], [OnDisconnected], [OnHandshakeDone True], [OnHandshakeDone False]} \<or>
      (\<exists>p. cbs = [OnPacket p] \<and> c' = c \<and> (tc_isReady c \<or> msg_type (header p) = msg_code MSG_CONNECT_REJECT))"
    and "tc_connected c' \<Longrightarrow> tc_isReady c \<Longrightarrow> tc_isReady c'"
  using assms processKeyOffer_done [of L E _ "tc_crypto c"]
  by (auto simp: receive_one_def handleHandshakePacket_def processHandshakeOk_def tc_isReady_def tc_disconnect_def
      simp del: msg_code.simps split: option.splits if_splits sum.splits)

lemma receive_one_connected:
  "receive_one L E iv r c = Some (cbs, stop, c') \<Longrightarrow> tc_connected c' \<Longrightarrow> tc_connected c"
  by (auto simp: receive_one_def handleHandshakePacket_def tc_disconnect_def
      simp del: msg_code.simps split: option.splits if_splits sum.splits)

text \<open>Only an accepted login and a refused one change the state of the login.\<close>

lemma onPacketReceived_core:
  assumes "msg_of_code (msg_type (header p)) \<notin> {Some MSG_CONNECT_ACCEPT, Some MSG_CONNECT_REJECT}"
  shows "cm_core (onPacketReceived L C p m) = cm_core m"
  using assms by (auto simp: onPacketReceived_def Let_def split: option.split)

lemma on_connect_accept_ok:
  assumes "cm_ok m" "tc_isReady (cm_tcp m)"
  shows "cm_ok (on_connect_accept C j m)"
proof -
  have s: "cm_core (save_token C t m) = cm_core m" for t
    by (auto simp: save_token_def dest: core_files split: option.split)
  have "cm_core (on_connect_accept C j m) = cm_core m \<or>
      cm_core (on_connect_accept C j m) = cm_core (m\<lparr>cm_authState := AUTHENTICATED\<rparr>)"
    using s by (auto simp: on_connect_accept_def Let_def say_def crash_def cm_core_def split: sum.split)
  moreover have "cm_ok (m\<lparr>cm_authState := AUTHENTICATED\<rparr>)" using assms by (simp add: cm_ok_def)
  ultimately show ?thesis using assms cm_ok_core by metis
qed

lemma on_connect_reject_ok:
  assumes "cm_ok m"
  shows "cm_ok (on_connect_reject j m)"
proof -
  have "cm_core (on_connect_reject j m) = cm_core m \<or>
      cm_core (on_connect_reject j m) = cm_core (m\<lparr>cm_authState := REJECTED\<rparr>)"
    by (auto simp: on_connect_reject_def Let_def drop_token_def say_def crash_def cm_core_def split: sum.split)
  moreover have "cm_ok (m\<lparr>cm_authState := REJECTED\<rparr>)" using assms by (simp add: cm_ok_def)
  ultimately show ?thesis using assms cm_ok_core by metis
qed

lemma onPacketReceived_ok:
  assumes "cm_ok m" "tc_isReady (cm_tcp m) \<or> msg_type (header p) = msg_code MSG_CONNECT_REJECT"
  shows "cm_ok (onPacketReceived L C p m)"
proof (cases "msg_of_code (msg_type (header p)) \<in> {Some MSG_CONNECT_ACCEPT, Some MSG_CONNECT_REJECT}")
  case True
  then consider "msg_of_code (msg_type (header p)) = Some MSG_CONNECT_ACCEPT" | 
      "msg_of_code (msg_type (header p)) = Some MSG_CONNECT_REJECT" by blast
  then show ?thesis
  proof cases
    case 1
    then have "tc_isReady (cm_tcp m)" using assms(2) by (auto simp del: msg_code.simps)
    with 1 assms(1) show ?thesis by (simp add: onPacketReceived_def Let_def on_connect_accept_ok)
  next
    case 2
    with assms(1) show ?thesis by (simp add: onPacketReceived_def Let_def on_connect_reject_ok)
  qed
next
  case False
  with onPacketReceived_core [OF False] assms(1) show ?thesis using cm_ok_same by blast
qed

lemma cm_receive_ok:
  assumes "cm_ok m"
  shows "cm_ok (snd (cm_receive L C r m))"
proof (cases "receive_one L (ce_env C) (ce_iv C) r (cm_tcp m)")
  case None
  with assms show ?thesis by (auto simp: cm_receive_def intro: cm_ok_same)
next
  case (Some t)
  obtain cbs stop c where t: "t = (cbs, stop, c)" by (cases t)
  note r = Some [unfolded t]
  let ?m = "m\<lparr>cm_tcp := c\<rparr>"
  have m: "cm_ok ?m"
    using assms receive_one_ok [OF _ r] receive_one_callbacks(2) [OF r] receive_one_connected [OF r]
    by (auto simp: cm_ok_def)
  have h: "cm_ok (onHandshakeDone b ?m)" for b using m by (auto simp: cm_ok_def onHandshakeDone_def)
  have d: "cm_ok (cm_stop (say s ?m))" for s using m by (auto simp: cm_stop_def intro: cm_ok_same)
  consider (packet) p where "cbs = [OnPacket p]" "c = cm_tcp m"
      "tc_isReady (cm_tcp m) \<or> msg_type (header p) = msg_code MSG_CONNECT_REJECT"
    | (other) "cbs \<in> {[], [OnDisconnected], [OnHandshakeDone True], [OnHandshakeDone False]}"
    using receive_one_callbacks(1) [OF r] by (auto simp del: msg_code.simps)
  then show ?thesis
  proof cases
    case packet
    then show ?thesis using onPacketReceived_ok [OF m, of p L C] by (simp add: cm_receive_def r)
  next
    case other
    then show ?thesis using m h d by (auto simp: cm_receive_def r)
  qed
qed

lemma login_check_ok:
  assumes "cm_ok m" "cm_authState m \<noteq> PENDING_HANDSHAKE \<or> \<not> cm_running m"
  shows "cm_ok (login_check m)"
  using assms by (auto simp: login_check_def cm_ok_def)

lemma cm_ok_phase:
  "cm_ok m \<Longrightarrow> ph \<in> {AskLogin, AwaitReconnect, AwaitAuth, Chatting} \<longrightarrow> cm_authState m \<noteq> PENDING_HANDSHAKE \<Longrightarrow>
     cm_ok (m\<lparr>cm_phase := ph\<rparr>)"
  by (simp add: cm_ok_def)

lemma cm_ok_stop [simp]: "cm_ok (cm_stop m) = cm_ok m"
  by (rule cm_ok_core) (simp add: cm_stop_def)

lemma cm_ok_effects [simp]:
  "cm_ok (say t m) = cm_ok m" "cm_ok (crash m) = cm_ok m" "cm_ok (snd (cm_send L C p m)) = cm_ok m"
  "cm_ok (send_doc L C ty j m) = cm_ok m" "cm_ok (registerUpload f path m) = cm_ok m"
  "cm_ok (m\<lparr>cm_retries := rs\<rparr>) = cm_ok m" "cm_ok (m\<lparr>cm_ticks := k\<rparr>) = cm_ok m" "cm_ok (m\<lparr>cm_exit := e\<rparr>) = cm_ok m"
  "cm_ok (m\<lparr>cm_workers := ws\<rparr>) = cm_ok m"
  by (rule cm_ok_core, simp)+

lemma authState_send_doc [simp]: "cm_authState (send_doc L C t j m) = cm_authState m"
  unfolding send_doc_def by (rule with_text_keeps) simp_all

lemma cm_ok_with_text: "(\<And>s. cm_ok (k s)) \<Longrightarrow> cm_ok m \<Longrightarrow> cm_ok (with_text j m k)"
  by (simp add: with_text_def split: sum.split)

lemma run_wake_ok: "cm_ok m \<Longrightarrow> cm_ok (run_wake L C m)"
  by (auto simp: run_wake_def Let_def intro!: login_check_ok cm_ok_phase cm_ok_with_text split: run_phase.split)

lemma cm_ok_pending: "cm_ok m \<Longrightarrow> cm_ok (m\<lparr>cm_authState := PENDING_AUTH\<rparr>)"
  by (simp add: cm_ok_def)

lemma run_login_ok: "cm_ok m \<Longrightarrow> cm_ok (run_login L C n p m)"
  by (auto simp: run_login_def Let_def intro!: cm_ok_with_text cm_ok_phase cm_ok_pending split: option.split)

lemma handleCommand_ok: "cm_ok m \<Longrightarrow> cm_ok (handleCommand L C cmd m)"
proof -
  assume ok: "cm_ok m"
  have q: "cm_ok (handleQuit m)"
    using ok by (auto simp: handleQuit_def Let_def cm_ok_def tc_disconnect_def tc_isReady_def tc_ok_def)
  have "cm_core (handleCommand L C cmd m) = cm_core m \<or> handleCommand L C cmd m = handleQuit m"
    by (cases "cmd_type cmd") (auto simp: handleCommand_def Let_def cmd_handleAccept_def cmd_handleReject_def)
  with ok q cm_ok_core show ?thesis by metis
qed

lemma run_command_ok: "cm_ok m \<Longrightarrow> cm_ok (run_command L C input m)"
  using handleCommand_ok
  by (auto simp: run_command_def Let_def intro!: cm_ok_phase)

lemma send_chat_ok: "cm_ok (send_chat L C input m) = cm_ok m"
  by (rule cm_ok_core) (auto simp: send_chat_def Let_def case_prod_beta)

lemma run_line_ok: "cm_ok m \<Longrightarrow> cm_ok (run_line L C l m)"
  by (auto simp: run_line_def Let_def send_chat_ok intro!: run_command_ok split: option.split)

lemma thread_steps_ok [simp]:
  "cm_ok m \<Longrightarrow> cm_ok (ping_second L C m)"
  "cm_ok m \<Longrightarrow> cm_ok (retry_chat L C m)"
  "cm_ok m \<Longrightarrow> cm_ok (run_upload L C m)"
  by (auto simp: ping_second_def retry_chat_def run_upload_def Let_def case_prod_beta
      intro: cm_ok_same split: list.split)

lemma client_finish_ok: "cm_ok m \<Longrightarrow> cm_ok (client_finish m)"
  by (auto simp: client_finish_def cm_ok_def tc_disconnect_def tc_ok_def cm_stop_def)

lemma client_step_ok: "cm_ok m \<Longrightarrow> cm_ok (client_step L C ev m)"
  by (cases ev) (simp_all add: run_wake_ok run_login_ok run_line_ok cm_receive_ok signalHandler_def client_finish_ok)

interpretation client: event_machine "client_step L C" cm_ok for L C
  by unfold_locales (rule client_step_ok)

lemma connect_tc_ok:
  assumes "connect_attempts L iv net as c = (ok, printed, slept, c')" "tc_ok c" "\<not> tc_connected c"
    and "\<forall>a f. net a = Opened f \<longrightarrow> 0 \<le> f"
  shows "tc_ok c'"
  using assms
proof (induction as arbitrary: c ok printed slept c')
  case (Cons ad as)
  obtain a d where ad: "ad = (a, d)" by force
  show ?case
  proof (cases "\<exists>f. net a = Opened f")
    case True
    then show ?thesis using Cons.prems
      by (auto simp: ad tryConnect_def startHandshake_def Let_def case_prod_beta tc_ok_def)
  next
    case False
    then have t: "tryConnect (net a) c = (False, c\<lparr>tc_fd := -1\<rparr>)" by (intro tryConnect_fails) simp
    obtain ok' text' slept' c'' where r: "connect_attempts L iv net as (c\<lparr>tc_fd := -1\<rparr>) = (ok', text', slept', c'')"
      by (cases "connect_attempts L iv net as (c\<lparr>tc_fd := -1\<rparr>)")
    with Cons.prems t have "c' = c''" by (auto simp: ad Let_def)
    moreover have "tc_ok c''" by (rule Cons.IH [OF r]) (use Cons.prems in \<open>auto simp: tc_ok_def\<close>)
    ultimately show ?thesis by simp
  qed
qed simp

text \<open>
  C9: whatever the server sends, whatever the user types and however the client's threads interleave,
  a client that was started by \<open>main\<close> keeps its invariant: an open connection has a descriptor, a
  finished handshake has a key, and the client counts as logged in on an open connection only where
  the handshake is finished.
\<close>

theorem client_invariant:
  assumes "client_main L C net sends fs argv = Started m" and "\<forall>a f. net a = Opened f \<longrightarrow> 0 \<le> f"
  shows "cm_ok (fold (client_step L C') evs m)"
proof (rule client.inv_run)
  obtain host port where "parse_args argv ''127.0.0.1'' 9000 = Inr (host, port)"
    using assms(1) by (auto simp: client_main_def split: sum.splits)
  with assms(1) obtain ok printed slept c where
    r: "connectToServer L (ce_iv C) net host port (TcpClient_new sends) = (ok, printed, slept, c)"
    and m: "m = run_start (say (printed @ ''Connected to server! Starting Connection Manager...'' @ nl)
      (ConnectionManager_new c fs))"
    by (auto simp: client_main_def split: prod.splits if_splits)
  have "tc_ok c"
    by (rule connect_tc_ok [OF r [unfolded connectToServer_def] _ _ assms(2)])
      (simp_all add: tc_ok_def TcpClient_new_def ClientCrypto_new_def)
  then show "cm_ok m" by (simp add: m run_start_def ConnectionManager_new_def cm_ok_def)
qed

definition plain_cenv :: cenv where
  "plain_cenv = \<lparr>ce_env = plain_env, ce_iv = (\<lambda>_. replicate 16 7), ce_reads = (\<lambda>_. True), ce_writes = (\<lambda>_. True)\<rparr>"

lemma plain_cenv_sel [simp]:
  "ce_iv plain_cenv n = replicate 16 7" "ce_reads plain_cenv p" "ce_writes plain_cenv p"
  by (simp_all add: plain_cenv_def)

theorem client_invariant_witness:
  "\<exists>m. client_main plain_lib plain_cenv second_opens [100] fmempty [''--host'', ''h''] = Started m \<and>
     cm_ok (fold (client_step plain_lib plain_cenv) [Received None, Wake, Line None] m)"
proof -
  obtain ok printed slept c where r: "connectToServer plain_lib (ce_iv plain_cenv) second_opens ''h'' 9000 (TcpClient_new [100])
      = (ok, printed, slept, c)"
    by (cases "connectToServer plain_lib (ce_iv plain_cenv) second_opens ''h'' 9000 (TcpClient_new [100])")
  have "ok \<longleftrightarrow> (\<exists>a \<in> fst ` set [(0, 0), (1, 2), (2, 4), (3, 8 :: nat)]. \<exists>f. second_opens a = Opened f)"
    by (rule connect_attempts_spec(1) [OF r [unfolded connectToServer_def]]) (simp add: TcpClient_new_def)
  then have ok by (auto simp: second_opens_def)
  with r obtain m where m: "client_main plain_lib plain_cenv second_opens [100] fmempty [''--host'', ''h''] = Started m"
    by (simp add: client_main_def)
  have "\<forall>a f. second_opens a = Opened f \<longrightarrow> 0 \<le> f" by (simp add: second_opens_def)
  from client_invariant [OF m this] m show ?thesis by blast
qed

section \<open>Before the handshake\<close>

lemma login_doc_ok: "utf8_ok nick \<Longrightarrow> utf8_ok pass \<Longrightarrow> json_ok (login_doc nick pass)"
  by (simp add: login_doc_def json_object_def)

text \<open>
  C37: a rejection that comes in the clear before the handshake is finished, such as the server's own
  answer to a connection over its limit, moves the client on to the login: the nickname and the
  password typed next leave the client without encryption.
\<close>

theorem early_reject_leaks_login:
  assumes "cm_exit m = Alive" "cm_phase m = AwaitHandshake" "cm_running m"
    and "tc_connected (cm_tcp m)" "0 \<le> tc_fd (cm_tcp m)" "\<not> tc_isReady (cm_tcp m)"
    and "msg_type (header pkt) = msg_code MSG_CONNECT_REJECT"
    and "json_parse (payloadToString pkt) = Some (JObj doc)" "fmlookup doc ''reason'' = Some (JStr reason)"
      "\<not> str_contains ''banned'' reason"
    and "utf8_ok nick" "utf8_ok pass"
    and "p = makePacket MSG_CONNECT_REQUEST (json_dump (login_doc nick pass))"
    and "client_send_all (tc_sends (cm_tcp m)) (packetToBytes p) = (packetToBytes p, True, rs)"
    and "m' = fold (client_step L C) [Received (Some pkt), Wake, Login (Some nick) (Some pass)] m"
  shows "tc_wire (cm_tcp m') = tc_wire (cm_tcp m) @ packetToBytes p \<and>
    payloadToString p = json_dump (login_doc nick pass)"
proof -
  define m1 where "m1 = on_connect_reject (JObj doc) m"
  have m1: "cm_exit m1 = Alive" "cm_phase m1 = AwaitHandshake" "cm_running m1" "cm_tcp m1 = cm_tcp m"
    "cm_authState m1 = REJECTED" "fmlookup (cm_files m1) token_file = None"
    using assms(1-3,9,10) by (simp_all add: m1_def on_connect_reject_def Let_def drop_token_def)
  have "receive_one L (ce_env C) (ce_iv C) (Some pkt) (cm_tcp m) = Some ([OnPacket pkt], False, cm_tcp m)"
    using assms(6,7) by (simp add: receive_one_def)
  moreover have "onPacketReceived L C pkt m = m1"
    by (simp add: onPacketReceived_def assms(7,8) json_parse_nothrow_def m1_def Let_def del: msg_code.simps)
  ultimately have s1: "client_step L C (Received (Some pkt)) m = m1"
    using assms(1,4) by (simp add: cm_receive_def)
  define m2 where "m2 = (say ''Enter nickname: '' m1)\<lparr>cm_phase := AskLogin\<rparr>"
  have s2: "client_step L C Wake m1 = m2"
    using m1 by (simp add: run_wake_def login_check_def m2_def read_token_def file_read_def)
  have seal: "client_seal L (ce_iv C) (cm_tcp m) p = Inr p" using assms(6) by (simp add: client_seal_def)
  have "client_step L C (Login (Some nick) (Some pass)) m2 = m'"
    using s1 s2 by (simp add: assms(15) del: client_step.simps)
  moreover have "tc_wire (cm_tcp (client_step L C (Login (Some nick) (Some pass)) m2)) = tc_wire (cm_tcp m) @ packetToBytes p"
    using m1 assms(4,5,11,12,14) seal
    by (simp add: m2_def run_login_def login_doc_ok tc_sendPacket_def Let_def flip: assms(13))
  ultimately show ?thesis by (simp add: assms(13))
qed

definition full_packet :: Packet where
  "full_packet = makePacket MSG_CONNECT_REJECT (json_dump (json_object [(''reason'', JStr ''Server full'')]))"

lemma login_text_length: "length (json_dump (login_doc ''bob'' ''pw'')) = 34"
  by code_simp

theorem early_reject_leaks_login_witness:
  "\<exists>m p. tc_wire (cm_tcp (fold (client_step plain_lib plain_cenv) [Received (Some full_packet), Wake,
       Login (Some ''bob'') (Some ''pw'')] m)) = tc_wire (cm_tcp m) @ packetToBytes p \<and>
     payloadToString p = json_dump (login_doc ''bob'' ''pw'')"
proof -
  let ?c = "(TcpClient_new [1000])\<lparr>tc_fd := 3, tc_connected := True\<rparr>"
  let ?m = "run_start (ConnectionManager_new ?c fmempty)"
  let ?p = "makePacket MSG_CONNECT_REQUEST (json_dump (login_doc ''bob'' ''pw''))"
  let ?doc = "fmupd ''reason'' (JStr ''Server full'') fmempty"
  have "length (packetToBytes ?p) = 51"
    by (simp add: length_packetToBytes makePacket_def login_text_length)
  then have send: "client_send_all (tc_sends (cm_tcp ?m)) (packetToBytes ?p) = (packetToBytes ?p, True, [])"
    by (simp add: run_start_def ConnectionManager_new_def TcpClient_new_def client_send_all_one
        flip: length_greater_0_conv)
  have m: "cm_exit ?m = Alive" "cm_phase ?m = AwaitHandshake" "cm_running ?m" "tc_connected (cm_tcp ?m)"
    "0 \<le> tc_fd (cm_tcp ?m)" "\<not> tc_isReady (cm_tcp ?m)"
    by (simp_all add: run_start_def ConnectionManager_new_def TcpClient_new_def tc_isReady_def ClientCrypto_new_def)
  have ty: "msg_type (header full_packet) = msg_code MSG_CONNECT_REJECT" by (simp add: full_packet_def)
  have doc: "json_parse (payloadToString full_packet) = Some (JObj ?doc)"
    "fmlookup ?doc ''reason'' = Some (JStr ''Server full'')"
    by (simp_all add: full_packet_def json_object_def)
  have ok: "\<not> str_contains ''banned'' ''Server full''" "utf8_ok ''bob''" "utf8_ok ''pw''" by (code_simp, simp_all)
  from early_reject_leaks_login [OF m ty doc ok refl send refl, of plain_lib plain_cenv] show ?thesis by blast
qed

section \<open>Unexpected payloads\<close>

fun is_object :: "json \<Rightarrow> bool" where
  "is_object (JObj m) = True"
| "is_object _ = False"

lemma value_not_object: "\<not> is_object j \<Longrightarrow> json_value get j k d = Inl TypeError306"
  by (cases j) simp_all

lemma not_object_error: "\<not> is_object j \<Longrightarrow> (case j of JObj m \<Rightarrow> fmlookup m ''error'' | _ \<Rightarrow> None) = None"
  by (cases j) simp_all

lemma not_object_crashes:
  assumes "\<not> is_object j" "\<not> is_discarded j"
  shows "cm_exit (on_connect_accept C j m) = Terminated"
    and "cm_exit (on_connect_reject j m) = Terminated"
    and "cm_exit (parsed print_notify j m) = Terminated"
    and "cm_exit (parsed (print_private n) j m) = Terminated"
    and "cm_exit (parsed print_error j m) = Terminated"
    and "cm_exit (parsed print_whois j m) = Terminated"
    and "cm_exit (handleFileRequest j m) = Terminated"
    and "cm_exit (handleFileAccept j m) = Terminated"
    and "cm_exit (handleFileData C j m) = Terminated"
    and "cm_exit (handleFileComplete L C j m) = Terminated"
  using assms
  by (simp_all add: on_connect_accept_def on_connect_reject_def parsed_def print_plain_def print_notify_def
      print_private_def print_error_def print_whois_def handleFileRequest_def handleFileAccept_def
      handleFileData_def handleFileComplete_def value_not_object not_object_error)

text \<open>
  C38: a payload that is valid JSON but no object, in any of the packets whose fields the client reads
  outside a \<open>try\<close>, ends the client: the exception of the library leaves the receiving thread. The
  rejection among them is read before the handshake too.
\<close>

theorem non_object_payload_terminates:
  assumes "t \<in> {MSG_CONNECT_ACCEPT, MSG_CONNECT_REJECT, MSG_SYSTEM_NOTIFY, MSG_CHAT_PRIVATE, MSG_ERROR,
      MSG_WHOIS_RESPONSE, MSG_FILE_REQUEST, MSG_FILE_ACCEPT, MSG_FILE_DATA, MSG_FILE_COMPLETE}"
    and "msg_type (header pkt) = msg_code t" "json_parse (payloadToString pkt) = Some j"
    and "\<not> is_object j" "\<not> is_discarded j"
  shows "cm_exit (onPacketReceived L C pkt m) = Terminated"
proof -
  have "json_parse_nothrow (payloadToString pkt) = j" "msg_of_code (msg_type (header pkt)) = Some t"
    using assms(2,3) by (simp_all add: json_parse_nothrow_def del: msg_code.simps)
  with assms(1) not_object_crashes [OF assms(4,5)] show ?thesis
    by (elim insertE) (simp_all add: onPacketReceived_def Let_def)
qed

theorem non_object_payload_terminates_witness:
  "cm_exit (onPacketReceived plain_lib plain_cenv (makePacket MSG_CONNECT_REJECT (json_dump (JArr [])))
     (ConnectionManager_new (TcpClient_new []) fmempty)) = Terminated"
  by (rule non_object_payload_terminates [of MSG_CONNECT_REJECT _ "JArr []"]) simp_all

text \<open>
  The administrator's client and the argument of \<open>/mute\<close>: a line with an argument that does not
  start with a number in the range of \<open>int\<close> ends the client, as does a name that is not UTF-8; every
  other one does not.
\<close>

theorem mute_argument_terminates_iff:
  assumes "cm_exit m = Alive" "cm_phase m = Chatting" "cm_running m" "tc_isReady (cm_tcp m)"
    and "is_word user" "is_word arg"
  shows "cm_exit (client_step L C (Line (Some (''/mute '' @ user @ '' '' @ arg))) m) = Terminated \<longleftrightarrow>
    (\<exists>e. stoi arg = Inl e) \<or> \<not> utf8_ok user"
proof -
  define l where "l = join_words [''/mute'', user, arg]"
  then have l: "l = ''/mute '' @ user @ '' '' @ arg" by simp
  have w: "list_all is_word [''/mute'', user, arg]" using assms(5,6) by (simp add: is_word_def is_space_def)
  have ic: "isCommand l" "l \<noteq> []" by (simp_all add: l isCommand_def)
  have "ws_tokens l = [''/mute'', user, arg]" unfolding l_def by (rule ws_tokens_join [OF w])
  with ic have c: "parse_command l = \<lparr>cmd_type = CMD_MUTE, cmd_args = [user, arg], cmd_raw = l\<rparr>"
    by (simp add: parse_command_def stringToCommandType_def)
  have "\<not> is_space (last arg)" using assms(6) by (auto simp: is_word_def list_all_iff)
  then have "last l \<noteq> CHR 0x0D" using assms(6) by (auto simp: l is_space_def is_word_def)
  then have cr: "strip_cr l = l" by (simp add: strip_cr_def)
  have "client_step L C (Line (Some l)) m = run_command L C l (say erase_line m)"
    using assms(1-3) ic by (simp add: run_line_def cr Let_def)
  also have "\<dots> = run_request L C (handleAdminCommand (parse_command l)) (say erase_line m)"
    using assms(4) by (simp add: run_command_def c validate_command_def handleCommand_def Let_def)
  finally show ?thesis unfolding l [symmetric]
    using assms(1) by (cases "stoi arg") (simp_all add: c handleAdminCommand_def run_request_def send_doc_def with_text_eq json_object_def)
qed

theorem mute_argument_terminates_iff_witness:
  "cm_exit (client_step plain_lib plain_cenv (Line (Some ''/mute bob 1h''))
     ((ConnectionManager_new ready_client fmempty)\<lparr>cm_phase := Chatting, cm_running := True\<rparr>)) \<noteq> Terminated \<and>
   cm_exit (client_step plain_lib plain_cenv (Line (Some ''/mute bob forever''))
     ((ConnectionManager_new ready_client fmempty)\<lparr>cm_phase := Chatting, cm_running := True\<rparr>)) = Terminated"
proof -
  let ?m = "(ConnectionManager_new ready_client fmempty)\<lparr>cm_phase := Chatting, cm_running := True\<rparr>"
  have m: "cm_exit ?m = Alive" "cm_phase ?m = Chatting" "cm_running ?m" "tc_isReady (cm_tcp ?m)"
    by (simp_all add: ConnectionManager_new_def)
  have w: "is_word ''bob''" "is_word ''1h''" "is_word ''forever''" by code_simp+
  have "stoi ''1h'' = Inr 1" "stoi ''forever'' = Inl InvalidArgument" by code_simp+
  with mute_argument_terminates_iff [OF m w(1,2), of plain_lib plain_cenv]
    mute_argument_terminates_iff [OF m w(1,3), of plain_lib plain_cenv]
  show ?thesis by (simp del: client_step.simps)
qed

text \<open>
  C36: a line of text that the user types while chatting ends the client exactly when it is not
  well-formed UTF-8, as with a terminal set to another encoding: the library's exception on printing
  the message is not caught.
\<close>

theorem ill_formed_line_terminates:
  assumes "cm_exit m = Alive" "cm_phase m = Chatting" "cm_running m"
    and "strip_cr raw \<noteq> []" "\<not> isCommand (strip_cr raw)"
  shows "cm_exit (client_step L C (Line (Some raw)) m) = Terminated \<longleftrightarrow> \<not> utf8_ok (strip_cr raw)"
  using assms
  by (simp add: run_line_def send_chat_def with_text_eq chat_doc_def json_object_def Let_def case_prod_beta)

theorem ill_formed_line_terminates_witness:
  "cm_exit (client_step plain_lib plain_cenv (Line (Some [CHR ''c'', CHR ''a'', CHR ''f'', CHR 0xE9]))
     ((ConnectionManager_new ready_client fmempty)\<lparr>cm_phase := Chatting, cm_running := True\<rparr>)) = Terminated \<and>
   cm_exit (client_step plain_lib plain_cenv (Line (Some [CHR ''c'', CHR ''a'', CHR ''f'', CHR 0xC3, CHR 0xA9]))
     ((ConnectionManager_new ready_client fmempty)\<lparr>cm_phase := Chatting, cm_running := True\<rparr>)) \<noteq> Terminated"
proof -
  let ?m = "(ConnectionManager_new ready_client fmempty)\<lparr>cm_phase := Chatting, cm_running := True\<rparr>"
  let ?latin = "[CHR ''c'', CHR ''a'', CHR ''f'', CHR 0xE9]" and ?utf8 = "[CHR ''c'', CHR ''a'', CHR ''f'', CHR 0xC3, CHR 0xA9]"
  have m: "cm_exit ?m = Alive" "cm_phase ?m = Chatting" "cm_running ?m" by (simp_all add: ConnectionManager_new_def)
  have s: "strip_cr ?latin = ?latin" "strip_cr ?utf8 = ?utf8" "\<not> isCommand ?latin" "\<not> isCommand ?utf8"
    by (simp_all add: strip_cr_def isCommand_def)
  have u: "\<not> utf8_ok ?latin" "utf8_ok ?utf8" by code_simp+
  from ill_formed_line_terminates [OF m, of ?latin plain_lib plain_cenv]
    ill_formed_line_terminates [OF m, of ?utf8 plain_lib plain_cenv]
  show ?thesis unfolding s using s(3,4) u by (simp del: client_step.simps utf8_ok_Cons)
qed

end
