(* ===== verification/Features.thy ===== *)
theory Features
  imports Session
begin

text \<open>
  The message filter, \<open>server/features/MessageFilter.cpp\<close>, and the relay of file transfers,
  \<open>server/features/FileTransfer.cpp\<close>. Both are clients of the server: its lookups \<open>getSession\<close> and
  \<open>getFdByNickname\<close> are arguments here, given by the server's theory. What a handler sends is the
  list of packets with the descriptors they go to.
\<close>

type_synonym sends = "(fd \<times> Packet) list"
type_synonym audit = "AuditLogger \<times> Database"

section \<open>MessageFilter\<close>

datatype FilterResult = PASS | BLOCKED_TOO_LONG | BLOCKED_NULL_BYTE | BLOCKED_INJECTION

definition ascii_upper :: "char \<Rightarrow> char" where
  "ascii_upper c = (let n = of_char c :: nat in if 97 \<le> n \<and> n \<le> 122 then char_of (n - 32) else c)"

definition ascii_lower :: "char \<Rightarrow> char" where
  "ascii_lower c = (let n = of_char c :: nat in if 65 \<le> n \<and> n \<le> 90 then char_of (n + 32) else c)"

definition containsNullByte :: "string \<Rightarrow> bool" where
  "containsNullByte msg \<longleftrightarrow> find_char NUL msg \<noteq> None"

definition injection_patterns :: "string list" where
  "injection_patterns =
     [''DROP TABLE'', ''DROP DATABASE'', ''SELECT * FROM'', ''SELECT COUNT('', ''INSERT INTO'',
      ''UPDATE SET'', ''DELETE FROM'', ''UNION SELECT'', ''--'', [CHR 0x27, CHR '';'', CHR '' ''],
      [CHR 0x22, CHR '';'', CHR '' ''], ''<SCRIPT'', ''</SCRIPT>'', ''JAVASCRIPT:'', ''EVAL('', ''EXEC('',
      ''../'', [CHR ''.'', CHR ''.'', CHR 0x5C], ''/ETC/PASSWD'', ''/ETC/SHADOW'']"

definition containsInjection :: "string \<Rightarrow> bool" where
  "containsInjection msg \<longleftrightarrow>
     list_ex (\<lambda>p. str_contains p (map ascii_upper msg)) injection_patterns"

definition msg_filter :: "lib \<Rightarrow> env \<Rightarrow> string \<Rightarrow> string \<Rightarrow> audit \<Rightarrow> (FilterResult \<times> string) \<times> audit" where
  "msg_filter L E message senderNick al =
     (if length message > MAX_MESSAGE_LEN then ((BLOCKED_TOO_LONG, []), al)
      else if containsNullByte message then
        ((BLOCKED_NULL_BYTE, []),
         audit_log L E SECURITY senderNick [] ''NULL_BYTE_INJECT'' BLOCKED [] ''null byte in message'' al)
      else if containsInjection message then
        ((BLOCKED_INJECTION, []),
         audit_log L E SECURITY senderNick [] ''INJECTION_ATTEMPT'' BLOCKED [] (take 128 message) al)
      else ((PASS, message), al))"

section \<open>FileTransfer\<close>

datatype TransferStatus = PENDING | ACCEPTED | IN_PROGRESS | COMPLETE | TR_FAILED

record FileTransferSession =
  transfer_id :: string
  sender_fd :: fd
  receiver_fd :: fd
  ft_filename :: string
  file_size :: u64
  sha256_hash :: string
  temp_path :: string
  start_time :: time
  last_activity_time :: time
  is_completed_by_sender :: bool
  ft_status :: TransferStatus

type_synonym FileTransfer = "(string, FileTransferSession) fmap"

definition MAX_FILE_BYTES :: int where "MAX_FILE_BYTES = 3 * 1024 * 1024"
definition TIMEOUT_SEC :: int where "TIMEOUT_SEC = 120"

definition generateTransferId :: "env \<Rightarrow> string" where
  "generateTransferId E = map (\<lambda>i. hex_digit (draw_tid E i mod 16)) [0..<16]"

fun sanitize_loop :: "string \<Rightarrow> string \<Rightarrow> string" where
  "sanitize_loop [] res = res"
| "sanitize_loop (c # cs) res =
     (if c = CHR ''/'' \<or> c = CHR 0x5C \<or> (c = CHR ''.'' \<and> res = []) then sanitize_loop cs res
      else if c = NUL then sanitize_loop cs res
      else sanitize_loop cs (res @ [c]))"

definition sanitizeFilename :: "string \<Rightarrow> string" where
  "sanitizeFilename name =
     (let r = sanitize_loop name [];
          r' = (if r = [] then ''file'' else r)
      in if length r' > 128 then take 128 r' else r')"

text \<open>\<open>filename.substr(filename.rfind('.'))\<close>.\<close>

definition extension :: "string \<Rightarrow> string option" where
  "extension filename =
     (case find_char (CHR ''.'') (rev filename) of
        None \<Rightarrow> None
      | Some i \<Rightarrow> Some (drop (length filename - 1 - i) filename))"

definition allowed_extensions :: "string list" where
  "allowed_extensions = [''.txt'', ''.pdf'', ''.png'', ''.jpg'', ''.jpeg'', ''.zip'', ''.cpp'', ''.h'', ''.md'', ''.log'']"

definition isAllowedExtension :: "string \<Rightarrow> bool" where
  "isAllowedExtension filename \<longleftrightarrow>
     (case extension filename of
        None \<Rightarrow> False | Some ext \<Rightarrow> map ascii_lower ext \<in> set allowed_extensions)"

definition file_packet :: "MessageType \<Rightarrow> string \<Rightarrow> Packet" where
  "file_packet t s = mk_packet t (bytes_of_string s)"

text \<open>\<open>std::to_string\<close> of an unsigned 64-bit number.\<close>

definition show_u64 :: "u64 \<Rightarrow> string" where
  "show_u64 w = show_nat (unat w)"

definition handleRequest :: "lib \<Rightarrow> env \<Rightarrow> (fd \<Rightarrow> ClientSession option) \<Rightarrow> (string \<Rightarrow> fd) \<Rightarrow> fd \<Rightarrow> string \<Rightarrow>
    FileTransfer \<times> audit \<Rightarrow> json_error + sends \<times> FileTransfer \<times> audit" where
  "handleRequest L E getSession getFdByNickname senderFd payloadJson st =
     (case getSession senderFd of None \<Rightarrow> Inr ([], st) | Some sender \<Rightarrow>
      if isMuted E sender
        then Inr ([(m_fd sender, makeError ERR_PERMISSION_DENIED ''You have been muted!'')], st)
      else
      (case json_parse payloadJson of None \<Rightarrow> Inr ([], st) | Some j \<Rightarrow>
       bind_sum (value_string j ''to'' []) (\<lambda>toNick.
       bind_sum (value_string j ''filename'' []) (\<lambda>fname.
       bind_sum (value_u64 j ''size'' 0) (\<lambda>fileSize.
       bind_sum (value_string j ''sha256'' []) (\<lambda>sha.
         let (m, al) = st; filename = sanitizeFilename fname;
             reply = (\<lambda>c d. Inr ([(m_fd sender, makeError c d)], st)) in
         if toNick = [] \<or> filename = [] \<or> fileSize = 0 then reply ERR_INTERNAL ''Invalid file request''
         else if sint fileSize > MAX_FILE_BYTES then
           reply ERR_FILE_TOO_LARGE (''File size exceeds limit (Max: '' @ show_int (MAX_FILE_BYTES div (1024 * 1024)) @ ''MB)'')
         else if \<not> isAllowedExtension filename then reply ERR_INTERNAL ''File type not supported''
         else
           (case getSession (getFdByNickname toNick) of
              None \<Rightarrow> reply ERR_ROOM_NOT_FOUND (''User not found in system: '' @ toNick)
            | Some receiver \<Rightarrow>
              let tid = generateTransferId E;
                  fs = \<lparr>transfer_id = tid, sender_fd = senderFd, receiver_fd = m_fd receiver,
                        ft_filename = filename, file_size = fileSize, sha256_hash = sha,
                        temp_path = ''/tmp/vcs_'' @ tid, start_time = now E,
                        last_activity_time = now E, is_completed_by_sender = False,
                        ft_status = PENDING\<rparr>;
                  relay = json_object [(''transfer_id'', JStr tid), (''from'', JStr (m_nickname sender)),
                        (''filename'', JStr filename), (''size'', JInt (uint fileSize)), (''sha256'', JStr sha)]
              in Inr ([(m_fd receiver, file_packet MSG_FILE_REQUEST (json_dump relay))],
                      fmupd tid fs m,
                      audit_log L E FILE (m_nickname sender) toNick ''FILE_REQUEST'' SUCCESS (m_ip sender)
                        (''file='' @ filename @ '' size='' @ show_u64 fileSize) al))))))))"

text \<open>The handlers after the request look the transfer up under the identifier of the payload.\<close>

definition with_transfer :: "string \<Rightarrow> FileTransfer \<Rightarrow> 'r \<Rightarrow>
    (json \<Rightarrow> string \<Rightarrow> FileTransferSession \<Rightarrow> json_error + 'r) \<Rightarrow> json_error + 'r" where
  "with_transfer payloadJson m none k =
     (case json_parse payloadJson of None \<Rightarrow> Inr none | Some j \<Rightarrow>
      bind_sum (value_string j ''transfer_id'' []) (\<lambda>tid.
        case fmlookup m tid of None \<Rightarrow> Inr none | Some fs \<Rightarrow> k j tid fs))"

definition handleAccept :: "(fd \<Rightarrow> ClientSession option) \<Rightarrow> fd \<Rightarrow> string \<Rightarrow>
    FileTransfer \<Rightarrow> json_error + sends \<times> FileTransfer" where
  "handleAccept getSession receiverFd payloadJson m =
     with_transfer payloadJson m ([], m) (\<lambda>j tid fs.
       let m' = fmupd tid (fs\<lparr>ft_status := ACCEPTED\<rparr>) m in
       case getSession (sender_fd fs) of
         None \<Rightarrow> Inr ([], m')
       | Some sender \<Rightarrow>
           Inr ([(m_fd sender, file_packet MSG_FILE_ACCEPT
                   (json_dump (json_set j ''filename'' (JStr (ft_filename fs)))))], m'))"

definition handleReject :: "(fd \<Rightarrow> ClientSession option) \<Rightarrow> fd \<Rightarrow> string \<Rightarrow>
    FileTransfer \<Rightarrow> json_error + sends \<times> FileTransfer" where
  "handleReject getSession receiverFd payloadJson m =
     with_transfer payloadJson m ([], m) (\<lambda>j tid fs.
       Inr ((case getSession (sender_fd fs) of
               None \<Rightarrow> []
             | Some sender \<Rightarrow> [(m_fd sender, file_packet MSG_FILE_REJECT (json_dump j))]),
            fmdrop tid m))"

definition handleData :: "env \<Rightarrow> (fd \<Rightarrow> ClientSession option) \<Rightarrow> fd \<Rightarrow> string \<Rightarrow>
    FileTransfer \<Rightarrow> json_error + sends \<times> FileTransfer" where
  "handleData E getSession senderFd payloadJson m =
     with_transfer payloadJson m ([], m) (\<lambda>j tid fs.
       if sender_fd fs \<noteq> senderFd then Inr ([], m)
       else if ft_status fs \<noteq> ACCEPTED \<and> ft_status fs \<noteq> IN_PROGRESS then Inr ([], m)
       else
         case getSession (receiver_fd fs) of
           None \<Rightarrow> Inr ([], fmdrop tid m)
         | Some receiver \<Rightarrow>
             Inr ([(m_fd receiver, file_packet MSG_FILE_DATA (json_dump j))],
                  fmupd tid (fs\<lparr>ft_status := IN_PROGRESS, last_activity_time := now E\<rparr>) m))"

definition handleComplete :: "lib \<Rightarrow> env \<Rightarrow> (fd \<Rightarrow> ClientSession option) \<Rightarrow> fd \<Rightarrow> string \<Rightarrow>
    FileTransfer \<times> audit \<Rightarrow> json_error + sends \<times> FileTransfer \<times> audit" where
  "handleComplete L E getSession senderFd payloadJson st =
     (let (m, al) = st in
      case json_parse payloadJson of None \<Rightarrow> Inr ([], st) | Some j \<Rightarrow>
      bind_sum (value_string j ''transfer_id'' []) (\<lambda>tid.
      bind_sum (value_bool j ''ok'' False) (\<lambda>ok.
        case fmlookup m tid of None \<Rightarrow> Inr ([], st) | Some fs \<Rightarrow>
        if sender_fd fs \<noteq> senderFd then Inr ([], st)
        else
          Inr ((case getSession (receiver_fd fs) of
                  None \<Rightarrow> []
                | Some receiver \<Rightarrow> [(m_fd receiver, file_packet MSG_FILE_COMPLETE (json_dump j))]),
               fmupd tid (fs\<lparr>is_completed_by_sender := True, last_activity_time := now E\<rparr>) m,
               audit_log L E FILE [] [] (''FILE_TRANSFER_'' @ (if ok then ''OK'' else ''FAIL''))
                 (if ok then SUCCESS else FAILURE) [] (''tid='' @ tid @ '' file='' @ ft_filename fs) al))))"

definition handleAck :: "(fd \<Rightarrow> ClientSession option) \<Rightarrow> fd \<Rightarrow> string \<Rightarrow>
    FileTransfer \<Rightarrow> json_error + sends \<times> FileTransfer" where
  "handleAck getSession senderFd payloadJson m =
     with_transfer payloadJson m ([], m) (\<lambda>j tid fs.
       if receiver_fd fs \<noteq> senderFd then Inr ([], m)
       else Inr ((case getSession (sender_fd fs) of
                    None \<Rightarrow> []
                  | Some s \<Rightarrow> [(m_fd s, file_packet MSG_FILE_ACK payloadJson)]),
                 fmdrop tid m))"

text \<open>\<open>cleanupExpired\<close>: which transfers go, and whom they are announced to.\<close>

definition transfer_expired :: "env \<Rightarrow> FileTransferSession \<Rightarrow> bool" where
  "transfer_expired E fs \<longleftrightarrow>
     (if ft_status fs = IN_PROGRESS then now E - last_activity_time fs > 5
      else now E - start_time fs > TIMEOUT_SEC)"

definition expiry_notice :: "(fd \<Rightarrow> ClientSession option) \<Rightarrow> FileTransferSession \<Rightarrow> sends" where
  "expiry_notice getSession fs =
     (if ft_status fs \<noteq> IN_PROGRESS then []
      else if \<not> is_completed_by_sender fs then
        (case getSession (receiver_fd fs) of None \<Rightarrow> [] | Some r \<Rightarrow>
           [(m_fd r, makeError ERR_INTERNAL ''File transfer failed because sender disconnected.'')])
      else
        (case getSession (sender_fd fs) of None \<Rightarrow> [] | Some s \<Rightarrow>
           [(m_fd s, makeError ERR_INTERNAL
               ''File transfer failed because receiver disconnected, please try again later.'')]))"

definition cleanupExpired :: "env \<Rightarrow> (fd \<Rightarrow> ClientSession option) \<Rightarrow> FileTransfer \<Rightarrow> sends \<times> FileTransfer" where
  "cleanupExpired E getSession m =
     (let gone = filter (\<lambda>t. transfer_expired E (the (fmlookup m t))) (sorted_list_of_fset (fmdom m))
      in (concat (map (\<lambda>t. expiry_notice getSession (the (fmlookup m t))) gone),
          fmfilter (\<lambda>t. \<not> transfer_expired E (the (fmlookup m t))) m))"

section \<open>Properties of the filter\<close>

text \<open>
  Exactly what passes the filter: messages of at most 4096 bytes without NUL in which, with
  letters in upper case, none of the forbidden patterns occurs; they pass unchanged.
\<close>

theorem msg_filter_pass_iff:
  "(\<exists>text al'. msg_filter L E message nick al = ((PASS, text), al')) \<longleftrightarrow>
     length message \<le> 4096 \<and> NUL \<notin> set message \<and>
     list_all (\<lambda>p. \<not> sublist p (map ascii_upper message)) injection_patterns"
  by (auto simp: msg_filter_def MAX_MESSAGE_LEN_def containsNullByte_def find_char_None_iff
      containsInjection_def str_contains_iff list_ex_iff list_all_iff)

section \<open>File names\<close>

definition safe_filename :: "string \<Rightarrow> bool" where
  "safe_filename n \<longleftrightarrow> n \<noteq> [] \<and> length n \<le> 128 \<and> hd n \<noteq> CHR ''.'' \<and>
     CHR ''/'' \<notin> set n \<and> CHR 0x5C \<notin> set n \<and> NUL \<notin> set n"

lemma sanitize_loop_safe:
  assumes "r \<noteq> [] \<longrightarrow> hd r \<noteq> CHR ''.''" "CHR ''/'' \<notin> set r" "CHR 0x5C \<notin> set r" "NUL \<notin> set r"
  shows "(sanitize_loop s r \<noteq> [] \<longrightarrow> hd (sanitize_loop s r) \<noteq> CHR ''.'') \<and>
    CHR ''/'' \<notin> set (sanitize_loop s r) \<and> CHR 0x5C \<notin> set (sanitize_loop s r) \<and>
    NUL \<notin> set (sanitize_loop s r)"
  using assms
proof (induction s r rule: sanitize_loop.induct)
  case (2 c cs r)
  show ?case
  proof (cases "c = CHR ''/'' \<or> c = CHR 0x5C \<or> (c = CHR ''.'' \<and> r = []) \<or> c = NUL")
    case True
    with 2 show ?thesis by (auto simp: NUL_def)
  next
    case False
    then have "sanitize_loop (c # cs) r = sanitize_loop cs (r @ [c])" by auto
    moreover have "hd (r @ [c]) \<noteq> CHR ''.''" using False 2 by (cases r) auto
    ultimately show ?thesis using 2 False by auto
  qed
qed simp

lemma sanitize_safe: "safe_filename (sanitizeFilename name)"
proof -
  let ?r = "sanitize_loop name []"
  have r: "(?r \<noteq> [] \<longrightarrow> hd ?r \<noteq> CHR ''.'') \<and> CHR ''/'' \<notin> set ?r \<and> CHR 0x5C \<notin> set ?r \<and> NUL \<notin> set ?r"
    by (rule sanitize_loop_safe) simp_all
  have f: "safe_filename ''file''" by (simp add: safe_filename_def NUL_def)
  have t: "set (take 128 ?r) \<subseteq> set ?r" "?r \<noteq> [] \<Longrightarrow> hd (take 128 ?r) = hd ?r"
    by (rule set_take_subset) simp
  show ?thesis
  proof (cases "?r = []")
    case True
    then show ?thesis using f by (simp add: sanitizeFilename_def)
  next
    case False
    then show ?thesis using r t by (auto simp: sanitizeFilename_def safe_filename_def Let_def)
  qed
qed

text \<open>The sanitizer works on bytes, but a name with an allowed extension stays UTF-8: only ASCII characters
  are dropped, and a name cut at 128 bytes inside a character has no such extension.\<close>

lemma sanitize_loop_utf8:
  "utf8_from rs s \<Longrightarrow> \<forall>(lo, hi) \<in> set rs. 0x80 \<le> lo \<Longrightarrow> \<exists>t. sanitize_loop s r = r @ t \<and> utf8_from rs t"
proof (induction s r arbitrary: rs rule: sanitize_loop.induct)
  case (2 c cs r)
  from 2(4) obtain rs' where rs': "step_ranges rs c = Some rs'" "utf8_from rs' cs" by (auto split: option.splits)
  note high = step_ranges_high [OF rs'(1) 2(5)]
  show ?case
  proof (cases "c = CHR ''/'' \<or> c = CHR 0x5C \<or> (c = CHR ''.'' \<and> r = []) \<or> c = NUL")
    case True
    then have "code_of c < 0x80" by (auto simp: NUL_def)
    from step_ranges_ascii [OF this 2(5) rs'(1)] have "rs = []" "rs' = []" by simp_all
    with True 2(1,2) [of "[]"] rs'(2) show ?thesis by auto
  next
    case False
    then have "sanitize_loop (c # cs) r = sanitize_loop cs (r @ [c])" by auto
    moreover from False 2(3) [of rs'] rs'(2) high obtain t where "sanitize_loop cs (r @ [c]) = (r @ [c]) @ t"
      "utf8_from rs' t" by auto
    ultimately show ?thesis using rs'(1) by (intro exI [of _ "c # t"]) simp
  qed
qed simp

lemma allowed_extension_ascii:
  assumes "isAllowedExtension x"
  shows "\<exists>p e es. x = p @ e # es \<and> list_all (\<lambda>c. code_of c < 0x80) (e # es)"
proof -
  from assms obtain ext k where ext: "ext = drop k x" "map ascii_lower ext \<in> set allowed_extensions"
    by (auto simp: isAllowedExtension_def extension_def split: option.splits)
  have "\<forall>a \<in> set allowed_extensions. a \<noteq> [] \<and> list_all (\<lambda>c. code_of c < 0x80) a"
    by (simp add: allowed_extensions_def)
  with ext(2) have "ext \<noteq> []" "list_all (\<lambda>c. code_of (ascii_lower c) < 0x80) ext" by (auto simp: list_all_iff)
  moreover have "code_of c < 0x80" if "code_of (ascii_lower c) < 0x80" for c
    using that by (simp add: ascii_lower_def Let_def split: if_splits)
  ultimately obtain e es where "ext = e # es" "list_all (\<lambda>c. code_of c < 0x80) ext"
    by (cases ext) (auto simp: list_all_iff)
  then show ?thesis using append_take_drop_id [of k x] ext(1) by metis
qed

lemma sanitize_utf8:
  assumes "utf8_ok name" "isAllowedExtension (sanitizeFilename name)"
  shows "utf8_ok (sanitizeFilename name)"
proof -
  define r where "r = (if sanitize_loop name [] = [] then ''file'' else sanitize_loop name [])"
  have "utf8_ok (sanitize_loop name [])"
    using sanitize_loop_utf8 [of "[]" name "[]"] assms(1) by (simp add: utf8_ok_def)
  then have "utf8_ok r" by (simp add: r_def)
  moreover have "sanitizeFilename name = (if length r > 128 then take 128 r else r)"
    by (simp add: sanitizeFilename_def r_def Let_def)
  then have "r = sanitizeFilename name @ (if length r > 128 then drop 128 r else [])" by simp
  then obtain t where "r = sanitizeFilename name @ t" ..
  moreover obtain p e es where "sanitizeFilename name = p @ e # es" "list_all (\<lambda>c. code_of c < 0x80) (e # es)"
    using allowed_extension_ascii [OF assms(2)] by blast
  ultimately show ?thesis using utf8_ok_before [of p e "es @ t"] utf8_ok_ascii [of "e # es"] by simp
qed

section \<open>Transfers\<close>

text \<open>The calls on the transfer table; a call that throws leaves it as it is.\<close>

datatype ft_call =
    Request env "fd \<Rightarrow> ClientSession option" "string \<Rightarrow> fd" fd string
  | Accept "fd \<Rightarrow> ClientSession option" fd string
  | Reject "fd \<Rightarrow> ClientSession option" fd string
  | Data env "fd \<Rightarrow> ClientSession option" fd string
  | Complete env "fd \<Rightarrow> ClientSession option" fd string
  | Ack "fd \<Rightarrow> ClientSession option" fd string
  | Cleanup env "fd \<Rightarrow> ClientSession option"

definition or_else :: "'s \<Rightarrow> 'e + 'r \<times> 's \<Rightarrow> 's" where
  "or_else s r = (case r of Inl _ \<Rightarrow> s | Inr (_, s') \<Rightarrow> s')"

fun ft_do :: "lib \<Rightarrow> ft_call \<Rightarrow> FileTransfer \<times> audit \<Rightarrow> FileTransfer \<times> audit" where
  "ft_do L (Request E gs gf f p) st = or_else st (handleRequest L E gs gf f p st)"
| "ft_do L (Accept gs f p) (m, al) = (or_else m (handleAccept gs f p m), al)"
| "ft_do L (Reject gs f p) (m, al) = (or_else m (handleReject gs f p m), al)"
| "ft_do L (Data E gs f p) (m, al) = (or_else m (handleData E gs f p m), al)"
| "ft_do L (Complete E gs f p) st = or_else st (handleComplete L E gs f p st)"
| "ft_do L (Ack gs f p) (m, al) = (or_else m (handleAck gs f p m), al)"
| "ft_do L (Cleanup E gs) (m, al) = (snd (cleanupExpired E gs m), al)"

definition transfer_ok :: "string \<Rightarrow> FileTransferSession \<Rightarrow> bool" where
  "transfer_ok t fs \<longleftrightarrow> transfer_id fs = t \<and> safe_filename (ft_filename fs) \<and> utf8_ok (ft_filename fs) \<and>
     isAllowedExtension (ft_filename fs) \<and> file_size fs \<noteq> 0 \<and> sint (file_size fs) \<le> MAX_FILE_BYTES \<and>
     ft_status fs \<in> {PENDING, ACCEPTED, IN_PROGRESS}"

definition transfers_ok :: "FileTransfer \<times> audit \<Rightarrow> bool" where
  "transfers_ok st \<longleftrightarrow> fmpred transfer_ok (fst st)"

lemma with_transfer_Inr:
  "with_transfer p m none k = Inr r \<Longrightarrow>
   r = none \<or> (\<exists>j tid fs. fmlookup m tid = Some fs \<and> k j tid fs = Inr r)"
  by (auto simp: with_transfer_def bind_sum_Inr_iff split: option.splits)

lemma handleRequest_table:
  assumes "handleRequest L E gs gf f p (m, al) = Inr (out, m', al')"
  shows "m' = m \<or> (\<exists>fs. m' = fmupd (generateTransferId E) fs m \<and> transfer_ok (generateTransferId E) fs)"
proof (cases "m' = m")
  case False
  then obtain sender j where s: "gs f = Some sender" "\<not> isMuted E sender" "json_parse p = Some j"
    using assms by (auto simp: handleRequest_def split: option.splits if_splits)
  have name: "utf8_ok (sanitizeFilename a)"
    if "value_string j ''filename'' [] = Inr a" "isAllowedExtension (sanitizeFilename a)" for a
    using that value_string_utf8 [OF that(1) json_parse_utf8 [OF s(3)]] by (simp add: sanitize_utf8)
  from assms False show ?thesis
    unfolding handleRequest_def s(1,3) option.case if_not_P [OF s(2)] bind_sum_Inr_iff
    by (auto simp: transfer_ok_def sanitize_safe Let_def name split: if_splits option.splits)
qed simp

lemma handleComplete_table:
  assumes "handleComplete L E gs f p (m, al) = Inr (out, m', al')"
  shows "m' = m \<or> (\<exists>tid fs. fmlookup m tid = Some fs \<and>
    m' = fmupd tid (fs\<lparr>is_completed_by_sender := True, last_activity_time := now E\<rparr>) m)"
proof (cases "json_parse p")
  case (Some j)
  then obtain tid ok where v: "value_string j ''transfer_id'' [] = Inr tid" "value_bool j ''ok'' False = Inr ok"
    using assms by (auto simp: handleComplete_def bind_sum_Inr_iff)
  show ?thesis
  proof (cases "fmlookup m tid")
    case fs: (Some fs)
    then show ?thesis using assms by (auto simp: handleComplete_def Some v split: if_splits)
  qed (use assms in \<open>simp add: handleComplete_def Some v\<close>)
qed (use assms in \<open>simp add: handleComplete_def\<close>)

lemma transfers_ok_upd:
  "fmpred transfer_ok m \<Longrightarrow> transfer_ok t fs \<Longrightarrow> fmpred transfer_ok (fmupd t fs m)"
  by (auto intro: fmpred_upd)

lemma transfer_handlers_ok:
  assumes "fmpred transfer_ok m"
  shows "handleAccept gs f p m = Inr (out, m') \<Longrightarrow> fmpred transfer_ok m'"
    and "handleReject gs f p m = Inr (out, m') \<Longrightarrow> fmpred transfer_ok m'"
    and "handleData E gs f p m = Inr (out, m') \<Longrightarrow> fmpred transfer_ok m'"
    and "handleAck gs f p m = Inr (out, m') \<Longrightarrow> fmpred transfer_ok m'"
proof -
  have upd: "fmpred transfer_ok (fmupd tid (fs\<lparr>ft_status := st, last_activity_time := t\<rparr>) m)"
    "fmpred transfer_ok (fmupd tid (fs\<lparr>ft_status := st\<rparr>) m)"
    if "fmlookup m tid = Some fs" "st \<in> {ACCEPTED, IN_PROGRESS}" for tid fs st t
    using fmpredD [OF assms that(1)] that(2) assms
    by (auto intro!: transfers_ok_upd simp: transfer_ok_def)
  show "handleAccept gs f p m = Inr (out, m') \<Longrightarrow> fmpred transfer_ok m'"
    using assms upd(2) by (auto simp: handleAccept_def Let_def dest!: with_transfer_Inr split: option.splits)
  show "handleReject gs f p m = Inr (out, m') \<Longrightarrow> fmpred transfer_ok m'"
    using assms by (auto simp: handleReject_def dest!: with_transfer_Inr intro: fmpred_drop)
  show "handleData E gs f p m = Inr (out, m') \<Longrightarrow> fmpred transfer_ok m'"
    using assms upd(1) by (auto simp: handleData_def dest!: with_transfer_Inr intro: fmpred_drop
        split: option.splits if_splits)
  show "handleAck gs f p m = Inr (out, m') \<Longrightarrow> fmpred transfer_ok m'"
    using assms by (auto simp: handleAck_def dest!: with_transfer_Inr intro: fmpred_drop split: if_splits)
qed

lemma ft_do_ok: "transfers_ok st \<Longrightarrow> transfers_ok (ft_do L c st)"
proof -
  assume ok: "transfers_ok st"
  obtain m al where st: "st = (m, al)" by (cases st)
  with ok have m: "fmpred transfer_ok m" by (simp add: transfers_ok_def)
  show "transfers_ok (ft_do L c st)"
  proof (cases c)
    case (Request E gs gf f p)
    have "transfers_ok (m', al')" if "handleRequest L E gs gf f p (m, al) = Inr (out, m', al')" for out m' al'
      using handleRequest_table [OF that] transfers_ok_upd [OF m] m by (auto simp: transfers_ok_def)
    then show ?thesis using ok by (auto simp: Request st or_else_def split: sum.split)
  next
    case (Complete E gs f p)
    have "transfer_ok tid (fs\<lparr>is_completed_by_sender := True, last_activity_time := now E\<rparr>)"
      if "fmlookup m tid = Some fs" for tid fs
      using fmpredD [OF m that] by (simp add: transfer_ok_def)
    then have "transfers_ok (m', al')" if "handleComplete L E gs f p (m, al) = Inr (out, m', al')" for out m' al'
      using handleComplete_table [OF that] transfers_ok_upd [OF m] m by (auto simp: transfers_ok_def)
    then show ?thesis using ok by (auto simp: Complete st or_else_def split: sum.split)
  next
    case (Accept gs f p)
    then show ?thesis using m transfer_handlers_ok(1) [OF m, of gs f p]
      by (auto simp: st transfers_ok_def or_else_def split: sum.split)
  next
    case (Reject gs f p)
    then show ?thesis using m transfer_handlers_ok(2) [OF m, of gs f p]
      by (auto simp: st transfers_ok_def or_else_def split: sum.split)
  next
    case (Data E gs f p)
    then show ?thesis using m transfer_handlers_ok(3) [OF m, of E gs f p]
      by (auto simp: st transfers_ok_def or_else_def split: sum.split)
  next
    case (Ack gs f p)
    then show ?thesis using m transfer_handlers_ok(4) [OF m, of gs f p]
      by (auto simp: st transfers_ok_def or_else_def split: sum.split)
  next
    case (Cleanup E gs)
    then show ?thesis using m by (auto simp: st transfers_ok_def cleanupExpired_def Let_def intro: fmpred_filter)
  qed
qed

interpretation transfers: event_machine "ft_do L" transfers_ok for L
  by unfold_locales (rule ft_do_ok)

text \<open>
  Whatever clients send, in every reachable table each transfer is stored under its own
  identifier, names a harmless file of an allowed type (not empty, at most 128 bytes, no leading dot, no slash,
  backslash or NUL, and well-formed UTF-8 although the name is filtered and cut bytewise, so that the
  acceptance that carries it is printed), has a non-zero size that does not exceed 3 MiB as a signed
  number, and is pending, accepted or in progress.
\<close>

theorem transfer_table_invariant:
  "transfers_ok (fold (ft_do L) calls (fmempty, al))"
  by (rule transfers.inv_run) (simp add: transfers_ok_def)

text \<open>
  File data reaches only the receiver of an accepted transfer: every packet the relay sends
  for data from a client goes to the session of the receiver of a transfer that client started
  and that was accepted, and is a data packet.
\<close>

theorem data_relayed_to_receiver_only:
  assumes "handleData E gs f p m = Inr (out, m')" "(g, pkt) \<in> set out"
  shows "\<exists>tid fs r. fmlookup m tid = Some fs \<and> sender_fd fs = f \<and>
    ft_status fs \<in> {ACCEPTED, IN_PROGRESS} \<and> gs (receiver_fd fs) = Some r \<and> g = m_fd r \<and>
    msg_type (header pkt) = msg_code MSG_FILE_DATA"
proof -
  from assms obtain j tid fs where fs: "fmlookup m tid = Some fs"
    "(if sender_fd fs \<noteq> f then Inr ([], m)
      else if ft_status fs \<noteq> ACCEPTED \<and> ft_status fs \<noteq> IN_PROGRESS then Inr ([], m)
      else case gs (receiver_fd fs) of
             None \<Rightarrow> Inr ([], fmdrop tid m)
           | Some receiver \<Rightarrow>
               Inr ([(m_fd receiver, file_packet MSG_FILE_DATA (json_dump j))],
                  fmupd tid (fs\<lparr>ft_status := IN_PROGRESS, last_activity_time := now E\<rparr>) m))
       = (Inr (out, m') :: json_error + sends \<times> FileTransfer)"
    unfolding handleData_def by (auto dest!: with_transfer_Inr)
  with assms(2) show ?thesis
    by (intro exI [of _ tid] exI [of _ fs]) (auto simp: file_packet_def split: if_splits option.splits)
qed

definition online :: "fd list \<Rightarrow> fd \<Rightarrow> ClientSession option" where
  "online fds f = (if f \<in> set fds then Some (ClientSession_new plain_env f ''2.2.2.2'') else None)"

definition sample_transfer :: "TransferStatus \<Rightarrow> FileTransferSession" where
  "sample_transfer s = \<lparr>transfer_id = ''t1'', sender_fd = 5, receiver_fd = 6, ft_filename = ''a.txt'',
     file_size = 10, sha256_hash = [], temp_path = [], start_time = 0, last_activity_time = 0,
     is_completed_by_sender = False, ft_status = s\<rparr>"

text \<open>The payload that names a transfer.\<close>

definition tid_text :: "string \<Rightarrow> string" where
  "tid_text tid = json_dump (json_object [(''transfer_id'', JStr tid)])"

lemma tid_text_parse [simp]:
  "utf8_ok tid \<Longrightarrow> json_parse (tid_text tid) = Some (JObj (fmupd ''transfer_id'' (JStr tid) fmempty))"
  by (simp add: tid_text_def json_object_def)

theorem data_relayed_to_receiver_only_witness:
  "\<exists>pkt m'. handleData plain_env (online [5, 6]) 5 (tid_text ''t1'') (fmupd ''t1'' (sample_transfer ACCEPTED) fmempty) =
     Inr ([(6, pkt)], m') \<and> msg_type (header pkt) = msg_code MSG_FILE_DATA"
proof -
  let ?m = "fmupd ''t1'' (sample_transfer ACCEPTED) fmempty"
  obtain pkt m' where r: "handleData plain_env (online [5, 6]) 5 (tid_text ''t1'') ?m = Inr ([(6, pkt)], m')"
    by (simp add: handleData_def with_transfer_def sample_transfer_def online_def ClientSession_new_def)
  from data_relayed_to_receiver_only [OF r, of 6 pkt] r show ?thesis by auto
qed

text \<open>The cast of an unsigned 64-bit number to a signed one.\<close>

lemma signed_take_bit_63:
  fixes n :: int
  assumes "0 \<le> n" "n < 2 ^ 64"
  shows "signed_take_bit 63 n = (if n < 2 ^ 63 then n else n - 2 ^ 64)"
proof (cases "n < 2 ^ 63")
  case True
  then show ?thesis using assms by (simp add: signed_take_bit_int_eq_self)
next
  case False
  have "take_bit 64 (n - 2 ^ 64) = take_bit 64 n" by (simp add: take_bit_eq_mod)
  then have "signed_take_bit 63 n = signed_take_bit 63 (n - 2 ^ 64)"
    by (simp add: signed_take_bit_eq_iff_take_bit_eq)
  also have "\<dots> = n - 2 ^ 64" using False assms by (intro signed_take_bit_int_eq_self) simp_all
  finally show ?thesis using False by simp
qed

text \<open>
  The size check of a request. With everything else in order, a transfer is opened exactly
  for sizes from 1 to 3 MiB and for sizes of \<open>2^63\<close> and more, which the cast to a signed number
  turns negative.
\<close>

theorem request_size_admitted_iff:
  assumes "gs f = Some sender" "\<not> isMuted E sender" "json_parse p = Some (JObj obj)"
    and "fmlookup obj ''to'' = Some (JStr to_nick)" "to_nick \<noteq> []" "gs (gf to_nick) = Some rcv"
    and "fmlookup obj ''filename'' = Some (JStr fname)" "isAllowedExtension (sanitizeFilename fname)"
    and "fmlookup obj ''sha256'' = Some (JStr sha)"
    and "fmlookup obj ''size'' = Some (JInt n)" "0 \<le> n" "n < 2 ^ 64"
    and "fmlookup m (generateTransferId E) = None"
  shows "fmlookup (fst (or_else (m, al) (handleRequest L E gs gf f p (m, al)))) (generateTransferId E) \<noteq> None \<longleftrightarrow>
    1 \<le> n \<and> n \<le> 3 * 1024 * 1024 \<or> 2 ^ 63 \<le> n"
proof -
  let ?w = "word_of_int n :: u64"
  have fn: "sanitizeFilename fname \<noteq> []" using sanitize_safe by (auto simp: safe_filename_def)
  have z: "?w = 0 \<longleftrightarrow> n = 0"
    using assms(11,12) by (auto simp: word_of_int_eq_0_iff dest: zdvd_imp_le)
  have s: "sint ?w = (if n < 2 ^ 63 then n else n - 2 ^ 64)"
    using signed_take_bit_63 [OF assms(11,12)] by (simp add: sint_sbintrunc')
  show ?thesis
    using assms fn z s
    by (auto simp: handleRequest_def MAX_FILE_BYTES_def or_else_def Let_def)
qed

definition request_text :: "int \<Rightarrow> string" where
  "request_text n = json_dump (json_object [(''to'', JStr ''bob''),
     (''filename'', JStr ''a.txt''), (''sha256'', JStr []), (''size'', JInt n)])"

lemma sample_name: "isAllowedExtension (sanitizeFilename ''a.txt'')"
  by (simp add: sanitizeFilename_def NUL_def isAllowedExtension_def extension_def allowed_extensions_def
      ascii_lower_def)

theorem request_size_admitted_iff_witness:
  "fmlookup (fst (or_else (fmempty, AuditLogger_init, opened)
     (handleRequest plain_lib plain_env (online [5, 6]) (\<lambda>_. 6) 5 (request_text (2 ^ 63)) (fmempty, AuditLogger_init, opened))))
     (generateTransferId plain_env) \<noteq> None"
proof -
  let ?s = "ClientSession_new plain_env 5 ''2.2.2.2''" and ?r = "ClientSession_new plain_env 6 ''2.2.2.2''"
  have "\<not> isMuted plain_env ?s" by (simp add: isMuted_def ClientSession_new_def)
  then show ?thesis
    using request_size_admitted_iff [of "online [5, 6]" 5 ?s plain_env "request_text (2 ^ 63)" _
        "''bob''" "\<lambda>_. 6" ?r "''a.txt''" "[]" "2 ^ 63" fmempty "(AuditLogger_init, opened)"] sample_name
    by (simp add: online_def request_text_def json_object_def)
qed

text \<open>
  A pending transfer is accepted whoever asks: after an acceptance by any client that knows
  the identifier, also one that is not the receiver, the sender's data is relayed to the
  receiver, who never agreed.
\<close>

theorem transfer_accepted_by_anyone:
  assumes "fmlookup m tid = Some fs" "json_parse p = Some (JObj obj)"
    and "fmlookup obj ''transfer_id'' = Some (JStr tid)" "gs (receiver_fd fs) = Some rcv" "r \<noteq> receiver_fd fs"
  shows "\<exists>out m1 m2. handleAccept gs r p m = Inr (out, m1) \<and>
    handleData E gs (sender_fd fs) p m1 =
      Inr ([(m_fd rcv, file_packet MSG_FILE_DATA (json_dump (JObj obj)))], m2)"
  using assms
  by (cases "gs (sender_fd fs)")
    (auto simp: handleAccept_def handleData_def with_transfer_def Let_def)

theorem transfer_accepted_by_anyone_witness:
  "\<exists>out m1 pkt m2. handleAccept (online [5, 6, 7]) 7 (tid_text ''t1'') (fmupd ''t1'' (sample_transfer PENDING) fmempty) =
       Inr (out, m1) \<and>
     handleData plain_env (online [5, 6, 7]) 5 (tid_text ''t1'') m1 = Inr ([(6, pkt)], m2)"
  using transfer_accepted_by_anyone [of "fmupd ''t1'' (sample_transfer PENDING) fmempty" "''t1''"
      "sample_transfer PENDING" "tid_text ''t1''" _ "online [5, 6, 7]" "ClientSession_new plain_env 6 ''2.2.2.2''" 7 plain_env]
  by (simp add: sample_transfer_def online_def ClientSession_new_def) blast

end
