(* ===== verification/Rooms.thy ===== *)
theory Rooms
  imports Features
begin

text \<open>
  Rooms and their chat histories: \<open>server/rooms/Room.cpp\<close>, \<open>ChatHistory.cpp\<close> and \<open>RoomManager.cpp\<close>.
  A history keeps the newest 100 entries in memory and every entry in the database; a client that
  joins gets the newest 50. Rooms of the manager know their members by descriptor.
\<close>

section \<open>Chat history\<close>

datatype HistoryMsgType = H_CHAT | H_SYSTEM | H_FILE_NOTIFY

fun histTypeToStr :: "HistoryMsgType \<Rightarrow> string" where
  "histTypeToStr H_SYSTEM = ''SYSTEM''"
| "histTypeToStr H_FILE_NOTIFY = ''FILE_NOTIFY''"
| "histTypeToStr H_CHAT = ''CHAT''"

definition strToType :: "string \<Rightarrow> HistoryMsgType" where
  "strToType s = (if s = ''SYSTEM'' then H_SYSTEM else if s = ''FILE_NOTIFY'' then H_FILE_NOTIFY else H_CHAT)"

lemma strToType_histTypeToStr [simp, codec_simps]: "strToType (histTypeToStr t) = t"
  by (cases t) (simp_all add: strToType_def)

record HistoryEntry =
  h_timestamp :: time
  h_sender :: string
  h_room :: string
  h_message :: string
  h_msg_type :: HistoryMsgType

text \<open>\<open>while (size > n) pop_front()\<close>.\<close>

function pop_front_while :: "nat \<Rightarrow> 'a list \<Rightarrow> 'a list" where
  "pop_front_while n q = (if length q > n then pop_front_while n (tl q) else q)"
  by pat_completeness auto
termination
  by (relation "measure (\<lambda>(n, q). length q)") auto

declare pop_front_while.simps [simp del]

definition hist_push :: "HistoryEntry \<Rightarrow> HistoryEntry list \<Rightarrow> HistoryEntry list" where
  "hist_push e buf = pop_front_while HISTORY_BUFFER_SIZE (buf @ [e])"

definition persistEntry :: "env \<Rightarrow> HistoryEntry \<Rightarrow> Database \<Rightarrow> Database" where
  "persistEntry E e db =
     (if m_open db \<and> sql_runs E SQL_INSERT_HISTORY
      then db\<lparr>ChatHistoryTable := ChatHistoryTable db @
             [\<lparr>hr_timestamp = h_timestamp e, hr_sender = c_str (h_sender e), hr_room = c_str (h_room e),
               hr_message = c_str (h_message e), hr_msg_type = c_str (histTypeToStr (h_msg_type e))\<rparr>]\<rparr>
      else db)"

definition hist_append :: "env \<Rightarrow> HistoryEntry \<Rightarrow> HistoryEntry list \<times> Database \<Rightarrow> HistoryEntry list \<times> Database" where
  "hist_append E e st = (hist_push e (fst st), persistEntry E e (snd st))"

definition entry_of_row :: "history_row \<Rightarrow> HistoryEntry" where
  "entry_of_row r = \<lparr>h_timestamp = hr_timestamp r, h_sender = hr_sender r, h_room = hr_room r,
     h_message = hr_message r, h_msg_type = strToType (hr_msg_type r)\<rparr>"

text \<open>
  \<open>SELECT ... WHERE room = ? ORDER BY timestamp DESC LIMIT n\<close>, reversed. Rows of the same second
  come in the order of the index on room and timestamp, latest row first.
\<close>

definition loadFromDb :: "env \<Rightarrow> string \<Rightarrow> nat \<Rightarrow> Database \<Rightarrow> HistoryEntry list" where
  "loadFromDb E room n db =
     (if \<not> m_open db \<or> \<not> sql_runs E SQL_SELECT_HISTORY then []
      else
        let rows = filter (\<lambda>r. hr_room r = c_str room) (ChatHistoryTable db);
            sorted_desc = rev (sort_key hr_timestamp rows)
        in rev (map entry_of_row (take n sorted_desc)))"

definition getRecent :: "env \<Rightarrow> string \<Rightarrow> nat \<Rightarrow> HistoryEntry list \<Rightarrow> Database \<Rightarrow> HistoryEntry list" where
  "getRecent E room n buf db =
     (if length buf \<ge> n then drop (length buf - n) buf else loadFromDb E room n db)"

definition serializeForClient :: "HistoryEntry list \<Rightarrow> Packet" where
  "serializeForClient entries =
     mk_packet MSG_CHAT_BROADCAST (bytes_of_string (json_dump (JArr (map (\<lambda>e. json_object
       [(''ts'', JInt (h_timestamp e)), (''sender'', JStr (h_sender e)), (''room'', JStr (h_room e)),
        (''message'', JStr (h_message e)), (''type'', JStr (histTypeToStr (h_msg_type e)))]) entries))))"

definition cleanupOldHistory :: "env \<Rightarrow> string \<Rightarrow> Database \<Rightarrow> Database" where
  "cleanupOldHistory E room db =
     (if m_open db \<and> sql_runs E SQL_CLEANUP_HISTORY
      then db\<lparr>ChatHistoryTable := filter (\<lambda>r. \<not> (hr_room r = c_str room \<and> hr_timestamp r < now E - 30 * 24 * 3600))
             (ChatHistoryTable db)\<rparr>
      else db)"

lemma pop_front_newest: "pop_front_while n q = newest n q"
proof (induction n q rule: pop_front_while.induct)
  case (1 n q)
  show ?case
  proof (cases "length q > n")
    case True
    then have "pop_front_while n q = newest n (tl q)" using 1 by (simp add: pop_front_while.simps [of n q])
    also have "\<dots> = newest n q"
    proof (cases q)
      case (Cons x xs)
      with True have "length q - n = Suc (length xs - n)" by simp
      then show ?thesis by (simp add: newest_def Cons)
    qed simp
    finally show ?thesis .
  qed (simp add: pop_front_while.simps [of n q])
qed

interpretation history_log: bounded_log 100 hist_push
  by unfold_locales (simp add: hist_push_def pop_front_newest HISTORY_BUFFER_SIZE_def)

section \<open>Rooms\<close>

record Room =
  rm_name :: string
  rm_topic :: string
  rm_creator :: string
  rm_members :: "fd fset"
  rm_createdAt :: time
  rm_isPrivate :: bool
  rm_password :: string
  rm_maxMembers :: int

definition Room_new :: "env \<Rightarrow> string \<Rightarrow> string \<Rightarrow> Room" where
  "Room_new E name creator = \<lparr>rm_name = name, rm_topic = [], rm_creator = creator, rm_members = {||},
     rm_createdAt = now E, rm_isPrivate = False, rm_password = [], rm_maxMembers = 50\<rparr>"

definition addMember :: "fd \<Rightarrow> Room \<Rightarrow> Room" where
  "addMember f r = r\<lparr>rm_members := finsert f (rm_members r)\<rparr>"

definition removeMember :: "fd \<Rightarrow> Room \<Rightarrow> Room" where
  "removeMember f r = r\<lparr>rm_members := rm_members r |-| {|f|}\<rparr>"

definition isMember :: "Room \<Rightarrow> fd \<Rightarrow> bool" where
  "isMember r f \<longleftrightarrow> f |\<in>| rm_members r"

definition isFull :: "Room \<Rightarrow> bool" where
  "isFull r \<longleftrightarrow> int (fcard (rm_members r)) \<ge> rm_maxMembers r"

definition getMemberCount :: "Room \<Rightarrow> int" where
  "getMemberCount r = int (fcard (rm_members r))"

definition getMemberNicknames :: "(fd \<Rightarrow> string) \<Rightarrow> Room \<Rightarrow> string list" where
  "getMemberNicknames resolver r = filter (\<lambda>n. n \<noteq> []) (map resolver (sorted_list_of_fset (rm_members r)))"

record RoomManager =
  rmgr_default :: string
  rmgr_rooms :: "(string, Room) fmap"
  m_histories :: "(string, HistoryEntry list) fmap"
  m_fdToRoom :: "(fd, string) fmap"

definition RoomManager_initialize :: "env \<Rightarrow> string \<Rightarrow> RoomManager \<Rightarrow> RoomManager" where
  "RoomManager_initialize E def_room rm =
     rm\<lparr>rmgr_default := def_room, rmgr_rooms := fmupd def_room (Room_new E def_room ''system'') (rmgr_rooms rm),
        m_histories := fmupd def_room [] (m_histories rm)\<rparr>"

definition rm_createRoom :: "env \<Rightarrow> string \<Rightarrow> string \<Rightarrow> RoomManager \<Rightarrow> ErrorCode \<times> RoomManager" where
  "rm_createRoom E name creator rm =
     (if fmlookup (rmgr_rooms rm) name \<noteq> None then (ERR_INTERNAL, rm)
      else if fcard (fmdom (rmgr_rooms rm)) \<ge> MAX_ROOMS then (ERR_INTERNAL, rm)
      else (ERR_OK, rm\<lparr>rmgr_rooms := fmupd name (Room_new E name creator) (rmgr_rooms rm),
                       m_histories := fmupd name [] (m_histories rm)\<rparr>))"

definition rm_deleteRoom :: "string \<Rightarrow> string \<Rightarrow> bool \<Rightarrow> RoomManager \<Rightarrow> ErrorCode \<times> RoomManager" where
  "rm_deleteRoom name requester isOwner rm =
     (case fmlookup (rmgr_rooms rm) name of
        None \<Rightarrow> (ERR_ROOM_NOT_FOUND, rm)
      | Some r \<Rightarrow>
        if name = rmgr_default rm then (ERR_PERMISSION_DENIED, rm)
        else if \<not> isOwner \<and> rm_creator r \<noteq> requester then (ERR_PERMISSION_DENIED, rm)
        else (ERR_OK, rm\<lparr>rmgr_rooms := fmdrop name (rmgr_rooms rm), m_histories := fmdrop name (m_histories rm)\<rparr>))"

definition rm_broadcastToRoom :: "(fd \<Rightarrow> ClientSession option) \<Rightarrow> string \<Rightarrow> Packet \<Rightarrow> fd \<Rightarrow> RoomManager \<Rightarrow> sends" where
  "rm_broadcastToRoom getSession room pkt excludeFd rm =
     (case fmlookup (rmgr_rooms rm) room of
        None \<Rightarrow> []
      | Some r \<Rightarrow> concat (map (\<lambda>f. if f = excludeFd then []
            else case getSession f of None \<Rightarrow> [] | Some s \<Rightarrow> [(m_fd s, pkt)]) (sorted_list_of_fset (rm_members r))))"

definition getOrCreateHistory :: "string \<Rightarrow> RoomManager \<Rightarrow> HistoryEntry list \<times> RoomManager" where
  "getOrCreateHistory room rm =
     (case fmlookup (m_histories rm) room of
        Some h \<Rightarrow> (h, rm)
      | None \<Rightarrow> ([], rm\<lparr>m_histories := fmupd room [] (m_histories rm)\<rparr>))"

definition appendHistory :: "env \<Rightarrow> string \<Rightarrow> HistoryEntry \<Rightarrow> RoomManager \<times> Database \<Rightarrow> RoomManager \<times> Database" where
  "appendHistory E room e st =
     (let (rm, db) = st; (h, rm') = getOrCreateHistory room rm; (h', db') = hist_append E e (h, db)
      in (rm'\<lparr>m_histories := fmupd room h' (m_histories rm')\<rparr>, db'))"

definition sendHistoryToClient :: "env \<Rightarrow> (fd \<Rightarrow> ClientSession option) \<Rightarrow> fd \<Rightarrow> string \<Rightarrow> nat \<Rightarrow>
    Database \<Rightarrow> RoomManager \<Rightarrow> sends \<times> RoomManager" where
  "sendHistoryToClient E getSession f room n db rm =
     (let (h, rm') = getOrCreateHistory room rm; entries = getRecent E room n h db in
      if entries = [] then ([], rm')
      else case getSession f of
             None \<Rightarrow> ([], rm')
           | Some s \<Rightarrow> ([(m_fd s, serializeForClient entries)], rm'))"

text \<open>
  \<open>joinRoom\<close>: the result has the packets sent and the room set on the session, \<open>None\<close> where the
  function returns before that.
\<close>

definition rm_joinRoom :: "env \<Rightarrow> (fd \<Rightarrow> ClientSession option) \<Rightarrow> fd \<Rightarrow> string \<Rightarrow> string \<Rightarrow>
    Database \<Rightarrow> RoomManager \<Rightarrow> (ErrorCode \<times> sends \<times> string option) \<times> RoomManager" where
  "rm_joinRoom E getSession f nick roomName db rm =
     (let oldRoom = (case fmlookup (m_fdToRoom rm) f of Some r \<Rightarrow> r | None \<Rightarrow> []);
          rm1 = (if fmlookup (rmgr_rooms rm) roomName = None
                 then rm\<lparr>rmgr_rooms := fmupd roomName (Room_new E roomName nick) (rmgr_rooms rm),
                         m_histories := fmupd roomName [] (m_histories rm)\<rparr>
                 else rm)
      in if isFull (the (fmlookup (rmgr_rooms rm1) roomName)) then ((ERR_ROOM_FULL, [], None), rm1)
         else
           let rm2 = (case fmlookup (rmgr_rooms rm1) oldRoom of
                        Some r \<Rightarrow> if oldRoom \<noteq> [] then rm1\<lparr>rmgr_rooms := fmupd oldRoom (removeMember f r) (rmgr_rooms rm1)\<rparr> else rm1
                      | None \<Rightarrow> rm1);
               rm3 = rm2\<lparr>rmgr_rooms := fmupd roomName (addMember f (the (fmlookup (rmgr_rooms rm2) roomName))) (rmgr_rooms rm2),
                         m_fdToRoom := fmupd f roomName (m_fdToRoom rm2)\<rparr>;
               out1 = (if oldRoom \<noteq> [] \<and> oldRoom \<noteq> roomName
                       then rm_broadcastToRoom getSession oldRoom (makeSystemNotify (nick @ '' left #'' @ oldRoom)) f rm3
                       else []);
               out2 = rm_broadcastToRoom getSession roomName (makeSystemNotify (nick @ '' joined #'' @ roomName)) f rm3;
               (out3, rm4) = sendHistoryToClient E getSession f roomName 50 db rm3
           in ((ERR_OK, out1 @ out2 @ out3, Some roomName), rm4))"

definition rm_leaveRoom :: "env \<Rightarrow> (fd \<Rightarrow> ClientSession option) \<Rightarrow> fd \<Rightarrow> string \<Rightarrow> string \<Rightarrow>
    RoomManager \<Rightarrow> (sends \<times> string option) \<times> RoomManager" where
  "rm_leaveRoom E getSession f nick roomName rm =
     (case fmlookup (rmgr_rooms rm) roomName of
        None \<Rightarrow> (([], None), rm)
      | Some r \<Rightarrow>
        let def_room = rmgr_default rm;
            rooms1 = fmupd roomName (removeMember f r) (rmgr_rooms rm);
            rooms2 = (if roomName \<noteq> def_room then fmupd def_room (addMember f (the (fmlookup rooms1 def_room))) rooms1
                      else rooms1);
            roomEmpty = (getMemberCount (the (fmlookup rooms2 roomName)) = 0 \<and> roomName \<noteq> def_room);
            rm1 = rm\<lparr>m_fdToRoom := fmupd f def_room (m_fdToRoom rm),
                     rmgr_rooms := (if roomEmpty then fmdrop roomName rooms2 else rooms2),
                     m_histories := (if roomEmpty then fmdrop roomName (m_histories rm) else m_histories rm)\<rparr>;
            out1 = rm_broadcastToRoom getSession roomName (makeSystemNotify (nick @ '' left #'' @ roomName)) f rm1;
            out2 = (if roomName \<noteq> def_room
                    then rm_broadcastToRoom getSession def_room (makeSystemNotify (nick @ '' joined #'' @ def_room)) f rm1
                    else [])
        in ((out1 @ out2, Some def_room), rm1))"

definition rm_removeUser :: "fd \<Rightarrow> RoomManager \<Rightarrow> RoomManager" where
  "rm_removeUser f rm = rm\<lparr>m_fdToRoom := fmdrop f (m_fdToRoom rm), rmgr_rooms := fmmap (removeMember f) (rmgr_rooms rm)\<rparr>"

definition rm_getUserRoom :: "fd \<Rightarrow> RoomManager \<Rightarrow> string" where
  "rm_getUserRoom f rm = (case fmlookup (m_fdToRoom rm) f of Some r \<Rightarrow> r | None \<Rightarrow> rmgr_default rm)"

definition rm_getUsersInRoom :: "(fd \<Rightarrow> ClientSession option) \<Rightarrow> string \<Rightarrow> RoomManager \<Rightarrow> string list" where
  "rm_getUsersInRoom getSession room rm =
     (case fmlookup (rmgr_rooms rm) room of
        None \<Rightarrow> []
      | Some r \<Rightarrow> getMemberNicknames (\<lambda>f. case getSession f of Some s \<Rightarrow> m_nickname s | None \<Rightarrow> []) r)"

record RoomListItem =
  ri_name :: string
  ri_topic :: string
  ri_creator :: string
  ri_member_count :: int
  ri_is_private :: bool

definition rm_getRoomList :: "RoomManager \<Rightarrow> RoomListItem list" where
  "rm_getRoomList rm = map (\<lambda>n. let r = the (fmlookup (rmgr_rooms rm) n) in
     \<lparr>ri_name = n, ri_topic = rm_topic r, ri_creator = rm_creator r, ri_member_count = getMemberCount r,
      ri_is_private = rm_isPrivate r\<rparr>) (sorted_list_of_fset (fmdom (rmgr_rooms rm)))"

section \<open>Properties\<close>

lemma hist_append_fold:
  "fold (\<lambda>(E, e). hist_append E e) es (buf, db) =
     (fold hist_push (map snd es) buf, fold (\<lambda>(E, e). persistEntry E e) es db)"
  by (induction es arbitrary: buf db) (auto simp: hist_append_def)

text \<open>
  A history buffer holds exactly the newest 100 messages in order, whatever was appended,
  and once it holds that many a client's request for at most 100 messages is answered from it
  with the last ones appended.
\<close>

theorem history_keeps_newest:
  assumes "n \<le> 100" "n \<le> length es"
  shows "fst (fold (\<lambda>(E, e). hist_append E e) es ([], db)) = newest 100 (map snd es) \<and>
    getRecent E' room n (fst (fold (\<lambda>(E, e). hist_append E e) es ([], db))) db' = newest n (map snd es)"
proof -
  have buf: "fst (fold (\<lambda>(E, e). hist_append E e) es ([], db)) = newest 100 (map snd es)"
    using history_log.fold_push [of "[]" "map snd es"] by (simp add: hist_append_fold)
  moreover have "length (newest 100 (map snd es)) \<ge> n" using assms by simp
  moreover have "drop (length (newest 100 (map snd es)) - n) (newest 100 (map snd es)) = newest n (map snd es)"
    using assms by (simp add: newest_def)
  ultimately show ?thesis by (simp add: getRecent_def del: length_newest)
qed

definition chat_note :: "string \<Rightarrow> env \<times> HistoryEntry" where
  "chat_note m = (plain_env, \<lparr>h_timestamp = 1, h_sender = ''a'', h_room = ''general'', h_message = m, h_msg_type = H_CHAT\<rparr>)"

theorem history_keeps_newest_witness:
  "getRecent plain_env ''general'' 2 (fst (fold (\<lambda>(E, e). hist_append E e) [chat_note ''x'', chat_note ''y'', chat_note ''z'']
     ([], opened))) opened = [snd (chat_note ''y''), snd (chat_note ''z'')]"
proof -
  let ?es = "[chat_note ''x'', chat_note ''y'', chat_note ''z'']"
  have "getRecent plain_env ''general'' 2 (fst (fold (\<lambda>(E, e). hist_append E e) ?es ([], opened))) opened =
      newest 2 (map snd ?es)"
    by (rule conjunct2 [OF history_keeps_newest]) simp_all
  also have "\<dots> = [snd (chat_note ''y''), snd (chat_note ''z'')]" by (simp add: newest_def)
  finally show ?thesis .
qed

end
