(* ===== verification/Rounding.thy ===== *)
theory Rounding
  imports DoubleReal "HOL-Library.Log_Nat"
begin

text \<open>
  Arithmetic on \<open>double\<close>: the result of an operation is the exact one rounded to the nearest number with
  53 significant bits, the even one of two that are equally near. The numbers are the multiples of the
  least one, \<open>2^-1074\<close>, and nothing here is large enough to overflow.
\<close>

section \<open>Rounding to an integer\<close>

definition nearest_even :: "real \<Rightarrow> int" where
  "nearest_even z =
     (let f = \<lfloor>z\<rfloor>; d = z - of_int f in
      if d < 1 / 2 then f else if 1 / 2 < d then f + 1 else if even f then f else f + 1)"

lemma nearest_even_error: "\<bar>of_int (nearest_even z) - z\<bar> \<le> 1 / 2"
  unfolding nearest_even_def Let_def using floor_correct [of z] by auto

lemma nearest_even_int [simp]: "nearest_even (of_int k) = k"
  by (simp add: nearest_even_def)

lemma nearest_even_ge: "of_int k \<le> z \<Longrightarrow> k \<le> nearest_even z"
  unfolding nearest_even_def Let_def using le_floor_iff [of k z] by (auto split: if_splits)

section \<open>Rounding to a double\<close>

definition fl_pos :: "real \<Rightarrow> real" where
  "fl_pos x =
     (let y = x / least_value; e = nat (bitlen \<lfloor>y\<rfloor> - 53)
      in of_int (nearest_even (y / 2 ^ e)) * 2 ^ e * least_value)"

definition fl :: "real \<Rightarrow> real" where
  "fl x = (if x < 0 then - fl_pos (- x) else fl_pos x)"

lemma least_value_pos: "0 < least_value"
  unfolding least_value_def by (rule zero_less_power_int) simp

lemma fl_0 [simp]: "fl 0 = 0"
  by (simp add: fl_def fl_pos_def nearest_even_def)

lemma fl_pos_0 [simp]: "fl_pos 0 = 0"
  by (simp add: fl_pos_def nearest_even_def)

lemma fl_uminus: "fl (- x) = - fl x"
  by (cases "x = 0") (auto simp: fl_def)

lemma fl_pos_nonneg: "0 \<le> x \<Longrightarrow> 0 \<le> fl_pos x"
  using least_value_pos nearest_even_ge [of 0 "x / least_value / 2 ^ nat (bitlen \<lfloor>x / least_value\<rfloor> - 53)"]
  by (simp add: fl_pos_def Let_def)

lemma fl_sign: "0 \<le> x \<Longrightarrow> 0 \<le> fl x" "x \<le> 0 \<Longrightarrow> fl x \<le> 0"
  using fl_pos_nonneg [of x] fl_pos_nonneg [of "- x"] by (auto simp: fl_def)

text \<open>The last bit of the result, in units: the number is at least \<open>2^52\<close> of them unless it is subnormal.\<close>

lemma last_bit:
  fixes y :: real
  assumes "0 \<le> y" "e = nat (bitlen \<lfloor>y\<rfloor> - 53)" "0 < e"
  shows "2 ^ (52 + e) \<le> y"
proof -
  have pos: "0 < \<lfloor>y\<rfloor>"
  proof (rule ccontr)
    assume "\<not> 0 < \<lfloor>y\<rfloor>"
    then have "bitlen \<lfloor>y\<rfloor> = 0" by (simp add: bitlen_def floorlog_def)
    then show False using assms(2,3) by simp
  qed
  have "nat (bitlen \<lfloor>y\<rfloor> - 1) = 52 + e" using assms(2,3) by simp
  then have "2 ^ (52 + e) \<le> \<lfloor>y\<rfloor>" using bitlen_bounds [OF pos] by simp
  then have "real_of_int (2 ^ (52 + e)) \<le> y" by (simp only: le_floor_iff)
  then show ?thesis by simp
qed

lemma fl_pos_error:
  assumes "0 \<le> x"
  shows "\<bar>fl_pos x - x\<bar> \<le> x / 2 ^ 53 + least_value / 2"
proof -
  define y where "y = x / least_value"
  define e where "e = nat (bitlen \<lfloor>y\<rfloor> - 53)"
  have y: "0 \<le> y" "x = y * least_value" using assms least_value_pos by (simp_all add: y_def)
  have "fl_pos x - x = (of_int (nearest_even (y / 2 ^ e)) - y / 2 ^ e) * 2 ^ e * least_value"
    by (simp add: fl_pos_def Let_def y_def [symmetric] e_def [symmetric] y(2) field_simps)
  then have "\<bar>fl_pos x - x\<bar> = \<bar>of_int (nearest_even (y / 2 ^ e)) - y / 2 ^ e\<bar> * 2 ^ e * least_value"
    using least_value_pos by (simp add: abs_mult)
  also have "\<dots> \<le> 1 / 2 * 2 ^ e * least_value"
    using least_value_pos by (intro mult_right_mono nearest_even_error) simp_all
  also have "\<dots> \<le> (y / 2 ^ 53 + 1 / 2) * least_value"
  proof (intro mult_right_mono)
    show "1 / 2 * 2 ^ e \<le> y / 2 ^ 53 + 1 / 2"
    proof (cases "e = 0")
      case False
      then have "2 ^ 52 * 2 ^ e \<le> y" using last_bit [OF y(1) e_def] by (simp add: power_add)
      then show ?thesis by simp
    qed (use y(1) in simp)
  qed (use least_value_pos in simp)
  finally show ?thesis by (simp add: y(2) algebra_simps)
qed

lemma fl_error: "\<bar>fl x - x\<bar> \<le> \<bar>x\<bar> / 2 ^ 53 + least_value / 2"
  using fl_pos_error [of x] fl_pos_error [of "- x"] by (auto simp: fl_def abs_if split: if_splits)

lemma fl_le: "0 \<le> x \<Longrightarrow> fl x \<le> x * (1 + 1 / 2 ^ 53) + least_value / 2"
  using fl_error [of x] by (simp add: algebra_simps)

text \<open>The integers up to \<open>2^53\<close> are exact.\<close>

lemma fl_le_add: "0 \<le> x \<Longrightarrow> fl x \<le> x + x / 2 ^ 53 + least_value / 2"
  using fl_error [of x] by simp

definition unit_bits :: nat where "unit_bits = 1074"

lemma least_value_unit: "least_value * 2 ^ unit_bits = 1"
  using units_in_one(1) by (simp only: unit_bits_def units_in_one_def of_nat_power of_nat_numeral mult.commute)

lemma over_least_value: "x / least_value = x * 2 ^ unit_bits"
  using least_value_unit least_value_pos by (simp add: field_simps)

lemma fl_pos_int:
  assumes "0 < k" "k < 2 ^ 53"
  shows "fl_pos (of_int k) = of_int k"
proof -
  define n :: int where "n = k * 2 ^ unit_bits"
  have y: "real_of_int k / least_value = of_int n" by (simp add: over_least_value n_def)
  define e where "e = nat (bitlen n - 53)"
  have "bitlen k \<le> 53" using assms bitlen_le_iff_power [of k 53] by simp
  then have "e \<le> unit_bits" using assms(1) by (simp add: e_def n_def)
  then have split: "(2 :: real) ^ unit_bits = 2 ^ (unit_bits - e) * 2 ^ e" by (simp add: power_add [symmetric])
  have "of_int n / (2 :: real) ^ e = of_int (k * 2 ^ (unit_bits - e))" by (simp add: n_def split)
  then have "fl_pos (of_int k) = of_int (k * 2 ^ (unit_bits - e)) * 2 ^ e * least_value"
    unfolding fl_pos_def Let_def y floor_of_int e_def [symmetric] by (simp only: nearest_even_int)
  also have "\<dots> = of_int k * (least_value * 2 ^ unit_bits)" by (simp add: split)
  finally show ?thesis by (simp only: least_value_unit mult_1_right)
qed

lemma fl_int: "\<bar>k\<bar> < 2 ^ 53 \<Longrightarrow> fl (of_int k) = of_int k"
  using fl_pos_int [of k] fl_pos_int [of "- k"] by (cases "k = 0") (auto simp: fl_def)

lemma fl_numeral [simp]: "numeral n < (2 ^ 53 :: int) \<Longrightarrow> fl (numeral n) = numeral n" "fl 1 = 1"
  using fl_int [of "numeral n"] fl_int [of 1] by simp_all

text \<open>A number that is at least one is not rounded below it.\<close>

lemma fl_ge_1:
  assumes "1 \<le> x"
  shows "1 \<le> fl x"
proof -
  define y where "y = x / least_value"
  define e where "e = nat (bitlen \<lfloor>y\<rfloor> - 53)"
  have y: "2 ^ unit_bits \<le> y" using assms by (simp add: y_def over_least_value)
  then have fl: "2 ^ unit_bits \<le> \<lfloor>y\<rfloor>" using le_floor_iff [of "2 ^ unit_bits" y] by simp
  then have "0 < \<lfloor>y\<rfloor>" using zero_less_power [of "2 :: int" unit_bits] by linarith
  then have "(2 :: int) ^ unit_bits < 2 ^ nat (bitlen \<lfloor>y\<rfloor>)" using bitlen_bounds fl by (meson order.strict_trans1)
  then have "unit_bits < nat (bitlen \<lfloor>y\<rfloor>)" by simp
  then have e: "0 < e" "unit_bits \<le> 52 + e" by (auto simp: e_def unit_bits_def)
  have "0 \<le> y" using y zero_le_power [of "2 :: real" unit_bits] by linarith
  from last_bit [OF this e_def e(1)] have "2 ^ 52 \<le> y / 2 ^ e" by (simp add: power_add field_simps)
  then have "2 ^ 52 \<le> nearest_even (y / 2 ^ e)" by (intro nearest_even_ge) simp
  then have "(2 :: real) ^ 52 * 2 ^ e \<le> of_int (nearest_even (y / 2 ^ e)) * 2 ^ e" by simp
  moreover have "(2 :: real) ^ unit_bits \<le> 2 ^ 52 * 2 ^ e"
    using power_increasing [OF e(2), of "2 :: real"] by (simp only: power_add)
  ultimately have "2 ^ unit_bits * least_value \<le> of_int (nearest_even (y / 2 ^ e)) * 2 ^ e * least_value"
    using least_value_pos by (intro mult_right_mono) linarith+
  then show ?thesis using assms least_value_unit
    by (simp add: fl_def fl_pos_def Let_def y_def [symmetric] e_def [symmetric] mult.commute)
qed

end
