(* ===== verification/RateLimit.thy ===== *)
theory RateLimit
  imports Intrusion Config Rounding
begin

text \<open>
  Token buckets and the rate limiter, \<open>server/security/RateLimiter.cpp\<close>. Every operation on doubles is
  rounded (\<open>fl\<close>); the steady clock's reading at a call, in nanoseconds, is part of the environment.
\<close>

datatype RateCheckResult = RL_ALLOWED | RATE_LIMITED
datatype RateLimitType = MSG_CHAT | RL_CONNECT | RL_AUTH | FILE_TRANSFER

record TokenBucket =
  tokens :: real
  max_tokens :: real
  refill_rate :: real
  last_refill :: int
  bucket_violations :: int

definition TokenBucket_new :: "int \<Rightarrow> real \<Rightarrow> real \<Rightarrow> TokenBucket" where
  "TokenBucket_new t mx rate = \<lparr>tokens = max 1 mx, max_tokens = max 1 mx, refill_rate = rate,
     last_refill = t, bucket_violations = 0\<rparr>"

text \<open>\<open>duration<double>(d).count()\<close> of a number of nanoseconds.\<close>

definition seconds :: "int \<Rightarrow> real" where
  "seconds d = fl (fl (of_int d) / 10 ^ 9)"

lemma seconds_0 [simp]: "seconds 0 = 0"
  by (simp add: seconds_def)

definition consume :: "int \<Rightarrow> real \<Rightarrow> TokenBucket \<Rightarrow> bool \<times> TokenBucket" where
  "consume t cost b =
     (let elapsed = seconds (t - last_refill b);
          b' = b\<lparr>last_refill := t,
                 tokens := min (max_tokens b) (fl (tokens b + fl (elapsed * refill_rate b)))\<rparr>
      in if tokens b' \<ge> cost then (True, b'\<lparr>tokens := fl (tokens b' - cost)\<rparr>)
         else (False, b'\<lparr>bucket_violations := bucket_violations b' + 1\<rparr>))"

type_synonym RateLimiter = "(string, TokenBucket) fmap"

definition getDefaultRate :: "ServerConfig \<Rightarrow> RateLimitType \<Rightarrow> real" where
  "getDefaultRate cfg ty = (case ty of
       MSG_CHAT \<Rightarrow> fl (of_int (rate_limit_msg_per_sec cfg))
     | RL_CONNECT \<Rightarrow> fl (fl (of_int (connect_rate_per_min cfg)) / 60)
     | RL_AUTH \<Rightarrow> fl (fl (of_int (auth_rate_per_min cfg)) / 60)
     | FILE_TRANSFER \<Rightarrow> fl (fl (of_int (file_transfer_per_hour cfg)) / 3600))"

definition removeKey :: "string \<Rightarrow> RateLimiter \<Rightarrow> RateLimiter" where
  "removeKey key rl = fmdrop key rl"

text \<open>The bucket \<open>checkLimit\<close> finds or creates.\<close>

definition bucket_of :: "ServerConfig \<Rightarrow> env \<Rightarrow> string \<Rightarrow> RateLimitType \<Rightarrow> RateLimiter \<Rightarrow> TokenBucket" where
  "bucket_of cfg E key ty rl =
     (case fmlookup rl key of
        Some b \<Rightarrow> b
      | None \<Rightarrow> (let rate = getDefaultRate cfg ty in TokenBucket_new (steady E) (fl (rate * 2)) rate))"

definition checkLimit :: "lib \<Rightarrow> ServerConfig \<Rightarrow> env \<Rightarrow> string \<Rightarrow> RateLimitType \<Rightarrow> real \<Rightarrow>
    RateLimiter \<times> IntrusionDetector \<times> AuditLogger \<times> Database \<Rightarrow>
    RateCheckResult \<times> RateLimiter \<times> IntrusionDetector \<times> AuditLogger \<times> Database" where
  "checkLimit L cfg E key ty cost st =
     (let (rl, ids) = st;
          (ok, b) = consume (steady E) cost (bucket_of cfg E key ty rl);
          rl' = fmupd key b rl
      in if ok then (RL_ALLOWED, rl', ids)
         else
           let (d, al) = (if bucket_violations b \<ge> 4
                          then reportViolation L E key RATE_LIMIT_EXCEEDED (-1) ids else ids)
           in (RATE_LIMITED, rl', d,
               audit_log L E SECURITY [] [] ''RATE_LIMITED'' BLOCKED [] (''key='' @ key) al))"

definition getViolations :: "RateLimiter \<Rightarrow> string \<Rightarrow> int" where
  "getViolations rl key = (case fmlookup rl key of Some b \<Rightarrow> bucket_violations b | None \<Rightarrow> 0)"

definition getTokens :: "RateLimiter \<Rightarrow> string \<Rightarrow> real" where
  "getTokens rl key = (case fmlookup rl key of Some b \<Rightarrow> tokens b | None \<Rightarrow> 0)"

section \<open>Buckets\<close>

lemma consume_frame [simp, frame_simps]:
  "max_tokens (snd (consume t cost b)) = max_tokens b"
  "refill_rate (snd (consume t cost b)) = refill_rate b"
  "last_refill (snd (consume t cost b)) = t"
  by (simp_all add: consume_def Let_def)

text \<open>The number of admitted requests when unit requests arrive at the given times.\<close>

fun admitted :: "int list \<Rightarrow> TokenBucket \<Rightarrow> nat" where
  "admitted [] b = 0"
| "admitted (t # ts) b =
     (let (ok, b') = consume t 1 b in (if ok then 1 else 0) + admitted ts b')"

text \<open>
  What a time span is worth at a rate, and what the roundings of one request can add at most. A negative
  rate gives nothing.
\<close>

definition refill :: "real \<Rightarrow> int \<Rightarrow> real" where
  "refill rate d = max 0 rate * (of_int d / 10 ^ 9)"

definition slack :: "real \<Rightarrow> real" where
  "slack mx = mx / 2 ^ 51"

lemma tiny: "least_value \<le> 1 / 2 ^ 60"
proof -
  have "(2 :: real) ^ 60 \<le> 2 ^ unit_bits" by (rule power_increasing) (simp_all add: unit_bits_def)
  then have "least_value * 2 ^ 60 \<le> least_value * 2 ^ unit_bits" using least_value_pos by simp
  then show ?thesis using least_value_unit by (simp add: field_simps)
qed

lemma powers_of_2:
  "(2 :: real) ^ 50 = 1125899906842624" "(2 :: real) ^ 51 = 2251799813685248" "(2 :: real) ^ 52 = 4503599627370496"
  "(2 :: real) ^ 53 = 9007199254740992" "(2 :: real) ^ 57 = 144115188075855872" "(2 :: real) ^ 60 = 1152921504606846976"
  by simp_all

lemma seconds_bounds:
  assumes "0 \<le> d"
  shows "0 \<le> seconds d" "seconds d \<le> of_int d / 10 ^ 9 * (1 + 1 / 2 ^ 53) ^ 2 + 2 * least_value"
proof -
  have d: "0 \<le> fl (of_int d)" using assms by (intro fl_sign) simp
  then show "0 \<le> seconds d" by (simp add: seconds_def fl_sign)
  have "fl (of_int d) / 10 ^ 9 \<le> of_int d / 10 ^ 9 * (1 + 1 / 2 ^ 53) + least_value / 2"
    using fl_le [of "of_int d"] assms least_value_pos by (simp add: field_simps)
  moreover have "seconds d \<le> fl (of_int d) / 10 ^ 9 * (1 + 1 / 2 ^ 53) + least_value / 2"
    unfolding seconds_def using d by (intro fl_le) simp
  ultimately show "seconds d \<le> of_int d / 10 ^ 9 * (1 + 1 / 2 ^ 53) ^ 2 + 2 * least_value"
    using least_value_pos by (simp add: power2_eq_square field_simps)
qed

lemma refill_le:
  assumes "0 \<le> d" "rate \<le> mx" "1 \<le> mx"
  shows "max 0 (fl (seconds d * rate)) \<le> refill rate d * (1 + 1 / 2 ^ 51) + mx / 2 ^ 57"
proof (cases "rate \<le> 0")
  case True
  then have "fl (seconds d * rate) \<le> 0"
    using seconds_bounds(1) [OF assms(1)] by (intro fl_sign mult_nonneg_nonpos)
  then show ?thesis using True assms(3) by (simp add: refill_def)
next
  case False
  let ?q = "rate * (of_int d / 10 ^ 9)" and ?u = "1 + 1 / 2 ^ 53 :: real"
  note s = seconds_bounds [OF assms(1)]
  have "seconds d * rate \<le> ?q * ?u ^ 2 + 2 * least_value * mx"
  proof -
    have "seconds d * rate \<le> (of_int d / 10 ^ 9 * ?u ^ 2 + 2 * least_value) * rate"
      using s(2) False by (intro mult_right_mono) simp_all
    moreover have "2 * least_value * rate \<le> 2 * least_value * mx" using assms(2) least_value_pos by simp
    ultimately show ?thesis by (simp add: algebra_simps)
  qed
  then have "seconds d * rate * ?u + least_value / 2 \<le> (?q * ?u ^ 2 + 2 * least_value * mx) * ?u + least_value / 2"
    by (intro add_right_mono mult_right_mono) simp_all
  moreover have "fl (seconds d * rate) \<le> seconds d * rate * ?u + least_value / 2"
    using s(1) False by (intro fl_le) simp
  ultimately have fl: "fl (seconds d * rate) \<le> ?q * ?u ^ 3 + 2 * least_value * mx * ?u + least_value / 2"
    by (simp add: power2_eq_square power3_eq_cube algebra_simps)
  have "0 \<le> ?q" using False assms(1) by simp
  then have "?q * ?u ^ 3 \<le> ?q * (1 + 1 / 2 ^ 51)" by (intro mult_left_mono) (simp_all add: power3_eq_cube)
  moreover have "2 * least_value * mx * ?u + least_value / 2 \<le> mx / 2 ^ 57"
  proof -
    define p where "p = least_value * mx"
    have "p \<le> mx / 2 ^ 60" using mult_right_mono [OF tiny, of mx] assms(3) by (simp add: p_def)
    moreover have "least_value \<le> mx / 2 ^ 60" using tiny assms(3) unfolding powers_of_2 by linarith
    moreover have "2 * least_value * mx * ?u = 2 * p + 2 * p / 2 ^ 53" by (simp add: p_def algebra_simps)
    ultimately show ?thesis using assms(3) unfolding powers_of_2 by linarith
  qed
  ultimately have "fl (seconds d * rate) \<le> ?q * (1 + 1 / 2 ^ 51) + mx / 2 ^ 57" using fl by linarith
  moreover have "0 \<le> ?q * (1 + 1 / 2 ^ 51) + mx / 2 ^ 57" using \<open>0 \<le> ?q\<close> assms(3) by simp
  ultimately show ?thesis using False by (simp add: refill_def)
qed

text \<open>Tokens paid for what was admitted: the potential argument for the bound.\<close>

lemma refilled_le:
  assumes "1 \<le> mx"
  shows "max 0 (min mx (fl (x + inc))) \<le> max 0 x + max 0 inc + mx / 2 ^ 53 + least_value / 2"
proof (cases "x + inc \<le> 0")
  case True
  then have "fl (x + inc) \<le> 0" by (rule fl_sign)
  then show ?thesis using assms least_value_pos by (simp add: max_def min_def)
next
  case False
  then have "fl (x + inc) \<le> x + inc + (x + inc) / 2 ^ 53 + least_value / 2"
    using fl_le_add [of "x + inc"] by simp
  moreover have "min mx (fl (x + inc)) \<le> mx" "min mx (fl (x + inc)) \<le> fl (x + inc)" "x \<le> max 0 x" "inc \<le> max 0 inc"
    "0 \<le> max 0 x" "0 \<le> max 0 inc" by simp_all
  ultimately have "min mx (fl (x + inc)) \<le> max 0 x + max 0 inc + mx / 2 ^ 53 + least_value / 2"
    using assms least_value_pos unfolding powers_of_2 by (cases "x + inc \<le> mx") argo+
  then show ?thesis using assms least_value_pos by simp
qed

lemma consume_potential:
  assumes "1 \<le> max_tokens b" "refill_rate b \<le> max_tokens b" "last_refill b \<le> t"
  shows "(if fst (consume t 1 b) then 1 else 0) + max 0 (tokens (snd (consume t 1 b))) \<le>
    max 0 (tokens b) + refill (refill_rate b) (t - last_refill b) * (1 + 1 / 2 ^ 51) + slack (max_tokens b)"
proof -
  let ?m = "max_tokens b" and ?inc = "fl (seconds (t - last_refill b) * refill_rate b)"
  define x where "x = min ?m (fl (tokens b + ?inc))"
  have l: "least_value \<le> ?m / 2 ^ 60" using tiny assms(1) by (simp add: field_simps)
  have x: "max 0 x \<le> max 0 (tokens b) + max 0 ?inc + ?m / 2 ^ 53 + least_value / 2"
    unfolding x_def by (rule refilled_le [OF assms(1)])
  have inc: "max 0 ?inc \<le> refill (refill_rate b) (t - last_refill b) * (1 + 1 / 2 ^ 51) + ?m / 2 ^ 57"
    using assms by (intro refill_le) simp_all
  have paid: "1 + max 0 (fl (x - 1)) \<le> max 0 x + ?m / 2 ^ 53 + least_value / 2" if "1 \<le> x"
  proof -
    have "(x - 1) / 2 ^ 53 \<le> ?m / 2 ^ 53" by (intro divide_right_mono) (simp_all add: x_def)
    then show ?thesis using fl_le_add [of "x - 1"] fl_sign(1) [of "x - 1"] that by linarith
  qed
  have c: "consume t 1 b = (if 1 \<le> x then (True, b\<lparr>last_refill := t, tokens := fl (x - 1)\<rparr>)
      else (False, b\<lparr>last_refill := t, tokens := x, bucket_violations := bucket_violations b + 1\<rparr>))"
    by (simp add: consume_def Let_def x_def)
  show ?thesis using x inc paid l assms(1) by (auto simp: c slack_def)
qed

lemma admitted_potential:
  assumes "1 \<le> max_tokens b" "refill_rate b \<le> max_tokens b" "sorted (last_refill b # ts)"
  shows "real (admitted ts b) \<le> max 0 (tokens b) +
    refill (refill_rate b) (last (last_refill b # ts) - last_refill b) * (1 + 1 / 2 ^ 51) +
    real (length ts) * slack (max_tokens b)"
  using assms
proof (induction ts arbitrary: b)
  case (Cons t ts)
  let ?b = "snd (consume t 1 b)" and ?r = "\<lambda>d. refill (refill_rate b) d * (1 + 1 / 2 ^ 51)"
  have "last_refill b \<le> t" using Cons.prems by simp
  note step = consume_potential [OF Cons.prems(1,2) this]
  have "real (admitted ts ?b) \<le> max 0 (tokens ?b) + ?r (last (t # ts) - t) + real (length ts) * slack (max_tokens b)"
    using Cons.IH [of ?b] Cons.prems by simp
  moreover have "real (admitted (t # ts) b) = (if fst (consume t 1 b) then 1 else 0) + real (admitted ts ?b)"
    by (simp split: prod.split)
  moreover have "refill r (e - d) = refill r (t - d) + refill r (e - t)" for r d e
    by (simp add: refill_def diff_divide_distrib right_diff_distrib)
  then have "?r (last (last_refill b # t # ts) - last_refill b) = ?r (t - last_refill b) + ?r (last (t # ts) - t)"
    by (metis distrib_right last_ConsR list.distinct(1))
  moreover have "real (length (t # ts)) * slack (max_tokens b) = slack (max_tokens b) + real (length ts) * slack (max_tokens b)"
    by (simp add: algebra_simps)
  ultimately show ?case using step by linarith
qed (simp add: refill_def)

section \<open>The limiter\<close>

lemma bucket_of_upd [simp]: "bucket_of cfg E key ty (fmupd key b rl) = b"
  by (simp add: bucket_of_def)

lemma checkLimit_consume:
  "fst (checkLimit L cfg E key ty cost (rl, ids)) =
     (if fst (consume (steady E) cost (bucket_of cfg E key ty rl)) then RL_ALLOWED else RATE_LIMITED)"
  "fst (snd (checkLimit L cfg E key ty cost (rl, ids))) =
     fmupd key (snd (consume (steady E) cost (bucket_of cfg E key ty rl))) rl"
  by (simp_all add: checkLimit_def Let_def split: prod.splits if_splits)

text \<open>The number of requests \<open>checkLimit\<close> admits for a key, one request per environment.\<close>

fun admitted_requests :: "lib \<Rightarrow> ServerConfig \<Rightarrow> string \<Rightarrow> RateLimitType \<Rightarrow> env list \<Rightarrow>
    RateLimiter \<times> IntrusionDetector \<times> AuditLogger \<times> Database \<Rightarrow> nat" where
  "admitted_requests L cfg key ty [] st = 0"
| "admitted_requests L cfg key ty (E # Es) st =
     (let (r, st') = checkLimit L cfg E key ty 1 st
      in (if r = RL_ALLOWED then 1 else 0) + admitted_requests L cfg key ty Es st')"

lemma admitted_requests_bucket:
  assumes "fmlookup (fst st) key = Some b"
  shows "admitted_requests L cfg key ty Es st = admitted (map steady Es) b"
  using assms
proof (induction Es arbitrary: st b)
  case (Cons E Es)
  obtain rl ids where st: "st = (rl, ids)" by (cases st)
  have b: "bucket_of cfg E key ty rl = b" using Cons.prems by (simp add: st bucket_of_def)
  obtain r st' where run: "checkLimit L cfg E key ty 1 st = (r, st')" by (cases "checkLimit L cfg E key ty 1 st")
  obtain ok b' where c: "consume (steady E) 1 b = (ok, b')" by (cases "consume (steady E) 1 b")
  have "r = (if ok then RL_ALLOWED else RATE_LIMITED)" "fst st' = fmupd key b' rl"
    using checkLimit_consume [of L cfg E key ty 1 rl ids] run by (simp_all add: st b c)
  with Cons.IH [of st' b'] run c show ?case by simp
qed simp

lemma admitted_requests_first:
  assumes "fmlookup (fst st) key = None" "Es \<noteq> []"
  shows "admitted_requests L cfg key ty Es st =
    admitted (map steady Es) (bucket_of cfg (hd Es) key ty (fst st))"
proof (cases Es)
  case (Cons E Es')
  obtain rl ids where st: "st = (rl, ids)" by (cases st)
  obtain r st' where run: "checkLimit L cfg E key ty 1 st = (r, st')" by (cases "checkLimit L cfg E key ty 1 st")
  let ?b = "bucket_of cfg E key ty rl"
  obtain ok b' where c: "consume (steady E) 1 ?b = (ok, b')" by (cases "consume (steady E) 1 ?b")
  have "r = (if ok then RL_ALLOWED else RATE_LIMITED)" "fst st' = fmupd key b' rl"
    using checkLimit_consume [of L cfg E key ty 1 rl ids] run by (simp_all add: st c)
  then show ?thesis
    using run c admitted_requests_bucket [of st' key b'] by (simp add: Cons st)
qed (use assms(2) in simp)

lemma burst_bounds:
  fixes rate :: real
  shows "rate \<le> max 1 (fl (rate * 2))" "max 1 (fl (rate * 2)) \<le> max 1 (2 * rate) * (1 + 1 / 2 ^ 52)"
proof -
  have e: "\<bar>fl (rate * 2) - rate * 2\<bar> \<le> \<bar>rate * 2\<bar> / 2 ^ 53 + least_value / 2" by (rule fl_error)
  show "rate \<le> max 1 (fl (rate * 2))" using e tiny by (cases "rate \<le> 1") (auto simp: max_def abs_if split: if_splits)
  have "fl (rate * 2) \<le> max 1 (2 * rate) * (1 + 1 / 2 ^ 52)"
  proof (cases "rate \<le> 0")
    case True
    then have "fl (rate * 2) \<le> 0" by (intro fl_sign) simp
    also have "0 \<le> max 1 (2 * rate) * (1 + 1 / 2 ^ 52)" by (intro mult_nonneg_nonneg) simp_all
    finally show ?thesis .
  next
    case False
    then show ?thesis using fl_le [of "rate * 2"] tiny by (auto simp: max_def field_simps)
  qed
  then show "max 1 (fl (rate * 2)) \<le> max 1 (2 * rate) * (1 + 1 / 2 ^ 52)"
    by (auto simp: max_def intro: order_trans)
qed

lemma rounded_bound:
  fixes rate :: real
  assumes "0 \<le> secs"
  shows "max 1 (fl (rate * 2)) + max 0 rate * secs * (1 + 1 / 2 ^ 51) + real n * max 1 (fl (rate * 2)) / 2 ^ 51 \<le>
    (max 1 (2 * rate) + max 0 rate * secs) * (1 + 1 / 2 ^ 50) + real n * max 1 (2 * rate) / 2 ^ 50"
proof -
  define m burst q where "m = max 1 (fl (rate * 2))" and "burst = max 1 (2 * rate)" and "q = max 0 rate * secs"
  define w where "w = real n * burst"
  have m: "m \<le> burst + burst / 2 ^ 52" using burst_bounds(2) [of rate] by (simp add: m_def burst_def algebra_simps)
  have nonneg: "1 \<le> burst" "0 \<le> q" "0 \<le> w" using assms by (simp_all add: burst_def q_def w_def)
  define v where "v = real n * m"
  have "v \<le> real n * (burst + burst / 2 ^ 52)" unfolding v_def using m by (intro mult_left_mono) simp_all
  then have "v \<le> w + w / 2 ^ 52" by (simp add: w_def algebra_simps)
  then have "m + (q + q / 2 ^ 51) + v / 2 ^ 51 \<le> (burst + q) + (burst + q) / 2 ^ 50 + w / 2 ^ 50"
    using m nonneg unfolding powers_of_2 by argo
  then show ?thesis unfolding m_def [symmetric] burst_def [symmetric] q_def [symmetric] w_def [symmetric] v_def [symmetric]
      powers_of_2 by argo
qed

text \<open>
  C26: the limiter's bound, with the rounding of its doubles. Of the requests made under a new key at
  non-decreasing times, it admits at most the burst, twice the configured rate but at least one, plus
  the rate times the seconds that passed, up to a relative error of \<open>2^-50\<close> and to \<open>2^-50\<close> of the burst
  for each request. A rate that is configured negative counts as zero: it admits the burst of one.
\<close>

theorem rate_limit_bound:
  assumes "fmlookup rl key = None" "sorted (map steady (E # Es))" "rate = getDefaultRate cfg ty"
    and "secs = of_int (steady (last (E # Es)) - steady E) / 10 ^ 9"
  shows "real (admitted_requests L cfg key ty (E # Es) (rl, ids)) \<le>
    (max 1 (2 * rate) + max 0 rate * secs) * (1 + 1 / 2 ^ 50) +
    real (length (E # Es)) * max 1 (2 * rate) / 2 ^ 50"
proof -
  let ?b = "bucket_of cfg E key ty rl" and ?n = "length (E # Es)" and ?m = "max 1 (fl (rate * 2))"
  have b: "?b = TokenBucket_new (steady E) (fl (rate * 2)) rate"
    using assms(1,3) by (simp add: bucket_of_def Let_def)
  have "admitted_requests L cfg key ty (E # Es) (rl, ids) = admitted (map steady (E # Es)) ?b"
    using admitted_requests_first [of "(rl, ids)" key "E # Es" L cfg ty] assms(1) by simp
  also have "real \<dots> \<le> max 0 (tokens ?b) +
      refill (refill_rate ?b) (last (last_refill ?b # map steady (E # Es)) - last_refill ?b) * (1 + 1 / 2 ^ 51) +
      real (length (map steady (E # Es))) * slack (max_tokens ?b)"
    using burst_bounds(1) [of rate] assms(2) by (intro admitted_potential) (auto simp: b TokenBucket_new_def)
  also have "\<dots> = ?m + max 0 rate * secs * (1 + 1 / 2 ^ 51) + real ?n * ?m / 2 ^ 51"
    by (simp add: b TokenBucket_new_def refill_def slack_def assms(4) last_map)
  also have "\<dots> \<le> (max 1 (2 * rate) + max 0 rate * secs) * (1 + 1 / 2 ^ 50) + real ?n * max 1 (2 * rate) / 2 ^ 50"
    using assms(2) by (intro rounded_bound) (auto simp: assms(4) last_map simp del: map_map)
  finally show ?thesis .
qed

theorem rate_limit_bound_witness:
  "admitted_requests plain_lib ServerConfig_default ''fd_7'' MSG_CHAT
     [plain_env, plain_env\<lparr>steady := 10 ^ 9\<rparr>] (fmempty, IntrusionDetector_init, AuditLogger_init, opened) \<le> 30"
proof -
  have r: "getDefaultRate ServerConfig_default MSG_CHAT = 10" by (simp add: getDefaultRate_def ServerConfig_default_def)
  have "real (admitted_requests plain_lib ServerConfig_default ''fd_7'' MSG_CHAT
     [plain_env, plain_env\<lparr>steady := 10 ^ 9\<rparr>] (fmempty, IntrusionDetector_init, AuditLogger_init, opened)) < 31"
    using rate_limit_bound [of fmempty "''fd_7''" plain_env "[plain_env\<lparr>steady := 10 ^ 9\<rparr>]" _ ServerConfig_default MSG_CHAT
        _ plain_lib "(IntrusionDetector_init, AuditLogger_init, opened)", OF _ _ refl refl]
    by (simp add: r plain_env_def)
  then show ?thesis by linarith
qed

lemma checkLimit_other:
  assumes "key \<noteq> a" "records_ok d"
  shows "same_for a d (fst (snd (snd (checkLimit L cfg E key ty cost (rl, d, al))))) \<and>
    records_ok (fst (snd (snd (checkLimit L cfg E key ty cost (rl, d, al)))))"
proof -
  obtain ok b where c: "consume (steady E) cost (bucket_of cfg E key ty rl) = (ok, b)" by force
  have d: "fst (snd (snd (checkLimit L cfg E key ty cost (rl, d, al)))) =
      (if ok \<or> \<not> bucket_violations b \<ge> 4 then d
       else fst (reportViolation L E key RATE_LIMIT_EXCEEDED (-1) (d, al)))"
    by (auto simp: checkLimit_def c Let_def split: prod.splits)
  show ?thesis unfolding d
    using reportViolation_other [of key a "(d, al)"] assms by (auto simp: same_for_def)
qed

text \<open>
  Exceeding the connection rate is charged to the limiter's key, \<open>''ip_''\<close> followed by the
  address, and never to the address itself: however often an address is limited, whether
  \<open>checkIP\<close> admits it does not change.
\<close>

theorem rate_violations_not_charged_to_address:
  assumes "records_ok d"
  shows "fst (checkIP E' a (fst (snd (fold (\<lambda>E st. snd (checkLimit L cfg E (''ip_'' @ a) RL_CONNECT 1 st))
      Es (rl, d, al))))) = fst (checkIP E' a d)"
proof -
  have "records_ok d \<Longrightarrow> same_for a d (fst (snd (fold (\<lambda>E st. snd (checkLimit L cfg E (''ip_'' @ a) RL_CONNECT 1 st))
      Es (rl, d, al))))" for d rl al
  proof (induction Es arbitrary: rl d al)
    case (Cons E Es)
    obtain rl' d' al' where run: "snd (checkLimit L cfg E (''ip_'' @ a) RL_CONNECT 1 (rl, d, al)) = (rl', d', al')"
      by (cases "snd (checkLimit L cfg E (''ip_'' @ a) RL_CONNECT 1 (rl, d, al))")
    have "''ip_'' @ a \<noteq> a" by simp
    from checkLimit_other [OF this Cons.prems] have "same_for a d d'" "records_ok d'"
      using run by (metis fst_conv snd_conv)+
    with Cons.IH [of d' rl' al'] run show ?case by (simp add: same_for_def)
  qed (simp add: same_for_def)
  with assms show ?thesis by (blast intro: same_for_checkIP)
qed

theorem rate_violations_not_charged_to_address_witness:
  "fst (checkIP plain_env ''4.4.4.4'' (fst (snd (fold
     (\<lambda>E st. snd (checkLimit plain_lib ServerConfig_default E (''ip_'' @ ''4.4.4.4'') RL_CONNECT 1 st))
     (replicate 1000 plain_env) (fmempty, IntrusionDetector_init, AuditLogger_init, opened))))) = ALLOWED"
proof -
  have "records_ok IntrusionDetector_init" by (simp add: records_ok_def IntrusionDetector_init_def)
  moreover have "fst (checkIP plain_env ''4.4.4.4'' IntrusionDetector_init) = ALLOWED"
    by (simp add: checkIP_def IntrusionDetector_init_def Let_def)
  ultimately show ?thesis by (simp only: rate_violations_not_charged_to_address)
qed

end
