(* ===== verification/Token.thy ===== *)
theory Token
  imports Store Interfaces
begin

text \<open>
  Session tokens, \<open>server/security/SessionToken.cpp\<close>: base64url coding, signing, validation and
  revocation. Base64 itself, JSON text and HMAC are library functions.
\<close>

datatype Role = GUEST | USER | ADMIN | OWNER

fun roleToString :: "Role \<Rightarrow> string" where
  "roleToString OWNER = ''OWNER''"
| "roleToString ADMIN = ''ADMIN''"
| "roleToString USER = ''USER''"
| "roleToString GUEST = ''GUEST''"

definition stringToRole :: "string \<Rightarrow> Role" where
  "stringToRole s = (if s = ''OWNER'' then OWNER else if s = ''ADMIN'' then ADMIN
     else if s = ''USER'' then USER else GUEST)"

lemma stringToRole_roleToString [simp, codec_simps]: "stringToRole (roleToString r) = r"
  by (cases r) (simp_all add: stringToRole_def)

definition SESSION_LIFETIME_SEC :: int where "SESSION_LIFETIME_SEC = 3600"

record Claims =
  sub :: string
  role :: Role
  iat :: time
  exp :: time
  jti :: string
  valid :: bool
  expired :: bool

definition no_claims :: Claims where
  "no_claims = \<lparr>sub = [], role = GUEST, iat = 0, exp = 0, jti = [], valid = False, expired = False\<rparr>"

record SessionToken =
  secret_key :: bytes
  blacklist :: "string fset"

definition SessionToken_new :: "bytes \<Rightarrow> crypto_error + SessionToken" where
  "SessionToken_new key = (if length key < 32 then Inl InvalidKeySize
     else Inr \<lparr>secret_key = key, blacklist = {||}\<rparr>)"

definition to_url :: "char \<Rightarrow> char" where
  "to_url c = (if c = CHR ''+'' then CHR ''-'' else if c = CHR ''/'' then CHR ''_'' else c)"

definition of_url :: "char \<Rightarrow> char" where
  "of_url c = (if c = CHR ''-'' then CHR ''+'' else if c = CHR ''_'' then CHR ''/'' else c)"

definition base64urlEncode :: "lib \<Rightarrow> bytes \<Rightarrow> string" where
  "base64urlEncode L data = filter (\<lambda>c. c \<noteq> CHR ''='') (map to_url (base64_encode L data))"

definition add_padding :: "string \<Rightarrow> string" where
  "add_padding s = s @ replicate ((4 - length s mod 4) mod 4) (CHR ''='')"

definition base64urlDecode :: "lib \<Rightarrow> string \<Rightarrow> crypto_error + bytes" where
  "base64urlDecode L encoded =
     (case base64_decode L (add_padding (map of_url encoded)) of
        None \<Rightarrow> Inl Base64Failed | Some b \<Rightarrow> Inr b)"

definition generateJTI :: "env \<Rightarrow> string" where
  "generateJTI E = bytesToHex (rand_bytes E 16)"

definition header_json :: json where
  "header_json = json_object [(''alg'', JStr ''HMAC-SHA256''), (''typ'', JStr ''VCS-SESSION'')]"

definition payload_json :: "env \<Rightarrow> string \<Rightarrow> Role \<Rightarrow> json" where
  "payload_json E nickname r = json_object
     [(''sub'', JStr nickname), (''iat'', JInt (int64_of (now E))),
      (''exp'', JInt (int64_of (now E + SESSION_LIFETIME_SEC))), (''jti'', JStr (generateJTI E)),
      (''role'', JStr (roleToString r))]"

definition signing_input_of :: "lib \<Rightarrow> env \<Rightarrow> string \<Rightarrow> Role \<Rightarrow> string" where
  "signing_input_of L E nickname r =
     base64urlEncode L (bytes_of_string (json_dump header_json)) @ ''.''
     @ base64urlEncode L (bytes_of_string (json_dump (payload_json E nickname r)))"

definition generate :: "lib \<Rightarrow> env \<Rightarrow> SessionToken \<Rightarrow> string \<Rightarrow> Role \<Rightarrow> string" where
  "generate L E tm nickname r =
     (let signing_input = signing_input_of L E nickname r;
          sig_bytes = hmac_sha256 L (bytes_of_string signing_input) (secret_key tm)
      in signing_input @ ''.'' @ base64urlEncode L sig_bytes)"

text \<open>The three parts of a token: up to the first dot, up to the second, and the rest.\<close>

definition split_token :: "string \<Rightarrow> (string \<times> string \<times> string) option" where
  "split_token t =
     (case find_char (CHR ''.'') t of None \<Rightarrow> None | Some dot1 \<Rightarrow>
      (case find_char_from (CHR ''.'') t (dot1 + 1) of None \<Rightarrow> None | Some dot2 \<Rightarrow>
       Some (take dot1 t, take (dot2 - dot1 - 1) (drop (dot1 + 1) t), drop (dot2 + 1) t)))"

definition isRevoked :: "SessionToken \<Rightarrow> string \<Rightarrow> bool" where
  "isRevoked tm j \<longleftrightarrow> j |\<in>| blacklist tm"

text \<open>
  The fields of the payload in the order of the source; a missing or ill-typed field makes the
  token invalid and keeps the fields read before it.
\<close>

definition read_claims :: "json \<Rightarrow> Claims \<Rightarrow> bool \<times> Claims" where
  "read_claims p c0 =
     (case bind_sum (json_at p ''sub'') get_string of Inl _ \<Rightarrow> (False, c0) | Inr s \<Rightarrow>
      let c1 = c0\<lparr>sub := s\<rparr> in
      (case bind_sum (json_at p ''role'') get_string of Inl _ \<Rightarrow> (False, c1) | Inr r \<Rightarrow>
       let c2 = c1\<lparr>role := stringToRole r\<rparr> in
       (case bind_sum (json_at p ''iat'') get_i64 of Inl _ \<Rightarrow> (False, c2) | Inr i \<Rightarrow>
        let c3 = c2\<lparr>iat := i\<rparr> in
        (case bind_sum (json_at p ''exp'') get_i64 of Inl _ \<Rightarrow> (False, c3) | Inr x \<Rightarrow>
         let c4 = c3\<lparr>exp := x\<rparr> in
         (case bind_sum (json_at p ''jti'') get_string of Inl _ \<Rightarrow> (False, c4) | Inr j \<Rightarrow>
          (True, c4\<lparr>jti := j\<rparr>))))))"

definition decode_payload :: "lib \<Rightarrow> string \<Rightarrow> json option" where
  "decode_payload L payload_b64 =
     (case base64urlDecode L payload_b64 of
        Inl _ \<Rightarrow> None | Inr b \<Rightarrow> json_parse (string_of_bytes b))"

definition validate :: "lib \<Rightarrow> env \<Rightarrow> SessionToken \<Rightarrow> string \<Rightarrow> Claims" where
  "validate L E tm token_string =
     (case split_token token_string of None \<Rightarrow> no_claims | Some (header_b64, payload_b64, sig_b64) \<Rightarrow>
      let signing_input = header_b64 @ ''.'' @ payload_b64 in
      (case base64urlDecode L sig_b64 of Inl _ \<Rightarrow> no_claims | Inr provided_sig \<Rightarrow>
       if \<not> hmac_verify L (bytes_of_string signing_input) (secret_key tm) provided_sig then no_claims
       else
         (case decode_payload L payload_b64 of None \<Rightarrow> no_claims | Some p \<Rightarrow>
          (case read_claims p no_claims of
             (False, c) \<Rightarrow> c
           | (True, c) \<Rightarrow>
               if now E > exp c then c\<lparr>expired := True\<rparr>
               else if isRevoked tm (jti c) then c
               else c\<lparr>valid := True\<rparr>))))"

definition token_revoke :: "lib \<Rightarrow> string \<Rightarrow> SessionToken \<Rightarrow> SessionToken" where
  "token_revoke L token_string tm =
     (case split_token token_string of None \<Rightarrow> tm | Some (header_b64, payload_b64, sig_b64) \<Rightarrow>
      (case decode_payload L payload_b64 of None \<Rightarrow> tm | Some p \<Rightarrow>
       (case bind_sum (json_at p ''jti'') get_string of
          Inl _ \<Rightarrow> tm
        | Inr j \<Rightarrow> tm\<lparr>blacklist := finsert j (blacklist tm)\<rparr>)))"

section \<open>Round trips\<close>

text \<open>
  What base64 promises on given data: characters of its alphabet, padding at the end up to a
  multiple of four, and that decoding undoes encoding.
\<close>

definition base64_char :: "char \<Rightarrow> bool" where
  "base64_char c \<longleftrightarrow> (let n = of_char c :: nat in
     48 \<le> n \<and> n \<le> 57 \<or> 65 \<le> n \<and> n \<le> 90 \<or> 97 \<le> n \<and> n \<le> 122 \<or> n = 43 \<or> n = 47)"

definition base64_ok :: "lib \<Rightarrow> bytes \<Rightarrow> bool" where
  "base64_ok L data \<longleftrightarrow>
     (let e = base64_encode L data; s = takeWhile (\<lambda>c. c \<noteq> CHR ''='') e in
      list_all base64_char s \<and> e = add_padding s \<and> base64_decode L e = Some data)"

lemma base64_char_special:
  "base64_char c \<Longrightarrow> c \<noteq> CHR ''.'' \<and> c \<noteq> CHR ''='' \<and> c \<noteq> CHR ''-'' \<and> c \<noteq> CHR ''_''"
  by (auto simp: base64_char_def)

lemma of_url_to_url: "base64_char c \<Longrightarrow> of_url (to_url c) = c"
  using base64_char_special [of c] by (auto simp: of_url_def to_url_def)

lemma to_url_special: "base64_char c \<Longrightarrow> to_url c \<noteq> CHR ''.'' \<and> to_url c \<noteq> CHR ''=''"
  using base64_char_special [of c] by (auto simp: to_url_def)

lemma base64url_shape:
  assumes "base64_ok L data"
  obtains s where "list_all base64_char s" "base64_encode L data = add_padding s"
    "base64urlEncode L data = map to_url s" "base64_decode L (add_padding s) = Some data"
proof -
  define s where "s = takeWhile (\<lambda>c. c \<noteq> CHR ''='') (base64_encode L data)"
  have s1: "list_all base64_char s" and s2: "base64_encode L data = add_padding s"
    and dec: "base64_decode L (base64_encode L data) = Some data"
    using assms unfolding base64_ok_def Let_def s_def by blast+
  have s3: "base64_decode L (add_padding s) = Some data" using dec by (simp only: s2)
  have "to_url (CHR ''='') = CHR ''=''" by (simp add: to_url_def)
  moreover have "filter (\<lambda>c. c \<noteq> CHR ''='') (map to_url s) = map to_url s"
    using s1 to_url_special by (auto simp: filter_id_conv list_all_iff)
  ultimately have "base64urlEncode L data = map to_url s"
    unfolding base64urlEncode_def s2 by (simp add: add_padding_def)
  from that [OF s1 s2 this s3] show thesis .
qed

lemma base64url_roundtrip:
  assumes "base64_ok L data"
  shows "base64urlDecode L (base64urlEncode L data) = Inr data"
proof -
  obtain s where s: "list_all base64_char s" "base64urlEncode L data = map to_url s"
    "base64_decode L (add_padding s) = Some data"
    using base64url_shape [OF assms] by metis
  have "map of_url (map to_url s) = s"
    using s(1) by (auto simp: list_all_iff of_url_to_url intro: map_idI)
  then show ?thesis using s by (simp add: base64urlDecode_def)
qed

lemma base64url_no_dot:
  assumes "base64_ok L data"
  shows "CHR ''.'' \<notin> set (base64urlEncode L data)"
proof -
  obtain s where s: "list_all base64_char s" "base64urlEncode L data = map to_url s"
    using base64url_shape [OF assms] by metis
  have "CHR ''.'' \<noteq> to_url c" if "c \<in> set s" for c
    using that s(1) to_url_special [of c] by (auto simp: list_all_iff)
  then show ?thesis unfolding s(2) set_map by (auto simp: image_iff)
qed

lemma base64url_ascii:
  assumes "base64_ok L data"
  shows "utf8_ok (base64urlEncode L data)"
proof -
  obtain s where s: "list_all base64_char s" "base64urlEncode L data = map to_url s"
    using base64url_shape [OF assms] by metis
  have "base64_char c \<Longrightarrow> code_of (to_url c) < 0x80" for c
    by (auto simp: base64_char_def to_url_def Let_def)
  with s show ?thesis by (intro utf8_ok_ascii) (auto simp: list_all_iff)
qed

lemma split_token_join:
  assumes "CHR ''.'' \<notin> set a" "CHR ''.'' \<notin> set b"
  shows "split_token (a @ ''.'' @ b @ ''.'' @ c) = Some (a, b, c)"
proof -
  have "find_char (CHR ''.'') (a @ ''.'' @ b @ ''.'' @ c) = Some (length a)"
    using find_char_append [OF assms(1)] by simp
  moreover have "find_char_from (CHR ''.'') (a @ ''.'' @ b @ ''.'' @ c) (length a + 1) =
      Some (length a + 1 + length b)"
    using find_char_append [OF assms(2), of c] by (simp add: find_char_from_def)
  ultimately show ?thesis by (simp add: split_token_def)
qed

text \<open>The library works on the texts and bytes of the token made for a user at a time.\<close>

definition token_lib_ok :: "lib \<Rightarrow> env \<Rightarrow> SessionToken \<Rightarrow> string \<Rightarrow> Role \<Rightarrow> bool" where
  "token_lib_ok L E tm nickname r \<longleftrightarrow>
     base64_ok L (bytes_of_string (json_dump header_json)) \<and>
     base64_ok L (bytes_of_string (json_dump (payload_json E nickname r))) \<and>
     base64_ok L (hmac_sha256 L (bytes_of_string (signing_input_of L E nickname r)) (secret_key tm)) \<and>
     utf8_ok nickname"

lemma json_ok_int64 [simp]: "json_ok (JInt (int64_of i))"
proof -
  have "- (2 ^ 63) \<le> signed_take_bit 63 i" "signed_take_bit 63 i < 2 ^ 63"
    using signed_take_bit_int_greater_eq_minus_exp [of 63 i] signed_take_bit_int_less_exp [of 63 i]
    by simp_all
  then show ?thesis by (simp add: int64_of_def)
qed

lemma utf8_ok_roleToString [simp]: "utf8_ok (roleToString r)"
  by (cases r) simp_all

lemma json_ok_payload: "utf8_ok nickname \<Longrightarrow> json_ok (payload_json E nickname r)"
  by (simp add: payload_json_def json_object_def generateJTI_def del: json_ok.simps(3))

definition time_ok :: "time \<Rightarrow> bool" where
  "time_ok t \<longleftrightarrow> 0 \<le> t \<and> t < 2 ^ 62"

lemma int64_of_time: "time_ok t \<Longrightarrow> int64_of t = t \<and> int64_of (t + SESSION_LIFETIME_SEC) = t + SESSION_LIFETIME_SEC"
  by (simp add: time_ok_def int64_of_def SESSION_LIFETIME_SEC_def signed_take_bit_int_eq_self)

lemma int64_of_idem [simp]: "int64_of (int64_of i) = int64_of i"
  by (simp add: int64_of_def)

lemma read_payload_json:
  "read_claims (payload_json E nickname r) c0 =
     (True, c0\<lparr>sub := nickname, role := r, iat := int64_of (now E),
        exp := int64_of (now E + SESSION_LIFETIME_SEC), jti := generateJTI E\<rparr>)"
  by (simp add: read_claims_def payload_json_def json_object_def Let_def)

lemma validate_generate:
  assumes "token_lib_ok L E tm nickname r" "secret_key tm' = secret_key tm"
  shows "validate L E' tm' (generate L E tm nickname r) =
    (let c = no_claims\<lparr>sub := nickname, role := r, iat := int64_of (now E),
          exp := int64_of (now E + SESSION_LIFETIME_SEC), jti := generateJTI E\<rparr>
     in if now E' > exp c then c\<lparr>expired := True\<rparr>
        else if isRevoked tm' (jti c) then c else c\<lparr>valid := True\<rparr>)"
proof -
  let ?h = "base64urlEncode L (bytes_of_string (json_dump header_json))"
  let ?p = "base64urlEncode L (bytes_of_string (json_dump (payload_json E nickname r)))"
  let ?sig = "hmac_sha256 L (bytes_of_string (signing_input_of L E nickname r)) (secret_key tm)"
  have ok: "base64_ok L (bytes_of_string (json_dump header_json))"
    "base64_ok L (bytes_of_string (json_dump (payload_json E nickname r)))" "base64_ok L ?sig"
    and parse: "json_parse (json_dump (payload_json E nickname r)) = Some (payload_json E nickname r)"
    using assms(1) by (simp_all add: token_lib_ok_def json_ok_payload)
  have "generate L E tm nickname r = ?h @ ''.'' @ ?p @ ''.'' @ base64urlEncode L ?sig"
    by (simp add: generate_def Let_def signing_input_of_def)
  then have split: "split_token (generate L E tm nickname r) = Some (?h, ?p, base64urlEncode L ?sig)"
    using split_token_join base64url_no_dot ok(1,2) by simp
  have si: "?h @ ''.'' @ ?p = signing_input_of L E nickname r"
    by (simp add: signing_input_of_def)
  have "decode_payload L ?p = Some (payload_json E nickname r)"
    by (simp add: decode_payload_def base64url_roundtrip [OF ok(2)] parse)
  then show ?thesis
    unfolding validate_def split option.case prod.case si
    by (simp add: base64url_roundtrip [OF ok(3)] hmac_verify_def assms(2) read_payload_json Let_def)
qed

text \<open>
  C19: a token made for a user is accepted with the user's name and role by every manager with
  the same key, from its issue until it expires an hour later, unless it was revoked; after that
  it is reported as expired.
\<close>

theorem validate_generated_token:
  assumes "token_lib_ok L E tm nickname r" "secret_key tm' = secret_key tm" "time_ok (now E)"
  shows "(valid (validate L E' tm' (generate L E tm nickname r)) \<longleftrightarrow>
            now E' \<le> now E + 3600 \<and> \<not> isRevoked tm' (generateJTI E)) \<and>
         (expired (validate L E' tm' (generate L E tm nickname r)) \<longleftrightarrow> now E' > now E + 3600) \<and>
         sub (validate L E' tm' (generate L E tm nickname r)) = nickname \<and>
         role (validate L E' tm' (generate L E tm nickname r)) = r"
  using int64_of_time [OF assms(3)]
  by (auto simp: validate_generate [OF assms(1,2)] no_claims_def SESSION_LIFETIME_SEC_def Let_def)

text \<open>A library on which the hypotheses hold: base64 that writes four characters per byte.\<close>

fun unhex4 :: "string \<Rightarrow> bytes" where
  "unhex4 (a # b # h # l # s) = read_hex2 h l # unhex4 s"
| "unhex4 s = []"

definition token_lib :: lib where
  "token_lib = plain_lib\<lparr>
     hmac_sha256 := (\<lambda>d k. k),
     base64_encode := (\<lambda>b. concat (map (\<lambda>x. ''AA'' @ byte_hex x) b)),
     base64_decode := (\<lambda>s. Some (unhex4 s))\<rparr>"

lemma token_lib_base64: "base64_ok token_lib b"
proof -
  have h: "base64_char (hex_digit d)" "hex_digit d \<noteq> CHR ''=''" if "d < 16" for d
    using that by (auto simp: base64_char_def hex_digit_def Let_def char_code_iff)
  let ?e = "concat (map (\<lambda>x. ''AA'' @ byte_hex x) b)"
  have d: "unat x div 16 < 16" for x :: byte using unsigned_less [of x, where ?'a = nat] by simp
  have c: "\<forall>c \<in> set ?e. base64_char c \<and> c \<noteq> CHR ''=''"
    using h d by (auto simp: byte_hex_def base64_char_def)
  have "takeWhile (\<lambda>c. c \<noteq> CHR ''='') ?e = ?e" using c by (simp only: takeWhile_eq_all_conv) blast
  moreover have "list_all base64_char ?e" using c by (simp add: list_all_iff)
  moreover have "length ?e mod 4 = 0" by (induction b) (simp_all add: byte_hex_def)
  moreover have "unhex4 ?e = b" by (induction b) (simp_all add: byte_hex_def)
  moreover have "base64_encode token_lib b = ?e" "base64_decode token_lib ?e = Some (unhex4 ?e)"
    by (simp_all add: token_lib_def)
  ultimately show ?thesis unfolding base64_ok_def Let_def by (simp only: add_padding_def) simp
qed

definition sample_tm :: SessionToken where
  "sample_tm = \<lparr>secret_key = [7], blacklist = {||}\<rparr>"

lemma token_lib_ok_sample: "utf8_ok n \<Longrightarrow> token_lib_ok token_lib E sample_tm n r"
  by (simp add: token_lib_ok_def token_lib_base64)

lemma token_lib_ascii: "utf8_ok (generate token_lib E tm n r)"
  by (simp add: generate_def signing_input_of_def Let_def base64url_ascii [OF token_lib_base64])

lemma alice_token_ok: "token_lib_ok token_lib E sample_tm ''alice'' r"
  by (rule token_lib_ok_sample) simp

theorem validate_generated_token_witness:
  "sub (validate token_lib (plain_env\<lparr>now := 4600\<rparr>) sample_tm
      (generate token_lib plain_env sample_tm ''alice'' USER)) = ''alice'' \<and>
   valid (validate token_lib (plain_env\<lparr>now := 4600\<rparr>) sample_tm
      (generate token_lib plain_env sample_tm ''alice'' USER)) \<and>
   expired (validate token_lib (plain_env\<lparr>now := 4601\<rparr>) sample_tm
      (generate token_lib plain_env sample_tm ''alice'' USER))"
  using validate_generated_token [of token_lib plain_env sample_tm "''alice''"
      USER sample_tm "plain_env\<lparr>now := 4600\<rparr>", OF alice_token_ok]
    validate_generated_token [of token_lib plain_env sample_tm "''alice''"
      USER sample_tm "plain_env\<lparr>now := 4601\<rparr>", OF alice_token_ok]
  by (simp add: plain_env_def time_ok_def isRevoked_def sample_tm_def)

lemma validate_validD:
  assumes "valid (validate L E tm t)"
  shows "\<exists>h p sg. split_token t = Some (h, p, sg) \<and>
    base64urlDecode L sg = Inr (hmac_sha256 L (bytes_of_string (h @ ''.'' @ p)) (secret_key tm)) \<and>
    (\<exists>j. decode_payload L p = Some j \<and>
       bind_sum (json_at j ''sub'') get_string = Inr (sub (validate L E tm t)) \<and>
       bind_sum (json_at j ''jti'') get_string = Inr (jti (validate L E tm t)) \<and>
       bind_sum (json_at j ''exp'') get_i64 = Inr (exp (validate L E tm t))) \<and>
    now E \<le> exp (validate L E tm t) \<and> \<not> isRevoked tm (jti (validate L E tm t))"
proof -
  obtain h p sg where sp: "split_token t = Some (h, p, sg)"
    using assms by (auto simp: validate_def no_claims_def split: option.splits)
  obtain s where s: "base64urlDecode L sg = Inr s"
    using assms by (auto simp: validate_def no_claims_def sp Let_def split: sum.splits)
  have v: "hmac_verify L (bytes_of_string (h @ ''.'' @ p)) (secret_key tm) s"
    using assms by (auto simp: validate_def no_claims_def sp s Let_def split: if_splits)
  obtain j where j: "decode_payload L p = Some j"
    using assms v by (auto simp: validate_def no_claims_def sp s Let_def split: option.splits)
  obtain b c where rc: "read_claims j no_claims = (b, c)" by force
  have nv: "\<not> valid c" "b \<Longrightarrow> bind_sum (json_at j ''sub'') get_string = Inr (sub c) \<and>
      bind_sum (json_at j ''jti'') get_string = Inr (jti c) \<and>
      bind_sum (json_at j ''exp'') get_i64 = Inr (exp c)"
    using rc by (auto simp: read_claims_def no_claims_def Let_def split: sum.splits)
  have val: "validate L E tm t = (if \<not> b then c else if now E > exp c then c\<lparr>expired := True\<rparr>
      else if isRevoked tm (jti c) then c else c\<lparr>valid := True\<rparr>)"
    using v by (simp add: validate_def sp s j rc Let_def split: bool.splits)
  show ?thesis
    using assms nv v by (auto simp: val sp s j hmac_verify_def split: if_splits)
qed

text \<open>
  C21: a token is accepted only if its third part decodes to the HMAC of the first two under the
  manager's key, its payload names a user, its expiry has not passed, and its identifier is not
  on the black list.
\<close>

theorem valid_token_is_signed:
  assumes "valid (validate L E tm t)"
  shows "\<exists>h p sg. split_token t = Some (h, p, sg) \<and>
    base64urlDecode L sg = Inr (hmac_sha256 L (bytes_of_string (h @ ''.'' @ p)) (secret_key tm)) \<and>
    (\<exists>j. decode_payload L p = Some j \<and>
       bind_sum (json_at j ''sub'') get_string = Inr (sub (validate L E tm t)) \<and>
       bind_sum (json_at j ''jti'') get_string = Inr (jti (validate L E tm t)) \<and>
       bind_sum (json_at j ''exp'') get_i64 = Inr (exp (validate L E tm t))) \<and>
    now E \<le> exp (validate L E tm t) \<and> \<not> isRevoked tm (jti (validate L E tm t))"
  using assms by (rule validate_validD)

theorem valid_token_is_signed_witness:
  "\<exists>h p sg. split_token (generate token_lib plain_env sample_tm ''alice'' USER)
      = Some (h, p, sg) \<and>
    base64urlDecode token_lib sg =
      Inr (hmac_sha256 token_lib (bytes_of_string (h @ ''.'' @ p)) [7])"
proof -
  have "valid (validate token_lib plain_env sample_tm
      (generate token_lib plain_env sample_tm ''alice'' USER))"
    unfolding validate_generate [OF alice_token_ok refl]
    by (simp add: plain_env_def int64_of_def SESSION_LIFETIME_SEC_def isRevoked_def
        sample_tm_def signed_take_bit_int_eq_self Let_def)
  from valid_token_is_signed [OF this] show ?thesis
    by (auto simp: sample_tm_def)
qed

section \<open>Revocation\<close>

lemma token_revoke_frame [simp, frame_simps]: "secret_key (token_revoke L t tm) = secret_key tm"
  by (simp add: token_revoke_def split: option.splits sum.splits prod.splits)

lemma token_revoke_blacklist: "blacklist tm |\<subseteq>| blacklist (token_revoke L t tm)"
  by (auto simp: token_revoke_def split: option.splits sum.splits prod.splits)

lemma token_revoke_inserts:
  "split_token t = Some (h, p, sg) \<Longrightarrow> decode_payload L p = Some j \<Longrightarrow>
   bind_sum (json_at j ''jti'') get_string = Inr x \<Longrightarrow> x |\<in>| blacklist (token_revoke L t tm)"
  by (simp add: token_revoke_def)

lemma validate_mono:
  assumes "valid (validate L E tm' t)" "secret_key tm' = secret_key tm" "blacklist tm |\<subseteq>| blacklist tm'"
  shows "valid (validate L E tm t)"
  using assms
  by (auto simp: validate_def no_claims_def isRevoked_def Let_def
      split: option.splits sum.splits prod.splits bool.splits if_splits)

lemma validate_revoked: "\<not> valid (validate L E (token_revoke L t tm) t)"
proof
  assume v: "valid (validate L E (token_revoke L t tm) t)"
  then obtain h p sg j where "split_token t = Some (h, p, sg)" "decode_payload L p = Some j"
    "bind_sum (json_at j ''jti'') get_string = Inr (jti (validate L E (token_revoke L t tm) t))"
    "\<not> isRevoked (token_revoke L t tm) (jti (validate L E (token_revoke L t tm) t))"
    using validate_validD [OF v] by blast
  moreover from this(1-3) have "jti (validate L E (token_revoke L t tm) t) |\<in>| blacklist (token_revoke L t tm)"
    by (rule token_revoke_inserts)
  ultimately show False by (simp add: isRevoked_def)
qed

interpretation tokens: revocation "\<lambda>tm t. valid (validate L E tm t)" "token_revoke L" for L E
proof
  show "\<not> valid (validate L E (token_revoke L t s) t)" for s t by (rule validate_revoked)
  show "valid (validate L E s t)" if "valid (validate L E (token_revoke L u s) t)" for s t u
    using that token_revoke_frame token_revoke_blacklist by (rule validate_mono)
qed

text \<open>
  C20: revocation is final: once a token has been revoked, no later revocations of other tokens
  and no later time make it valid again.
\<close>

theorem revoked_token_stays_invalid:
  assumes "t \<in> set ts"
  shows "\<not> valid (validate L E (fold (token_revoke L) ts tm) t)"
  using tokens.rejected_forever [OF assms] .

theorem revoked_token_stays_invalid_witness:
  "\<not> valid (validate token_lib plain_env
     (fold (token_revoke token_lib)
       [''x'', generate token_lib plain_env sample_tm ''alice'' USER, ''y'']
       sample_tm)
     (generate token_lib plain_env sample_tm ''alice'' USER))"
  by (rule revoked_token_stays_invalid) simp

end
