(* ===== verification/Auth.thy ===== *)
theory Auth
  imports Token
begin

text \<open>
  Accounts, \<open>server/security/AuthManager.cpp\<close>: registration, password authentication with lockout,
  reconnection with a token, roles, and the statements on rooms, room bans, last rooms and mutes.
  A row is keyed by its nickname as SQLite stores it (\<open>c_str\<close>).
\<close>

record AuthManager =
  token_manager :: SessionToken
  active_sessions :: "(string, fd) fmap"

definition MAX_FAILED_ATTEMPTS :: int where "MAX_FAILED_ATTEMPTS = 5"
definition LOCKOUT_SECONDS :: int where "LOCKOUT_SECONDS = 900"

section \<open>Statements on Users\<close>

definition nickname_char :: "char \<Rightarrow> bool" where
  "nickname_char c \<longleftrightarrow> (let n = of_char c :: nat in
     97 \<le> n \<and> n \<le> 122 \<or> 65 \<le> n \<and> n \<le> 90 \<or> 48 \<le> n \<and> n \<le> 57 \<or> n = 95)"

text \<open>\<open>std::regex_match\<close> against \<open>^[a-zA-Z0-9_]{3,32}$\<close>.\<close>

definition isValidNickname :: "string \<Rightarrow> bool" where
  "isValidNickname nick \<longleftrightarrow> 3 \<le> length nick \<and> length nick \<le> 32 \<and> list_all nickname_char nick"

definition user_of :: "Database \<Rightarrow> string \<Rightarrow> user_row option" where
  "user_of db nick = fmlookup (Users db) (c_str nick)"

text \<open>\<open>UPDATE Users SET ... WHERE nickname = ?\<close>.\<close>

definition update_user :: "string \<Rightarrow> (user_row \<Rightarrow> user_row) \<Rightarrow> Database \<Rightarrow> Database" where
  "update_user nick f db =
     (case user_of db nick of
        None \<Rightarrow> db | Some u \<Rightarrow> db\<lparr>Users := fmupd (c_str nick) (f u) (Users db)\<rparr>)"

definition isNicknameTaken :: "env \<Rightarrow> Database \<Rightarrow> string \<Rightarrow> bool" where
  "isNicknameTaken E db nick \<longleftrightarrow> sql_runs E SQL_SELECT_NICK \<and> user_of db nick \<noteq> None"

definition getUserRole :: "env \<Rightarrow> Database \<Rightarrow> string \<Rightarrow> Role" where
  "getUserRole E db nick =
     (if sql_runs E SQL_SELECT_ROLE
      then case user_of db nick of Some u \<Rightarrow> stringToRole (u_role u) | None \<Rightarrow> GUEST
      else GUEST)"

definition incrementFailedAttempts :: "env \<Rightarrow> string \<Rightarrow> Database \<Rightarrow> Database" where
  "incrementFailedAttempts E nick db =
     (if sql_runs E SQL_INC_FAILED
      then update_user nick (\<lambda>u. u\<lparr>u_failed_attempts := u_failed_attempts u + 1,
             u_locked_until := (if u_failed_attempts u + 1 \<ge> MAX_FAILED_ATTEMPTS
                                then now E + LOCKOUT_SECONDS else u_locked_until u)\<rparr>) db
      else db)"

definition resetFailedAttempts :: "env \<Rightarrow> string \<Rightarrow> Database \<Rightarrow> Database" where
  "resetFailedAttempts E nick db =
     (if sql_runs E SQL_RESET_FAILED
      then update_user nick (\<lambda>u. u\<lparr>u_failed_attempts := 0, u_locked_until := 0\<rparr>) db else db)"

definition isAccountLocked :: "env \<Rightarrow> Database \<Rightarrow> string \<Rightarrow> bool" where
  "isAccountLocked E db nick \<longleftrightarrow> sql_runs E SQL_SELECT_LOCKED \<and>
     (case user_of db nick of
        None \<Rightarrow> False
      | Some u \<Rightarrow> u_failed_attempts u \<ge> MAX_FAILED_ATTEMPTS \<and> now E < u_locked_until u)"

text \<open>
  \<open>INSERT INTO Users\<close>: the unique nickname makes a second row fail; the columns that are not
  named get their defaults (\<open>last_login\<close> is NULL, which no statement of the program reads).
\<close>

definition insert_user :: "env \<Rightarrow> string \<Rightarrow> string \<Rightarrow> string \<Rightarrow> string \<Rightarrow> Database \<Rightarrow> (bool \<times> Database)" where
  "insert_user E nick hash salt_hex role_str db =
     (if step_ok E SQL_INSERT_USER \<and> user_of db nick = None
      then (True, db\<lparr>Users := fmupd (c_str nick) \<lparr>u_password_hash = c_str hash, u_salt = c_str salt_hex,
              u_role = role_str, u_created_at = now E, u_last_login = 0, u_failed_attempts = 0,
              u_locked_until = 0, u_last_room = [], u_is_muted = False, u_mute_until = 0\<rparr> (Users db)\<rparr>)
      else (False, db))"

definition ensureOwnerExists :: "lib \<Rightarrow> env \<Rightarrow> Database \<Rightarrow> Database" where
  "ensureOwnerExists L E db =
     (if isNicknameTaken E db ''thanh123'' then db
      else let slt = rand_bytes E SALT_LEN;
               hash = pbkdf2 L ''thanh123'' slt;
               salt_hex = bytesToHex slt
           in if \<not> prepare_ok E SQL_INSERT_USER then db
              else snd (insert_user E ''thanh123'' hash salt_hex ''OWNER'' db))"

definition registerUser :: "lib \<Rightarrow> env \<Rightarrow> string \<Rightarrow> string \<Rightarrow> Database \<Rightarrow> ErrorCode \<times> Database" where
  "registerUser L E nick password db =
     (if \<not> isValidNickname nick then (ERR_NICKNAME_INVALID, db)
      else if isNicknameTaken E db nick then (ERR_NICKNAME_TAKEN, db)
      else
        let slt = rand_bytes E SALT_LEN;
            hash = pbkdf2 L password slt;
            salt_hex = bytesToHex slt
        in if \<not> prepare_ok E SQL_INSERT_USER then (ERR_INTERNAL, db)
           else let (done, db') = insert_user E nick hash salt_hex ''USER'' db
                in (if done then ERR_OK else ERR_INTERNAL, db'))"

text \<open>Comparing a password with a stored hash and salt; decoding the salt can throw.\<close>

definition password_matches :: "lib \<Rightarrow> string \<Rightarrow> string \<Rightarrow> string \<Rightarrow> crypto_error + bool" where
  "password_matches L password stored_hash salt_hex =
     (case fromHex salt_hex of
        Inl e \<Rightarrow> Inl e
      | Inr v \<Rightarrow> Inr (const_time_eq (pbkdf2 L password (salt_array v)) stored_hash))"

section \<open>Authentication\<close>

text \<open>The result is the error code and the token written through the reference parameter.\<close>

definition authenticate :: "lib \<Rightarrow> env \<Rightarrow> string \<Rightarrow> string \<Rightarrow> fd \<Rightarrow> AuthManager \<times> Database \<Rightarrow>
    crypto_error + (ErrorCode \<times> string) \<times> AuthManager \<times> Database" where
  "authenticate L E nick password f st =
     (let (am, db) = st in
      if isAccountLocked E db nick then Inr ((ERR_AUTH_TOO_MANY_ATTEMPTS, []), am, db)
      else if \<not> prepare_ok E SQL_SELECT_AUTH then Inr ((ERR_INTERNAL, []), am, db)
      else
        (case (if step_ok E SQL_SELECT_AUTH then user_of db nick else None) of
           None \<Rightarrow> Inr ((ERR_AUTH_FAILED, []), am, incrementFailedAttempts E nick db)
         | Some u \<Rightarrow>
           (case password_matches L password (u_password_hash u) (u_salt u) of
              Inl e \<Rightarrow> Inl e
            | Inr False \<Rightarrow> Inr ((ERR_AUTH_FAILED, []), am, incrementFailedAttempts E nick db)
            | Inr True \<Rightarrow>
              let db1 = resetFailedAttempts E nick db;
                  db2 = (if sql_runs E SQL_UPDATE_LAST_LOGIN
                         then update_user nick (\<lambda>u. u\<lparr>u_last_login := now E\<rparr>) db1 else db1);
                  token = generate L E (token_manager am) nick (stringToRole (u_role u))
              in Inr ((ERR_OK, token),
                      am\<lparr>active_sessions := fmupd token f (active_sessions am)\<rparr>, db2))))"

definition reconnectWithToken :: "lib \<Rightarrow> env \<Rightarrow> string \<Rightarrow> fd \<Rightarrow> AuthManager \<times> Database \<Rightarrow>
    (ErrorCode \<times> string) \<times> AuthManager" where
  "reconnectWithToken L E token new_fd st =
     (let (am, db) = st; claims = validate L E (token_manager am) token in
      if \<not> valid claims then ((ERR_AUTH_FAILED, []), am)
      else if isAccountLocked E db (sub claims) then ((ERR_AUTH_TOO_MANY_ATTEMPTS, []), am)
      else ((ERR_OK, sub claims), am\<lparr>active_sessions := fmupd token new_fd (active_sessions am)\<rparr>))"

definition validateToken :: "lib \<Rightarrow> env \<Rightarrow> AuthManager \<Rightarrow> string \<Rightarrow> fd \<times> bool" where
  "validateToken L E am token =
     (if \<not> valid (validate L E (token_manager am) token) then (-1, False)
      else case fmlookup (active_sessions am) token of None \<Rightarrow> (-1, False) | Some f \<Rightarrow> (f, True))"

definition revokeToken :: "lib \<Rightarrow> string \<Rightarrow> AuthManager \<Rightarrow> AuthManager" where
  "revokeToken L token am =
     am\<lparr>token_manager := token_revoke L token (token_manager am),
        active_sessions := fmdrop token (active_sessions am)\<rparr>"

definition removeSessionByFd :: "fd \<Rightarrow> AuthManager \<Rightarrow> AuthManager" where
  "removeSessionByFd f am =
     am\<lparr>active_sessions := fmfilter (\<lambda>t. fmlookup (active_sessions am) t \<noteq> Some f) (active_sessions am)\<rparr>"

section \<open>Rooms, bans and mutes\<close>

definition createRoomDb :: "lib \<Rightarrow> env \<Rightarrow> string \<Rightarrow> string \<Rightarrow> string \<Rightarrow> Database \<Rightarrow> ErrorCode \<times> Database" where
  "createRoomDb L E room password creator db =
     (let slt = rand_bytes E SALT_LEN;
          (hash, salt_hex) = (if password \<noteq> [] then (pbkdf2 L password slt, bytesToHex slt) else ([], []))
      in if \<not> prepare_ok E SQL_INSERT_ROOM then (ERR_INTERNAL, db)
         else if step_ok E SQL_INSERT_ROOM \<and> fmlookup (Rooms db) (c_str room) = None
              \<and> user_of db creator \<noteq> None
           then (ERR_OK, db\<lparr>Rooms := fmupd (c_str room) \<lparr>r_password_hash = c_str hash,
                   r_salt = c_str salt_hex, r_creator_nick = c_str creator, r_created_at = now E\<rparr> (Rooms db)\<rparr>)
         else (ERR_INTERNAL, db))"

definition verifyRoomPasswordDb :: "lib \<Rightarrow> env \<Rightarrow> string \<Rightarrow> string \<Rightarrow> Database \<Rightarrow> crypto_error + ErrorCode" where
  "verifyRoomPasswordDb L E room password db =
     (if \<not> prepare_ok E SQL_SELECT_ROOM_PASSWORD then Inr ERR_INTERNAL
      else
        (case (if step_ok E SQL_SELECT_ROOM_PASSWORD then fmlookup (Rooms db) (c_str room) else None) of
           None \<Rightarrow> Inr ERR_ROOM_NOT_FOUND
         | Some r \<Rightarrow>
           if r_password_hash r = [] then Inr ERR_OK
           else if password = [] then Inr ERR_AUTH_FAILED
           else (case password_matches L password (r_password_hash r) (r_salt r) of
                   Inl e \<Rightarrow> Inl e
                 | Inr match \<Rightarrow> Inr (if match then ERR_OK else ERR_AUTH_FAILED))))"

text \<open>Deleting a room deletes its bans (\<open>ON DELETE CASCADE\<close>).\<close>

definition deleteRoomDb :: "env \<Rightarrow> string \<Rightarrow> Database \<Rightarrow> ErrorCode \<times> Database" where
  "deleteRoomDb E room db =
     (if \<not> prepare_ok E SQL_DELETE_ROOM then (ERR_INTERNAL, db)
      else if step_ok E SQL_DELETE_ROOM
        then (ERR_OK, db\<lparr>Rooms := fmdrop (c_str room) (Rooms db),
                RoomBans := (if fmlookup (Rooms db) (c_str room) = None then RoomBans db
                             else ffilter (\<lambda>(r, n). r \<noteq> c_str room) (RoomBans db))\<rparr>)
      else (ERR_INTERNAL, db))"

definition getRoomCreatorDb :: "env \<Rightarrow> string \<Rightarrow> Database \<Rightarrow> string" where
  "getRoomCreatorDb E room db =
     (if sql_runs E SQL_SELECT_ROOM_CREATOR
      then case fmlookup (Rooms db) (c_str room) of Some r \<Rightarrow> r_creator_nick r | None \<Rightarrow> []
      else [])"

record RoomData =
  rd_name :: string
  rd_creator :: string
  rd_has_password :: bool

definition loadAllRoomsFromDb :: "env \<Rightarrow> Database \<Rightarrow> RoomData list" where
  "loadAllRoomsFromDb E db =
     (if \<not> sql_runs E SQL_SELECT_ROOMS then []
      else map (\<lambda>n. let r = the (fmlookup (Rooms db) n)
                 in \<lparr>rd_name = n, rd_creator = r_creator_nick r, rd_has_password = r_password_hash r \<noteq> []\<rparr>)
             (sorted_list_of_fset (fmdom (Rooms db))))"

text \<open>
  \<open>INSERT OR IGNORE\<close>: a duplicate pair is ignored; a missing room or user violates a foreign key,
  which is an error also under \<open>OR IGNORE\<close>.
\<close>

definition banUserFromRoomDb :: "env \<Rightarrow> string \<Rightarrow> string \<Rightarrow> Database \<Rightarrow> ErrorCode \<times> Database" where
  "banUserFromRoomDb E room nick db =
     (if \<not> prepare_ok E SQL_INSERT_ROOMBAN then (ERR_INTERNAL, db)
      else if \<not> step_ok E SQL_INSERT_ROOMBAN then (ERR_INTERNAL, db)
      else if (c_str room, c_str nick) |\<in>| RoomBans db then (ERR_OK, db)
      else if fmlookup (Rooms db) (c_str room) \<noteq> None \<and> user_of db nick \<noteq> None
        then (ERR_OK, db\<lparr>RoomBans := finsert (c_str room, c_str nick) (RoomBans db)\<rparr>)
      else (ERR_INTERNAL, db))"

definition unbanUserFromRoomDb :: "env \<Rightarrow> string \<Rightarrow> string \<Rightarrow> Database \<Rightarrow> ErrorCode \<times> Database" where
  "unbanUserFromRoomDb E room nick db =
     (if sql_runs E SQL_DELETE_ROOMBAN
      then (ERR_OK, db\<lparr>RoomBans := RoomBans db |-| {|(c_str room, c_str nick)|}\<rparr>)
      else (ERR_INTERNAL, db))"

definition getBannedUsersForRoomDb :: "env \<Rightarrow> string \<Rightarrow> Database \<Rightarrow> string list" where
  "getBannedUsersForRoomDb E room db =
     (if sql_runs E SQL_SELECT_ROOMBANS
      then sorted_list_of_fset (snd |`| ffilter (\<lambda>(r, n). r = c_str room) (RoomBans db)) else [])"

definition updateLastRoom :: "env \<Rightarrow> string \<Rightarrow> string \<Rightarrow> Database \<Rightarrow> Database" where
  "updateLastRoom E nick room db =
     (if sql_runs E SQL_UPDATE_LAST_ROOM then update_user nick (\<lambda>u. u\<lparr>u_last_room := c_str room\<rparr>) db else db)"

definition getLastRoom :: "env \<Rightarrow> string \<Rightarrow> Database \<Rightarrow> string" where
  "getLastRoom E nick db =
     (if sql_runs E SQL_SELECT_LAST_ROOM
      then case user_of db nick of Some u \<Rightarrow> u_last_room u | None \<Rightarrow> [] else [])"

definition updateMuteStateDb :: "env \<Rightarrow> string \<Rightarrow> bool \<Rightarrow> time \<Rightarrow> Database \<Rightarrow> Database" where
  "updateMuteStateDb E nick muted until db =
     (if sql_runs E SQL_UPDATE_MUTE
      then update_user nick (\<lambda>u. u\<lparr>u_is_muted := muted, u_mute_until := until\<rparr>) db else db)"

definition getMuteStateDb :: "env \<Rightarrow> string \<Rightarrow> Database \<Rightarrow> bool \<times> time" where
  "getMuteStateDb E nick db =
     (if sql_runs E SQL_SELECT_MUTE
      then case user_of db nick of Some u \<Rightarrow> (u_is_muted u, u_mute_until u) | None \<Rightarrow> (False, 0)
      else (False, 0))"

section \<open>Lemmas on accounts\<close>

lemma nickname_char_plain: "list_all nickname_char s \<Longrightarrow> NUL \<notin> set s \<and> CHR 0x27 \<notin> set s"
  by (auto simp: list_all_iff nickname_char_def NUL_def Let_def)

lemma valid_nickname_plain [simp]: "isValidNickname n \<Longrightarrow> c_str n = n"
  using nickname_char_plain by (simp add: isValidNickname_def)

lemma user_of_update [simp]:
  "user_of (update_user n f db) m =
     (if c_str m = c_str n then map_option f (user_of db m) else user_of db m)"
  by (auto simp: update_user_def user_of_def split: option.splits)

lemma update_user_frame [simp, frame_simps]:
  "AuditLog (update_user n f db) = AuditLog db" "m_open (update_user n f db) = m_open db"
  "Rooms (update_user n f db) = Rooms db" "RoomBans (update_user n f db) = RoomBans db"
  "GlobalBans (update_user n f db) = GlobalBans db"
  "ChatHistoryTable (update_user n f db) = ChatHistoryTable db"
  by (simp_all add: update_user_def split: option.splits)

lemma password_matches_stored:
  assumes "length slt = SALT_LEN"
  shows "password_matches L p (pbkdf2 L q slt) (bytesToHex slt) =
    Inr (pbkdf2 L p slt = pbkdf2 L q slt)"
  using assms by (simp add: password_matches_def)

text \<open>What a successful attempt means.\<close>

lemma authenticate_OK_D:
  assumes "authenticate L E nick password f (am, db) = Inr ((ERR_OK, t), am', db')"
  shows "\<exists>u. user_of db nick = Some u \<and> \<not> isAccountLocked E db nick \<and>
    password_matches L password (u_password_hash u) (u_salt u) = Inr True \<and>
    t = generate L E (token_manager am) nick (stringToRole (u_role u)) \<and>
    am' = am\<lparr>active_sessions := fmupd t f (active_sessions am)\<rparr>"
proof (cases "isAccountLocked E db nick \<or> \<not> prepare_ok E SQL_SELECT_AUTH \<or> \<not> step_ok E SQL_SELECT_AUTH")
  case True
  then show ?thesis using assms by (auto simp: authenticate_def split: if_splits)
next
  case False
  then show ?thesis using assms
    by (auto simp: authenticate_def Let_def split: option.splits sum.splits bool.splits)
qed

section \<open>Registration and authentication\<close>

definition auth_sql_ok :: "env \<Rightarrow> bool" where
  "auth_sql_ok E \<longleftrightarrow> sql_runs E SQL_SELECT_NICK \<and> sql_runs E SQL_INSERT_USER \<and>
     sql_runs E SQL_SELECT_AUTH \<and> sql_runs E SQL_SELECT_LOCKED \<and> sql_runs E SQL_INC_FAILED \<and>
     sql_runs E SQL_RESET_FAILED \<and> sql_runs E SQL_UPDATE_LAST_LOGIN \<and>
     length (rand_bytes E SALT_LEN) = SALT_LEN"

lemma register_OK:
  assumes "isValidNickname nick" "user_of db nick = None" "auth_sql_ok E"
  shows "registerUser L E nick password db = (ERR_OK,
    db\<lparr>Users := fmupd nick \<lparr>u_password_hash = pbkdf2 L password (rand_bytes E SALT_LEN),
       u_salt = bytesToHex (rand_bytes E SALT_LEN), u_role = ''USER'', u_created_at = now E,
       u_last_login = 0, u_failed_attempts = 0, u_locked_until = 0, u_last_room = [],
       u_is_muted = False, u_mute_until = 0\<rparr> (Users db)\<rparr>)"
  using assms
  by (simp add: registerUser_def isNicknameTaken_def insert_user_def auth_sql_ok_def sql_runs_def
      pbkdf2_def Let_def)

lemma isAccountLocked_user:
  "auth_sql_ok E \<Longrightarrow> user_of db nick = Some u \<Longrightarrow>
   isAccountLocked E db nick \<longleftrightarrow> u_failed_attempts u \<ge> 5 \<and> now E < u_locked_until u"
  by (simp add: isAccountLocked_def auth_sql_ok_def MAX_FAILED_ATTEMPTS_def)

text \<open>An attempt on an account that is not locked, by the outcome of the comparison.\<close>

lemma authenticate_unlocked:
  assumes "auth_sql_ok E" "user_of db nick = Some u" "\<not> isAccountLocked E db nick"
    and "password_matches L password (u_password_hash u) (u_salt u) = Inr b"
  shows "authenticate L E nick password f (am, db) =
    (if b then Inr ((ERR_OK, generate L E (token_manager am) nick (stringToRole (u_role u))),
          am\<lparr>active_sessions := fmupd (generate L E (token_manager am) nick (stringToRole (u_role u))) f
               (active_sessions am)\<rparr>,
          update_user nick (\<lambda>u. u\<lparr>u_last_login := now E\<rparr>) (resetFailedAttempts E nick db))
     else Inr ((ERR_AUTH_FAILED, []), am, incrementFailedAttempts E nick db))"
  using assms by (simp add: authenticate_def auth_sql_ok_def sql_runs_def Let_def)

text \<open>
  C16: registration works: a free, well-formed nickname can be registered, and the account then
  accepts its password, with a fresh token for the role \<open>USER\<close> and the session recorded, and
  refuses every password whose salted hash differs.
\<close>

theorem registered_user_can_authenticate:
  fixes L :: lib and password :: string
  assumes "isValidNickname nick" "user_of db nick = None" "auth_sql_ok E" "auth_sql_ok E'"
  defines "db1 \<equiv> snd (registerUser L E nick password db)"
  shows "fst (registerUser L E nick password db) = ERR_OK \<and>
    (\<exists>db2. authenticate L E' nick password f (am, db1) =
       Inr ((ERR_OK, generate L E' (token_manager am) nick USER),
            am\<lparr>active_sessions := fmupd (generate L E' (token_manager am) nick USER) f
                 (active_sessions am)\<rparr>, db2)) \<and>
    (pbkdf2 L other (rand_bytes E SALT_LEN) \<noteq> pbkdf2 L password (rand_bytes E SALT_LEN) \<longrightarrow>
       (\<exists>db2. authenticate L E' nick other f (am, db1) = Inr ((ERR_AUTH_FAILED, []), am, db2)))"
proof -
  let ?slt = "rand_bytes E SALT_LEN"
  obtain u where u: "user_of db1 nick = Some u" "u_password_hash u = pbkdf2 L password ?slt"
    "u_salt u = bytesToHex ?slt" "u_role u = ''USER''" "u_failed_attempts u = 0"
    using assms(1) by (simp add: db1_def register_OK [OF assms(1-3)] user_of_def)
  have pm: "password_matches L p (u_password_hash u) (u_salt u) =
      Inr (pbkdf2 L p ?slt = pbkdf2 L password ?slt)" for p
    using password_matches_stored assms(3) by (simp add: u(2,3) auth_sql_ok_def)
  have unlocked: "\<not> isAccountLocked E' db1 nick"
    using isAccountLocked_user [OF assms(4) u(1)] u(5) by simp
  note run = authenticate_unlocked [OF assms(4) u(1) unlocked pm]
  show ?thesis
    by (simp add: register_OK [OF assms(1-3)] run u(4) stringToRole_def)
qed

lemma auth_sql_ok_plain [simp]: "auth_sql_ok plain_env"
  by (simp add: auth_sql_ok_def) (simp add: plain_env_def)

definition sample_am :: AuthManager where
  "sample_am = \<lparr>token_manager = sample_tm, active_sessions = fmempty\<rparr>"

definition blank_db :: Database where
  "blank_db = Database_init\<lparr>m_open := True\<rparr>"

lemma alice_valid [simp]: "isValidNickname ''alice''"
  by (simp add: isValidNickname_def nickname_char_def)

lemma user_of_blank [simp]: "user_of blank_db n = None"
  by (simp add: user_of_def blank_db_def Database_init_def)

theorem registered_user_can_authenticate_witness:
  "fst (registerUser plain_lib plain_env ''alice'' ''secret'' blank_db) = ERR_OK \<and>
   (\<exists>am db. authenticate plain_lib plain_env ''alice'' ''guess'' 5
      (sample_am, snd (registerUser plain_lib plain_env ''alice'' ''secret'' blank_db)) =
      Inr ((ERR_AUTH_FAILED, []), am, db))"
proof -
  have "pbkdf2 plain_lib ''guess'' (rand_bytes plain_env SALT_LEN) \<noteq>
      pbkdf2 plain_lib ''secret'' (rand_bytes plain_env SALT_LEN)"
    by (simp add: pbkdf2_def plain_lib_def bytes_of_string_def)
  then show ?thesis
    using registered_user_can_authenticate [of "''alice''" blank_db plain_env plain_env plain_lib
        "''secret''" 5 sample_am "''guess''"] by auto
qed

section \<open>Lockout\<close>

text \<open>Attempts with wrong passwords, one per environment, and the database they leave.\<close>

fun attempts :: "lib \<Rightarrow> string \<Rightarrow> fd \<Rightarrow> (env \<times> string) list \<Rightarrow> AuthManager \<times> Database \<Rightarrow> AuthManager \<times> Database" where
  "attempts L nick f [] st = st"
| "attempts L nick f ((E, p) # as) st =
     (case authenticate L E nick p f st of
        Inl _ \<Rightarrow> attempts L nick f as st
      | Inr (_, st') \<Rightarrow> attempts L nick f as st')"

text \<open>The account after \<open>k\<close> failures, the first of them at \<open>t\<close> or later.\<close>

definition failing :: "time \<Rightarrow> int \<Rightarrow> string \<Rightarrow> string \<Rightarrow> user_row \<Rightarrow> bool" where
  "failing t k h slt u \<longleftrightarrow> u_password_hash u = h \<and> u_salt u = slt \<and> u_failed_attempts u \<ge> 0 \<and>
     (u_failed_attempts u \<ge> k \<or> u_failed_attempts u \<ge> 5) \<and>
     (u_failed_attempts u \<ge> 5 \<longrightarrow> u_locked_until u \<ge> t + 900)"

definition wrong :: "lib \<Rightarrow> string \<Rightarrow> string \<Rightarrow> time \<Rightarrow> env \<times> string \<Rightarrow> bool" where
  "wrong L h slt t a \<longleftrightarrow> auth_sql_ok (fst a) \<and> t \<le> now (fst a) \<and> now (fst a) < t + 900 \<and>
     password_matches L (snd a) h slt = Inr False"

lemma attempt_failing:
  assumes "wrong L h slt t (E, p)" "user_of db nick = Some u" "failing t k h slt u"
  shows "\<exists>c db' u'. authenticate L E nick p f (am, db) = Inr ((c, []), am, db') \<and> c \<noteq> ERR_OK \<and>
    user_of db' nick = Some u' \<and> failing t (k + 1) h slt u'"
proof (cases "isAccountLocked E db nick")
  case True
  moreover have "u_failed_attempts u \<ge> 5"
    using True assms isAccountLocked_user [of E db nick u] by (simp add: wrong_def)
  ultimately show ?thesis using assms(2,3) by (auto simp: authenticate_def failing_def)
next
  case False
  have E: "auth_sql_ok E" "t \<le> now E" "now E < t + 900" using assms(1) by (simp_all add: wrong_def)
  have pm: "password_matches L p (u_password_hash u) (u_salt u) = Inr False"
    using assms(1,3) by (simp add: wrong_def failing_def)
  have "\<not> u_failed_attempts u \<ge> 5"
    using False isAccountLocked_user [OF E(1) assms(2)] assms(3) E(3) by (auto simp: failing_def)
  then have "failing t (k + 1) h slt (u\<lparr>u_failed_attempts := u_failed_attempts u + 1,
      u_locked_until := (if u_failed_attempts u + 1 \<ge> 5 then now E + 900 else u_locked_until u)\<rparr>)"
    using assms(3) E(2) by (simp add: failing_def)
  then show ?thesis
    using authenticate_unlocked [OF E(1) assms(2) False pm] assms(2) E(1)
    by (simp add: incrementFailedAttempts_def auth_sql_ok_def MAX_FAILED_ATTEMPTS_def LOCKOUT_SECONDS_def
        split: if_splits)
qed

lemma attempts_failing:
  assumes "list_all (wrong L h slt t) as" "user_of db nick = Some u" "failing t k h slt u"
  shows "\<exists>db' u'. attempts L nick f as (am, db) = (am, db') \<and> user_of db' nick = Some u' \<and>
    failing t (k + int (length as)) h slt u'"
  using assms
proof (induction as arbitrary: db u k)
  case (Cons a as)
  obtain E p where a: "a = (E, p)" by force
  then obtain c db' u' where "authenticate L E nick p f (am, db) = Inr ((c, []), am, db')"
    "user_of db' nick = Some u'" "failing t (k + 1) h slt u'"
    using attempt_failing [of L h slt t E p db nick u k f am] Cons.prems by auto
  with Cons.IH [OF _ this(2,3)] Cons.prems(1) show ?case
    by (simp add: a algebra_simps)
qed simp

text \<open>
  C18: brute force is stopped: after five or more attempts with wrong passwords within a quarter
  of an hour from \<open>t\<close>, on an account without earlier failures, every further attempt before
  \<open>t + 900\<close> is refused, with the right password too, and nothing changes.
\<close>

theorem lockout_after_failures:
  assumes "user_of db nick = Some u" "u_failed_attempts u = 0" "5 \<le> length as"
    and "list_all (wrong L (u_password_hash u) (u_salt u) t) as"
    and "auth_sql_ok E" "now E < t + 900"
  shows "authenticate L E nick password f (attempts L nick f' as (am, db)) =
    Inr ((ERR_AUTH_TOO_MANY_ATTEMPTS, []), attempts L nick f' as (am, db))"
proof -
  have "failing t 0 (u_password_hash u) (u_salt u) u" using assms(2) by (simp add: failing_def)
  from attempts_failing [OF assms(4,1) this, of f' am]
  obtain db' u' where r: "attempts L nick f' as (am, db) = (am, db')" "user_of db' nick = Some u'"
    "failing t (int (length as)) (u_password_hash u) (u_salt u) u'" by auto
  have "u_failed_attempts u' \<ge> 5" "now E < u_locked_until u'"
    using r(3) assms(3,6) by (auto simp: failing_def)
  with isAccountLocked_user [OF assms(5) r(2)] have "isAccountLocked E db' nick" by simp
  then show ?thesis by (simp add: r(1) authenticate_def)
qed

definition alice_db :: Database where
  "alice_db = snd (registerUser plain_lib plain_env ''alice'' ''secret'' blank_db)"

lemma alice_row:
  "\<exists>u. user_of alice_db ''alice'' = Some u \<and> u_failed_attempts u = 0 \<and>
     u_password_hash u = pbkdf2 plain_lib ''secret'' (rand_bytes plain_env SALT_LEN) \<and>
     u_salt u = bytesToHex (rand_bytes plain_env SALT_LEN)"
  by (simp add: alice_db_def register_OK) (simp add: user_of_def)

lemma wrong_guess:
  "wrong plain_lib (pbkdf2 plain_lib ''secret'' (rand_bytes plain_env SALT_LEN))
     (bytesToHex (rand_bytes plain_env SALT_LEN)) 1000 (plain_env, ''guess'')"
proof -
  have "length (rand_bytes plain_env SALT_LEN) = SALT_LEN" by (simp add: plain_env_def)
  moreover have "pbkdf2 plain_lib ''guess'' (rand_bytes plain_env SALT_LEN) \<noteq>
      pbkdf2 plain_lib ''secret'' (rand_bytes plain_env SALT_LEN)"
    by (simp add: pbkdf2_def plain_lib_def bytes_of_string_def)
  moreover have "now plain_env = 1000" by (simp add: plain_env_def)
  ultimately show ?thesis by (simp add: wrong_def password_matches_stored)
qed

theorem lockout_after_failures_witness:
  "\<exists>st. authenticate plain_lib plain_env ''alice'' ''secret'' 5
     (attempts plain_lib ''alice'' 5 (replicate 5 (plain_env, ''guess'')) (sample_am, alice_db)) =
   Inr ((ERR_AUTH_TOO_MANY_ATTEMPTS, []), st)"
proof -
  obtain u where u: "user_of alice_db ''alice'' = Some u" "u_failed_attempts u = 0"
    "u_password_hash u = pbkdf2 plain_lib ''secret'' (rand_bytes plain_env SALT_LEN)"
    "u_salt u = bytesToHex (rand_bytes plain_env SALT_LEN)" using alice_row by blast
  have "now plain_env < 1000 + 900" by (simp add: plain_env_def)
  with lockout_after_failures [OF u(1,2), of "replicate 5 (plain_env, ''guess'')" plain_lib 1000 plain_env]
  show ?thesis using wrong_guess by (simp add: u(3,4) list_all_iff)
qed

text \<open>
  C17: only the right password opens an account: a successful attempt means that the nickname
  has a row, that the account was not locked, that the salted hash of the given password is the
  stored one, and that the token carries the stored role; only that token's session is added.
\<close>

theorem authenticate_sound:
  assumes "authenticate L E nick password f (am, db) = Inr ((ERR_OK, t), am', db')"
  shows "\<exists>u v. user_of db nick = Some u \<and> \<not> isAccountLocked E db nick \<and>
    fromHex (u_salt u) = Inr v \<and> pbkdf2 L password (salt_array v) = u_password_hash u \<and>
    t = generate L E (token_manager am) nick (stringToRole (u_role u)) \<and>
    am' = am\<lparr>active_sessions := fmupd t f (active_sessions am)\<rparr>"
proof -
  obtain u where u: "user_of db nick = Some u" "\<not> isAccountLocked E db nick"
    "password_matches L password (u_password_hash u) (u_salt u) = Inr True"
    "t = generate L E (token_manager am) nick (stringToRole (u_role u))"
    "am' = am\<lparr>active_sessions := fmupd t f (active_sessions am)\<rparr>"
    using authenticate_OK_D [OF assms] by blast
  moreover obtain v where "fromHex (u_salt u) = Inr v" "pbkdf2 L password (salt_array v) = u_password_hash u"
    using u(3) by (auto simp: password_matches_def split: sum.splits)
  ultimately show ?thesis by blast
qed

theorem authenticate_sound_witness:
  "\<exists>t am' db'. authenticate plain_lib plain_env ''alice'' ''secret'' 5 (sample_am, alice_db) =
      Inr ((ERR_OK, t), am', db') \<and> fmlookup (active_sessions am') t = Some 5"
proof -
  obtain u where u: "user_of alice_db ''alice'' = Some u" "u_failed_attempts u = 0"
    "u_password_hash u = pbkdf2 plain_lib ''secret'' (rand_bytes plain_env SALT_LEN)"
    "u_salt u = bytesToHex (rand_bytes plain_env SALT_LEN)" using alice_row by blast
  have "password_matches plain_lib ''secret'' (u_password_hash u) (u_salt u) = Inr True"
    unfolding u(3,4) by (subst password_matches_stored) (simp_all add: plain_env_def)
  moreover have "\<not> isAccountLocked plain_env alice_db ''alice''"
    using isAccountLocked_user [OF auth_sql_ok_plain u(1)] u(2) by simp
  ultimately obtain t am' db' where
    ok: "authenticate plain_lib plain_env ''alice'' ''secret'' 5 (sample_am, alice_db) = Inr ((ERR_OK, t), am', db')"
    using authenticate_unlocked [OF auth_sql_ok_plain u(1)] by (metis (full_types))
  from authenticate_sound [OF ok] have "fmlookup (active_sessions am') t = Some 5" by auto
  with ok show ?thesis by blast
qed

end
