(* ===== verification/Texts.thy ===== *)
theory Texts
  imports Prelude
begin

text \<open>
  The texts of the server's answers that are not ASCII, byte for byte in UTF-8
  (\<open>server/core/TcpServer.cpp\<close>, \<open>server/features/AdminCommands.cpp\<close>).
\<close>

definition txt_default_room_fixed :: string where
  "txt_default_room_fixed =
     ''L'' @ [CHR 0xE1, CHR 0xBB, CHR 0x97] @ ''i: Kh'' @ [CHR 0xC3, CHR 0xB4] @ ''ng th''
      @ [CHR 0xE1, CHR 0xBB, CHR 0x83] @ '' x'' @ [CHR 0xC3, CHR 0xB3] @ ''a ph''
      @ [CHR 0xC3, CHR 0xB2] @ ''ng m'' @ [CHR 0xE1, CHR 0xBA, CHR 0xB7] @ ''c ''
      @ [CHR 0xC4, CHR 0x91, CHR 0xE1, CHR 0xBB, CHR 0x8B] @ ''nh c''
      @ [CHR 0xE1, CHR 0xBB, CHR 0xA7] @ ''a h'' @ [CHR 0xE1, CHR 0xBB, CHR 0x87] @ '' th''
      @ [CHR 0xE1, CHR 0xBB, CHR 0x91] @ ''ng.''"

definition txt_room_pre :: string where
  "txt_room_pre =
     ''L'' @ [CHR 0xE1, CHR 0xBB, CHR 0x97] @ ''i: Ph'' @ [CHR 0xC3, CHR 0xB2] @ ''ng #''"

definition txt_room_missing :: string where
  "txt_room_missing =
     '' kh'' @ [CHR 0xC3, CHR 0xB4] @ ''ng t'' @ [CHR 0xE1, CHR 0xBB, CHR 0x93] @ ''n t''
      @ [CHR 0xE1, CHR 0xBA, CHR 0xA1] @ ''i.''"

definition txt_delete_denied_pre :: string where
  "txt_delete_denied_pre =
     ''L'' @ [CHR 0xE1, CHR 0xBB, CHR 0x97] @ ''i: B'' @ [CHR 0xE1, CHR 0xBA, CHR 0xA1]
      @ ''n kh'' @ [CHR 0xC3, CHR 0xB4] @ ''ng c'' @ [CHR 0xC3, CHR 0xB3] @ '' quy''
      @ [CHR 0xE1, CHR 0xBB, CHR 0x81] @ ''n x'' @ [CHR 0xC3, CHR 0xB3] @ ''a ph''
      @ [CHR 0xC3, CHR 0xB2] @ ''ng n'' @ [CHR 0xC3, CHR 0xA0] @ ''y. Ch''
      @ [CHR 0xE1, CHR 0xBB, CHR 0x89] @ '' ng''
      @ [CHR 0xC6, CHR 0xB0, CHR 0xE1, CHR 0xBB, CHR 0x9D] @ ''i t''
      @ [CHR 0xE1, CHR 0xBA, CHR 0xA1] @ ''o ph'' @ [CHR 0xC3, CHR 0xB2] @ ''ng (''"

definition txt_delete_denied_post :: string where
  "txt_delete_denied_post =
     '') ho'' @ [CHR 0xE1, CHR 0xBA, CHR 0xB7] @ ''c Admin m'' @ [CHR 0xE1, CHR 0xBB, CHR 0x9B]
      @ ''i '' @ [CHR 0xC4, CHR 0x91, CHR 0xC6, CHR 0xB0, CHR 0xE1, CHR 0xBB, CHR 0xA3]
      @ ''c ph'' @ [CHR 0xC3, CHR 0xA9] @ ''p x'' @ [CHR 0xC3, CHR 0xB3] @ ''a.''"

definition txt_name_pre :: string where
  "txt_name_pre =
     ''L'' @ [CHR 0xE1, CHR 0xBB, CHR 0x97] @ ''i: T'' @ [CHR 0xC3, CHR 0xAA] @ ''n ph''
      @ [CHR 0xC3, CHR 0xB2] @ ''ng #''"

definition txt_name_taken :: string where
  "txt_name_taken =
     '' '' @ [CHR 0xC4, CHR 0x91, CHR 0xC3, CHR 0xA3] @ '' t'' @ [CHR 0xE1, CHR 0xBB, CHR 0x93]
      @ ''n t'' @ [CHR 0xE1, CHR 0xBA, CHR 0xA1] @ ''i, vui l'' @ [CHR 0xC3, CHR 0xB2]
      @ ''ng ch'' @ [CHR 0xE1, CHR 0xBB, CHR 0x8D] @ ''n t'' @ [CHR 0xC3, CHR 0xAA] @ ''n kh''
      @ [CHR 0xC3, CHR 0xA1] @ ''c.''"

definition txt_room_limit :: string where
  "txt_room_limit =
     ''L'' @ [CHR 0xE1, CHR 0xBB, CHR 0x97] @ ''i: H'' @ [CHR 0xE1, CHR 0xBB, CHR 0x87]
      @ '' th'' @ [CHR 0xE1, CHR 0xBB, CHR 0x91] @ ''ng ''
      @ [CHR 0xC4, CHR 0x91, CHR 0xC3, CHR 0xA3] @ '' ''
      @ [CHR 0xC4, CHR 0x91, CHR 0xE1, CHR 0xBA, CHR 0xA1] @ ''t gi''
      @ [CHR 0xE1, CHR 0xBB, CHR 0x9B] @ ''i h'' @ [CHR 0xE1, CHR 0xBA, CHR 0xA1] @ ''n s''
      @ [CHR 0xE1, CHR 0xBB, CHR 0x91] @ '' l''
      @ [CHR 0xC6, CHR 0xB0, CHR 0xE1, CHR 0xBB, CHR 0xA3] @ ''ng ph'' @ [CHR 0xC3, CHR 0xB2]
      @ ''ng t'' @ [CHR 0xE1, CHR 0xBB, CHR 0x91] @ ''i '' @ [CHR 0xC4, CHR 0x91] @ ''a.''"

definition txt_create_failed :: string where
  "txt_create_failed =
     ''L'' @ [CHR 0xE1, CHR 0xBB, CHR 0x97] @ ''i: Kh'' @ [CHR 0xC3, CHR 0xB4] @ ''ng th''
      @ [CHR 0xE1, CHR 0xBB, CHR 0x83] @ '' t'' @ [CHR 0xE1, CHR 0xBA, CHR 0xA1] @ ''o ph''
      @ [CHR 0xC3, CHR 0xB2] @ ''ng l'' @ [CHR 0xC3, CHR 0xBA] @ ''c n'' @ [CHR 0xC3, CHR 0xA0]
      @ ''y do l'' @ [CHR 0xE1, CHR 0xBB, CHR 0x97] @ ''i h'' @ [CHR 0xE1, CHR 0xBB, CHR 0x87]
      @ '' th'' @ [CHR 0xE1, CHR 0xBB, CHR 0x91] @ ''ng, vui l'' @ [CHR 0xC3, CHR 0xB2]
      @ ''ng th'' @ [CHR 0xE1, CHR 0xBB, CHR 0xAD] @ '' l'' @ [CHR 0xE1, CHR 0xBA, CHR 0xA1]
      @ ''i sau.''"

definition txt_no_such_user :: string where
  "txt_no_such_user =
     ''Kh'' @ [CHR 0xC3, CHR 0xB4] @ ''ng t'' @ [CHR 0xC3, CHR 0xAC] @ ''m th''
      @ [CHR 0xE1, CHR 0xBA, CHR 0xA5] @ ''y user n'' @ [CHR 0xC3, CHR 0xA0] @ ''y trong h''
      @ [CHR 0xE1, CHR 0xBB, CHR 0x87] @ '' th'' @ [CHR 0xE1, CHR 0xBB, CHR 0x91] @ ''ng''"

definition txt_owner_only :: string where
  "txt_owner_only =
     ''Ch'' @ [CHR 0xE1, CHR 0xBB, CHR 0x89] @ '' OWNER m'' @ [CHR 0xE1, CHR 0xBB, CHR 0x9B]
      @ ''i c'' @ [CHR 0xC3, CHR 0xB3] @ '' quy'' @ [CHR 0xE1, CHR 0xBB, CHR 0x81] @ ''n th''
      @ [CHR 0xC4, CHR 0x83] @ ''ng c'' @ [CHR 0xE1, CHR 0xBA, CHR 0xA5] @ ''p (promote)''"


end
