(* ===== verification/Server.thy ===== *)
theory Server
  imports Rooms RateLimit Auth Texts
begin

text \<open>
  The chat server, \<open>server/core/TcpServer.cpp\<close>: its state with that of the components it owns, the
  lookups and broadcasts, the end of a session, and the handlers of the client's requests. A
  handler is a function on the state; the packets it sends are appended to the trace \<open>sv_out\<close>. An
  exception that leaves a handler is swallowed by the worker thread: the state is the one at the
  point of the throw.
\<close>

record RoomInfo =
  creator_nick :: string
  members :: "fd fset"
  banned_nicks :: "string fset"
  has_password :: bool

definition RoomInfo_zero :: RoomInfo where
  "RoomInfo_zero = \<lparr>creator_nick = [], members = {||}, banned_nicks = {||}, has_password = False\<rparr>"

record Server =
  m_maxClients :: int
  sv_running :: bool
  m_sessions :: "(fd, ClientSession) fmap"
  m_nicknames :: "(string, fd) fmap"
  m_rooms :: "(string, RoomInfo) fmap"
  sv_auth :: AuthManager
  sv_kx :: KeyExchange
  sv_engine :: CryptoEngine
  sv_limiter :: RateLimiter
  sv_ids :: IntrusionDetector
  sv_audit :: AuditLogger
  sv_db :: Database
  sv_rm :: RoomManager
  sv_transfers :: FileTransfer
  sv_out :: sends
  sv_undefined :: bool

section \<open>Access to the components\<close>

definition getSession :: "Server \<Rightarrow> fd \<Rightarrow> ClientSession option" where
  "getSession s f = fmlookup (m_sessions s) f"

definition getFdByNickname :: "Server \<Rightarrow> string \<Rightarrow> fd" where
  "getFdByNickname s nick = (case fmlookup (m_nicknames s) nick of Some f \<Rightarrow> f | None \<Rightarrow> -1)"

definition nick_online :: "Server \<Rightarrow> string \<Rightarrow> bool" where
  "nick_online s nick \<longleftrightarrow> fmlookup (m_nicknames s) nick \<noteq> None"

definition isNicknameValid :: "string \<Rightarrow> bool" where
  "isNicknameValid nick \<longleftrightarrow> \<not> (nick = [] \<or> length nick > MAX_NICKNAME_LEN) \<and>
     3 \<le> length nick \<and> length nick \<le> 32 \<and> list_all nickname_char nick"

definition send_to :: "fd \<Rightarrow> Packet \<Rightarrow> Server \<Rightarrow> Server" where
  "send_to f pkt s = s\<lparr>sv_out := sv_out s @ [(f, pkt)]\<rparr>"

definition emit :: "sends \<Rightarrow> Server \<Rightarrow> Server" where
  "emit ps s = s\<lparr>sv_out := sv_out s @ ps\<rparr>"

definition upd_session :: "fd \<Rightarrow> (ClientSession \<Rightarrow> ClientSession) \<Rightarrow> Server \<Rightarrow> Server" where
  "upd_session f g s =
     (case fmlookup (m_sessions s) f of
        None \<Rightarrow> s | Some ss \<Rightarrow> s\<lparr>m_sessions := fmupd f (g ss) (m_sessions s)\<rparr>)"

text \<open>An update through \<open>m_rooms[r]\<close>, which creates a missing room.\<close>

definition upd_room :: "string \<Rightarrow> (RoomInfo \<Rightarrow> RoomInfo) \<Rightarrow> Server \<Rightarrow> Server" where
  "upd_room r g s = s\<lparr>m_rooms := fmupd r
     (g (case fmlookup (m_rooms s) r of Some ri \<Rightarrow> ri | None \<Rightarrow> RoomInfo_zero)) (m_rooms s)\<rparr>"

definition insert_member :: "fd \<Rightarrow> RoomInfo \<Rightarrow> RoomInfo" where
  "insert_member f ri = ri\<lparr>members := finsert f (members ri)\<rparr>"

definition erase_member :: "fd \<Rightarrow> RoomInfo \<Rightarrow> RoomInfo" where
  "erase_member f ri = ri\<lparr>members := members ri |-| {|f|}\<rparr>"

definition sv_violation :: "lib \<Rightarrow> env \<Rightarrow> string \<Rightarrow> ViolationType \<Rightarrow> Server \<Rightarrow> Server" where
  "sv_violation L E a ty s =
     (let (d, al, db) = reportViolation L E a ty (-1) (sv_ids s, sv_audit s, sv_db s)
      in s\<lparr>sv_ids := d, sv_audit := al, sv_db := db\<rparr>)"

definition sv_log :: "lib \<Rightarrow> env \<Rightarrow> AuditEventType \<Rightarrow> string \<Rightarrow> string \<Rightarrow> string \<Rightarrow> AuditResult \<Rightarrow> string \<Rightarrow> string \<Rightarrow>
    Server \<Rightarrow> Server" where
  "sv_log L E ty act tgt actn res a det s =
     (let (al, db) = audit_log L E ty act tgt actn res a det (sv_audit s, sv_db s)
      in s\<lparr>sv_audit := al, sv_db := db\<rparr>)"

definition sv_limit :: "lib \<Rightarrow> ServerConfig \<Rightarrow> env \<Rightarrow> string \<Rightarrow> RateLimitType \<Rightarrow> Server \<Rightarrow> RateCheckResult \<times> Server" where
  "sv_limit L cfg E key ty s =
     (let (r, rl, d, al, db) = checkLimit L cfg E key ty 1 (sv_limiter s, sv_ids s, sv_audit s, sv_db s)
      in (r, s\<lparr>sv_limiter := rl, sv_ids := d, sv_audit := al, sv_db := db\<rparr>))"

definition sv_history :: "env \<Rightarrow> fd \<Rightarrow> string \<Rightarrow> Server \<Rightarrow> Server" where
  "sv_history E f room s =
     (let (ps, rm) = sendHistoryToClient E (getSession s) f room 50 (sv_db s) (sv_rm s)
      in emit ps (s\<lparr>sv_rm := rm\<rparr>))"

section \<open>Broadcasts and queries\<close>

text \<open>Members in the order of the set; those without a session are skipped.\<close>

definition room_fds :: "string \<Rightarrow> Server \<Rightarrow> fd list" where
  "room_fds room s =
     (case fmlookup (m_rooms s) room of
        None \<Rightarrow> []
      | Some ri \<Rightarrow> filter (\<lambda>f. fmlookup (m_sessions s) f \<noteq> None) (sorted_list_of_fset (members ri)))"

definition broadcastToRoom :: "string \<Rightarrow> Packet \<Rightarrow> fd \<Rightarrow> Server \<Rightarrow> Server" where
  "broadcastToRoom room pkt excludeFd s =
     emit (map (\<lambda>f. (f, pkt)) (filter (\<lambda>f. f \<noteq> excludeFd) (room_fds room s))) s"

definition broadcastToAll :: "Packet \<Rightarrow> fd \<Rightarrow> Server \<Rightarrow> Server" where
  "broadcastToAll pkt excludeFd s =
     emit (map (\<lambda>f. (f, pkt)) (filter (\<lambda>f. f \<noteq> excludeFd) (sorted_list_of_fset (fmdom (m_sessions s))))) s"

definition getSessionsInRoom :: "string \<Rightarrow> Server \<Rightarrow> ClientSession list" where
  "getSessionsInRoom room s = map (\<lambda>f. the (fmlookup (m_sessions s) f)) (room_fds room s)"

definition getUsersInRoom :: "string \<Rightarrow> Server \<Rightarrow> string list" where
  "getUsersInRoom room s = map m_nickname (filter m_authenticated (getSessionsInRoom room s))"

definition getRoomList :: "Server \<Rightarrow> string list" where
  "getRoomList s = sorted_list_of_fset (fmdom (m_rooms s))"

section \<open>The end of a session\<close>

definition removeSession :: "fd \<Rightarrow> Server \<Rightarrow> Server" where
  "removeSession f s =
     (let s1 = s\<lparr>sv_kx := removeClient f (sv_kx s), sv_auth := removeSessionByFd f (sv_auth s),
                 sv_engine := engine_removeSession f (sv_engine s)\<rparr> in
      case fmlookup (m_sessions s1) f of
        None \<Rightarrow> s1
      | Some ss \<Rightarrow>
        let s2 = (if m_room ss \<noteq> [] \<and> fmlookup (m_rooms s1) (m_room ss) \<noteq> None
                  then upd_room (m_room ss) (erase_member f) s1 else s1)
        in s2\<lparr>m_nicknames := (if m_authenticated ss then fmdrop (m_nickname ss) (m_nicknames s2) else m_nicknames s2),
              m_sessions := fmdrop f (m_sessions s2)\<rparr>)"

definition fd_key :: "fd \<Rightarrow> string" where
  "fd_key f = ''fd_'' @ show_int f"

definition onClientDisconnected :: "fd \<Rightarrow> Server \<Rightarrow> Server" where
  "onClientDisconnected f s =
     (let s1 = s\<lparr>sv_limiter := removeKey (fd_key f) (sv_limiter s)\<rparr>;
          (nick, room) = (case getSession s1 f of Some ss \<Rightarrow> (m_nickname ss, m_room ss) | None \<Rightarrow> ([], []));
          s2 = removeSession f s1
      in if nick \<noteq> [] \<and> room \<noteq> []
         then broadcastToRoom room (makeSystemNotify (nick @ '' has left the chat'')) (-1) s2
         else s2)"

text \<open>\<open>ClientSession::disconnect(reason)\<close>.\<close>

definition sv_disconnect :: "string \<Rightarrow> fd \<Rightarrow> Server \<Rightarrow> Server" where
  "sv_disconnect reason f s =
     onClientDisconnected f (if reason \<noteq> [] then send_to f (makeDisconnect reason) s else s)"

section \<open>Connecting\<close>

definition user_role_of :: "Role \<Rightarrow> UserRole" where
  "user_role_of r = (if r = OWNER then R_OWNER else if r = ADMIN then R_ADMIN else R_USER)"

text \<open>
  The part that \<open>handleConnectRequest\<close> and \<open>handleReconnectRequest\<close> have in common: the room, the
  session's fields, the mute carried over from the database, the role, the two tables, the
  answer, the notice (\<open>verb\<close> is \<open>joined\<close> or \<open>reconnected to\<close>) and the history.
\<close>

definition enter_chat :: "ServerConfig \<Rightarrow> env \<Rightarrow> fd \<Rightarrow> string \<Rightarrow> string \<Rightarrow> string \<Rightarrow> Server \<Rightarrow> Server" where
  "enter_chat cfg E f nick token verb s =
     (let lastRoom = getLastRoom E nick (sv_db s);
          roomToJoin = (if lastRoom \<noteq> [] \<and> fmlookup (m_rooms s) lastRoom \<noteq> None then lastRoom else default_room cfg);
          s1 = upd_session f (\<lambda>ss. ss\<lparr>m_nickname := nick, m_room := roomToJoin, m_authenticated := True\<rparr>) s;
          (muted, until) = getMuteStateDb E nick (sv_db s1);
          s2 = (if muted \<and> (until = 0 \<or> until > now E)
                  then upd_session f (\<lambda>ss. ss\<lparr>m_muted := True, m_muteUntil := until\<rparr>) s1
                else if muted
                  then upd_session f (\<lambda>ss. ss\<lparr>m_muted := False, m_muteUntil := 0\<rparr>)
                         (s1\<lparr>sv_db := updateMuteStateDb E nick False 0 (sv_db s1)\<rparr>)
                else s1);
          r = getUserRole E (sv_db s2) nick;
          s3 = upd_session f (\<lambda>ss. ss\<lparr>m_role := user_role_of r\<rparr>) s2;
          s4 = s3\<lparr>m_nicknames := fmupd nick f (m_nicknames s3)\<rparr>;
          s5 = upd_room roomToJoin (insert_member f) s4;
          s6 = send_to f (makeConnectAccept token roomToJoin nick (r = ADMIN \<or> r = OWNER)) s5;
          s7 = broadcastToRoom roomToJoin (makeSystemNotify (nick @ verb @ roomToJoin)) f s6
      in sv_history E f roomToJoin s7)"

definition handleConnectRequest :: "lib \<Rightarrow> ServerConfig \<Rightarrow> env \<Rightarrow> fd \<Rightarrow> Packet \<Rightarrow> Server \<Rightarrow> Server" where
  "handleConnectRequest L cfg E f pkt s =
     (let p = parseConnectRequest pkt; nick = pc_nickname p; password = pc_password p in
      case getSession s f of None \<Rightarrow> s | Some sess \<Rightarrow>
      if \<not> isNicknameValid nick then
        send_to f (makeConnectReject ERR_NICKNAME_INVALID ''Invalid nickname (3-16 alphanumeric characters)'') s
      else if password = [] then
        onClientDisconnected f (send_to f (makeConnectReject ERR_AUTH_FAILED ''Password cannot be empty'') s)
      else if nick_online s nick then
        onClientDisconnected f (send_to f (makeConnectReject ERR_NICKNAME_TAKEN ''User already online'') s)
      else
        let (reg, s1) = (if \<not> isNicknameTaken E (sv_db s) nick
                         then (let (c, db) = registerUser L E nick password (sv_db s) in (c, s\<lparr>sv_db := db\<rparr>))
                         else (ERR_OK, s)) in
        if reg \<noteq> ERR_OK then
          onClientDisconnected f (send_to f (makeConnectReject reg ''Registration failed'') s1)
        else
          let (lim, s2) = sv_limit L cfg E (''ip_'' @ m_ip sess @ ''_auth'') RL_AUTH s1 in
          if lim = RATE_LIMITED then
            onClientDisconnected f
              (send_to f (makeConnectReject ERR_RATE_LIMITED ''Too many requests, please try again later'') s2)
          else
            (case authenticate L E nick password f (sv_auth s2, sv_db s2) of
               Inl _ \<Rightarrow> s2
             | Inr ((err, token), am, db) \<Rightarrow>
               let s3 = s2\<lparr>sv_auth := am, sv_db := db\<rparr> in
               if err \<noteq> ERR_OK then
                 let s4 = (if err = ERR_AUTH_FAILED \<or> err = ERR_AUTH_TOO_MANY_ATTEMPTS
                           then sv_violation L E (m_ip sess) FAILED_AUTH s3 else s3)
                 in send_to f (makeConnectReject err ''Invalid nickname or password'') s4
               else if isBannedNick (sv_ids s3) nick then
                 send_to f (makeConnectReject ERR_PERMISSION_DENIED ''Your nickname has been banned.'') s3
               else enter_chat cfg E f nick token '' joined #'' s3))"

definition handleReconnectRequest :: "lib \<Rightarrow> ServerConfig \<Rightarrow> env \<Rightarrow> fd \<Rightarrow> Packet \<Rightarrow> Server \<Rightarrow> Server" where
  "handleReconnectRequest L cfg E f pkt s =
     (let token = parseReconnectRequest pkt in
      case getSession s f of None \<Rightarrow> s | Some sess \<Rightarrow>
      if token = [] then send_to f (makeConnectReject ERR_AUTH_FAILED ''Missing token'') s
      else
        let ((err, nick), am) = reconnectWithToken L E token f (sv_auth s, sv_db s);
            s1 = s\<lparr>sv_auth := am\<rparr> in
        if err \<noteq> ERR_OK then send_to f (makeConnectReject err ''Invalid or expired token'') s1
        else enter_chat cfg E f nick token '' reconnected to #'' s1)"

section \<open>Chat\<close>

definition handleChatSend :: "lib \<Rightarrow> ServerConfig \<Rightarrow> env \<Rightarrow> fd \<Rightarrow> Packet \<Rightarrow> Server \<Rightarrow> Server" where
  "handleChatSend L cfg E f pkt s =
     (case getSession s f of None \<Rightarrow> s | Some sess \<Rightarrow>
      if \<not> m_authenticated sess then s
      else if isMuted E sess then send_to f (makeError ERR_PERMISSION_DENIED ''You have been muted!'') s
      else
        let (lim, s1) = sv_limit L cfg E (fd_key f) MSG_CHAT s in
        if lim = RATE_LIMITED then
          send_to f (makeError ERR_RATE_LIMITED ''Please chat slower (Spam detected)'') s1
        else
          let p = parseChatSend pkt; message = chat_message p in
          if message = [] then s1
          else
            let ((res, _), al, db) = msg_filter L E message (m_nickname sess) (sv_audit s1, sv_db s1);
                s2 = s1\<lparr>sv_audit := al, sv_db := db\<rparr> in
            if res \<noteq> PASS then
              send_to f (makeError ERR_MESSAGE_BLOCKED ''Your message was blocked by the security filter'') s2
            else if length message > MAX_MESSAGE_LEN then
              send_to f (makeError ERR_MESSAGE_TOO_LONG ''Message is too long'') s2
            else
              let s3 = upd_session f (\<lambda>ss. ss\<lparr>m_msgCount := m_msgCount ss + 1\<rparr>) s2;
                  room = m_room sess;
                  s4 = broadcastToRoom room (makeChatBroadcast (now E) (m_nickname sess) room message) (-1) s3;
                  entry = \<lparr>h_timestamp = now E, h_sender = m_nickname sess, h_room = room,
                           h_message = message, h_msg_type = H_CHAT\<rparr>;
                  (rm, db') = appendHistory E room entry (sv_rm s4, sv_db s4)
              in s4\<lparr>sv_rm := rm, sv_db := db'\<rparr>)"

definition handleChatPrivate :: "lib \<Rightarrow> env \<Rightarrow> fd \<Rightarrow> Packet \<Rightarrow> Server \<Rightarrow> Server" where
  "handleChatPrivate L E f pkt s =
     (case getSession s f of None \<Rightarrow> s | Some sender \<Rightarrow>
      if \<not> m_authenticated sender then s
      else if isMuted E sender then send_to f (makeError ERR_PERMISSION_DENIED ''You have been muted!'') s
      else
        let p = parseChatPrivate pkt; target = priv_to p; message = priv_message p in
        if target = m_nickname sender then
          send_to f (makeError ERR_PERMISSION_DENIED ''Cannot send message to yourself'') s
        else if target = [] \<or> message = [] then s
        else
          let ((res, _), al, db) = msg_filter L E message (m_nickname sender) (sv_audit s, sv_db s);
              s1 = s\<lparr>sv_audit := al, sv_db := db\<rparr> in
          if res \<noteq> PASS then
            send_to f (makeError ERR_MESSAGE_BLOCKED ''Your message was blocked by the security filter'') s1
          else
            let targetFd = getFdByNickname s1 target;
                not_found = send_to f (makeError ERR_ROOM_NOT_FOUND ''Target user not found'') s1
            in if targetFd = -1 then not_found
               else case getSession s1 targetFd of
                 None \<Rightarrow> not_found
               | Some ts \<Rightarrow>
                 if m_authenticated ts then
                   let q = mk_packet MSG_CHAT_PRIVATE (bytes_of_string (json_dump (json_object
                             [(''from'', JStr (m_nickname sender)), (''to'', JStr target), (''message'', JStr message)])))
                   in send_to f q (send_to targetFd q s1)
                 else not_found)"

definition handleDisconnect :: "fd \<Rightarrow> Server \<Rightarrow> Server" where
  "handleDisconnect f s = onClientDisconnected f s"

definition handlePing :: "env \<Rightarrow> fd \<Rightarrow> Server \<Rightarrow> Server" where
  "handlePing E f s =
     (case getSession s f of None \<Rightarrow> s | Some sess \<Rightarrow>
      send_to f makePong (upd_session f (\<lambda>ss. ss\<lparr>m_lastPingTime := now E\<rparr>) s))"

section \<open>Rooms\<close>

definition handleUserListRequest :: "fd \<Rightarrow> Server \<Rightarrow> Server" where
  "handleUserListRequest f s =
     (case getSession s f of None \<Rightarrow> s | Some sess \<Rightarrow>
      if \<not> m_authenticated sess then s
      else send_to f (makeUserListResponse (json_dump (JArr (map JStr (getUsersInRoom (m_room sess) s))))) s)"

definition room_item :: "Server \<Rightarrow> string \<Rightarrow> json" where
  "room_item s n = json_object [(''room'', JStr n),
     (''users'', JInt (int (fcard (members (the (fmlookup (m_rooms s) n))))))]"

definition handleRoomListRequest :: "fd \<Rightarrow> Server \<Rightarrow> Server" where
  "handleRoomListRequest f s =
     (case getSession s f of None \<Rightarrow> s | Some sess \<Rightarrow>
      if \<not> m_authenticated sess then s
      else send_to f (makeRoomListResponse (json_dump (JArr (map (room_item s)
             (filter (\<lambda>n. \<not> has_password (the (fmlookup (m_rooms s) n))) (getRoomList s)))))) s)"

definition handleRoomJoin :: "lib \<Rightarrow> ServerConfig \<Rightarrow> env \<Rightarrow> fd \<Rightarrow> Packet \<Rightarrow> Server \<Rightarrow> Server" where
  "handleRoomJoin L cfg E f pkt s =
     (case getSession s f of None \<Rightarrow> s | Some sess \<Rightarrow>
      if \<not> m_authenticated sess then s
      else
        let p = parseRoomJoin pkt; newRoom = room_name p in
        if newRoom = [] then s
        else
          let found = find (\<lambda>r. rd_name r = newRoom) (loadAllRoomsFromDb E (sv_db s));
              protected_room = (case found of Some r \<Rightarrow> rd_has_password r | None \<Rightarrow> False);
              verdict = (if protected_room then
                           (case verifyRoomPasswordDb L E newRoom (room_password p) (sv_db s) of
                              Inl _ \<Rightarrow> Some None
                            | Inr err \<Rightarrow> if err \<noteq> ERR_OK
                                then Some (Some (makeError err ''Incorrect password or room not found'')) else None)
                         else if found = None \<and> newRoom \<noteq> default_room cfg
                           then Some (Some (makeError ERR_ROOM_NOT_FOUND ''Room not found''))
                         else None)
          in (case verdict of
                Some None \<Rightarrow> s
              | Some (Some e) \<Rightarrow> send_to f e s
              | None \<Rightarrow>
                let oldRoom = m_room sess in
                if fmlookup (m_rooms s) newRoom \<noteq> None \<and>
                   m_nickname sess |\<in>| banned_nicks (the (fmlookup (m_rooms s) newRoom))
                then send_to f (makeError ERR_PERMISSION_DENIED ''You have been kicked from this room.'') s
                else
                  let s1 = (if fmlookup (m_rooms s) oldRoom \<noteq> None then upd_room oldRoom (erase_member f) s else s);
                      s2 = upd_room newRoom (insert_member f) s1;
                      s3 = upd_session f (\<lambda>ss. ss\<lparr>m_room := newRoom\<rparr>) s2;
                      s4 = s3\<lparr>sv_db := updateLastRoom E (m_nickname sess) newRoom (sv_db s3)\<rparr>;
                      s5 = broadcastToRoom oldRoom (makeSystemNotify (m_nickname sess @ '' left #'' @ oldRoom)) f s4;
                      s6 = broadcastToRoom newRoom (makeSystemNotify (m_nickname sess @ '' joined #'' @ newRoom)) f s5;
                      s7 = send_to f (makeSystemNotify (''You joined #'' @ newRoom)) s6
                  in sv_history E f newRoom s7))"

text \<open>Moving a member of a deleted room to the default room.\<close>

definition move_to_default :: "ServerConfig \<Rightarrow> fd \<Rightarrow> Server \<Rightarrow> Server" where
  "move_to_default cfg g s =
     (case getSession s g of None \<Rightarrow> s | Some ms \<Rightarrow>
      let d = default_room cfg;
          s1 = upd_session g (\<lambda>ss. ss\<lparr>m_room := d\<rparr>) (upd_room d (insert_member g) s);
          s2 = send_to g (makeSystemNotify (''You were moved to #'' @ d @ '' because your room was deleted.'')) s1
      in broadcastToRoom d (makeSystemNotify (m_nickname ms @ '' joined #'' @ d)) g s2)"

definition is_admin :: "ClientSession \<Rightarrow> bool" where
  "is_admin ss \<longleftrightarrow> m_role ss = R_ADMIN \<or> m_role ss = R_OWNER"

definition handleRoomDelete :: "ServerConfig \<Rightarrow> env \<Rightarrow> fd \<Rightarrow> Packet \<Rightarrow> Server \<Rightarrow> Server" where
  "handleRoomDelete cfg E f pkt s =
     (case getSession s f of None \<Rightarrow> s | Some sess \<Rightarrow>
      if \<not> m_authenticated sess then s
      else
        let roomName = room_name (parseRoomDelete pkt) in
        if roomName = default_room cfg then
          send_to f (makeError ERR_PERMISSION_DENIED txt_default_room_fixed) s
        else
          let creator = getRoomCreatorDb E roomName (sv_db s) in
          if creator = [] then
            send_to f (makeError ERR_ROOM_NOT_FOUND (txt_room_pre @ roomName @ txt_room_missing)) s
          else if creator \<noteq> m_nickname sess \<and> \<not> is_admin sess then
            send_to f (makeError ERR_PERMISSION_DENIED (txt_delete_denied_pre @ creator @ txt_delete_denied_post)) s
          else
            let toKick = (case fmlookup (m_rooms s) roomName of
                            Some ri \<Rightarrow> sorted_list_of_fset (members ri) | None \<Rightarrow> []);
                s1 = s\<lparr>m_rooms := fmdrop roomName (m_rooms s)\<rparr>;
                s2 = s1\<lparr>sv_db := snd (deleteRoomDb E roomName (sv_db s1))\<rparr>;
                s3 = broadcastToRoom roomName (makeSystemNotify (''Room #'' @ roomName @ '' has been deleted.'')) (-1) s2;
                s4 = fold (move_to_default cfg) toKick s3
            in send_to f (makeSystemNotify (''Room #'' @ roomName @ '' deleted successfully.'')) s4)"

definition admin_room_item :: "Server \<Rightarrow> string \<Rightarrow> json" where
  "admin_room_item s n = (let ri = the (fmlookup (m_rooms s) n) in
     json_object [(''room'', JStr n), (''creator'', JStr (creator_nick ri)),
       (''count'', JInt (int (fcard (members ri)))), (''has_password'', JBool (has_password ri))])"

definition handleAdminRoomInfo :: "fd \<Rightarrow> Server \<Rightarrow> Server" where
  "handleAdminRoomInfo f s =
     (case getSession s f of None \<Rightarrow> s | Some sess \<Rightarrow>
      if \<not> m_authenticated sess \<or> \<not> is_admin sess then
        send_to f (makeError ERR_PERMISSION_DENIED ''You do not have admin privileges'') s
      else send_to f (makeAdminRoomInfoResponse (json_dump (JArr (map (admin_room_item s) (getRoomList s))))) s)"

definition handleRoomCreate :: "lib \<Rightarrow> env \<Rightarrow> fd \<Rightarrow> Packet \<Rightarrow> Server \<Rightarrow> Server" where
  "handleRoomCreate L E f pkt s =
     (case getSession s f of None \<Rightarrow> s | Some sess \<Rightarrow>
      if \<not> m_authenticated sess then s
      else
        let p = parseRoomCreate pkt; roomName = room_name p in
        if roomName = [] then s
        else if fmlookup (m_rooms s) roomName \<noteq> None then
          send_to f (makeError ERR_INTERNAL (txt_name_pre @ roomName @ txt_name_taken)) s
        else if fcard (fmdom (m_rooms s)) \<ge> MAX_ROOMS then
          send_to f (makeError ERR_INTERNAL txt_room_limit) s
        else
          let (err, db) = createRoomDb L E roomName (room_password p) (m_nickname sess) (sv_db s);
              s1 = s\<lparr>sv_db := db\<rparr> in
          if err \<noteq> ERR_OK then send_to f (makeError err txt_create_failed) s1
          else
            let s2 = s1\<lparr>m_rooms := fmupd roomName \<lparr>creator_nick = m_nickname sess, members = {||},
                         banned_nicks = {||}, has_password = room_password p \<noteq> []\<rparr> (m_rooms s1)\<rparr>
            in send_to f (makeSystemNotify (''Room #'' @ roomName @ '' created'')) s2)"

definition handleRoomLeave :: "ServerConfig \<Rightarrow> env \<Rightarrow> fd \<Rightarrow> Server \<Rightarrow> Server" where
  "handleRoomLeave cfg E f s =
     (case getSession s f of None \<Rightarrow> s | Some sess \<Rightarrow>
      if \<not> m_authenticated sess then s
      else
        let oldRoom = m_room sess; defRoom = default_room cfg in
        if oldRoom = defRoom then
          send_to f (makeError ERR_INTERNAL ''You cannot leave the default room (general)'') s
        else
          let s1 = upd_room defRoom (insert_member f) (upd_room oldRoom (erase_member f) s);
              s2 = upd_session f (\<lambda>ss. ss\<lparr>m_room := defRoom\<rparr>) s1;
              s3 = s2\<lparr>sv_db := updateLastRoom E (m_nickname sess) defRoom (sv_db s2)\<rparr>;
              s4 = broadcastToRoom oldRoom (makeSystemNotify (m_nickname sess @ '' left #'' @ oldRoom)) f s3;
              s5 = broadcastToRoom defRoom (makeSystemNotify (m_nickname sess @ '' joined #'' @ defRoom)) f s4;
              s6 = send_to f (makeSystemNotify (''You are now in #'' @ defRoom)) s5
          in sv_history E f defRoom s6)"

definition kickFromRoom :: "ServerConfig \<Rightarrow> env \<Rightarrow> fd \<Rightarrow> string \<Rightarrow> string \<Rightarrow> Server \<Rightarrow> Server" where
  "kickFromRoom cfg E targetFd adminNick reason s =
     (case getSession s targetFd of None \<Rightarrow> s | Some tsess \<Rightarrow>
      let room = m_room tsess; d = default_room cfg in
      if room = d then s
      else
        let s1 = upd_room room (\<lambda>ri. (erase_member targetFd ri)\<lparr>banned_nicks := finsert (m_nickname tsess) (banned_nicks ri)\<rparr>) s;
            s2 = s1\<lparr>sv_db := snd (banUserFromRoomDb E room (m_nickname tsess) (sv_db s1))\<rparr>;
            s3 = upd_room d (insert_member targetFd) s2;
            s4 = upd_session targetFd (\<lambda>ss. ss\<lparr>m_room := d\<rparr>) s3;
            s5 = send_to targetFd (makeSystemNotify
                   (''You were kicked to #'' @ d @ '' by '' @ adminNick @ '': '' @ reason)) s4
        in broadcastToRoom d (makeSystemNotify (m_nickname tsess @ '' was kicked here from #'' @ room)) targetFd s5)"

definition unkickFromRoom :: "env \<Rightarrow> string \<Rightarrow> string \<Rightarrow> Server \<Rightarrow> Server" where
  "unkickFromRoom E targetNick room s =
     (case fmlookup (m_rooms s) room of None \<Rightarrow> s | Some ri \<Rightarrow>
      if targetNick |\<in>| banned_nicks ri then
        let s1 = upd_room room (\<lambda>ri. ri\<lparr>banned_nicks := banned_nicks ri |-| {|targetNick|}\<rparr>) s
        in s1\<lparr>sv_db := snd (unbanUserFromRoomDb E room targetNick (sv_db s1))\<rparr>
      else s)"

end
