(* ===== verification/Admin.thy ===== *)
theory Admin
  imports Server
begin

text \<open>
  The administrators' commands, \<open>server/features/AdminCommands.cpp\<close>, on the server's state. Each
  checks the role of the session it runs for; promotions and demotions are reserved to the owner.
\<close>

definition adminNick :: "Server \<Rightarrow> fd \<Rightarrow> string" where
  "adminNick s f = (case getSession s f of Some ss \<Rightarrow> m_nickname ss | None \<Rightarrow> ''unknown'')"

definition hasAdminRight :: "Server \<Rightarrow> fd \<Rightarrow> bool \<Rightarrow> bool" where
  "hasAdminRight s f ownerOnly \<longleftrightarrow>
     (case getSession s f of
        None \<Rightarrow> False
      | Some ss \<Rightarrow> if ownerOnly then m_role ss = R_OWNER else m_role ss = R_ADMIN \<or> m_role ss = R_OWNER)"

text \<open>\<open>if (admin) admin->sendPacket(p)\<close>.\<close>

definition send_opt :: "fd \<Rightarrow> Packet \<Rightarrow> Server \<Rightarrow> Server" where
  "send_opt f p s = (case getSession s f of Some _ \<Rightarrow> send_to f p s | None \<Rightarrow> s)"

definition no_privileges :: "Packet" where
  "no_privileges = makeError ERR_PERMISSION_DENIED ''You do not have admin privileges''"

definition actual_reason :: "string \<Rightarrow> string" where
  "actual_reason reason = (if reason = [] then ''No reason provided'' else reason)"

definition admin_kick :: "lib \<Rightarrow> ServerConfig \<Rightarrow> env \<Rightarrow> fd \<Rightarrow> string \<Rightarrow> string \<Rightarrow> Server \<Rightarrow> Server" where
  "admin_kick L cfg E adminFd targetNick reason s =
     (if \<not> hasAdminRight s adminFd False then send_opt adminFd (no_privileges) s
      else
        let anik = adminNick s adminFd; targetFd = getFdByNickname s targetNick in
        case getSession s targetFd of
          None \<Rightarrow> send_opt adminFd (makeError ERR_ROOM_NOT_FOUND txt_no_such_user) s
        | Some tsess \<Rightarrow>
          let room = m_room tsess in
          if room = default_room cfg then s
          else
            let s1 = broadcastToRoom room (makeSystemNotify (targetNick @ '' was kicked by '' @ anik
                       @ (if reason = [] then [] else '': '' @ reason))) (-1) s;
                s2 = sv_log L E ADMIN_EVENT anik targetNick ''KICK'' SUCCESS (m_ip tsess) (actual_reason reason) s1
            in kickFromRoom cfg E targetFd anik (actual_reason reason) s2)"

definition admin_unkick :: "lib \<Rightarrow> env \<Rightarrow> fd \<Rightarrow> string \<Rightarrow> string \<Rightarrow> Server \<Rightarrow> Server" where
  "admin_unkick L E adminFd targetNick room s =
     (if \<not> hasAdminRight s adminFd False then send_opt adminFd (no_privileges) s
      else
        let anik = adminNick s adminFd;
            s1 = unkickFromRoom E targetNick room s;
            s2 = send_opt adminFd (makeSystemNotify (targetNick @ '' was unkicked from #'' @ room)) s1;
            s3 = send_opt (getFdByNickname s2 targetNick)
                   (makeSystemNotify (''You can now rejoin room #'' @ room)) s2
        in sv_log L E ADMIN_EVENT anik targetNick ''UNKICK'' SUCCESS [] [] s3)"

definition mute_span :: "int \<Rightarrow> string" where
  "mute_span durationSec = (if durationSec > 0 then '' for '' @ show_int durationSec @ ''s'' else '' permanently'')"

definition admin_mute :: "lib \<Rightarrow> env \<Rightarrow> fd \<Rightarrow> string \<Rightarrow> int \<Rightarrow> Server \<Rightarrow> Server" where
  "admin_mute L E adminFd targetNick durationSec s =
     (if \<not> hasAdminRight s adminFd False then send_opt adminFd (no_privileges) s
      else
        let anik = adminNick s adminFd;
            targetFd = getFdByNickname s targetNick;
            tsess = getSession s targetFd;
            until = (if durationSec > 0 then now E + durationSec else 0);
            s1 = s\<lparr>sv_db := updateMuteStateDb E targetNick True until (sv_db s)\<rparr>;
            s2 = (case tsess of
                    None \<Rightarrow> s1
                  | Some ts \<Rightarrow>
                    broadcastToRoom (m_room ts)
                      (makeSystemNotify (targetNick @ '' has been muted by '' @ anik @ mute_span durationSec)) targetFd
                      (send_to targetFd (makeSystemNotify (''You have been muted by '' @ anik @ mute_span durationSec))
                        (upd_session targetFd (\<lambda>x. x\<lparr>m_muted := True, m_muteUntil := until\<rparr>) s1)));
            s3 = send_opt adminFd
                   (makeSystemNotify (''You have muted '' @ targetNick @ mute_span durationSec)) s2
        in sv_log L E ADMIN_EVENT anik targetNick ''MUTE'' SUCCESS
             (case tsess of Some ts \<Rightarrow> m_ip ts | None \<Rightarrow> []) (''duration='' @ show_int durationSec) s3)"

definition admin_unmute :: "lib \<Rightarrow> env \<Rightarrow> fd \<Rightarrow> string \<Rightarrow> Server \<Rightarrow> Server" where
  "admin_unmute L E adminFd targetNick s =
     (if \<not> hasAdminRight s adminFd False then s
      else
        let anik = adminNick s adminFd;
            targetFd = getFdByNickname s targetNick;
            tsess = getSession s targetFd;
            s1 = s\<lparr>sv_db := updateMuteStateDb E targetNick False 0 (sv_db s)\<rparr>;
            s2 = (case tsess of
                    None \<Rightarrow> s1
                  | Some ts \<Rightarrow>
                    broadcastToRoom (m_room ts) (makeSystemNotify (targetNick @ '' has been unmuted'')) targetFd
                      (send_to targetFd (makeSystemNotify ''You have been unmuted.'')
                        (upd_session targetFd (\<lambda>x. x\<lparr>m_muted := False, m_muteUntil := 0\<rparr>) s1)));
            s3 = send_opt adminFd (makeSystemNotify (''You have unmuted '' @ targetNick)) s2
        in sv_log L E ADMIN_EVENT anik targetNick ''UNMUTE'' SUCCESS
             (case tsess of Some ts \<Rightarrow> m_ip ts | None \<Rightarrow> []) [] s3)"

definition sv_perm_ban :: "env \<Rightarrow> string \<Rightarrow> string \<Rightarrow> string \<Rightarrow> Server \<Rightarrow> Server" where
  "sv_perm_ban E a nick reason s =
     (let (d, db) = permBanUser E a nick reason (sv_ids s, sv_db s) in s\<lparr>sv_ids := d, sv_db := db\<rparr>)"

definition admin_ban :: "lib \<Rightarrow> env \<Rightarrow> fd \<Rightarrow> string \<Rightarrow> string \<Rightarrow> Server \<Rightarrow> Server" where
  "admin_ban L E adminFd targetNick reason s =
     (if \<not> hasAdminRight s adminFd False then send_opt adminFd (no_privileges) s
      else
        let anik = adminNick s adminFd; why = actual_reason reason;
            targetFd = getFdByNickname s targetNick in
        case getSession s targetFd of
          None \<Rightarrow>
            if isNicknameTaken E (sv_db s) targetNick then
              send_opt adminFd (makeSystemNotify (''Banned offline user: '' @ targetNick))
                (sv_log L E ADMIN_EVENT anik targetNick ''BAN'' SUCCESS [] why (sv_perm_ban E [] targetNick why s))
            else send_opt adminFd (makeError ERR_ROOM_NOT_FOUND ''User not found'') s
        | Some tsess \<Rightarrow>
            let a = m_ip tsess;
                s1 = sv_log L E ADMIN_EVENT anik targetNick ''BAN'' SUCCESS a why (sv_perm_ban E a targetNick why s);
                s2 = broadcastToRoom (m_room tsess)
                       (makeSystemNotify (targetNick @ '' has been banned by '' @ anik)) (-1) s1
            in sv_disconnect (''Your IP has been banned: '' @ why) targetFd s2)"

definition admin_unban :: "lib \<Rightarrow> env \<Rightarrow> fd \<Rightarrow> string \<Rightarrow> Server \<Rightarrow> Server" where
  "admin_unban L E adminFd ipOrNick s =
     (if \<not> hasAdminRight s adminFd False then s
      else
        let (d, db) = unbanUser E ipOrNick (sv_ids s, sv_db s);
            s1 = s\<lparr>sv_ids := d, sv_db := db\<rparr>;
            s2 = sv_log L E ADMIN_EVENT (adminNick s1 adminFd) ipOrNick ''UNBAN'' SUCCESS [] [] s1
        in send_opt adminFd (makeSystemNotify (''Successfully unbanned user/IP: '' @ ipOrNick)) s2)"

definition set_role :: "lib \<Rightarrow> env \<Rightarrow> fd \<Rightarrow> string \<Rightarrow> UserRole \<Rightarrow> string \<Rightarrow> string \<Rightarrow> Server \<Rightarrow> Server" where
  "set_role L E adminFd targetNick r msg what s =
     (let targetFd = getFdByNickname s targetNick in
      case getSession s targetFd of
        None \<Rightarrow> s
      | Some _ \<Rightarrow>
        let s1 = send_to targetFd (makeSystemNotify msg) (upd_session targetFd (\<lambda>x. x\<lparr>m_role := r\<rparr>) s)
        in sv_log L E ADMIN_EVENT (adminNick s1 adminFd) targetNick what SUCCESS [] [] s1)"

definition admin_promote :: "lib \<Rightarrow> env \<Rightarrow> fd \<Rightarrow> string \<Rightarrow> Server \<Rightarrow> Server" where
  "admin_promote L E adminFd targetNick s =
     (if \<not> hasAdminRight s adminFd True then
        send_opt adminFd (makeError ERR_PERMISSION_DENIED txt_owner_only) s
      else set_role L E adminFd targetNick R_ADMIN ''You have been promoted to ADMIN.'' ''PROMOTE'' s)"

definition admin_demote :: "lib \<Rightarrow> env \<Rightarrow> fd \<Rightarrow> string \<Rightarrow> Server \<Rightarrow> Server" where
  "admin_demote L E adminFd targetNick s =
     (if \<not> hasAdminRight s adminFd True then s
      else set_role L E adminFd targetNick R_USER ''Your admin role has been revoked.'' ''DEMOTE'' s)"

definition admin_broadcast :: "lib \<Rightarrow> env \<Rightarrow> fd \<Rightarrow> string \<Rightarrow> Server \<Rightarrow> Server" where
  "admin_broadcast L E adminFd message s =
     (if \<not> hasAdminRight s adminFd False then send_opt adminFd (no_privileges) s
      else
        let anik = adminNick s adminFd;
            s1 = broadcastToAll (makeSystemNotify (''[BROADCAST] '' @ message)) (-1) s
        in sv_log L E ADMIN_EVENT anik [] ''BROADCAST'' SUCCESS [] (take 128 message) s1)"

end
