(* ===== verification/Dispatch.thy ===== *)
theory Dispatch
  imports Admin
begin

text \<open>
  The way of a packet through the server: \<open>handlePacket\<close> with the decryption in front of it and the
  switch over the message types, the thread pool that runs it, the epoll loop that accepts
  connections and cuts packets out of the bytes received (\<open>server/core/TcpServer.cpp\<close>,
  \<open>ThreadPool.cpp\<close>), the housekeeping of \<open>EventLoop.cpp\<close>, and start and stop. A handler runs
  atomically; the steps of different threads interleave.
\<close>

section \<open>The switch over the message types\<close>

text \<open>The error answer of the key exchange ends the connection.\<close>

definition answer_handshake :: "fd \<Rightarrow> Packet \<Rightarrow> Server \<Rightarrow> Server" where
  "answer_handshake f resp s =
     (case getSession s f of
        None \<Rightarrow> s
      | Some _ \<Rightarrow>
        let s1 = send_to f resp s in
        if msg_type (header resp) = msg_code MSG_ERROR then onClientDisconnected f s1 else s1)"

definition on_hello :: "lib \<Rightarrow> env \<Rightarrow> fd \<Rightarrow> Server \<Rightarrow> Server" where
  "on_hello L E f s =
     (let (resp, kx) = handleHello L E f (sv_kx s) in answer_handshake f resp (s\<lparr>sv_kx := kx\<rparr>))"

text \<open>A read outside the payload is undefined behaviour; the flag \<open>sv_undefined\<close> records it.\<close>

definition on_key_accept :: "lib \<Rightarrow> env \<Rightarrow> fd \<Rightarrow> Packet \<Rightarrow> Server \<Rightarrow> Server" where
  "on_key_accept L E f pkt s =
     (case handleKeyAccept L E f pkt (sv_kx s, sv_engine s, sv_ids s, sv_audit s, sv_db s) of
        None \<Rightarrow> s\<lparr>sv_undefined := True\<rparr>
      | Some (Inl _) \<Rightarrow> s
      | Some (Inr (resp, kx, e, d, al, db)) \<Rightarrow>
          answer_handshake f resp
            (s\<lparr>sv_kx := kx, sv_engine := e, sv_ids := d, sv_audit := al, sv_db := db\<rparr>))"

definition whois_reply :: "env \<Rightarrow> string \<Rightarrow> Server \<Rightarrow> json" where
  "whois_reply E nick s =
     (let tFd = getFdByNickname s nick in
      if tFd \<noteq> -1 then
        (case getSession s tFd of
           None \<Rightarrow> JNull
         | Some ts \<Rightarrow>
           if m_authenticated ts then
             json_object [(''nickname'', JStr (m_nickname ts)), (''ip'', JStr (m_ip ts)),
               (''room'', JStr (m_room ts)), (''is_muted'', JBool (isMuted E ts)),
               (''is_banned'', JBool (isBannedNick (sv_ids s) (m_nickname ts))), (''status'', JStr ''online'')]
           else JNull)
      else if isNicknameTaken E (sv_db s) nick then
        json_object [(''nickname'', JStr nick), (''ip'', JStr ''offline''), (''room'', JStr ''offline''),
          (''is_muted'', JBool (fst (getMuteStateDb E nick (sv_db s)))),
          (''is_banned'', JBool (isBannedNick (sv_ids s) nick)), (''status'', JStr ''offline'')]
      else json_object [(''error'', JStr ''User not found'')])"

text \<open>\<open>j.value\<close> on anything but an object throws, and the request is dropped.\<close>

definition on_whois :: "env \<Rightarrow> fd \<Rightarrow> json \<Rightarrow> Server \<Rightarrow> Server" where
  "on_whois E f j s =
     (case value_string j ''target'' [] of
        Inl _ \<Rightarrow> s
      | Inr nick \<Rightarrow>
        send_opt f (mk_packet MSG_WHOIS_RESPONSE (bytes_of_string (json_dump (whois_reply E nick s)))) s)"

text \<open>An argument of an administrator's command out of the payload, whose extraction may throw.\<close>

definition run1 :: "json_error + 'a \<Rightarrow> ('a \<Rightarrow> Server \<Rightarrow> Server) \<Rightarrow> Server \<Rightarrow> Server" where
  "run1 a k s = (case a of Inl _ \<Rightarrow> s | Inr x \<Rightarrow> k x s)"

definition on_admin :: "lib \<Rightarrow> ServerConfig \<Rightarrow> env \<Rightarrow> fd \<Rightarrow> MessageType \<Rightarrow> json \<Rightarrow> Server \<Rightarrow> Server" where
  "on_admin L cfg E f t j =
     (let tgt = value_string j ''target'' []; why = value_string j ''reason'' [] in
      if t = MSG_ADMIN_KICK then run1 tgt (\<lambda>n. run1 why (admin_kick L cfg E f n))
      else if t = MSG_ADMIN_MUTE then
        run1 (value_int j ''duration'' (-1)) (\<lambda>dur. run1 tgt (\<lambda>n.
          if dur = 0 then admin_unmute L E f n else admin_mute L E f n dur))
      else if t = MSG_ADMIN_BAN then
        run1 (value_bool j ''unban'' False) (\<lambda>un.
          if un then run1 tgt (admin_unban L E f) else run1 tgt (\<lambda>n. run1 why (admin_ban L E f n)))
      else if t = MSG_ADMIN_PROMOTE then
        run1 (value_bool j ''demote'' False) (\<lambda>down.
          run1 tgt (if down then admin_demote L E f else admin_promote L E f))
      else if t = MSG_ADMIN_BROADCAST then run1 (value_string j ''message'' []) (admin_broadcast L E f)
      else run1 tgt (\<lambda>n. run1 (value_string j ''room'' []) (admin_unkick L E f n)))"

definition admin_types :: "MessageType list" where
  "admin_types = [MSG_ADMIN_KICK, MSG_ADMIN_MUTE, MSG_ADMIN_BAN, MSG_ADMIN_PROMOTE, MSG_ADMIN_BROADCAST,
     MSG_ADMIN_UNKICK]"

text \<open>The file transfer handlers on the server's tables.\<close>

definition on_transfer :: "(FileTransfer \<Rightarrow> json_error + sends \<times> FileTransfer) \<Rightarrow> Server \<Rightarrow> Server" where
  "on_transfer h s =
     (case h (sv_transfers s) of Inl _ \<Rightarrow> s | Inr (ps, m) \<Rightarrow> emit ps (s\<lparr>sv_transfers := m\<rparr>))"

definition on_transfer_audit :: "(FileTransfer \<times> audit \<Rightarrow> json_error + sends \<times> FileTransfer \<times> audit) \<Rightarrow>
    Server \<Rightarrow> Server" where
  "on_transfer_audit h s =
     (case h (sv_transfers s, sv_audit s, sv_db s) of
        Inl _ \<Rightarrow> s
      | Inr (ps, m, al, db) \<Rightarrow> emit ps (s\<lparr>sv_transfers := m, sv_audit := al, sv_db := db\<rparr>))"

definition dispatch :: "lib \<Rightarrow> ServerConfig \<Rightarrow> env \<Rightarrow> fd \<Rightarrow> Packet \<Rightarrow> MessageType \<Rightarrow> Server \<Rightarrow> Server" where
  "dispatch L cfg E f pkt t s =
     (let txt = payloadToString pkt; gs = getSession s in
      if t = MSG_CRYPTO_HELLO then on_hello L E f s
      else if t = MSG_CRYPTO_KEY_ACCEPT then on_key_accept L E f pkt s
      else if t = MSG_CONNECT_REQUEST then handleConnectRequest L cfg E f pkt s
      else if t = MSG_RECONNECT_REQUEST then handleReconnectRequest L cfg E f pkt s
      else if t = MSG_CHAT_SEND then handleChatSend L cfg E f pkt s
      else if t = MSG_CHAT_PRIVATE then handleChatPrivate L E f pkt s
      else if t = MSG_DISCONNECT then handleDisconnect f s
      else if t = MSG_PING then handlePing E f s
      else if t = MSG_USER_LIST_REQUEST then handleUserListRequest f s
      else if t = MSG_ROOM_LIST_REQUEST then handleRoomListRequest f s
      else if t = MSG_ROOM_JOIN then handleRoomJoin L cfg E f pkt s
      else if t = MSG_ROOM_CREATE then handleRoomCreate L E f pkt s
      else if t = MSG_ROOM_DELETE then handleRoomDelete cfg E f pkt s
      else if t = MSG_ROOM_LEAVE then handleRoomLeave cfg E f s
      else if t = MSG_ADMIN_ROOM_INFO_REQUEST then handleAdminRoomInfo f s
      else if t = MSG_WHOIS_REQUEST then on_whois E f (json_parse_nothrow txt) s
      else if t \<in> set admin_types then
        (case json_parse_nothrow txt of JDiscarded \<Rightarrow> s | j \<Rightarrow> on_admin L cfg E f t j s)
      else if t = MSG_FILE_REQUEST then
        on_transfer_audit (handleRequest L E gs (getFdByNickname s) f txt) s
      else if t = MSG_FILE_ACCEPT then on_transfer (handleAccept gs f txt) s
      else if t = MSG_FILE_REJECT then on_transfer (handleReject gs f txt) s
      else if t = MSG_FILE_DATA then on_transfer (handleData E gs f txt) s
      else if t = MSG_FILE_COMPLETE then on_transfer_audit (handleComplete L E gs f txt) s
      else if t = MSG_FILE_ACK then on_transfer (handleAck gs f txt) s
      else s)"

definition handlePacket :: "lib \<Rightarrow> ServerConfig \<Rightarrow> env \<Rightarrow> fd \<Rightarrow> Packet \<Rightarrow> Server \<Rightarrow> Server" where
  "handlePacket L cfg E f raw_pkt s =
     (let go = (\<lambda>pkt. case msg_of_code (msg_type (header pkt)) of
                        None \<Rightarrow> s | Some t \<Rightarrow> dispatch L cfg E f pkt t s) in
      if msg_type (header raw_pkt) \<noteq> msg_code MSG_CRYPTO_HELLO \<and>
         msg_type (header raw_pkt) \<noteq> msg_code MSG_CRYPTO_KEY_ACCEPT then
        if hasSession (sv_engine s) f then
          (case decryptPayload L (sv_engine s) f (payload raw_pkt) of
             Inl _ \<Rightarrow> (case getSession s f of
                         None \<Rightarrow> s
                       | Some sess \<Rightarrow> sv_disconnect [] f (sv_violation L E (m_ip sess) HMAC_FAILURE s))
           | Inr pl \<Rightarrow> go (raw_pkt\<lparr>payload := pl\<rparr>))
        else if enable_encryption cfg then
          (case getSession s f of None \<Rightarrow> s | Some _ \<Rightarrow> sv_disconnect [] f s)
        else go raw_pkt
      else go raw_pkt)"

section \<open>The epoll loop\<close>

definition accept_connection :: "lib \<Rightarrow> ServerConfig \<Rightarrow> env \<Rightarrow> fd \<Rightarrow> string \<Rightarrow> Server \<Rightarrow> Server" where
  "accept_connection L cfg E clientFd a s =
     (let (st, d) = checkIP E a (sv_ids s); s1 = s\<lparr>sv_ids := d\<rparr> in
      if st = IP_BLOCKED then
        send_to clientFd (makeConnectReject ERR_PERMISSION_DENIED ''Your IP has been banned.'') s1
      else
        let (lim, s2) = sv_limit L cfg E (''ip_'' @ a) RL_CONNECT s1 in
        if lim = RATE_LIMITED then s2
        else if int (fcard (fmdom (m_sessions s2))) \<ge> m_maxClients s2 then
          send_to clientFd (makeConnectReject ERR_SERVER_FULL ''Server full'') s2
        else
          s2\<lparr>sv_kx := addClient E clientFd a (sv_kx s2),
             m_sessions := fmupd clientFd (session_start (ClientSession_new E clientFd a)) (m_sessions s2)\<rparr>)"

text \<open>
  Bytes of a \<open>recv\<close> (none where it returns 0 or fails): the packets cut out of them go to the pool;
  a malformed header is reported and ends the session.
\<close>

type_synonym task = "fd \<times> Packet"

definition on_readable :: "lib \<Rightarrow> env \<Rightarrow> fd \<Rightarrow> bytes \<Rightarrow> Server \<Rightarrow> task list \<times> Server" where
  "on_readable L E f data s =
     (if data = [] then ([], onClientDisconnected f s)
      else
        case getSession s f of
          None \<Rightarrow> ([], s)
        | Some sess \<Rightarrow>
          let (ps, malformed, sess') = appendAndParseBytes data sess;
              s1 = upd_session f (\<lambda>_. sess') s
          in (map (\<lambda>p. (m_fd sess, p)) ps,
              if malformed then sv_disconnect [] (m_fd sess) (sv_violation L E (m_ip sess) INVALID_PACKET s1)
              else s1))"

section \<open>Housekeeping\<close>

text \<open>The sessions of all rooms, room by room, that satisfy a condition.\<close>

definition sessions_where :: "(ClientSession \<Rightarrow> bool) \<Rightarrow> Server \<Rightarrow> fd list" where
  "sessions_where c s = concat (map (\<lambda>r. map m_fd (filter c (getSessionsInRoom r s))) (getRoomList s))"

definition no_ping :: "env \<Rightarrow> ClientSession \<Rightarrow> bool" where
  "no_ping E ss \<longleftrightarrow> m_authenticated ss \<and> now E - m_lastPingTime ss > 40"

definition disconnect_all :: "fd list \<Rightarrow> Server \<Rightarrow> Server" where
  "disconnect_all fs s = fold (onClientDisconnected) fs s"

definition sv_cleanup :: "env \<Rightarrow> Server \<Rightarrow> Server" where
  "sv_cleanup E s =
     (let (ps, m) = cleanupExpired E (getSession s) (sv_transfers s) in emit ps (s\<lparr>sv_transfers := m\<rparr>))"

definition loop_tick :: "ServerConfig \<Rightarrow> env \<Rightarrow> nat \<times> Server \<Rightarrow> nat \<times> Server" where
  "loop_tick cfg E st =
     (let (ticker0, s) = st; ticker = ticker0 + 1;
          s1 = (if ticker mod 5 = 0 then disconnect_all (sessions_where (no_ping E) s) s else s);
          s2 = sv_cleanup E s1;
          s3 = (if ticker mod 60 = 0 then disconnect_all (sessions_where (isTimedOut cfg E) s2) s2 else s2);
          s4 = (if ticker mod 600 = 0
                then let (al, db) = audit_flush E (sv_audit s3, sv_db s3)
                     in s3\<lparr>sv_ids := decayScores E (sv_ids s3), sv_audit := al, sv_db := db\<rparr>
                else s3)
      in (if ticker \<ge> 3600 then 0 else ticker, s4))"

section \<open>Start and stop\<close>

datatype start_error = StartCrypto crypto_error | StartDatabase | StartJson json_error | StartSocket

definition room_of_db :: "env \<Rightarrow> Database \<Rightarrow> RoomData \<Rightarrow> RoomInfo" where
  "room_of_db E db r = \<lparr>creator_nick = rd_creator r, members = {||},
     banned_nicks = fset_of_list (getBannedUsersForRoomDb E (rd_name r) db), has_password = rd_has_password r\<rparr>"

definition load_rooms :: "env \<Rightarrow> Database \<Rightarrow> (string, RoomInfo) fmap \<Rightarrow> (string, RoomInfo) fmap" where
  "load_rooms E db m = fold (\<lambda>r. fmupd (rd_name r) (room_of_db E db r)) (loadAllRoomsFromDb E db) m"

text \<open>
  \<open>start\<close> up to its epoll loop. The constructor of the authentication manager wants an open database,
  creates the table of users (\<open>tables_ok\<close>) and the owner's account; \<open>socket_ok\<close> is the outcome of
  \<open>socket\<close>, \<open>bind\<close>, \<open>listen\<close> and the epoll calls. A failure, or an exception, ends the program.
\<close>

definition server_start :: "lib \<Rightarrow> ServerConfig \<Rightarrow> env \<Rightarrow> bool \<Rightarrow> bool \<Rightarrow> int \<Rightarrow> Server \<Rightarrow> start_error + Server" where
  "server_start L cfg E tables_ok socket_ok maxClients s =
     (case getJWTSecret (sv_engine s) of Inl e \<Rightarrow> Inl (StartCrypto e) | Inr key \<Rightarrow>
      case SessionToken_new key of Inl e \<Rightarrow> Inl (StartCrypto e) | Inr tm \<Rightarrow>
      if \<not> m_open (sv_db s) \<or> \<not> tables_ok then Inl StartDatabase
      else if \<not> socket_ok then Inl StartSocket
      else
        let db = ensureOwnerExists L E (sv_db s);
            d1 = loadBansFromDB E db (sv_ids s);
            rs = load_rooms E db (m_rooms s);
            rs' = (if fmlookup rs (default_room cfg) = None
                   then fmupd (default_room cfg) \<lparr>creator_nick = ''system'', members = {||}, banned_nicks = {||},
                          has_password = False\<rparr> rs
                   else rs);
            (err, d2) = loadBanList E d1 in
        case err of
          Some e \<Rightarrow> Inl (StartJson e)
        | None \<Rightarrow>
          Inr (s\<lparr>m_maxClients := maxClients, sv_running := True, sv_db := db,
                 sv_auth := \<lparr>token_manager = tm, active_sessions = fmempty\<rparr>,
                 sv_kx := \<lparr>clients = fmempty, ip_failures = fmempty\<rparr>,
                 m_rooms := rs', sv_rm := RoomManager_initialize E (default_room cfg) (sv_rm s),
                 sv_ids := addWhitelist ''127.0.0.1'' d2\<rparr>))"

definition server_stop :: "Server \<Rightarrow> Server" where
  "server_stop s =
     (if \<not> sv_running s then s
      else (broadcastToAll (makeSystemNotify ''Server is shutting down.'') (-1) (s\<lparr>sv_running := False\<rparr>))
             \<lparr>m_sessions := fmempty\<rparr>)"

section \<open>The thread pool and the whole server\<close>

text \<open>
  Tasks wait in the order of their submission; a worker takes the front one and runs it later, so
  that up to as many tasks as there are workers are under way at once, and any of them may finish
  first. A task submitted after the shutdown is dropped; those in the queue are still run.
\<close>

record ThreadPool =
  m_workers :: nat
  m_tasks :: "task list"
  under_way :: "task list"
  m_stopping :: bool

definition pool_submit :: "task list \<Rightarrow> ThreadPool \<Rightarrow> ThreadPool" where
  "pool_submit ts p = (if m_stopping p then p else p\<lparr>m_tasks := m_tasks p @ ts\<rparr>)"

definition pool_take :: "ThreadPool \<Rightarrow> ThreadPool option" where
  "pool_take p =
     (case m_tasks p of
        [] \<Rightarrow> None
      | t # ts \<Rightarrow> if length (under_way p) < m_workers p
                  then Some (p\<lparr>m_tasks := ts, under_way := under_way p @ [t]\<rparr>) else None)"

definition pool_finish :: "nat \<Rightarrow> ThreadPool \<Rightarrow> (task \<times> ThreadPool) option" where
  "pool_finish i p =
     (if i < length (under_way p)
      then Some (under_way p ! i, p\<lparr>under_way := take i (under_way p) @ drop (Suc i) (under_way p)\<rparr>) else None)"

definition pool_shutdown :: "ThreadPool \<Rightarrow> ThreadPool" where
  "pool_shutdown p = p\<lparr>m_stopping := True\<rparr>"

record World =
  w_server :: Server
  w_pool :: ThreadPool
  w_ticker :: nat

text \<open>The server with its pool of \<open>n\<close> idle workers when the event loops begin.\<close>

definition world_start :: "nat \<Rightarrow> Server \<Rightarrow> World" where
  "world_start n s = \<lparr>w_server = s,
     w_pool = \<lparr>m_workers = n, m_tasks = [], under_way = [], m_stopping = False\<rparr>, w_ticker = 0\<rparr>"

datatype event =
    Ev_accept env fd string
  | Ev_readable env fd bytes
  | Ev_hangup fd
  | Ev_take
  | Ev_finish env nat
  | Ev_tick env
  | Ev_stop

text \<open>
  One step. \<open>accept\<close> returns a descriptor that is not in use, so one without a session; a \<open>recv\<close>
  returns at most 2048 bytes.
\<close>

fun world_step :: "lib \<Rightarrow> ServerConfig \<Rightarrow> event \<Rightarrow> World \<Rightarrow> World" where
  "world_step L cfg (Ev_accept E f a) w =
     (if sv_running (w_server w) \<and> 0 \<le> f \<and> getSession (w_server w) f = None
      then w\<lparr>w_server := accept_connection L cfg E f a (w_server w)\<rparr> else w)"
| "world_step L cfg (Ev_readable E f data) w =
     (if sv_running (w_server w) \<and> length data \<le> 2048
      then let (ts, s) = on_readable L E f data (w_server w)
           in w\<lparr>w_server := s, w_pool := pool_submit ts (w_pool w)\<rparr>
      else w)"
| "world_step L cfg (Ev_hangup f) w =
     (if sv_running (w_server w) then w\<lparr>w_server := onClientDisconnected f (w_server w)\<rparr> else w)"
| "world_step L cfg Ev_take w =
     (case pool_take (w_pool w) of None \<Rightarrow> w | Some p \<Rightarrow> w\<lparr>w_pool := p\<rparr>)"
| "world_step L cfg (Ev_finish E i) w =
     (case pool_finish i (w_pool w) of
        None \<Rightarrow> w
      | Some ((f, pkt), p) \<Rightarrow> w\<lparr>w_pool := p, w_server := handlePacket L cfg E f pkt (w_server w)\<rparr>)"
| "world_step L cfg (Ev_tick E) w =
     (let (n, s) = loop_tick cfg E (w_ticker w, w_server w) in w\<lparr>w_ticker := n, w_server := s\<rparr>)"
| "world_step L cfg Ev_stop w =
     w\<lparr>w_server := server_stop (w_server w), w_pool := pool_shutdown (w_pool w)\<rparr>"

end
