(* ===== verification/Safety.thy ===== *)
theory Safety
  imports Dispatch
begin

text \<open>
  What every step of the server keeps: each session is filed under its own descriptor and its time
  of last activity is that of the connection, the default room exists, there are at most
  \<open>m_maxClients\<close> sessions, a key belongs to a connected client and, where encryption is required, an
  authenticated session has a key. The first section says what the building blocks of the handlers
  change.
\<close>

section \<open>Frame lemmas\<close>

lemma send_to_frame [simp]:
  "m_sessions (send_to f p s) = m_sessions s" "m_rooms (send_to f p s) = m_rooms s"
  "m_nicknames (send_to f p s) = m_nicknames s" "sv_engine (send_to f p s) = sv_engine s"
  "sv_kx (send_to f p s) = sv_kx s" "m_maxClients (send_to f p s) = m_maxClients s"
  "sv_running (send_to f p s) = sv_running s" "sv_db (send_to f p s) = sv_db s"
  "sv_ids (send_to f p s) = sv_ids s" "sv_out (send_to f p s) = sv_out s @ [(f, p)]"
  "sv_auth (send_to f p s) = sv_auth s" "getSession (send_to f p s) = getSession s"
  by (simp_all add: send_to_def getSession_def fun_eq_iff)

lemma emit_frame [simp]:
  "m_sessions (emit ps s) = m_sessions s" "m_rooms (emit ps s) = m_rooms s"
  "m_nicknames (emit ps s) = m_nicknames s" "sv_engine (emit ps s) = sv_engine s"
  "sv_kx (emit ps s) = sv_kx s" "m_maxClients (emit ps s) = m_maxClients s"
  "sv_running (emit ps s) = sv_running s" "sv_db (emit ps s) = sv_db s"
  "sv_ids (emit ps s) = sv_ids s" "sv_out (emit ps s) = sv_out s @ ps"
  "sv_auth (emit ps s) = sv_auth s" "getSession (emit ps s) = getSession s"
  by (simp_all add: emit_def getSession_def fun_eq_iff)

lemma broadcastToRoom_frame [simp]:
  "m_sessions (broadcastToRoom r p x s) = m_sessions s" "m_rooms (broadcastToRoom r p x s) = m_rooms s"
  "m_nicknames (broadcastToRoom r p x s) = m_nicknames s" "sv_engine (broadcastToRoom r p x s) = sv_engine s"
  "sv_kx (broadcastToRoom r p x s) = sv_kx s" "m_maxClients (broadcastToRoom r p x s) = m_maxClients s"
  "sv_running (broadcastToRoom r p x s) = sv_running s" "sv_db (broadcastToRoom r p x s) = sv_db s"
  "sv_ids (broadcastToRoom r p x s) = sv_ids s" "sv_auth (broadcastToRoom r p x s) = sv_auth s"
  "getSession (broadcastToRoom r p x s) = getSession s"
  by (simp_all add: broadcastToRoom_def)

lemma broadcastToAll_frame [simp]:
  "m_sessions (broadcastToAll p x s) = m_sessions s" "m_rooms (broadcastToAll p x s) = m_rooms s"
  "m_nicknames (broadcastToAll p x s) = m_nicknames s" "sv_engine (broadcastToAll p x s) = sv_engine s"
  "sv_kx (broadcastToAll p x s) = sv_kx s" "m_maxClients (broadcastToAll p x s) = m_maxClients s"
  "sv_running (broadcastToAll p x s) = sv_running s"
  by (simp_all add: broadcastToAll_def)

lemma upd_room_frame [simp]:
  "m_sessions (upd_room r g s) = m_sessions s" "m_nicknames (upd_room r g s) = m_nicknames s"
  "sv_engine (upd_room r g s) = sv_engine s" "sv_kx (upd_room r g s) = sv_kx s"
  "m_maxClients (upd_room r g s) = m_maxClients s" "sv_running (upd_room r g s) = sv_running s"
  "sv_db (upd_room r g s) = sv_db s" "sv_ids (upd_room r g s) = sv_ids s"
  "sv_out (upd_room r g s) = sv_out s" "sv_auth (upd_room r g s) = sv_auth s" "getSession (upd_room r g s) = getSession s"
  by (simp_all add: upd_room_def getSession_def fun_eq_iff)

lemma upd_session_frame [simp]:
  "m_rooms (upd_session f g s) = m_rooms s" "m_nicknames (upd_session f g s) = m_nicknames s"
  "sv_engine (upd_session f g s) = sv_engine s" "sv_kx (upd_session f g s) = sv_kx s"
  "m_maxClients (upd_session f g s) = m_maxClients s" "sv_running (upd_session f g s) = sv_running s"
  "sv_db (upd_session f g s) = sv_db s" "sv_ids (upd_session f g s) = sv_ids s"
  "sv_out (upd_session f g s) = sv_out s" "fmdom (m_sessions (upd_session f g s)) = fmdom (m_sessions s)"
  by (auto simp: upd_session_def fmlookup_dom_iff split: option.splits)

lemma sv_violation_frame [simp]:
  "m_sessions (sv_violation L E a ty s) = m_sessions s" "m_rooms (sv_violation L E a ty s) = m_rooms s"
  "m_nicknames (sv_violation L E a ty s) = m_nicknames s" "sv_engine (sv_violation L E a ty s) = sv_engine s"
  "sv_kx (sv_violation L E a ty s) = sv_kx s" "m_maxClients (sv_violation L E a ty s) = m_maxClients s"
  "sv_running (sv_violation L E a ty s) = sv_running s" "sv_out (sv_violation L E a ty s) = sv_out s"
  "getSession (sv_violation L E a ty s) = getSession s"
  by (simp_all add: sv_violation_def getSession_def fun_eq_iff split: prod.splits)

lemma sv_log_frame [simp]:
  "m_sessions (sv_log L E ty a b c r i d s) = m_sessions s" "m_rooms (sv_log L E ty a b c r i d s) = m_rooms s"
  "m_nicknames (sv_log L E ty a b c r i d s) = m_nicknames s" "sv_engine (sv_log L E ty a b c r i d s) = sv_engine s"
  "sv_kx (sv_log L E ty a b c r i d s) = sv_kx s" "m_maxClients (sv_log L E ty a b c r i d s) = m_maxClients s"
  "sv_running (sv_log L E ty a b c r i d s) = sv_running s" "sv_ids (sv_log L E ty a b c r i d s) = sv_ids s"
  "sv_out (sv_log L E ty a b c r i d s) = sv_out s" "getSession (sv_log L E ty a b c r i d s) = getSession s"
  by (simp_all add: sv_log_def getSession_def fun_eq_iff split: prod.splits)

lemma sv_history_frame [simp]:
  "m_sessions (sv_history E f r s) = m_sessions s" "m_rooms (sv_history E f r s) = m_rooms s"
  "m_nicknames (sv_history E f r s) = m_nicknames s" "sv_engine (sv_history E f r s) = sv_engine s"
  "sv_kx (sv_history E f r s) = sv_kx s" "m_maxClients (sv_history E f r s) = m_maxClients s"
  "sv_running (sv_history E f r s) = sv_running s" "sv_db (sv_history E f r s) = sv_db s"
  "sv_ids (sv_history E f r s) = sv_ids s"
  by (simp_all add: sv_history_def split: prod.splits)

lemma sv_limit_frame [simp]:
  "m_sessions (snd (sv_limit L cfg E k ty s)) = m_sessions s" "m_rooms (snd (sv_limit L cfg E k ty s)) = m_rooms s"
  "m_nicknames (snd (sv_limit L cfg E k ty s)) = m_nicknames s"
  "sv_engine (snd (sv_limit L cfg E k ty s)) = sv_engine s" "sv_kx (snd (sv_limit L cfg E k ty s)) = sv_kx s"
  "m_maxClients (snd (sv_limit L cfg E k ty s)) = m_maxClients s"
  "sv_running (snd (sv_limit L cfg E k ty s)) = sv_running s" "sv_out (snd (sv_limit L cfg E k ty s)) = sv_out s"
  "sv_auth (snd (sv_limit L cfg E k ty s)) = sv_auth s" "sv_rm (snd (sv_limit L cfg E k ty s)) = sv_rm s"
  "getSession (snd (sv_limit L cfg E k ty s)) = getSession s"
  by (simp_all add: sv_limit_def getSession_def fun_eq_iff case_prod_beta Let_def)

section \<open>The invariant\<close>

definition session_ok :: "ServerConfig \<Rightarrow> CryptoEngine \<Rightarrow> fd \<Rightarrow> ClientSession \<Rightarrow> bool" where
  "session_ok cfg e f ss \<longleftrightarrow> m_fd ss = f \<and> 0 \<le> f \<and> m_lastActive ss = m_connectTime ss \<and>
     (enable_encryption cfg \<and> m_authenticated ss \<longrightarrow> hasSession e f)"

definition sv_ok :: "ServerConfig \<Rightarrow> Server \<Rightarrow> bool" where
  "sv_ok cfg s \<longleftrightarrow>
     fmpred (session_ok cfg (sv_engine s)) (m_sessions s) \<and>
     fmlookup (m_rooms s) (default_room cfg) \<noteq> None \<and>
     int (fcard (fmdom (m_sessions s))) \<le> max 0 (m_maxClients s) \<and>
     fmdom (session_keys (sv_engine s)) |\<subseteq>| fmdom (clients (sv_kx s)) \<and>
     (sv_running s \<longrightarrow> fmdom (clients (sv_kx s)) = fmdom (m_sessions s))"

definition sv_core :: "Server \<Rightarrow> (fd, ClientSession) fmap \<times> (string, RoomInfo) fmap \<times> CryptoEngine \<times> KeyExchange
    \<times> int \<times> bool" where
  "sv_core s = (m_sessions s, m_rooms s, sv_engine s, sv_kx s, m_maxClients s, sv_running s)"

lemma sv_ok_core: "sv_core s = sv_core t \<Longrightarrow> sv_ok cfg s = sv_ok cfg t"
  by (simp add: sv_ok_def sv_core_def)

lemma sv_ok_simps [simp]:
  "sv_ok cfg (send_to f p s) = sv_ok cfg s" "sv_ok cfg (emit ps s) = sv_ok cfg s"
  "sv_ok cfg (broadcastToRoom r p x s) = sv_ok cfg s" "sv_ok cfg (broadcastToAll p x s) = sv_ok cfg s"
  "sv_ok cfg (sv_violation L E a ty s) = sv_ok cfg s" "sv_ok cfg (sv_log L E ty2 a b c rs i d s) = sv_ok cfg s"
  "sv_ok cfg (sv_history E f r s) = sv_ok cfg s"
  "sv_ok cfg (s\<lparr>sv_db := db\<rparr>) = sv_ok cfg s" "sv_ok cfg (s\<lparr>sv_auth := am\<rparr>) = sv_ok cfg s"
  "sv_ok cfg (s\<lparr>sv_audit := al\<rparr>) = sv_ok cfg s" "sv_ok cfg (s\<lparr>sv_ids := ids\<rparr>) = sv_ok cfg s"
  "sv_ok cfg (s\<lparr>m_nicknames := ns\<rparr>) = sv_ok cfg s" "sv_ok cfg (s\<lparr>sv_transfers := m\<rparr>) = sv_ok cfg s"
  "sv_ok cfg (s\<lparr>sv_rm := rm\<rparr>) = sv_ok cfg s" "sv_ok cfg (s\<lparr>sv_limiter := rl\<rparr>) = sv_ok cfg s"
  "sv_ok cfg (s\<lparr>sv_undefined := u\<rparr>) = sv_ok cfg s"
  by (simp_all add: sv_ok_def)

lemma sv_ok_limit [simp]: "sv_ok c (snd (sv_limit L cfg E k ty s)) = sv_ok c s"
  by (rule sv_ok_core) (simp add: sv_core_def)

lemma sv_ok_upd_room [simp]: "sv_ok cfg s \<Longrightarrow> sv_ok cfg (upd_room r g s)"
  by (simp add: sv_ok_def upd_room_def)

lemma sv_ok_upd_session:
  assumes "sv_ok cfg s"
    and "\<And>ss. getSession s f = Some ss \<Longrightarrow> session_ok cfg (sv_engine s) f ss \<Longrightarrow> session_ok cfg (sv_engine s) f (g ss)"
  shows "sv_ok cfg (upd_session f g s)"
proof (cases "getSession s f")
  case (Some ss)
  with assms have "session_ok cfg (sv_engine s) f (g ss)" by (auto simp: sv_ok_def getSession_def dest: fmpredD)
  moreover have "finsert f (fmdom (m_sessions s)) = fmdom (m_sessions s)"
    using Some by (auto simp: getSession_def fmlookup_dom_iff)
  ultimately show ?thesis using assms(1) Some
    by (auto simp: sv_ok_def upd_session_def getSession_def)
qed (use assms(1) in \<open>simp add: upd_session_def getSession_def\<close>)

section \<open>The handlers keep the invariant\<close>

lemma removeSession_core:
  "m_sessions (removeSession f s) = fmdrop f (m_sessions s)"
  "sv_engine (removeSession f s) = engine_removeSession f (sv_engine s)"
  "sv_kx (removeSession f s) = removeClient f (sv_kx s)"
  "m_maxClients (removeSession f s) = m_maxClients s" "sv_running (removeSession f s) = sv_running s"
  "sv_auth (removeSession f s) = removeSessionByFd f (sv_auth s)"
  "fmdom (m_rooms (removeSession f s)) = fmdom (m_rooms s)"
proof -
  have drop: "fmdrop f (m_sessions s) = m_sessions s" if "fmlookup (m_sessions s) f = None"
    using that by (simp add: fmap_ext)
  show "m_sessions (removeSession f s) = fmdrop f (m_sessions s)"
    by (auto simp: removeSession_def Let_def drop split: option.splits)
  show "fmdom (m_rooms (removeSession f s)) = fmdom (m_rooms s)"
    by (auto simp: removeSession_def Let_def upd_room_def fmlookup_dom_iff split: option.splits)
qed (simp_all add: removeSession_def Let_def split: option.splits)

lemma hasSession_remove: "hasSession (engine_removeSession f e) g \<longleftrightarrow> g \<noteq> f \<and> hasSession e g"
  by (auto simp: hasSession_def engine_removeSession_def)

lemma removeSession_ok [simp]:
  assumes "sv_ok cfg s"
  shows "sv_ok cfg (removeSession f s)"
proof -
  have "fmpred (session_ok cfg (engine_removeSession f (sv_engine s))) (fmdrop f (m_sessions s))"
    using assms by (auto simp: sv_ok_def session_ok_def hasSession_remove fmpred_iff split: if_splits)
  moreover have "fmlookup (m_rooms (removeSession f s)) (default_room cfg) \<noteq> None"
    using assms removeSession_core(7) [of f s] by (auto simp: sv_ok_def fmlookup_dom_iff)
  moreover have "fcard (fmdom (fmdrop f (m_sessions s))) \<le> fcard (fmdom (m_sessions s))"
    by (rule fcard_mono) auto
  ultimately show ?thesis using assms
    by (auto simp: sv_ok_def removeSession_core engine_removeSession_def removeClient_def)
qed

lemma onClientDisconnected_ok [simp]: "sv_ok cfg s \<Longrightarrow> sv_ok cfg (onClientDisconnected f s)"
  by (simp add: onClientDisconnected_def Let_def case_prod_beta)

lemma sv_disconnect_ok [simp]: "sv_ok cfg s \<Longrightarrow> sv_ok cfg (sv_disconnect r f s)"
  by (simp add: sv_disconnect_def)

text \<open>Updates of a session that keep its descriptor, its times and its authentication.\<close>

lemma sv_ok_upd_fields [simp]:
  "(\<And>ss. m_fd (g ss) = m_fd ss \<and> m_authenticated (g ss) = m_authenticated ss \<and>
      m_lastActive (g ss) = m_lastActive ss \<and> m_connectTime (g ss) = m_connectTime ss) \<Longrightarrow> sv_ok cfg s \<Longrightarrow>
   sv_ok cfg (upd_session f g s)"
  by (rule sv_ok_upd_session) (auto simp: session_ok_def)

definition may_login :: "ServerConfig \<Rightarrow> fd \<Rightarrow> Server \<Rightarrow> bool" where
  "may_login cfg f s \<longleftrightarrow> (enable_encryption cfg \<longrightarrow> hasSession (sv_engine s) f)"

lemma enter_chat_ok:
  assumes "sv_ok cfg s" "may_login cfg f s"
  shows "sv_ok cfg (enter_chat cfg E f nick token verb s)"
proof -
  have login: "sv_ok cfg (upd_session f (\<lambda>ss. ss\<lparr>m_nickname := nick, m_room := r, m_authenticated := True\<rparr>) s)" for r
    using assms by (intro sv_ok_upd_session) (auto simp: session_ok_def may_login_def)
  show ?thesis by (simp add: enter_chat_def Let_def case_prod_beta login)
qed

lemma handleConnectRequest_ok:
  assumes "sv_ok cfg s" "may_login cfg f s"
  shows "sv_ok cfg (handleConnectRequest L cfg E f pkt s)"
  using assms
  by (simp add: handleConnectRequest_def Let_def may_login_def case_prod_beta enter_chat_ok
      split: option.split sum.split)

lemma handleReconnectRequest_ok:
  assumes "sv_ok cfg s" "may_login cfg f s"
  shows "sv_ok cfg (handleReconnectRequest L cfg E f pkt s)"
  using assms
  by (simp add: handleReconnectRequest_def Let_def may_login_def case_prod_beta enter_chat_ok
      split: option.split)

lemma handleChatSend_ok: "sv_ok cfg s \<Longrightarrow> sv_ok cfg (handleChatSend L cfg' E f pkt s)"
  by (simp add: handleChatSend_def Let_def case_prod_beta split: option.split)

lemma handleChatPrivate_ok: "sv_ok cfg s \<Longrightarrow> sv_ok cfg (handleChatPrivate L E f pkt s)"
  by (simp add: handleChatPrivate_def Let_def case_prod_beta split: option.split)

lemma handlePing_ok: "sv_ok cfg s \<Longrightarrow> sv_ok cfg (handlePing E f s)"
  by (simp add: handlePing_def split: option.split)

lemma list_handlers_ok:
  "sv_ok cfg s \<Longrightarrow> sv_ok cfg (handleUserListRequest f s)"
  "sv_ok cfg s \<Longrightarrow> sv_ok cfg (handleRoomListRequest f s)"
  "sv_ok cfg s \<Longrightarrow> sv_ok cfg (handleAdminRoomInfo f s)"
  by (simp_all add: handleUserListRequest_def handleRoomListRequest_def handleAdminRoomInfo_def
      split: option.split)

lemma handleRoomJoin_ok: "sv_ok cfg s \<Longrightarrow> sv_ok cfg (handleRoomJoin L cfg E f pkt s)"
  by (simp add: handleRoomJoin_def Let_def split: option.split)

lemma move_to_default_ok: "sv_ok cfg s \<Longrightarrow> sv_ok cfg (move_to_default cfg g s)"
  by (simp add: move_to_default_def Let_def split: option.split)

lemma fold_ok: "(\<And>x s. sv_ok cfg s \<Longrightarrow> sv_ok cfg (h x s)) \<Longrightarrow> sv_ok cfg s \<Longrightarrow> sv_ok cfg (fold h xs s)"
  by (induction xs arbitrary: s) simp_all

lemma drop_room_ok: "sv_ok cfg s \<Longrightarrow> r \<noteq> default_room cfg \<Longrightarrow> sv_ok cfg (s\<lparr>m_rooms := fmdrop r (m_rooms s)\<rparr>)"
  by (simp add: sv_ok_def)

lemma handleRoomDelete_ok: "sv_ok cfg s \<Longrightarrow> sv_ok cfg (handleRoomDelete cfg E f pkt s)"
  by (simp add: handleRoomDelete_def Let_def drop_room_ok fold_ok move_to_default_ok split: option.split)

lemma add_room_ok: "sv_ok cfg s \<Longrightarrow> sv_ok cfg (s\<lparr>m_rooms := fmupd r ri (m_rooms s)\<rparr>)"
  by (simp add: sv_ok_def)

lemma handleRoomCreate_ok: "sv_ok cfg s \<Longrightarrow> sv_ok cfg (handleRoomCreate L E f pkt s)"
  using add_room_ok [of cfg "s\<lparr>sv_db := db\<rparr>" for db]
  by (simp add: handleRoomCreate_def Let_def case_prod_beta split: option.split)

lemma handleRoomLeave_ok: "sv_ok cfg s \<Longrightarrow> sv_ok cfg (handleRoomLeave cfg E f s)"
  by (simp add: handleRoomLeave_def Let_def split: option.split)

lemma kick_ok [simp]:
  "sv_ok cfg s \<Longrightarrow> sv_ok cfg (kickFromRoom cfg E g a r s)"
  "sv_ok cfg s \<Longrightarrow> sv_ok cfg (unkickFromRoom E n r2 s)"
  by (simp_all add: kickFromRoom_def unkickFromRoom_def Let_def split: option.split)

lemma send_opt_ok [simp]: "sv_ok cfg (send_opt f p s) = sv_ok cfg s"
  by (simp add: send_opt_def split: option.split)

lemma sv_perm_ban_ok [simp]: "sv_ok cfg (sv_perm_ban E a n r s) = sv_ok cfg s"
  by (simp add: sv_perm_ban_def case_prod_beta Let_def)

lemma admin_commands_ok:
  assumes "sv_ok cfg s"
  shows "sv_ok cfg (admin_kick L cfg E f n r s)" "sv_ok cfg (admin_unkick L E f n r s)"
    "sv_ok cfg (admin_mute L E f n dur s)" "sv_ok cfg (admin_unmute L E f n s)"
    "sv_ok cfg (admin_ban L E f n r s)" "sv_ok cfg (admin_unban L E f n s)"
    "sv_ok cfg (admin_promote L E f n s)" "sv_ok cfg (admin_demote L E f n s)"
    "sv_ok cfg (admin_broadcast L E f m s)"
  using assms
  by (simp_all add: admin_kick_def admin_unkick_def admin_mute_def admin_unmute_def admin_ban_def
      admin_unban_def admin_promote_def admin_demote_def set_role_def admin_broadcast_def Let_def
      case_prod_beta split: option.split)

lemma run1_ok: "sv_ok cfg s \<Longrightarrow> (\<And>x. sv_ok cfg (k x s)) \<Longrightarrow> sv_ok cfg (run1 a k s)"
  by (simp add: run1_def split: sum.split)

lemma on_admin_ok: "sv_ok cfg s \<Longrightarrow> sv_ok cfg (on_admin L cfg E f t j s)"
  by (simp add: on_admin_def Let_def run1_ok admin_commands_ok)

lemma on_transfer_ok [simp]:
  "sv_ok cfg (on_transfer h s) = sv_ok cfg s" "sv_ok cfg (on_transfer_audit h2 s) = sv_ok cfg s"
  by (simp_all add: on_transfer_def on_transfer_audit_def split: sum.split prod.split)

lemma on_whois_ok: "sv_ok cfg s \<Longrightarrow> sv_ok cfg (on_whois E f j s)"
  by (simp add: on_whois_def split: sum.split)

lemma answer_handshake_ok: "sv_ok cfg s \<Longrightarrow> sv_ok cfg (answer_handshake f r s)"
  by (simp add: answer_handshake_def Let_def split: option.split)

lemma set_client_dom [simp]:
  "fmlookup (clients kx) f = Some c \<Longrightarrow> fmdom (clients (set_client f cs kx)) = fmdom (clients kx)"
  by (auto simp: set_client_def fmlookup_dom_iff)

lemma handleHello_dom: "fmdom (clients (snd (handleHello L E f kx))) = fmdom (clients kx)"
  by (simp add: handleHello_def Let_def split: option.split)

lemma on_hello_ok: "sv_ok cfg s \<Longrightarrow> sv_ok cfg (on_hello L E f s)"
proof -
  assume "sv_ok cfg s"
  then have "sv_ok cfg (s\<lparr>sv_kx := snd (handleHello L E f (sv_kx s))\<rparr>)"
    by (simp add: sv_ok_def handleHello_dom)
  then show ?thesis by (simp add: on_hello_def case_prod_beta Let_def answer_handshake_ok)
qed

lemma handleKeyAccept_tables:
  assumes "handleKeyAccept L E f p (kx, e, d) = Some (Inr (resp, kx', e', d'))"
  shows "fmdom (clients kx') = fmdom (clients kx)"
    and "e' = e \<or> f |\<in>| fmdom (clients kx) \<and> (\<exists>k. session_keys e' = fmupd f k (session_keys e))"
  using assms
  by (auto simp: handleKeyAccept_def Let_def recordFailure_def establishSession_def case_prod_beta
      fmlookup_dom_iff split: option.splits if_splits sum.splits)

lemma on_key_accept_ok:
  assumes "sv_ok cfg s"
  shows "sv_ok cfg (on_key_accept L E f p s)"
proof (cases "handleKeyAccept L E f p (sv_kx s, sv_engine s, sv_ids s, sv_audit s, sv_db s)")
  case (Some r)
  show ?thesis
  proof (cases r)
    case (Inr t)
    obtain resp kx e d al db where t: "t = (resp, kx, e, d, al, db)" by (cases t)
    note h = Some [unfolded Inr t]
    let ?s = "s\<lparr>sv_kx := kx, sv_engine := e, sv_ids := d, sv_audit := al, sv_db := db\<rparr>"
    have keys: "hasSession (sv_engine s) g \<Longrightarrow> hasSession e g" for g
      using handleKeyAccept_tables(2) [OF h] by (auto simp: hasSession_def)
    have "fmdom (session_keys e) |\<subseteq>| fmdom (clients kx)"
      using handleKeyAccept_tables [OF h] assms by (auto simp: sv_ok_def)
    then have "sv_ok cfg ?s" using assms keys handleKeyAccept_tables(1) [OF h]
      by (auto simp: sv_ok_def session_ok_def fmpred_iff)
    then show ?thesis by (simp add: on_key_accept_def h answer_handshake_ok)
  qed (use assms Some in \<open>simp add: on_key_accept_def\<close>)
qed (use assms in \<open>simp add: on_key_accept_def\<close>)

lemmas handlers_ok = handleConnectRequest_ok handleReconnectRequest_ok handleChatSend_ok handleChatPrivate_ok
  handlePing_ok list_handlers_ok handleRoomJoin_ok handleRoomDelete_ok handleRoomCreate_ok handleRoomLeave_ok
  on_admin_ok on_whois_ok on_hello_ok on_key_accept_ok

lemma dispatch_ok:
  assumes "sv_ok cfg s" "t \<noteq> MSG_CRYPTO_HELLO \<Longrightarrow> t \<noteq> MSG_CRYPTO_KEY_ACCEPT \<Longrightarrow> may_login cfg f s"
  shows "sv_ok cfg (dispatch L cfg E f pkt t s)"
  using assms by (simp add: dispatch_def Let_def handlers_ok handleDisconnect_def split: json.split)

lemma handlePacket_ok:
  assumes "sv_ok cfg s"
  shows "sv_ok cfg (handlePacket L cfg E f pkt s)"
proof -
  have go: "sv_ok cfg (case msg_of_code (msg_type (header p)) of None \<Rightarrow> s | Some t \<Rightarrow> dispatch L cfg E f p t s)"
    if "may_login cfg f s \<or> msg_type (header p) = msg_code MSG_CRYPTO_HELLO \<or>
        msg_type (header p) = msg_code MSG_CRYPTO_KEY_ACCEPT" for p
    using that assms
    by (auto split: option.split intro!: dispatch_ok dest!: msg_of_code_SomeD simp del: msg_code.simps)
  show ?thesis
    using go [of pkt] go [of "pkt\<lparr>payload := pl\<rparr>" for pl] assms
    by (auto simp: handlePacket_def Let_def may_login_def split: option.split sum.split)
qed

lemma accept_connection_ok:
  assumes "sv_ok cfg s" "0 \<le> f" "getSession s f = None"
  shows "sv_ok cfg (accept_connection L cfg E f a s)"
proof -
  let ?t = "snd (sv_limit L cfg E (''ip_'' @ a) RL_CONNECT (s\<lparr>sv_ids := snd (checkIP E a (sv_ids s))\<rparr>))"
  have ok: "sv_ok cfg ?t" using assms(1) by simp
  have new: "sv_ok cfg (?t\<lparr>sv_kx := addClient E f a (sv_kx ?t),
      m_sessions := fmupd f (session_start (ClientSession_new E f a)) (m_sessions ?t)\<rparr>)"
    if "\<not> int (fcard (fmdom (m_sessions ?t))) \<ge> m_maxClients ?t"
  proof -
    have "f |\<notin>| fmdom (m_sessions s)" using assms(3) by (simp add: getSession_def fmlookup_dom_iff)
    then have "int (fcard (finsert f (fmdom (m_sessions s)))) \<le> max 0 (m_maxClients s)"
      using that by (simp add: fcard_finsert_disjoint)
    moreover have "session_ok cfg (sv_engine s) f (session_start (ClientSession_new E f a))"
      using assms(2) by (simp add: session_ok_def session_start_def ClientSession_new_def)
    ultimately show ?thesis using ok by (auto simp: sv_ok_def addClient_def)
  qed
  show ?thesis using ok new assms(1)
    by (simp add: accept_connection_def case_prod_beta Let_def)
qed

lemma on_readable_ok:
  assumes "sv_ok cfg s"
  shows "sv_ok cfg (snd (on_readable L E f data s))"
proof -
  have same: "m_fd (snd (snd (appendAndParseBytes data ss))) = m_fd ss \<and>
      m_authenticated (snd (snd (appendAndParseBytes data ss))) = m_authenticated ss \<and>
      m_lastActive (snd (snd (appendAndParseBytes data ss))) = m_lastActive ss \<and>
      m_connectTime (snd (snd (appendAndParseBytes data ss))) = m_connectTime ss" for ss
    by (simp add: appendAndParseBytes_def Let_def split: prod.split option.split)
  have "sv_ok cfg (upd_session f (\<lambda>_. snd (snd (appendAndParseBytes data ss))) s)"
    if "getSession s f = Some ss" for ss
    by (rule sv_ok_upd_session [OF assms]) (use that same [of ss] in \<open>simp add: session_ok_def\<close>)
  then show ?thesis using assms
    by (simp add: on_readable_def case_prod_beta Let_def split: option.split)
qed

lemma disconnect_all_ok [simp]: "sv_ok cfg s \<Longrightarrow> sv_ok cfg (disconnect_all fs s)"
  by (simp add: disconnect_all_def fold_ok)

lemma sv_cleanup_ok [simp]: "sv_ok cfg (sv_cleanup E s) = sv_ok cfg s"
  by (simp add: sv_cleanup_def case_prod_beta Let_def)

lemma loop_tick_ok: "sv_ok cfg s \<Longrightarrow> sv_ok cfg (snd (loop_tick cfg E (n, s)))"
  by (simp add: loop_tick_def Let_def case_prod_beta)

lemma server_stop_ok:
  assumes "sv_ok cfg s"
  shows "sv_ok cfg (server_stop s)"
  using assms by (auto simp: server_stop_def sv_ok_def broadcastToAll_def emit_def fcard_fempty)

definition world_ok :: "ServerConfig \<Rightarrow> World \<Rightarrow> bool" where
  "world_ok cfg w \<longleftrightarrow> sv_ok cfg (w_server w) \<and> length (under_way (w_pool w)) \<le> m_workers (w_pool w) \<and> w_ticker w < 3600"

lemma pool_ok:
  "under_way (pool_submit ts p) = under_way p" "m_workers (pool_submit ts p) = m_workers p"
  "pool_take p = Some p' \<Longrightarrow> length (under_way p') \<le> m_workers p \<and> m_workers p' = m_workers p"
  "pool_finish i p = Some (t, p') \<Longrightarrow> length (under_way p) \<le> m_workers p \<Longrightarrow>
     length (under_way p') \<le> m_workers p'"
  by (auto simp: pool_submit_def pool_take_def pool_finish_def split: list.splits if_splits)

lemma world_step_ok:
  assumes "world_ok cfg w"
  shows "world_ok cfg (world_step L cfg ev w)"
proof (cases ev)
  case (Ev_tick E)
  have "fst (loop_tick cfg E (n, s)) < 3600" if "n < 3600" for n s
    using that by (simp add: loop_tick_def Let_def)
  then show ?thesis using assms loop_tick_ok Ev_tick
    by (simp add: world_ok_def case_prod_beta Let_def)
next
  case Ev_take
  then show ?thesis using assms
    by (cases "pool_take (w_pool w)") (simp_all add: world_ok_def pool_ok(3))
next
  case (Ev_finish E i)
  then show ?thesis using assms
    by (cases "pool_finish i (w_pool w)") (auto simp: world_ok_def handlePacket_ok pool_ok(4) split: prod.split)
qed (use assms in \<open>simp_all add: world_ok_def accept_connection_ok on_readable_ok server_stop_ok
    pool_ok(1,2) pool_shutdown_def case_prod_beta Let_def\<close>)

interpretation world: event_machine "world_step L cfg" "world_ok cfg" for L cfg
  by unfold_locales (rule world_step_ok)

text \<open>The server as \<open>start\<close> leaves it.\<close>

lemma server_start_ok:
  assumes "server_start L cfg E tables ok mx s = Inr t" "m_sessions s = fmempty" "session_keys (sv_engine s) = fmempty"
  shows "sv_ok cfg t"
  using assms by (auto simp: server_start_def sv_ok_def Let_def fcard_fempty
      split: option.splits sum.splits if_splits prod.splits)

end
