(* ===== verification/Access.thy ===== *)
theory Access
  imports Safety
begin

text \<open>
  Who may do what: requests of sessions that are not authenticated, messages of muted users, and
  the administrators' commands. A refused request changes nothing but the output, and what it
  outputs is an error packet for the requester.
\<close>

section \<open>A small server for the examples\<close>

text \<open>Alice (5) and the owner (6) are in the default room, the client on descriptor 7 has just connected.\<close>

definition sample_user :: "fd \<Rightarrow> string \<Rightarrow> UserRole \<Rightarrow> ClientSession" where
  "sample_user f nick r = (ClientSession_new plain_env f ''10.0.0.1'')\<lparr>m_nickname := nick, m_room := ''general'',
     m_authenticated := True, m_role := r\<rparr>"

definition sample_sv :: Server where
  "sample_sv = \<lparr>m_maxClients = 10, sv_running = True,
     m_sessions = fmupd 5 (sample_user 5 ''alice'' R_USER) (fmupd 6 (sample_user 6 ''root'' R_OWNER)
       (fmupd 7 (ClientSession_new plain_env 7 ''10.0.0.2'') fmempty)),
     m_nicknames = fmupd ''alice'' 5 (fmupd ''root'' 6 fmempty),
     m_rooms = fmupd ''general'' (RoomInfo_zero\<lparr>members := {|5, 6|}\<rparr>) fmempty,
     sv_auth = \<lparr>token_manager = sample_tm, active_sessions = fmempty\<rparr>,
     sv_kx = \<lparr>clients = fmempty, ip_failures = fmempty\<rparr>, sv_engine = fresh_engine, sv_limiter = fmempty,
     sv_ids = IntrusionDetector_init, sv_audit = AuditLogger_init, sv_db = opened,
     sv_rm = \<lparr>rmgr_default = ''general'', rmgr_rooms = fmempty, m_histories = fmempty, m_fdToRoom = fmempty\<rparr>,
     sv_transfers = fmempty, sv_out = [], sv_undefined = False\<rparr>"

lemma sample_sessions [simp]:
  "getSession sample_sv 5 = Some (sample_user 5 ''alice'' R_USER)"
  "getSession sample_sv 6 = Some (sample_user 6 ''root'' R_OWNER)"
  "getSession sample_sv 7 = Some (ClientSession_new plain_env 7 ''10.0.0.2'')"
  by (simp_all add: sample_sv_def getSession_def)

section \<open>Refusals\<close>

text \<open>
  A refused request is not answered at all or is answered, to the requester and to nobody else, with
  one error packet that carries one of the given texts; nothing else of the server changes.
\<close>

definition refusal :: "string list \<Rightarrow> fd \<Rightarrow> sends \<Rightarrow> bool" where
  "refusal texts f out \<longleftrightarrow> out = [] \<or> (\<exists>d \<in> set texts. out = [(f, makeError ERR_PERMISSION_DENIED d)])"

definition refused :: "string list \<Rightarrow> fd \<Rightarrow> Server \<Rightarrow> Server \<Rightarrow> bool" where
  "refused texts f s t \<longleftrightarrow> (\<exists>out. refusal texts f out \<and> t = emit out s)"

lemma emit_append: "emit (ps @ qs) s = emit qs (emit ps s)" "emit [] s = s"
  by (simp_all add: emit_def)

lemma refused_intros:
  "refused texts f s s"
  "d \<in> set texts \<Longrightarrow> refused texts f s (send_to f (makeError ERR_PERMISSION_DENIED d) s)"
  "d \<in> set texts \<Longrightarrow> refused texts f s (send_opt f (makeError ERR_PERMISSION_DENIED d) s)"
proof -
  show none: "refused texts f s s" by (auto simp: refused_def refusal_def emit_append intro: exI [of _ "[]"])
  assume d: "d \<in> set texts"
  show one: "refused texts f s (send_to f (makeError ERR_PERMISSION_DENIED d) s)"
    using d unfolding refused_def refusal_def
    by (intro exI [of _ "[(f, makeError ERR_PERMISSION_DENIED d)]"]) (auto simp: emit_def send_to_def)
  show "refused texts f s (send_opt f (makeError ERR_PERMISSION_DENIED d) s)"
    using none one by (simp add: send_opt_def split: option.split)
qed

lemma refused_run1: "(\<And>x. refused texts f s (k x s)) \<Longrightarrow> refused texts f s (run1 a k s)"
  by (simp add: run1_def refused_intros split: sum.split)

definition admin_refusals :: "string list" where
  "admin_refusals = [''You do not have admin privileges'', txt_owner_only]"

lemma refused_admin [simp]:
  "refused admin_refusals f s s" "refused admin_refusals f s (send_opt f no_privileges s)"
  "refused admin_refusals f s (send_to f (makeError ERR_PERMISSION_DENIED ''You do not have admin privileges'') s)"
  "refused admin_refusals f s (send_opt f (makeError ERR_PERMISSION_DENIED txt_owner_only) s)"
  unfolding no_privileges_def by (rule refused_intros; simp add: admin_refusals_def)+

lemma hasAdminRight_owner: "hasAdminRight s f True \<Longrightarrow> hasAdminRight s f False"
  by (auto simp: hasAdminRight_def split: option.splits)

lemma on_admin_denied: "\<not> hasAdminRight s f False \<Longrightarrow> refused admin_refusals f s (on_admin L cfg E f t j s)"
  using hasAdminRight_owner [of s f]
  by (auto simp: on_admin_def Let_def admin_kick_def admin_unkick_def admin_mute_def
      admin_unmute_def admin_ban_def admin_unban_def admin_promote_def admin_demote_def
      admin_broadcast_def intro!: refused_run1)

definition chat_types :: "MessageType list" where
  "chat_types = [MSG_CHAT_SEND, MSG_CHAT_PRIVATE, MSG_USER_LIST_REQUEST, MSG_ROOM_LIST_REQUEST, MSG_ROOM_JOIN,
     MSG_ROOM_CREATE, MSG_ROOM_DELETE, MSG_ROOM_LEAVE]"

definition protected_types :: "MessageType list" where
  "protected_types = chat_types @ [MSG_ADMIN_ROOM_INFO_REQUEST] @ admin_types"

text \<open>
  C14: a session that has not authenticated gets nothing out of chat and room requests: the server is
  exactly as before and nothing is sent to anybody. If it holds no administrator's role (a new session
  holds none), administration requests, too, get at most one error packet, to the requester, that
  denies the permission: no table, no component's state and no other client is affected.
\<close>

theorem unauthenticated_requests_ignored:
  assumes "getSession s f = Some ss" "\<not> m_authenticated ss" "t \<in> set protected_types"
  shows "(t \<in> set chat_types \<longrightarrow> dispatch L cfg E f pkt t s = s) \<and>
    (m_role ss = R_USER \<longrightarrow> refused admin_refusals f s (dispatch L cfg E f pkt t s))"
proof -
  have ign: "dispatch L cfg E f pkt t s = s" if "t \<in> set chat_types"
    using assms(1,2) that
    by (auto simp: chat_types_def dispatch_def Let_def handleChatSend_def handleChatPrivate_def
        handleUserListRequest_def handleRoomListRequest_def handleRoomJoin_def handleRoomCreate_def
        handleRoomDelete_def handleRoomLeave_def)
  have adm: "refused admin_refusals f s (on_admin L cfg E f t j s)" if "m_role ss = R_USER" for j
    using assms(1) that by (intro on_admin_denied) (simp add: hasAdminRight_def)
  have "refused admin_refusals f s (dispatch L cfg E f pkt t s)"
    if "m_role ss = R_USER" "t \<in> set (MSG_ADMIN_ROOM_INFO_REQUEST # admin_types)"
    using assms(1,2) that(2) adm [OF that(1)]
    by (auto simp: admin_types_def dispatch_def Let_def handleAdminRoomInfo_def split: json.split)
  then show ?thesis using ign assms(3) by (auto simp: protected_types_def)
qed

theorem unauthenticated_requests_ignored_witness:
  "dispatch plain_lib ServerConfig_default plain_env 7 (mk_packet MSG_USER_LIST_REQUEST [])
     MSG_USER_LIST_REQUEST sample_sv = sample_sv \<and>
   refused admin_refusals 7 sample_sv (dispatch plain_lib ServerConfig_default plain_env 7
     (mk_packet MSG_ADMIN_ROOM_INFO_REQUEST []) MSG_ADMIN_ROOM_INFO_REQUEST sample_sv)"
  using unauthenticated_requests_ignored [OF sample_sessions(3), of MSG_USER_LIST_REQUEST plain_lib ServerConfig_default]
    unauthenticated_requests_ignored [OF sample_sessions(3), of MSG_ADMIN_ROOM_INFO_REQUEST plain_lib ServerConfig_default]
  by (simp add: ClientSession_new_def protected_types_def chat_types_def)

text \<open>
  While a user is muted, a chat message, a private message and a file request have no effect but
  the error answer to the sender.
\<close>

theorem muted_user_is_silent:
  assumes "getSession s f = Some ss" "isMuted E ss" "m_fd ss = f"
    and "t \<in> {MSG_CHAT_SEND, MSG_CHAT_PRIVATE, MSG_FILE_REQUEST}"
  shows "refused [''You have been muted!''] f s (dispatch L cfg E f pkt t s)"
proof -
  have req: "on_transfer_audit (handleRequest L E (getSession s) nf f pl) s =
      send_to f (makeError ERR_PERMISSION_DENIED ''You have been muted!'') s" for nf pl
    using assms(1-3) by (simp add: on_transfer_audit_def handleRequest_def emit_def send_to_def)
  show ?thesis using assms(1,2,4) req
    by (auto simp: dispatch_def Let_def handleChatSend_def handleChatPrivate_def admin_types_def refused_intros)
qed

theorem muted_user_is_silent_witness:
  "refused [''You have been muted!''] 5 (upd_session 5 (\<lambda>x. x\<lparr>m_muted := True\<rparr>) sample_sv)
     (dispatch plain_lib ServerConfig_default plain_env 5 (mk_packet MSG_CHAT_PRIVATE [])
       MSG_CHAT_PRIVATE (upd_session 5 (\<lambda>x. x\<lparr>m_muted := True\<rparr>) sample_sv))"
  by (rule muted_user_is_silent [where ss = "(sample_user 5 ''alice'' R_USER)\<lparr>m_muted := True\<rparr>"])
    (simp_all add: getSession_def upd_session_def sample_sv_def isMuted_def sample_user_def ClientSession_new_def)

section \<open>Administration\<close>

text \<open>All the commands, as requests \<open>(environment, message type, payload)\<close>, are guarded by the right.\<close>

type_synonym admin_request = "env \<times> MessageType \<times> json"

definition admin_run :: "lib \<Rightarrow> ServerConfig \<Rightarrow> fd \<Rightarrow> admin_request \<Rightarrow> Server \<Rightarrow> Server" where
  "admin_run L cfg f a s = (case a of (E, t, j) \<Rightarrow> on_admin L cfg E f t j s)"

interpretation admin: guarded_command "\<lambda>s f. hasAdminRight s f False" "admin_run L cfg" emit "refusal admin_refusals"
  for L cfg
proof unfold_locales
  show "\<exists>out. refusal admin_refusals f out \<and> admin_run L cfg f a s = emit out s" if "\<not> hasAdminRight s f False" for s f a
    using on_admin_denied [OF that] by (auto simp: admin_run_def refused_def split: prod.split)
  show "hasAdminRight (emit out s) f False = hasAdminRight s f False" for out s f
    by (simp add: hasAdminRight_def getSession_def)
qed (simp_all add: emit_append)

text \<open>
  C12: any sequence of administrators' requests, by sessions of which none has the right, leaves the
  server as it is, but for the answers: for each request in turn nothing is sent, or one error packet
  that denies the permission, to the session that made the request and to nobody else.
\<close>

theorem admin_requests_need_right:
  assumes "\<forall>(f, a) \<in> set cmds. \<not> hasAdminRight s f False"
  shows "\<exists>outs. list_all2 (\<lambda>(f, a). refusal admin_refusals f) cmds outs \<and>
    fold (\<lambda>(f, a). admin_run L cfg f a) cmds s = emit (concat outs) s"
  using assms by (rule admin.denied_sequence)

definition broadcast_request :: admin_request where
  "broadcast_request = (plain_env, MSG_ADMIN_BROADCAST, json_object [(''message'', JStr ''hi'')])"

theorem admin_requests_need_right_witness:
  "\<exists>o5 o7. refusal admin_refusals 5 o5 \<and> refusal admin_refusals 7 o7 \<and>
     fold (\<lambda>(f, a). admin_run plain_lib ServerConfig_default f a) [(5, broadcast_request), (7, broadcast_request)] sample_sv =
       emit (o5 @ o7) sample_sv"
proof -
  let ?cmds = "[(5, broadcast_request), (7, broadcast_request)]"
  have "\<forall>(f, a) \<in> set ?cmds. \<not> hasAdminRight sample_sv f False"
    by (simp add: hasAdminRight_def sample_user_def ClientSession_new_def)
  from admin_requests_need_right [OF this, of plain_lib ServerConfig_default]
  obtain outs where outs: "list_all2 (\<lambda>(f, a). refusal admin_refusals f) ?cmds outs"
    "fold (\<lambda>(f, a). admin_run plain_lib ServerConfig_default f a) ?cmds sample_sv = emit (concat outs) sample_sv" by blast
  from outs(1) obtain o5 o7 where o: "outs = [o5, o7]" "refusal admin_refusals 5 o5" "refusal admin_refusals 7 o7"
    by (auto simp: list_all2_Cons1)
  show ?thesis using o(2,3) outs(2) unfolding o(1) by (metis append_Nil2 concat.simps)
qed

text \<open>The role of the session of a descriptor; what the steps do to the roles.\<close>

definition role_of :: "Server \<Rightarrow> fd \<Rightarrow> UserRole option" where
  "role_of s g = map_option m_role (getSession s g)"

lemma role_of_same: "getSession t = getSession s \<Longrightarrow> role_of t = role_of s"
  by (simp add: role_of_def fun_eq_iff)

lemma role_of_upd_session:
  "(\<And>ss. m_role (h ss) = m_role ss) \<Longrightarrow> role_of (upd_session f h s) = role_of s"
  by (auto simp: role_of_def getSession_def upd_session_def fun_eq_iff split: option.split)

lemma role_of_disconnected: "role_of (onClientDisconnected f s) = (role_of s)(f := None)"
  by (simp add: role_of_def onClientDisconnected_def getSession_def removeSession_core fun_eq_iff Let_def
      case_prod_beta broadcastToRoom_def)

lemma getSession_send_opt [simp]: "getSession (send_opt f p s) = getSession s"
  by (simp add: send_opt_def split: option.split)

lemma role_of_simps [simp]:
  "role_of (send_to f p s) = role_of s" "role_of (send_opt f p s) = role_of s" "role_of (emit ps s) = role_of s"
  "role_of (broadcastToRoom r p x s) = role_of s" "role_of (broadcastToAll p x s) = role_of s"
  "role_of (sv_log L E ty a b c rs i d s) = role_of s" "role_of (upd_room r h s) = role_of s"
  "role_of (s\<lparr>sv_db := db\<rparr>) = role_of s" "role_of (sv_perm_ban E a n w s) = role_of s"
  "role_of (s\<lparr>sv_ids := ids\<rparr>) = role_of s"
  by (simp_all add: role_of_def getSession_def fun_eq_iff broadcastToAll_def sv_perm_ban_def case_prod_beta Let_def
      send_opt_def split: option.split)

lemma role_of_kick [simp]:
  "role_of (kickFromRoom cfg E f a r s) = role_of s" "role_of (unkickFromRoom E n r s) = role_of s"
  by (simp_all add: kickFromRoom_def unkickFromRoom_def Let_def role_of_upd_session split: option.split)

lemma role_of_commands:
  "role_of (admin_kick L cfg E f n r s) = role_of s" "role_of (admin_unkick L E f n r s) = role_of s"
  "role_of (admin_mute L E f n dur s) = role_of s" "role_of (admin_unmute L E f n s) = role_of s"
  "role_of (admin_unban L E f n s) = role_of s" "role_of (admin_broadcast L E f m s) = role_of s"
  by (simp_all add: admin_kick_def admin_unkick_def admin_mute_def admin_unmute_def admin_unban_def
      admin_broadcast_def Let_def case_prod_beta role_of_upd_session split: option.split)

lemma role_of_ban: "role_of (admin_ban L E f n r s) g \<in> {None, role_of s g}"
  by (simp add: admin_ban_def Let_def role_of_disconnected sv_disconnect_def split: option.split)

lemma role_of_owner_commands:
  assumes "\<not> hasAdminRight s f True"
  shows "role_of (admin_promote L E f n s) = role_of s" "role_of (admin_demote L E f n s) = role_of s"
  using assms by (simp_all add: admin_promote_def admin_demote_def)

lemma run1_cases: "run1 a k s = s \<or> (\<exists>x. run1 a k s = k x s)"
  by (cases a) (auto simp: run1_def)

definition role_kept :: "fd \<Rightarrow> Server \<Rightarrow> Server \<Rightarrow> bool" where
  "role_kept g s t \<longleftrightarrow> role_of t g = None \<or> role_of t g = role_of s g"

lemma role_kept_same: "role_of t = role_of s \<Longrightarrow> role_kept g s t"
  by (simp add: role_kept_def)

lemma role_kept_run1: "(\<And>x. role_kept g s (k x s)) \<Longrightarrow> role_kept g s (run1 a k s)"
  using run1_cases [of a k s] by (auto simp: role_kept_same)

lemma role_kept_commands:
  assumes "\<not> hasAdminRight s f True"
  shows "role_kept g s (on_admin L cfg E f t j s)"
proof -
  have ban: "role_kept g s (admin_ban L E f n r s)" for n r
    using role_of_ban [of L E f n r s g] by (simp add: role_kept_def)
  show ?thesis unfolding on_admin_def Let_def using role_of_owner_commands [OF assms] ban
    by (auto simp: role_of_commands role_kept_same intro!: role_kept_run1)
qed

lemma role_of_move [simp]: "role_of (move_to_default cfg g s) = role_of s"
  by (simp add: move_to_default_def Let_def role_of_upd_session split: option.split)

lemma role_of_fold: "(\<And>x s. role_of (h x s) = role_of s) \<Longrightarrow> role_of (fold h xs s) = role_of s"
  by (induction xs arbitrary: s) simp_all

lemma role_of_fields [simp]:
  "role_of (s\<lparr>m_rooms := rs\<rparr>) = role_of s" "role_of (s\<lparr>m_nicknames := ns\<rparr>) = role_of s"
  "role_of (s\<lparr>sv_rm := rm\<rparr>) = role_of s" "role_of (s\<lparr>sv_kx := kx\<rparr>) = role_of s" "role_of (s\<lparr>sv_auth := am\<rparr>) = role_of s"
  "role_of (s\<lparr>sv_audit := al\<rparr>) = role_of s" "role_of (s\<lparr>sv_engine := e\<rparr>) = role_of s"
  "role_of (s\<lparr>sv_transfers := tr\<rparr>) = role_of s" "role_of (s\<lparr>sv_undefined := u\<rparr>) = role_of s"
  "role_of (sv_history E f r s) = role_of s" "role_of (snd (sv_limit L cfg E k ty s)) = role_of s"
  "role_of (sv_violation L E a v s) = role_of s"
  by (simp_all add: role_of_def getSession_def fun_eq_iff)

lemma role_of_sv_limit: "sv_limit L cfg E k ty s = (verdict, s1) \<Longrightarrow> role_of s1 = role_of s"
  using role_of_fields(11) [of L cfg E k ty s] by simp

text \<open>No request but those of the owner and those that log in changes a role.\<close>

lemma role_of_chat:
  "role_of (handleChatSend L cfg E f pkt s) = role_of s" "role_of (handleChatPrivate L E f pkt s) = role_of s"
  "role_of (handlePing E f s) = role_of s" "role_of (handleUserListRequest f s) = role_of s"
  "role_of (handleRoomListRequest f s) = role_of s" "role_of (handleAdminRoomInfo f s) = role_of s"
  "role_of (on_whois E f j s) = role_of s"
  by (simp_all add: handleChatSend_def handleChatPrivate_def handlePing_def handleUserListRequest_def
      handleRoomListRequest_def handleAdminRoomInfo_def on_whois_def Let_def case_prod_beta role_of_upd_session
      split: option.split sum.split)

lemma role_of_rooms:
  "role_of (handleRoomJoin L cfg E f pkt s) = role_of s" "role_of (handleRoomCreate L E f pkt s) = role_of s"
  "role_of (handleRoomDelete cfg E f pkt s) = role_of s" "role_of (handleRoomLeave cfg E f s) = role_of s"
  by (simp_all add: handleRoomJoin_def handleRoomCreate_def handleRoomDelete_def handleRoomLeave_def Let_def
      case_prod_beta role_of_upd_session role_of_fold split: option.split)

lemma role_of_transfer:
  "role_of (on_transfer h s) = role_of s" "role_of (on_transfer_audit h' s) = role_of s"
  by (simp_all add: on_transfer_def on_transfer_audit_def split: sum.split prod.split)

lemma role_kept_disconnected: "role_kept g s t \<Longrightarrow> role_kept g s (onClientDisconnected f t)"
  by (simp add: role_kept_def role_of_disconnected)

lemma role_kept_handshake:
  "role_kept g s (on_hello L E f s)" "role_kept g s (on_key_accept L E f pkt s)"
proof -
  have ans: "role_kept g s (answer_handshake f r t)" if "role_of t = role_of s" for r t
    using that by (auto simp: answer_handshake_def Let_def role_kept_same role_kept_disconnected split: option.split)
  show "role_kept g s (on_hello L E f s)" by (simp add: on_hello_def case_prod_beta Let_def ans)
  show "role_kept g s (on_key_accept L E f pkt s)"
    by (auto simp: on_key_accept_def role_kept_same intro!: ans split: option.split sum.split prod.split)
qed

text \<open>A login gives the session the role that the database has for its nickname.\<close>

definition role_from_db :: "env \<Rightarrow> fd \<Rightarrow> Server \<Rightarrow> bool" where
  "role_from_db E f t \<longleftrightarrow>
     (case getSession t f of
        None \<Rightarrow> True
      | Some ss \<Rightarrow> m_role ss = user_role_of (getUserRole E (sv_db t) (m_nickname ss)))"

definition login_roles :: "env \<Rightarrow> fd \<Rightarrow> Server \<Rightarrow> Server \<Rightarrow> bool" where
  "login_roles E f s t \<longleftrightarrow> (\<forall>g. role_kept g s t) \<or>
     (\<forall>g. g \<noteq> f \<longrightarrow> role_kept g s t) \<and> getSession s f \<noteq> None \<and> role_from_db E f t"

lemma getSession_upd: "getSession (upd_session f h s) g = (if g = f then map_option h (getSession s f) else getSession s g)"
  by (auto simp: getSession_def upd_session_def split: option.split)

lemma getSession_fields:
  "getSession (sv_history E f r s) = getSession s" "getSession (broadcastToRoom r p x s) = getSession s"
  "getSession (send_to f p s) = getSession s" "getSession (upd_room r h s) = getSession s"
  "getSession (s\<lparr>m_nicknames := ns\<rparr>) = getSession s" "getSession (s\<lparr>sv_db := db\<rparr>) = getSession s"
  by (simp_all add: getSession_def fun_eq_iff)

lemma enter_chat_roles:
  assumes "getSession s f \<noteq> None" "role_of s = role_of s0"
  shows "login_roles E f s0 (enter_chat cfg E f nick token verb s)"
proof -
  let ?t = "enter_chat cfg E f nick token verb s"
  have "role_of ?t g = role_of s g" if "g \<noteq> f" for g
    using that by (simp add: enter_chat_def Let_def case_prod_beta role_of_def getSession_fields getSession_upd)
  moreover have "role_from_db E f ?t" using assms(1)
    by (auto simp: role_from_db_def enter_chat_def Let_def case_prod_beta getSession_fields getSession_upd split: option.split)
  moreover have "getSession s0 f \<noteq> None"
    using assms(1) fun_cong [OF assms(2), of f] by (cases "getSession s0 f") (auto simp: role_of_def)
  ultimately show ?thesis using assms(2) by (simp add: login_roles_def role_kept_def)
qed

lemma login_roles_kept: "(\<And>g. role_kept g s t) \<Longrightarrow> login_roles E f s t"
  by (simp add: login_roles_def)

lemma login_roles_requests:
  "login_roles E f s (handleConnectRequest L cfg E f pkt s)" "login_roles E f s (handleReconnectRequest L cfg E f pkt s)"
proof -
  have same: "login_roles E f s t" if "role_of t = role_of s" for t
    using that by (simp add: login_roles_def role_kept_def)
  have gone: "login_roles E f s (onClientDisconnected f t)" if "role_of t = role_of s" for t
    using that by (intro login_roles_kept role_kept_disconnected role_kept_same)
  show "login_roles E f s (handleReconnectRequest L cfg E f pkt s)"
    by (auto simp: handleReconnectRequest_def Let_def getSession_def same enter_chat_roles
        split: option.split prod.split)
  show "login_roles E f s (handleConnectRequest L cfg E f pkt s)"
  proof (cases "getSession s f")
    case None
    then show ?thesis by (simp add: handleConnectRequest_def Let_def same)
  next
    case (Some sess)
    let ?nick = "pc_nickname (parseConnectRequest pkt)" and ?pw = "pc_password (parseConnectRequest pkt)"
    obtain reg s1 where r: "(if \<not> isNicknameTaken E (sv_db s) ?nick
        then case registerUser L E ?nick ?pw (sv_db s) of (c, db) \<Rightarrow> (c, s\<lparr>sv_db := db\<rparr>) else (ERR_OK, s)) = (reg, s1)"
      by force
    obtain v s2 where l: "sv_limit L cfg E (''ip_'' @ m_ip sess @ ''_auth'') RL_AUTH s1 = (v, s2)" by force
    have s1: "role_of s1 = role_of s" using r by (auto split: if_splits prod.splits)
    have s2: "role_of s2 = role_of s" using role_of_sv_limit [OF l] s1 by simp
    then have "role_of s2 f = role_of s f" by simp
    then have "getSession s2 f \<noteq> None" using Some by (auto simp: role_of_def)
    then have enter: "login_roles E f s (enter_chat cfg E f nick token verb (s2\<lparr>sv_auth := am, sv_db := db\<rparr>))"
      for nick token verb am db using s2 by (intro enter_chat_roles) (simp_all add: getSession_def)
    show ?thesis unfolding handleConnectRequest_def Let_def Some option.case r prod.case l
      by (simp add: same gone s1 s2 enter split: sum.split prod.split)
  qed
qed

lemma dispatch_roles:
  assumes "\<not> hasAdminRight s f True"
  shows "t \<noteq> MSG_CONNECT_REQUEST \<Longrightarrow> t \<noteq> MSG_RECONNECT_REQUEST \<Longrightarrow> role_kept g s (dispatch L cfg E f pkt t s)"
    and "login_roles E f s (dispatch L cfg E f pkt MSG_CONNECT_REQUEST s)"
    and "login_roles E f s (dispatch L cfg E f pkt MSG_RECONNECT_REQUEST s)"
proof -
  have adm: "role_kept g s (case json_parse_nothrow x of JDiscarded \<Rightarrow> s | j \<Rightarrow> on_admin L cfg E f t j s)" for x t
    using role_kept_commands [OF assms] by (simp add: role_kept_same split: json.split)
  show "role_kept g s (dispatch L cfg E f pkt t s)" if "t \<noteq> MSG_CONNECT_REQUEST" "t \<noteq> MSG_RECONNECT_REQUEST"
    unfolding dispatch_def Let_def handleDisconnect_def using that adm
    by (auto simp: role_of_chat role_of_rooms role_of_transfer role_kept_handshake role_kept_same role_kept_disconnected)
  show "login_roles E f s (dispatch L cfg E f pkt MSG_CONNECT_REQUEST s)"
    "login_roles E f s (dispatch L cfg E f pkt MSG_RECONNECT_REQUEST s)"
    by (simp_all add: dispatch_def Let_def login_roles_requests)
qed

lemma handlePacket_cases:
  obtains (gone) t where "handlePacket L cfg E f pkt s = sv_disconnect [] f t" "role_of t = role_of s"
  | (ignored) "handlePacket L cfg E f pkt s = s"
  | (dispatched) p t where "handlePacket L cfg E f pkt s = dispatch L cfg E f p t s"
      "msg_type (header pkt) = msg_code t"
proof -
  define ends where "ends r \<longleftrightarrow> (\<exists>t. r = sv_disconnect [] f t \<and> role_of t = role_of s) \<or> r = s \<or>
      (\<exists>p t. r = dispatch L cfg E f p t s \<and> msg_type (header pkt) = msg_code t)" for r
  have go: "ends (case msg_of_code (msg_type (header pkt)) of None \<Rightarrow> s | Some t \<Rightarrow> dispatch L cfg E f p t s)" for p
    by (auto simp: ends_def dest: msg_of_code_SomeD [symmetric] split: option.split)
  have gone: "ends (sv_disconnect [] f t)" if "role_of t = role_of s" for t using that by (auto simp: ends_def)
  have "ends s" by (simp add: ends_def)
  then have "ends (handlePacket L cfg E f pkt s)"
    unfolding handlePacket_def Let_def by (simp add: go gone split: option.split sum.split del: option.case sum.case)
  then show thesis using that unfolding ends_def by blast
qed

text \<open>
  C13: only the owner changes roles: after any packet of any other session, whatever its type, every
  session that is still there has the role it had, with one exception: the session that sent the
  packet, if the packet was a request to log in (with a password or a token), may have the role that
  the database has for the nickname it now bears.
\<close>

theorem only_owner_changes_roles:
  assumes "\<not> hasAdminRight s f True" "t = handlePacket L cfg E f pkt s" "getSession t g = Some ss'"
  shows "\<exists>ss. getSession s g = Some ss \<and>
    (m_role ss' = m_role ss \<or>
     g = f \<and> msg_type (header pkt) \<in> {msg_code MSG_CONNECT_REQUEST, msg_code MSG_RECONNECT_REQUEST} \<and>
     m_role ss' = user_role_of (getUserRole E (sv_db t) (m_nickname ss')))"
proof -
  have kept: ?thesis if "role_kept g s t" using that assms(3) by (cases "getSession s g") (auto simp: role_kept_def role_of_def)
  show ?thesis
  proof (cases rule: handlePacket_cases [of L cfg E f pkt s])
    case (gone t')
    then show ?thesis using assms(2) by (intro kept) (simp add: sv_disconnect_def role_kept_disconnected role_kept_same)
  next
    case ignored
    then show ?thesis using assms(2) by (intro kept) (simp add: role_kept_same)
  next
    case (dispatched p ty)
    show ?thesis
    proof (cases "ty = MSG_CONNECT_REQUEST \<or> ty = MSG_RECONNECT_REQUEST")
      case True
      then have "login_roles E f s t" using dispatch_roles [OF assms(1)] dispatched(1) assms(2) by auto
      then show ?thesis using True dispatched(2) assms(3) kept
        by (cases "g = f") (auto simp: login_roles_def role_from_db_def)
    next
      case False
      then show ?thesis using dispatch_roles(1) [OF assms(1)] dispatched(1) assms(2) by (intro kept) simp
    qed
  qed
qed


definition promotion_packet :: "string \<Rightarrow> Packet" where
  "promotion_packet nick = makePacket MSG_ADMIN_PROMOTE (json_dump (json_object [(''target'', JStr nick)]))"

theorem only_owner_changes_roles_witness:
  "\<exists>ss'. getSession (handlePacket plain_lib (ServerConfig_default\<lparr>enable_encryption := False\<rparr>) plain_env 5
       (promotion_packet ''alice'') sample_sv) 5 = Some ss' \<and> m_role ss' = R_USER"
proof -
  have sample_engine: "fmlookup (session_keys (sv_engine sample_sv)) 5 = None" by (simp add: sample_sv_def fresh_engine_def)
  let ?t = "handlePacket plain_lib (ServerConfig_default\<lparr>enable_encryption := False\<rparr>) plain_env 5
       (promotion_packet ''alice'') sample_sv"
  have denied: "\<not> hasAdminRight sample_sv 5 True" by (simp add: hasAdminRight_def sample_user_def ClientSession_new_def)
  have "?t = on_admin plain_lib (ServerConfig_default\<lparr>enable_encryption := False\<rparr>) plain_env 5 MSG_ADMIN_PROMOTE
      (json_object [(''target'', JStr ''alice'')]) sample_sv"
    by (simp add: handlePacket_def Let_def promotion_packet_def hasSession_def dispatch_def admin_types_def
        sample_engine msg_of_code_code [of MSG_ADMIN_PROMOTE, simplified] json_parse_nothrow_def)
      (simp add: json_object_def)
  then have "getSession ?t 5 = getSession sample_sv 5"
    using denied by (simp add: on_admin_def run1_def json_object_def admin_promote_def)
  then have ss: "getSession ?t 5 = Some (sample_user 5 ''alice'' R_USER)" by simp
  have "msg_type (header (promotion_packet ''alice'')) \<notin> {msg_code MSG_CONNECT_REQUEST, msg_code MSG_RECONNECT_REQUEST}"
    by (simp add: promotion_packet_def)
  with only_owner_changes_roles [OF denied refl ss] show ?thesis using ss
    by (auto simp: sample_user_def ClientSession_new_def)
qed

end
