(* ===== verification/Lifecycle.thy ===== *)
theory Lifecycle
  imports Access
begin

text \<open>
  The life of a session in the server: how users enter the chat and leave it, what timeouts, kicks and
  bans do to them, and how a chat message reaches the members of its room.
\<close>

section \<open>Sessions come and go\<close>

lemma removeSession_tables:
  assumes "getSession s f = Some ss"
  shows "m_nicknames (removeSession f s) =
      (if m_authenticated ss then fmdrop (m_nickname ss) (m_nicknames s) else m_nicknames s)"
    and "m_rooms (removeSession f s) =
      (if m_room ss \<noteq> [] \<and> fmlookup (m_rooms s) (m_room ss) \<noteq> None
       then m_rooms (upd_room (m_room ss) (erase_member f) s) else m_rooms s)"
  using assms by (simp_all add: removeSession_def getSession_def Let_def upd_room_def)

lemma disconnected_tables [simp]:
  "m_sessions (onClientDisconnected f s) = m_sessions (removeSession f s)"
  "m_nicknames (onClientDisconnected f s) = m_nicknames (removeSession f s)"
  "m_rooms (onClientDisconnected f s) = m_rooms (removeSession f s)"
  "sv_engine (onClientDisconnected f s) = engine_removeSession f (sv_engine s)"
  "sv_kx (onClientDisconnected f s) = removeClient f (sv_kx s)"
  "sv_auth (onClientDisconnected f s) = removeSessionByFd f (sv_auth s)"
proof -
  have rl: "removeSession f (s\<lparr>sv_limiter := rl\<rparr>) = (removeSession f s)\<lparr>sv_limiter := rl\<rparr>" for rl
    by (simp add: removeSession_def Let_def upd_room_def split: option.split)
  show "m_sessions (onClientDisconnected f s) = m_sessions (removeSession f s)"
    "m_nicknames (onClientDisconnected f s) = m_nicknames (removeSession f s)"
    "m_rooms (onClientDisconnected f s) = m_rooms (removeSession f s)"
    "sv_engine (onClientDisconnected f s) = engine_removeSession f (sv_engine s)"
    "sv_kx (onClientDisconnected f s) = removeClient f (sv_kx s)"
    "sv_auth (onClientDisconnected f s) = removeSessionByFd f (sv_auth s)"
    by (simp_all add: onClientDisconnected_def Let_def case_prod_beta rl removeSession_core)
qed

text \<open>
  C28: when a client is gone, whether it had logged in or not, nothing of it is left: no session, no
  key, no handshake, no token bound to the descriptor and no membership of its room; the nickname it
  had logged in with, if it had, is free again; the other sessions are untouched.
\<close>

theorem disconnected_client_forgotten:
  assumes "getSession s f = Some ss" "t = onClientDisconnected f s"
  shows "getSession t f = None \<and> \<not> hasSession (sv_engine t) f \<and> fmlookup (clients (sv_kx t)) f = None \<and>
    (\<forall>tok. fmlookup (active_sessions (sv_auth t)) tok \<noteq> Some f) \<and>
    (m_authenticated ss \<longrightarrow> \<not> nick_online t (m_nickname ss)) \<and>
    (m_room ss \<noteq> [] \<longrightarrow> f \<notin> set (room_fds (m_room ss) t) \<and>
       (\<forall>ri. fmlookup (m_rooms t) (m_room ss) = Some ri \<longrightarrow> f |\<notin>| members ri)) \<and>
    (\<forall>g. g \<noteq> f \<longrightarrow> getSession t g = getSession s g)"
proof -
  have tok: "fmlookup (active_sessions (removeSessionByFd f am)) tok \<noteq> Some f" for am tok
    by (simp add: removeSessionByFd_def)
  have room: "f |\<notin>| members ri" if "fmlookup (m_rooms t) (m_room ss) = Some ri" "m_room ss \<noteq> []" for ri
    using that assms
    by (auto simp: removeSession_tables upd_room_def erase_member_def split: if_splits option.splits)
  have "f \<notin> set (room_fds (m_room ss) t)"
    using assms(2) by (auto simp: room_fds_def removeSession_core split: option.splits)
  then show ?thesis using assms room tok
    by (simp add: getSession_def removeSession_core hasSession_remove removeClient_def nick_online_def
        removeSession_tables(1) [OF assms(1)])
qed

theorem disconnected_client_forgotten_witness:
  "\<not> nick_online (onClientDisconnected 5 sample_sv) ''alice'' \<and>
   getSession (onClientDisconnected 5 sample_sv) 6 = Some (sample_user 6 ''root'' R_OWNER) \<and>
   \<not> m_authenticated (ClientSession_new plain_env 7 ''10.0.0.2'') \<and>
   \<not> hasSession (sv_engine (onClientDisconnected 7 sample_sv)) 7 \<and>
   fmlookup (clients (sv_kx (onClientDisconnected 7 sample_sv))) 7 = None"
proof -
  have "getSession sample_sv 7 = Some (ClientSession_new plain_env 7 ''10.0.0.2'')" by simp
  from disconnected_client_forgotten [OF this refl] disconnected_client_forgotten [OF sample_sessions(1) refl]
  show ?thesis by (simp add: sample_user_def ClientSession_new_def)
qed

text \<open>What entering the chat does to the tables.\<close>

definition entry_room :: "ServerConfig \<Rightarrow> env \<Rightarrow> string \<Rightarrow> Server \<Rightarrow> string" where
  "entry_room cfg E nick s =
     (let r = getLastRoom E nick (sv_db s)
      in if r \<noteq> [] \<and> fmlookup (m_rooms s) r \<noteq> None then r else default_room cfg)"

lemma getSession_upd_session:
  "getSession (upd_session f h s) g = (if g = f then map_option h (getSession s f) else getSession s g)"
  by (auto simp: getSession_def upd_session_def split: option.split)

lemma enter_chat_tables:
  "m_nicknames (enter_chat cfg E f nick token verb s) = fmupd nick f (m_nicknames s)"
  "m_rooms (enter_chat cfg E f nick token verb s) = m_rooms (upd_room (entry_room cfg E nick s) (insert_member f) s)"
  "sv_ids (enter_chat cfg E f nick token verb s) = sv_ids s"
  by (simp_all add: enter_chat_def entry_room_def Let_def case_prod_beta upd_room_def)

lemma enter_chat_session:
  assumes "getSession s f = Some ss"
  shows "\<exists>ss'. getSession (enter_chat cfg E f nick token verb s) f = Some ss' \<and> m_authenticated ss' \<and>
    m_nickname ss' = nick \<and> m_room ss' = entry_room cfg E nick s"
proof -
  have db: "getSession (s\<lparr>sv_db := db\<rparr>) = getSession s" "getSession (s\<lparr>m_nicknames := ns\<rparr>) = getSession s" for s db ns
    by (simp_all add: getSession_def fun_eq_iff)
  have hist: "getSession (sv_history E f r s) = getSession s" for L E f r s
    by (simp add: getSession_def fun_eq_iff)
  show ?thesis using assms
    by (simp add: enter_chat_def entry_room_def Let_def case_prod_beta hist db getSession_upd_session)
qed

lemma reconnect_enters:
  assumes "getSession s f = Some ss" "parseReconnectRequest pkt = token" "token \<noteq> []"
    and "reconnectWithToken L E token f (sv_auth s, sv_db s) = ((ERR_OK, nick), am)"
  shows "handleReconnectRequest L cfg E f pkt s =
    enter_chat cfg E f nick token '' reconnected to #'' (s\<lparr>sv_auth := am\<rparr>)"
  using assms by (simp add: handleReconnectRequest_def Let_def)

text \<open>The packet with which a client reconnects with the token of a user.\<close>

definition token_for :: "string \<Rightarrow> string" where
  "token_for nick = generate token_lib plain_env sample_tm nick USER"

definition reconnect_packet :: "string \<Rightarrow> Packet" where
  "reconnect_packet nick = makeReconnectRequest (token_for nick)"

lemma token_for_token: "parseReconnectRequest (reconnect_packet nick) = token_for nick" "token_for nick \<noteq> []"
proof -
  show "parseReconnectRequest (reconnect_packet nick) = token_for nick"
    by (simp add: parseReconnectRequest_def parse_field1_def reconnect_packet_def makeReconnectRequest_def
        json_object_def token_for_def token_lib_ascii)
  show "token_for nick \<noteq> []" by (simp add: token_for_def generate_def Let_def)
qed

lemma token_for_valid:
  assumes "utf8_ok nick"
  shows "validate token_lib plain_env sample_tm (token_for nick) =
     (no_claims\<lparr>sub := nick, role := USER, iat := 1000, exp := 4600, jti := generateJTI plain_env, valid := True\<rparr>)"
  using validate_generate [OF token_lib_ok_sample [OF assms] refl, of plain_env plain_env USER]
  by (simp add: token_for_def plain_env_def int64_of_def SESSION_LIFETIME_SEC_def isRevoked_def sample_tm_def
      signed_take_bit_int_eq_self Let_def)

lemma token_for_reconnects:
  assumes "token_manager am = sample_tm" "Users db = fmempty" "utf8_ok nick"
  shows "reconnectWithToken token_lib plain_env (token_for nick) f (am, db) =
    ((ERR_OK, nick), am\<lparr>active_sessions := fmupd (token_for nick) f (active_sessions am)\<rparr>)"
  using assms by (simp add: reconnectWithToken_def token_for_valid isAccountLocked_def user_of_def Let_def)

lemma sample_sv_reconnects:
  "utf8_ok nick \<Longrightarrow> reconnectWithToken token_lib plain_env (token_for nick) f (sv_auth sample_sv, sv_db sample_sv) =
     ((ERR_OK, nick), (sv_auth sample_sv)\<lparr>active_sessions := fmupd (token_for nick) f fmempty\<rparr>)"
  by (subst token_for_reconnects) (simp_all add: sample_sv_def opened_def Database_init_def)

text \<open>
  A client that is logged in and logs in once more on the same connection, as somebody else,
  leaves its first nickname behind for good: also after it has disconnected, the first nickname
  counts as online, so that its user can no longer log in.
\<close>

theorem second_login_blocks_first_nickname:
  assumes "getSession s f = Some ss" "m_nickname ss = old" "fmlookup (m_nicknames s) old = Some f"
    and "parseReconnectRequest pkt = token" "token \<noteq> []"
    and "reconnectWithToken L E token f (sv_auth s, sv_db s) = ((ERR_OK, nick), am)" "nick \<noteq> old"
  shows "nick_online (onClientDisconnected f (handleReconnectRequest L cfg E f pkt s)) old \<and>
    getSession (onClientDisconnected f (handleReconnectRequest L cfg E f pkt s)) f = None"
proof -
  let ?t = "handleReconnectRequest L cfg E f pkt s"
  have t: "?t = enter_chat cfg E f nick token '' reconnected to #'' (s\<lparr>sv_auth := am\<rparr>)"
    using assms(1,4-6) by (rule reconnect_enters)
  have "getSession (s\<lparr>sv_auth := am\<rparr>) f = Some ss" using assms(1) by (simp add: getSession_def)
  then obtain ss' where ss': "getSession ?t f = Some ss'" "m_nickname ss' = nick"
    using enter_chat_session unfolding t by meson
  have "fmlookup (m_nicknames ?t) old = Some f" using assms(3,7) by (simp add: t enter_chat_tables)
  then show ?thesis using assms(7) ss'
    by (simp add: nick_online_def getSession_def removeSession_core removeSession_tables(1) [OF ss'(1)])
qed

theorem second_login_blocks_first_nickname_witness:
  "nick_online (onClientDisconnected 5
     (handleReconnectRequest token_lib ServerConfig_default plain_env 5 (reconnect_packet ''bob'') sample_sv)) ''alice''"
  using second_login_blocks_first_nickname [where cfg = ServerConfig_default and old = "''alice''" and nick = "''bob''",
      OF sample_sessions(1) _ _ token_for_token sample_sv_reconnects]
  by (simp add: sample_user_def ClientSession_new_def sample_sv_def)

text \<open>
  The list of banned nicknames is not consulted when a client reconnects with a token: the holder
  of a banned nickname is let into the chat.
\<close>

theorem banned_nickname_reconnects:
  assumes "getSession s f = Some ss" "isBannedNick (sv_ids s) nick"
    and "parseReconnectRequest pkt = token" "token \<noteq> []"
    and "reconnectWithToken L E token f (sv_auth s, sv_db s) = ((ERR_OK, nick), am)"
  shows "\<exists>ss'. getSession (handleReconnectRequest L cfg E f pkt s) f = Some ss' \<and> m_authenticated ss' \<and>
    m_nickname ss' = nick \<and> isBannedNick (sv_ids (handleReconnectRequest L cfg E f pkt s)) nick"
proof -
  have t: "handleReconnectRequest L cfg E f pkt s =
      enter_chat cfg E f nick token '' reconnected to #'' (s\<lparr>sv_auth := am\<rparr>)"
    using assms(1,3-5) by (rule reconnect_enters)
  have "getSession (s\<lparr>sv_auth := am\<rparr>) f = Some ss" using assms(1) by (simp add: getSession_def)
  from enter_chat_session [OF this] show ?thesis using assms(2) unfolding t enter_chat_tables by force
qed

definition banning_sv :: Server where
  "banning_sv = sample_sv\<lparr>sv_ids := fst (permBanUser plain_env [] ''bob'' ''spam'' (sv_ids sample_sv, sv_db sample_sv))\<rparr>"

theorem banned_nickname_reconnects_witness:
  "\<exists>ss'. getSession (handleReconnectRequest token_lib ServerConfig_default plain_env 7 (reconnect_packet ''bob'')
     banning_sv) 7 = Some ss' \<and> m_authenticated ss' \<and> m_nickname ss' = ''bob''"
proof -
  have "getSession banning_sv 7 = getSession sample_sv 7" by (simp add: banning_sv_def getSession_def)
  then have s: "getSession banning_sv 7 = Some (ClientSession_new plain_env 7 ''10.0.0.2'')" by simp
  have b: "isBannedNick (sv_ids banning_sv) ''bob''"
    by (simp add: banning_sv_def isBannedNick_def permBanUser_def Let_def)
  have "sv_auth banning_sv = sv_auth sample_sv" "sv_db banning_sv = sv_db sample_sv" by (simp_all add: banning_sv_def)
  then have "reconnectWithToken token_lib plain_env (token_for ''bob'') 7
      (sv_auth banning_sv, sv_db banning_sv) =
      ((ERR_OK, ''bob''), (sv_auth sample_sv)\<lparr>active_sessions := fmupd (token_for ''bob'') 7 fmempty\<rparr>)"
    by (simp add: sample_sv_reconnects)
  from banned_nickname_reconnects [OF s b token_for_token this] show ?thesis by blast
qed

lemma kick_tables:
  assumes "getSession s f = Some ss" "m_room ss = r" "r \<noteq> default_room cfg"
  shows "fmlookup (m_rooms (kickFromRoom cfg E f a why s)) r =
      Some (let ri = (case fmlookup (m_rooms s) r of Some ri \<Rightarrow> ri | None \<Rightarrow> RoomInfo_zero)
            in (erase_member f ri)\<lparr>banned_nicks := finsert (m_nickname ss) (banned_nicks ri)\<rparr>)"
    and "Users (sv_db (kickFromRoom cfg E f a why s)) = Users (sv_db s)"
    and "getSession (kickFromRoom cfg E f a why s) f = Some (ss\<lparr>m_room := default_room cfg\<rparr>)"
proof -
  have db: "getSession (s\<lparr>sv_db := db\<rparr>) = getSession s" for s db by (simp add: getSession_def fun_eq_iff)
  show "getSession (kickFromRoom cfg E f a why s) f = Some (ss\<lparr>m_room := default_room cfg\<rparr>)"
    using assms by (simp add: kickFromRoom_def Let_def db getSession_upd_session)
  show "Users (sv_db (kickFromRoom cfg E f a why s)) = Users (sv_db s)"
    using assms by (simp add: kickFromRoom_def Let_def banUserFromRoomDb_def)
qed (use assms in \<open>simp add: kickFromRoom_def Let_def upd_room_def erase_member_def\<close>)

lemma getLastRoom_users: "Users db = Users db' \<Longrightarrow> getLastRoom E nick db = getLastRoom E nick db'"
  by (simp add: getLastRoom_def user_of_def)

lemma disconnected_db [simp]: "sv_db (onClientDisconnected f s) = sv_db s"
  by (simp add: onClientDisconnected_def removeSession_def Let_def case_prod_beta split: option.split)

text \<open>
  A kick does not survive a reconnection. The nickname stays on the room's list, but the room
  remembered for the user is not changed by the kick, and entering the chat puts the user into the
  remembered room without looking at that list.
\<close>

theorem kicked_user_returns:
  assumes "getSession s f = Some ss" "m_nickname ss = nick" "m_room ss = r" "r \<noteq> []" "r \<noteq> default_room cfg"
    and "getLastRoom E' nick (sv_db s) = r"
    and "t = enter_chat cfg E' g nick token verb (onClientDisconnected f (kickFromRoom cfg E f admin why s))"
  shows "\<exists>ri. fmlookup (m_rooms t) r = Some ri \<and> nick |\<in>| banned_nicks ri \<and> g |\<in>| members ri"
proof -
  let ?k = "kickFromRoom cfg E f admin why s"
  let ?d = "onClientDisconnected f ?k"
  obtain ri where ri: "fmlookup (m_rooms ?k) r = Some ri" "nick |\<in>| banned_nicks ri"
    using kick_tables(1) [OF assms(1,3,5), of E admin why] assms(2) by (simp add: Let_def)
  have d: "fmlookup (m_rooms ?d) r = Some ri"
    using ri assms(5) removeSession_tables(2) [OF kick_tables(3) [OF assms(1,3,5), of E admin why]]
    by (simp add: upd_room_def)
  have "getLastRoom E' nick (sv_db ?d) = r"
    using getLastRoom_users [OF kick_tables(2) [OF assms(1,3,5), of E admin why], of E' nick] assms(6) by simp
  then have "entry_room cfg E' nick ?d = r" using d assms(4) by (simp add: entry_room_def)
  then show ?thesis using d ri(2) by (simp add: assms(7) enter_chat_tables upd_room_def insert_member_def)
qed

definition lounge_sv :: Server where
  "lounge_sv = sample_sv\<lparr>
     m_sessions := fmupd 5 ((sample_user 5 ''alice'' R_USER)\<lparr>m_room := ''dev''\<rparr>) (m_sessions sample_sv),
     m_rooms := fmupd ''dev'' (RoomInfo_zero\<lparr>members := {|5|}\<rparr>) (m_rooms sample_sv),
     sv_db := (sv_db sample_sv)\<lparr>Users := fmupd ''alice'' \<lparr>u_password_hash = [], u_salt = [], u_role = ''USER'',
       u_created_at = 0, u_last_login = 0, u_failed_attempts = 0, u_locked_until = 0, u_last_room = ''dev'',
       u_is_muted = False, u_mute_until = 0\<rparr> fmempty\<rparr>\<rparr>"

theorem kicked_user_returns_witness:
  "\<exists>ri. fmlookup (m_rooms (enter_chat ServerConfig_default plain_env 9 ''alice'' [] '' joined #''
      (onClientDisconnected 5
        (kickFromRoom ServerConfig_default plain_env 5 ''root'' ''spam'' lounge_sv)))) ''dev'' = Some ri \<and>
     ''alice'' |\<in>| banned_nicks ri \<and> 9 |\<in>| members ri"
proof (rule kicked_user_returns [OF _ _ _ _ _ _ refl])
  show "getSession lounge_sv 5 = Some ((sample_user 5 ''alice'' R_USER)\<lparr>m_room := ''dev''\<rparr>)"
    by (simp add: lounge_sv_def getSession_def)
  show "getLastRoom plain_env ''alice'' (sv_db lounge_sv) = ''dev''"
    by (simp add: lounge_sv_def getLastRoom_def user_of_def NUL_def)
qed (simp_all add: sample_user_def ClientSession_new_def ServerConfig_default_def)

section \<open>Timeouts\<close>

definition in_room :: "Server \<Rightarrow> string \<Rightarrow> fd \<Rightarrow> bool" where
  "in_room s r f \<longleftrightarrow> (\<exists>ri. fmlookup (m_rooms s) r = Some ri \<and> f |\<in>| members ri)"

lemma getSession_disconnected: "getSession (onClientDisconnected g s) f = (if f = g then None else getSession s f)"
  by (simp add: getSession_def removeSession_core)

lemma in_room_disconnected:
  assumes "g \<noteq> f"
  shows "in_room (onClientDisconnected g s) r f = in_room s r f"
proof (cases "getSession s g")
  case None
  then show ?thesis by (simp add: in_room_def removeSession_def getSession_def)
next
  case (Some ss)
  show ?thesis using assms
    by (auto simp: in_room_def removeSession_tables(2) [OF Some] upd_room_def erase_member_def split: option.splits)
qed

lemma disconnect_all_sessions:
  "getSession (disconnect_all fs s) f = (if f \<in> set fs then None else getSession s f)"
  "f \<notin> set fs \<Longrightarrow> in_room (disconnect_all fs s) r f = in_room s r f"
  by (induction fs arbitrary: s)
    (simp_all add: disconnect_all_def getSession_disconnected in_room_disconnected)

lemma set_room_fds: "set (room_fds r s) = {f. in_room s r f \<and> getSession s f \<noteq> None}"
  by (cases "fmlookup (m_rooms s) r") (auto simp: room_fds_def in_room_def getSession_def)

lemma sessions_where_complete:
  assumes "getSession s f = Some ss" "m_fd ss = f" "in_room s r f" "c ss"
  shows "f \<in> set (sessions_where c s)"
proof -
  have "f \<in> set (room_fds r s)" using assms(1,3) by (simp add: set_room_fds)
  then have "ss \<in> set (getSessionsInRoom r s)"
    using assms(1) by (force simp: getSessionsInRoom_def getSession_def)
  moreover have "r \<in> set (getRoomList s)" using assms(3) by (auto simp: getRoomList_def in_room_def fmlookup_dom_iff)
  ultimately show ?thesis using assms(2,4) by (force simp: sessions_where_def)
qed

lemma sv_cleanup_frame: "getSession (sv_cleanup E s) = getSession s" "in_room (sv_cleanup E s) = in_room s"
  by (simp_all add: sv_cleanup_def case_prod_beta Let_def getSession_def in_room_def fun_eq_iff emit_def)

text \<open>
  C40: the session timeout does not measure inactivity. The time of the last activity is never set
  after the connection, so that the check made every minute drops every member of a room whose
  connection is older than the timeout, however recently the client has spoken or pinged.
\<close>

theorem old_session_dropped:
  assumes "sv_ok cfg s" "getSession s f = Some ss" "in_room s r f"
    and "now E - m_connectTime ss > session_timeout_sec cfg" "(n + 1) mod 60 = 0"
  shows "getSession (snd (loop_tick cfg E (n, s))) f = None"
proof -
  define s1 where "s1 = (if (n + 1) mod 5 = 0 then disconnect_all (sessions_where (no_ping E) s) s else s)"
  define s2 where "s2 = sv_cleanup E s1"
  have ss: "m_fd ss = f" "isTimedOut cfg E ss"
    using assms(1,2,4) by (auto simp: sv_ok_def session_ok_def getSession_def isTimedOut_def dest: fmpredD)
  have "getSession s1 f = None \<or> getSession s1 f = Some ss \<and> in_room s1 r f"
    using assms(2,3) by (auto simp: s1_def disconnect_all_sessions)
  then have "getSession s2 f = None \<or> f \<in> set (sessions_where (isTimedOut cfg E) s2)"
    using ss sessions_where_complete [of s2 f ss r] by (auto simp: s2_def sv_cleanup_frame)
  then have "getSession (disconnect_all (sessions_where (isTimedOut cfg E) s2) s2) f = None"
    by (auto simp: disconnect_all_sessions)
  then show ?thesis using assms(5)
    by (simp add: loop_tick_def Let_def case_prod_beta getSession_def s1_def s2_def split: if_splits)
qed

definition connected_sv :: Server where
  "connected_sv = sample_sv\<lparr>sv_kx := \<lparr>clients = fmmap (\<lambda>_. sample_client WAITING_HELLO) (m_sessions sample_sv),
     ip_failures = fmempty\<rparr>\<rparr>"

lemma connected_sv_ok: "sv_ok ServerConfig_default connected_sv"
proof -
  have "fmpred (session_ok ServerConfig_default (sv_engine connected_sv)) (m_sessions connected_sv)"
    by (intro fmpredI) (auto simp: connected_sv_def sample_sv_def session_ok_def ServerConfig_default_def
        sample_user_def ClientSession_new_def split: if_splits)
  then show ?thesis
    by (simp add: sv_ok_def connected_sv_def sample_sv_def ServerConfig_default_def fresh_engine_def
        fcard_finsert_if fcard_fempty)
qed

theorem old_session_dropped_witness:
  "getSession (snd (loop_tick ServerConfig_default (plain_env\<lparr>now := 5000\<rparr>) (59, connected_sv))) 5 = None"
proof (rule old_session_dropped [OF connected_sv_ok, of _ "sample_user 5 ''alice'' R_USER" "''general''"])
  show "getSession connected_sv 5 = Some (sample_user 5 ''alice'' R_USER)"
    by (simp add: connected_sv_def sample_sv_def getSession_def)
  show "in_room connected_sv ''general'' 5"
    by (simp add: connected_sv_def sample_sv_def in_room_def)
qed (simp_all add: sample_user_def ClientSession_new_def ServerConfig_default_def plain_env_def)

section \<open>Chat\<close>

lemma distinct_room_fds: "distinct (room_fds r s)"
  by (simp add: room_fds_def sorted_list_of_fset.rep_eq split: option.split)

lemma room_fds_cong:
  "m_rooms t = m_rooms s \<Longrightarrow> fmdom (m_sessions t) = fmdom (m_sessions s) \<Longrightarrow> room_fds r t = room_fds r s"
  by (auto simp: room_fds_def fmlookup_dom_iff fset_eq_iff intro!: filter_cong split: option.split)

lemma room_fds_positive: "sv_ok cfg s \<Longrightarrow> filter (\<lambda>g. g \<noteq> -1) (room_fds r s) = room_fds r s"
  by (rule filter_True) (auto simp: set_room_fds getSession_def sv_ok_def session_ok_def dest: fmpredD)

lemma hist_push_snoc: "\<exists>h. hist_push e buf = h @ [e]"
  by (simp add: hist_push_def pop_front_newest newest_def HISTORY_BUFFER_SIZE_def)

lemma appendHistory_newest:
  "\<exists>h. fmlookup (m_histories (fst (appendHistory E r e st))) r = Some (h @ [e])"
  using hist_push_snoc [of e "fst (getOrCreateHistory r (fst st))"]
  by (auto simp: appendHistory_def hist_append_def Let_def case_prod_beta)

text \<open>
  A chat message that is admitted (its sender is authenticated, not muted and within the rate
  limit, and the text passes the filter) is sent, once, to exactly the members of the sender's room
  that have a session, the sender included, and becomes the newest entry of the room's history.
\<close>

theorem chat_reaches_the_room:
  assumes "sv_ok cfg s" "getSession s f = Some ss" "m_authenticated ss" "\<not> isMuted E ss"
    and "fst (sv_limit L cfg E (fd_key f) MSG_CHAT s) \<noteq> RATE_LIMITED"
    and "chat_message (parseChatSend pkt) = m" "m \<noteq> []" "length m \<le> 4096" "\<not> containsNullByte m"
      "\<not> containsInjection m"
    and "t = handleChatSend L cfg E f pkt s"
  shows "(\<exists>gs. sv_out t = sv_out s @ map (\<lambda>g. (g, makeChatBroadcast (now E) (m_nickname ss) (m_room ss) m)) gs \<and>
      distinct gs \<and> set gs = {g. in_room s (m_room ss) g \<and> getSession s g \<noteq> None}) \<and>
    (\<exists>h e. fmlookup (m_histories (sv_rm t)) (m_room ss) = Some (h @ [e]) \<and> h_sender e = m_nickname ss \<and>
      h_message e = m \<and> h_timestamp e = now E)"
proof -
  let ?p = "makeChatBroadcast (now E) (m_nickname ss) (m_room ss) m"
  let ?e = "\<lparr>h_timestamp = now E, h_sender = m_nickname ss, h_room = m_room ss, h_message = m, h_msg_type = H_CHAT\<rparr>"
  define s1 where "s1 = snd (sv_limit L cfg E (fd_key f) MSG_CHAT s)"
  define s3 where "s3 = upd_session f (\<lambda>x. x\<lparr>m_msgCount := m_msgCount x + 1\<rparr>)
    (s1\<lparr>sv_audit := sv_audit s1, sv_db := sv_db s1\<rparr>)"
  define s4 where "s4 = broadcastToRoom (m_room ss) ?p (-1) s3"
  have fds: "room_fds (m_room ss) s3 = room_fds (m_room ss) s"
    by (rule room_fds_cong) (simp_all add: s3_def s1_def)
  have t: "t = s4\<lparr>sv_rm := fst (appendHistory E (m_room ss) ?e (sv_rm s4, sv_db s4)),
      sv_db := snd (appendHistory E (m_room ss) ?e (sv_rm s4, sv_db s4))\<rparr>"
    using assms(2-10) unfolding assms(11)
    by (simp add: handleChatSend_def msg_filter_def MAX_MESSAGE_LEN_def Let_def case_prod_beta
        s4_def s3_def s1_def)
  have "sv_out t = sv_out s @ map (\<lambda>g. (g, ?p)) (room_fds (m_room ss) s)"
    by (simp add: t s4_def broadcastToRoom_def fds room_fds_positive [OF assms(1)]) (simp add: s3_def s1_def)
  moreover obtain h where "fmlookup (m_histories (sv_rm t)) (m_room ss) = Some (h @ [?e])"
    using appendHistory_newest [of E "m_room ss" ?e "(sv_rm s4, sv_db s4)"] by (auto simp: t)
  ultimately show ?thesis using distinct_room_fds set_room_fds by force
qed

definition hi_packet :: Packet where
  "hi_packet = makePacket MSG_CHAT_SEND (json_dump (json_object [(''message'', JStr ''hi'')]))"

theorem chat_reaches_the_room_witness:
  "\<exists>gs. sv_out (handleChatSend plain_lib ServerConfig_default plain_env 5 hi_packet connected_sv) =
     map (\<lambda>g. (g, makeChatBroadcast 1000 ''alice'' ''general'' ''hi'')) gs \<and> set gs = {5, 6}"
proof -
  have s: "getSession connected_sv 5 = Some (sample_user 5 ''alice'' R_USER)"
    by (simp add: connected_sv_def sample_sv_def getSession_def)
  have lim: "fst (sv_limit plain_lib ServerConfig_default plain_env (fd_key 5) MSG_CHAT connected_sv) \<noteq> RATE_LIMITED"
    by (simp add: sv_limit_def checkLimit_def connected_sv_def sample_sv_def bucket_of_def TokenBucket_new_def
        getDefaultRate_def ServerConfig_default_def consume_def Let_def)
  have m: "chat_message (parseChatSend hi_packet) = ''hi''"
    by (simp add: parseChatSend_def parse_fields2_def hi_packet_def json_object_def)
  have ok: "\<not> containsNullByte ''hi''" "\<not> containsInjection ''hi''"
    by code_simp+
  have "m_authenticated (sample_user 5 ''alice'' R_USER)" "\<not> isMuted plain_env (sample_user 5 ''alice'' R_USER)"
    by (simp_all add: sample_user_def ClientSession_new_def isMuted_def)
  from chat_reaches_the_room [OF connected_sv_ok s this lim m _ _ ok refl]
  have "\<exists>gs. sv_out (handleChatSend plain_lib ServerConfig_default plain_env 5 hi_packet connected_sv) =
      map (\<lambda>g. (g, makeChatBroadcast 1000 ''alice'' ''general'' ''hi'')) gs \<and>
      set gs = {g. in_room connected_sv ''general'' g \<and> getSession connected_sv g \<noteq> None}"
    by (auto simp: sample_user_def ClientSession_new_def plain_env_def connected_sv_def sample_sv_def)
  moreover have "{g. in_room connected_sv ''general'' g \<and> getSession connected_sv g \<noteq> None} = {5, 6}"
    by (auto simp: in_room_def connected_sv_def sample_sv_def getSession_def)
  ultimately show ?thesis by simp
qed

end
