(* ===== verification/EndToEnd.thy ===== *)
theory EndToEnd
  imports ClientSafety Lifecycle "HOL-Library.Multiset"
begin

text \<open>
  Client and server together: what a user types at one client, as the bytes it sends, as the packet
  the server's session cuts out of them and the handler that packet reaches, and what another client
  prints or stores of the server's answer.
\<close>

section \<open>From the client's socket to the server's handler\<close>

lemma upd_session_same: "getSession s f = Some ss \<Longrightarrow> upd_session f (\<lambda>_. ss) s = s"
  by (auto simp: upd_session_def getSession_def intro!: Server.equality fmap_ext)

lemma sent_packet_dispatched:
  assumes "tc_sendPacket L iv p c = (True, c')" "tc_isReady c" "cc_aes (tc_crypto c) = Some key"
    and "msg_type (header p) = msg_code t" "t \<notin> {MSG_CRYPTO_HELLO, MSG_CRYPTO_KEY_OFFER, MSG_CRYPTO_KEY_ACCEPT,
      MSG_CRYPTO_HANDSHAKE_OK}"
    and "sendable p" "length (payload p) + 32 \<le> unat MAX_PAYLOAD_LEN"
    and "length (iv (tc_drawn c)) = IV_LEN" "gcm_good L key (iv (tc_drawn c)) (payload p)"
    and "fmlookup (session_keys (sv_engine s)) f = Some key"
    and "getSession s f = Some ss" "m_fd ss = f" "m_readBuffer ss = []"
  shows "\<exists>out q. tc_wire c' = tc_wire c @ out \<and> on_readable L E f out s = ([(f, q)], s) \<and>
     handlePacket L cfg E f q s = dispatch L cfg E f (q\<lparr>payload := payload p\<rparr>) t s"
proof -
  let ?q = "sealed_packet L key (iv (tc_drawn c)) p"
  have np: "\<not> handshake_packet p" using assms(4,5) by (auto simp: handshake_packet_def simp del: msg_code.simps)
  note r = sealed_packet_received [OF assms(8,9,6,7,10)]
  have w: "tc_wire c' = tc_wire c @ packetToBytes ?q"
    by (rule sent_on_wire [OF assms(1)]) (rule client_seal_ready [OF assms(2,3) np])
  have b: "ss\<lparr>m_readBuffer := []\<rparr> = ss" using assms(13) by simp
  have ne: "packetToBytes ?q \<noteq> []" using length_packetToBytes [of ?q] by (auto simp flip: length_greater_0_conv)
  have rd: "on_readable L E f (packetToBytes ?q) s = ([(f, stamped ?q)], s)"
    using append_one_packet [OF r(1) assms(13)] assms(11,12) ne b upd_session_same [OF assms(11)]
    by (simp add: on_readable_def)
  have ty: "msg_type (header (stamped ?q)) = msg_code t" using assms(4) by (simp only: sealed_packet_type)
  have "handlePacket L cfg E f (stamped ?q) s = dispatch L cfg E f ((stamped ?q)\<lparr>payload := payload p\<rparr>) t s"
    using assms(5,10) r(2) ty
    by (auto simp: handlePacket_def hasSession_def Let_def simp del: msg_code.simps)
  with w rd show ?thesis by blast
qed

section \<open>A typed line\<close>

lemma chat_doc_ok: "utf8_ok line \<Longrightarrow> json_ok (chat_doc line)"
  by (simp add: chat_doc_def json_object_def)

lemma chat_text:
  "utf8_ok line \<Longrightarrow> json_dump (chat_doc line) =
     CHR ''{'' # CHR 0x22 # ''message'' @ CHR 0x22 # CHR '':'' # CHR 0x22 # escaped line @ [CHR 0x22, CHR ''}'']"
proof -
  have "sorted_list_of_fset {|''message''|} = [''message'']" by (simp add: sorted_list_of_fset.rep_eq)
  moreover have "escaped ''message'' = ''message''" by code_simp
  ultimately show "utf8_ok line \<Longrightarrow> ?thesis"
    by (simp add: json_dump_def json_text_def dump_text_render render_text_def chat_doc_def json_object_def
        render_items_def render_member_def dump_escaped_strict text_or_empty_def)
qed

lemma chat_text_length:
  assumes "utf8_ok line" "length line \<le> 4096"
  shows "length (json_dump (chat_doc line)) + 32 \<le> unat MAX_PAYLOAD_LEN"
  using length_escaped [of line] assms(2) by (simp add: chat_text [OF assms(1)] MAX_PAYLOAD_LEN_def)

lemma typed_line_sent:
  assumes "cm_exit m = Alive" "cm_phase m = Chatting" "cm_running m" "strip_cr raw = line" "line \<noteq> []" "\<not> isCommand line"
    and "utf8_ok line"
    and "tc_sendPacket L (ce_iv C) (makePacket MSG_CHAT_SEND (json_dump (chat_doc line))) (cm_tcp m) = (ok, c)"
  shows "cm_tcp (client_step L C (Line (Some raw)) m) = c"
  using assms by (simp add: run_line_def send_chat_def chat_doc_ok cm_send_def Let_def)

lemma parse_chat_doc:
  assumes "utf8_ok line"
    and "payload q = bytes_of_string (json_dump (chat_doc line))"
  shows "chat_message (parseChatSend q) = line"
  using assms chat_doc_ok [OF assms(1)]
  by (simp add: parseChatSend_def parse_fields2_def payloadToString_def) (simp add: chat_doc_def json_object_def)

section \<open>A received packet\<close>

text \<open>A packet the server sends on a session is handled by the manager of the client at its other end.\<close>

lemma packet_handled:
  assumes "sendPacket L E e rs ss p = (out, True)" "fmlookup (session_keys e) (m_fd ss) = Some key"
    and "msg_type (header p) = msg_code t" "t \<notin> {MSG_CRYPTO_HELLO, MSG_CRYPTO_KEY_OFFER, MSG_CRYPTO_KEY_ACCEPT,
      MSG_CRYPTO_HANDSHAKE_OK}"
    and "sendable p" "length (payload p) + 32 \<le> unat MAX_PAYLOAD_LEN"
    and "length (rand_bytes E IV_LEN) = IV_LEN" "gcm_good L key (rand_bytes E IV_LEN) (payload p)"
    and "cm_exit m = Alive" "tc_connected (cm_tcp m)" "tc_isReady (cm_tcp m)" "cc_aes (tc_crypto (cm_tcp m)) = Some key"
    and "socket_bytes sock = out @ rest"
  shows "\<exists>sock' q. socket_bytes sock' = rest \<and> msg_type (header q) = msg_code t \<and> payload q = payload p \<and>
    receiveThread L C sock m = receiveThread L C sock' (onPacketReceived L C q m)"
proof -
  let ?q = "with_payload (aes_encrypt L key (rand_bytes E IV_LEN) (payload p) []) p"
  have np: "\<not> handshake_packet p" using assms(3,4) by (auto simp: handshake_packet_def simp del: msg_code.simps)
  note r = sealed_packet_read [OF assms(1,2) np assms(5-8,13) refl]
  obtain sock' where sock': "readPacketFromFd sock = Some (stamped ?q, sock')" "socket_bytes sock' = rest"
    using r(1) by blast
  have "decryptPacket L (tc_crypto (cm_tcp m)) (payload (stamped ?q)) = Inr (payload p)"
    using r(2) assms(11,12) by (simp add: decryptPacket_def tc_isReady_def)
  moreover have "msg_type (header (stamped ?q)) = msg_code t"
    using assms(3) by (simp del: msg_code.simps add: with_payload_def stamped_def)
  ultimately have "receive_one L (ce_env C) (ce_iv C) (Some (stamped ?q)) (cm_tcp m) =
      Some ([OnPacket ((stamped ?q)\<lparr>payload := payload p\<rparr>)], False, cm_tcp m)"
    using assms(4,11) by (auto simp: receive_one_def simp del: msg_code.simps)
  then have "cm_receive L C (Some (stamped ?q)) m =
      (False, onPacketReceived L C ((stamped ?q)\<lparr>payload := payload p\<rparr>) m)"
    by (simp add: cm_receive_def)
  then have "receiveThread L C sock m =
      receiveThread L C sock' (onPacketReceived L C ((stamped ?q)\<lparr>payload := payload p\<rparr>) m)"
    using assms(9,10) sock'(1) by (subst receiveThread.simps) simp
  with sock'(2) show ?thesis
    using \<open>msg_type (header (stamped ?q)) = msg_code t\<close>
    by (intro exI [of _ sock'] exI [of _ "(stamped ?q)\<lparr>payload := payload p\<rparr>"]) simp
qed

definition chat_broadcast_doc :: "time \<Rightarrow> string \<Rightarrow> string \<Rightarrow> string \<Rightarrow> json" where
  "chat_broadcast_doc t sender room msg = json_object
     [(''sender'', JStr sender), (''room'', JStr room), (''message'', JStr msg), (''ts'', JInt t)]"

lemma makeChatBroadcast_doc:
  "makeChatBroadcast t sender room msg = makePacket MSG_CHAT_BROADCAST (json_dump (chat_broadcast_doc t sender room msg))"
  by (simp add: makeChatBroadcast_def chat_broadcast_doc_def)

text \<open>The line a client prints for a chat message.\<close>

definition chat_line :: "string \<Rightarrow> time \<Rightarrow> string \<Rightarrow> string \<Rightarrow> string \<Rightarrow> string" where
  "chat_line me t sender room msg =
     ''['' @ hms (t + 7 * 3600) @ ''] ['' @ strip_hash room @ ''] '' @ (if sender = me then [] else sender @ '': '')
     @ msg @ nl"

lemma int64_small:
  assumes "0 < t" "t \<le> gmtime_max"
  shows "int64_of t = t"
proof -
  have "t < 2 ^ 63" "- (2 ^ 63) \<le> t" using assms by (simp_all add: gmtime_max_def)
  then show ?thesis by (simp add: int64_of_def signed_take_bit_int_eq_self)
qed

lemma chat_broadcast_doc_ok:
  assumes "utf8_ok sender" "utf8_ok room" "utf8_ok msg" "0 < t" "t < 2 ^ 63"
  shows "json_ok (chat_broadcast_doc t sender room msg)"
  using assms by (simp add: chat_broadcast_doc_def json_object_def)

lemma broadcast_printed:
  assumes "utf8_ok sender" "utf8_ok room" "utf8_ok msg"
    and "0 < t" "t + 7 * 3600 \<le> gmtime_max"
    and "msg_type (header q) = msg_code MSG_CHAT_BROADCAST"
    and "payload q = bytes_of_string (json_dump (chat_broadcast_doc t sender room msg))"
  shows "onPacketReceived L C q m = say (chat_line (cm_nickname m) t sender room msg) m"
proof -
  have i: "int64_of t = t" using assms(4,5) by (intro int64_small) simp_all
  have c: "clock (t + 25200) = ([], Inr (hms (t + 25200)))" using assms(5) by (simp add: clock_def)
  obtain d where d: "chat_broadcast_doc t sender room msg = JObj d"
    by (simp add: chat_broadcast_doc_def json_object_def)
  have v: "json_value get_longlong (JObj d) ''ts'' 0 = Inr t" "value_string (JObj d) ''sender'' [] = Inr sender"
    "value_string (JObj d) ''room'' [] = Inr room" "value_string (JObj d) ''message'' [] = Inr msg"
    unfolding d [symmetric] by (simp_all add: chat_broadcast_doc_def json_object_def i)
  have "print_broadcast (cm_nickname m) (JObj d) = (chat_line (cm_nickname m) t sender room msg, Inr ())"
    using assms(4) by (simp add: print_broadcast_def print_chat_def v c chat_line_def del: json_value.simps)
      (simp add: andthen_def tell_def)
  moreover have "json_ok (JObj d)"
    using chat_broadcast_doc_ok [OF assms(1-3), of t] assms(4,5) by (simp add: d gmtime_max_def)
  ultimately show ?thesis using assms(6,7)
    by (simp add: onPacketReceived_def json_parse_nothrow_def payloadToString_def d print_caught_def Let_def
        del: msg_code.simps)
qed

section \<open>An administrator's command line\<close>

text \<open>
  What a command of the client is to do on the server, for the arguments the client's usage messages
  ask for: of a reason only the first word counts, no duration stands for -1 (permanently), and a
  duration of 0 lifts the mute.
\<close>

definition first_of :: "string list \<Rightarrow> string" where
  "first_of xs = (case xs of [] \<Rightarrow> [] | x # _ \<Rightarrow> x)"

definition mute_duration :: "string list \<Rightarrow> int" where
  "mute_duration xs = (case xs of [] \<Rightarrow> -1 | x # _ \<Rightarrow> (case stoi x of Inl _ \<Rightarrow> -1 | Inr d \<Rightarrow> d))"

fun admin_effect :: "lib \<Rightarrow> ServerConfig \<Rightarrow> env \<Rightarrow> fd \<Rightarrow> CommandType \<Rightarrow> string list \<Rightarrow> Server \<Rightarrow> Server" where
  "admin_effect L cfg E f CMD_KICK (n # as) = admin_kick L cfg E f n (first_of as)"
| "admin_effect L cfg E f CMD_UNKICK (n # room # as) = admin_unkick L E f n room"
| "admin_effect L cfg E f CMD_MUTE (n # as) =
     (if mute_duration as = 0 then admin_unmute L E f n else admin_mute L E f n (mute_duration as))"
| "admin_effect L cfg E f CMD_UNMUTE (n # as) = admin_unmute L E f n"
| "admin_effect L cfg E f CMD_BAN (n # as) = admin_ban L E f n (first_of as)"
| "admin_effect L cfg E f CMD_UNBAN (n # as) = admin_unban L E f n"
| "admin_effect L cfg E f CMD_PROMOTE (n # as) = admin_promote L E f n"
| "admin_effect L cfg E f CMD_DEMOTE (n # as) = admin_demote L E f n"
| "admin_effect L cfg E f CMD_BROADCAST (w # as) = admin_broadcast L E f (join_words (w # as))"
| "admin_effect L cfg E f _ _ = (\<lambda>s. s)"

lemma int32_stoi: "stoi x = Inr d \<Longrightarrow> int32_of d = d"
  using stoi_range [of x d] by (simp add: int32_of_def signed_take_bit_int_eq_self)

lemma int32_minus_one [simp]: "int32_of (- 1) = - 1" "int32_of 0 = 0"
  by (simp_all add: int32_of_def)

lemma run1_Inr [simp]: "run1 (Inr x) k = k x"
  by (simp add: run1_def fun_eq_iff)

lemma json_object_fields:
  "json_object [(k, v)] = JObj (fmupd k v fmempty)"
  "json_object [(k, v), (k', v')] = JObj (fmupd k' v' (fmupd k v fmempty))"
  by (simp_all add: json_object_def)

lemma admin_request_effect:
  assumes "handleAdminCommand cmd = request.Request t (Some j)" "cmd_type cmd \<in> set admin_commands"
  shows "t \<in> set admin_types \<and> (\<exists>d. j = JObj d) \<and>
    on_admin L cfg E f t j = admin_effect L cfg E f (cmd_type cmd) (cmd_args cmd)"
proof -
  note defs = handleAdminCommand_def Let_def json_object_fields admin_types_def on_admin_def first_of_def
    mute_duration_def join_args_words
  obtain n as where args: "cmd_args cmd = n # as"
  proof (cases "cmd_args cmd")
    case Nil
    with assms show ?thesis by (cases "cmd_type cmd") (simp_all add: handleAdminCommand_def admin_commands_def)
  qed blast
  show ?thesis
  proof (cases "cmd_type cmd = CMD_MUTE")
    case True
    show ?thesis
    proof (cases as)
      case (Cons x xs)
      then show ?thesis using assms(1) True args
        by (cases "stoi x") (auto simp: defs int32_stoi)
    qed (use assms(1) True args in \<open>auto simp: defs\<close>)
  next
    case False
    then show ?thesis using assms args
      by (cases "cmd_type cmd"; cases as) (auto simp: defs admin_commands_def)
  qed
qed

text \<open>The document of a command whose arguments are UTF-8 can be printed.\<close>

lemma admin_request_ok:
  assumes "handleAdminCommand cmd = request.Request t (Some j)" "list_all utf8_ok (cmd_args cmd)"
  shows "json_ok j"
proof -
  have arg: "utf8_ok (cmd_args cmd ! i)" if "i < length (cmd_args cmd)" for i
    using that assms(2) by (simp add: list_all_length)
  have arg2: "\<not> length (cmd_args cmd) < 2 \<Longrightarrow> utf8_ok (cmd_args cmd ! 0)" by (rule arg) linarith
  have d: "stoi x = Inr n \<Longrightarrow> json_ok (JInt n)" for x n using stoi_range [of x n] by simp
  show ?thesis
    using assms arg [of 0] arg [of 1] arg2 d utf8_ok_join_words [OF assms(2)]
    by (cases "cmd_type cmd") (auto simp: handleAdminCommand_def Let_def json_object_def join_args_words
        split: if_splits sum.splits)
qed

lemma admin_line_sent:
  assumes "cm_exit m = Alive" "cm_phase m = Chatting" "cm_running m" "tc_isReady (cm_tcp m)" "strip_cr raw = line"
    and "cmd_type (parse_command line) \<in> set admin_commands"
    and "handleAdminCommand (parse_command line) = request.Request t (Some j)" "utf8_ok line"
  shows "cm_tcp (client_step L C (Line (Some raw)) m) =
    snd (tc_sendPacket L (ce_iv C) (makePacket t (json_dump j)) (cm_tcp m))"
proof -
  let ?cmd = "parse_command line"
  have ic: "isCommand line" using assms(6) by (auto simp: parse_command_def admin_commands_def split: if_splits)
  then have ne: "line \<noteq> []" by (auto simp: isCommand_def)
  have v: "validate_command ?cmd \<noteq> INVALID" "cmd_type ?cmd \<noteq> CMD_SEND" "cmd_type ?cmd \<noteq> CMD_QUIT"
    using assms(6) by (auto simp: validate_command_def admin_commands_def)
  have h: "handleCommand L C ?cmd n = run_request L C (handleAdminCommand ?cmd) n" if "tc_isReady (cm_tcp n)" for n
    using that assms(6) by (cases "cmd_type ?cmd") (simp_all add: handleCommand_def admin_commands_def)
  show ?thesis
    using assms(1-5,7) ic ne v admin_request_ok [OF assms(7) parse_command_utf8 [OF assms(8)]]
    by (simp add: run_line_def run_command_def h run_request_def send_doc_def Let_def)
qed

section \<open>A file\<close>

text \<open>
  The tasks that a run of the pool finishes, in the order in which they finish. Each packet is a task of its
  own: with several workers a later one may finish first.
\<close>

fun finish_order :: "event list \<Rightarrow> ThreadPool \<Rightarrow> task list" where
  "finish_order [] p = []"
| "finish_order (Ev_take # es) p = finish_order es (case pool_take p of None \<Rightarrow> p | Some p' \<Rightarrow> p')"
| "finish_order (Ev_finish E i # es) p =
     (case pool_finish i p of None \<Rightarrow> finish_order es p | Some (t, p') \<Rightarrow> t # finish_order es p')"
| "finish_order (e # es) p = finish_order es p"

definition pool_event :: "event \<Rightarrow> bool" where
  "pool_event e \<longleftrightarrow> (case e of Ev_take \<Rightarrow> True | Ev_finish E i \<Rightarrow> True | _ \<Rightarrow> False)"

definition pool_pending :: "ThreadPool \<Rightarrow> task list" where
  "pool_pending p = under_way p @ m_tasks p"

lemma pool_take_keeps:
  "pool_take p = Some p' \<Longrightarrow> pool_pending p' = pool_pending p \<and> m_workers p' = m_workers p \<and>
    length (under_way p') \<le> m_workers p"
  by (auto simp: pool_take_def pool_pending_def split: list.splits if_splits)

lemma pool_finish_removes:
  assumes "pool_finish i p = Some (t, p')"
  shows "mset (pool_pending p) = add_mset t (mset (pool_pending p'))" "m_workers p' = m_workers p"
    "length (under_way p') < length (under_way p)"
    "length (under_way p) \<le> 1 \<Longrightarrow> pool_pending p = t # pool_pending p'"
proof -
  from assms have i: "i < length (under_way p)" and t: "t = under_way p ! i"
    and p': "p' = p\<lparr>under_way := take i (under_way p) @ drop (Suc i) (under_way p)\<rparr>"
    by (auto simp: pool_finish_def split: if_splits)
  have u: "under_way p = take i (under_way p) @ t # drop (Suc i) (under_way p)" using i t by (simp add: id_take_nth_drop)
  have "mset (under_way p) = add_mset t (mset (under_way p'))" by (subst u) (simp add: p')
  then show "mset (pool_pending p) = add_mset t (mset (pool_pending p'))" by (simp add: pool_pending_def p')
  show "m_workers p' = m_workers p" "length (under_way p') < length (under_way p)" using i by (simp_all add: p')
  assume "length (under_way p) \<le> 1"
  then have "under_way p = [t]" "i = 0" using i t by (auto simp: le_Suc_eq length_Suc_conv)
  then show "pool_pending p = t # pool_pending p'" by (simp add: pool_pending_def p')
qed

text \<open>Where a run of the pool leaves it: nothing is lost, and a single worker keeps the order.\<close>

lemma pool_step:
  assumes "pool_event e" "w' = world_step L cfg e w"
  obtains (quiet) "pool_pending (w_pool w') = pool_pending (w_pool w)"
      "finish_order (e # es) (w_pool w) = finish_order es (w_pool w')"
      "m_workers (w_pool w') = m_workers (w_pool w)"
      "length (under_way (w_pool w')) \<le> max (length (under_way (w_pool w))) (m_workers (w_pool w))"
  | (finish) t where "finish_order (e # es) (w_pool w) = t # finish_order es (w_pool w')"
      "mset (pool_pending (w_pool w)) = add_mset t (mset (pool_pending (w_pool w')))"
      "length (under_way (w_pool w)) \<le> 1 \<Longrightarrow> pool_pending (w_pool w) = t # pool_pending (w_pool w')"
      "m_workers (w_pool w') = m_workers (w_pool w)"
      "length (under_way (w_pool w')) \<le> max (length (under_way (w_pool w))) (m_workers (w_pool w))"
proof -
  consider "e = Ev_take" | E i where "e = Ev_finish E i" using assms(1) by (auto simp: pool_event_def split: event.splits)
  then show thesis
  proof cases
    case 1
    then show ?thesis using pool_take_keeps [of "w_pool w"] quiet assms(2) by (cases "pool_take (w_pool w)") auto
  next
    case (2 E i)
    show ?thesis
    proof (cases "pool_finish i (w_pool w)")
      case None
      then show ?thesis using 2 quiet assms(2) by auto
    next
      case (Some tp)
      obtain f q p' where tp: "tp = ((f, q), p')" by (metis prod.exhaust)
      then show ?thesis using 2 Some pool_finish_removes [OF Some [unfolded tp]] finish assms(2) by auto
    qed
  qed
qed

lemma pool_run:
  assumes "list_all pool_event es" "w' = fold (world_step L cfg) es w"
  shows "mset (finish_order es (w_pool w)) + mset (pool_pending (w_pool w')) = mset (pool_pending (w_pool w)) \<and>
    (m_workers (w_pool w) = 1 \<and> length (under_way (w_pool w)) \<le> 1 \<longrightarrow>
      finish_order es (w_pool w) @ pool_pending (w_pool w') = pool_pending (w_pool w))"
  using assms
proof (induction es arbitrary: w)
  case (Cons e es)
  have e: "pool_event e" using Cons.prems(1) by simp
  note IH = Cons.IH [of "world_step L cfg e w"]
  show ?case
  proof (cases rule: pool_step [OF e refl, where es = es and L = L and cfg = cfg and w = w])
    case 1
    then show ?thesis using IH Cons.prems by auto
  next
    case (2 t)
    then show ?thesis using IH Cons.prems by auto
  qed
qed simp

lemma data_doc_ok: "utf8_ok tid \<Longrightarrow> json_ok (data_doc tid b c)"
proof -
  have "json_ok (JInt (uint x))" for x :: byte
  proof -
    have "0 \<le> uint x" "uint x < 256" using unsigned_less [of x, where ?'a = int] by simp_all
    then show ?thesis by (auto intro: order_trans [of _ 0])
  qed
  then have "json_ok (JArr (map (\<lambda>b. JInt (uint b)) c))" by (simp add: list_all_iff del: json_ok.simps(3))
  then show "utf8_ok tid \<Longrightarrow> ?thesis" by (simp add: data_doc_def json_object_def del: json_ok.simps(6))
qed

lemma handleData_relays:
  assumes "utf8_ok tid"
    and "fmlookup m tid = Some fs" "sender_fd fs = f" "ft_status fs \<in> {ACCEPTED, IN_PROGRESS}"
    and "gs (receiver_fd fs) = Some r"
  shows "handleData E gs f (json_dump (data_doc tid b c)) m =
    Inr ([(m_fd r, file_packet MSG_FILE_DATA (json_dump (data_doc tid b c)))],
      fmupd tid (fs\<lparr>ft_status := IN_PROGRESS, last_activity_time := now E\<rparr>) m)"
  using assms by (auto simp: handleData_def with_transfer_def data_doc_ok)

text \<open>
  A server on which the transfer \<open>tid\<close> from \<open>f\<close> to the session \<open>r\<close> is open, and the packets in which the
  server reads a document.
\<close>

definition transferring :: "string \<Rightarrow> fd \<Rightarrow> ClientSession \<Rightarrow> Server \<Rightarrow> bool" where
  "transferring tid f r s \<longleftrightarrow> (\<exists>fs. fmlookup (sv_transfers s) tid = Some fs \<and> sender_fd fs = f \<and>
     ft_status fs \<in> {ACCEPTED, IN_PROGRESS} \<and> getSession s (receiver_fd fs) = Some r)"

definition carries :: "lib \<Rightarrow> CryptoEngine \<Rightarrow> fd \<Rightarrow> task \<Rightarrow> json \<Rightarrow> bool" where
  "carries L e f t j \<longleftrightarrow> fst t = f \<and> msg_type (header (snd t)) = msg_code MSG_FILE_DATA \<and> hasSession e f \<and>
     decryptPayload L e f (payload (snd t)) = Inr (bytes_of_string (json_dump j))"

definition relayed :: "ClientSession \<Rightarrow> json \<Rightarrow> fd \<times> Packet" where
  "relayed r j = (m_fd r, file_packet MSG_FILE_DATA (json_dump j))"

lemma chunk_handled:
  assumes "transferring tid f r s" "utf8_ok tid" "carries L (sv_engine s) f (g, q) j" "j = data_doc tid b c"
  shows "\<exists>t. handlePacket L cfg E g q s = t \<and> transferring tid f r t \<and> sv_engine t = sv_engine s \<and>
    sv_out t = sv_out s @ [relayed r j]"
proof -
  obtain fs where fs: "fmlookup (sv_transfers s) tid = Some fs" "sender_fd fs = f"
    "ft_status fs \<in> {ACCEPTED, IN_PROGRESS}" "getSession s (receiver_fd fs) = Some r"
    using assms(1) unfolding transferring_def by blast
  let ?p = "q\<lparr>payload := bytes_of_string (json_dump j)\<rparr>"
  let ?m = "fmupd tid (fs\<lparr>ft_status := IN_PROGRESS, last_activity_time := now E\<rparr>) (sv_transfers s)"
  have "msg_of_code (msg_code MSG_FILE_DATA) = Some MSG_FILE_DATA" by (rule msg_of_code_code)
  then have "handlePacket L cfg E g q s = dispatch L cfg E f ?p MSG_FILE_DATA s"
    using assms(3) by (auto simp: handlePacket_def carries_def Let_def)
  also have "\<dots> = on_transfer (handleData E (getSession s) f (json_dump j)) s"
    by (simp add: dispatch_def Let_def admin_types_def payloadToString_def)
  also have "\<dots> = emit [relayed r j] (s\<lparr>sv_transfers := ?m\<rparr>)"
    using handleData_relays [OF assms(2) fs(1-3), of "getSession s" r E b c] fs(4)
    by (simp add: on_transfer_def relayed_def assms(4))
  finally show ?thesis using fs(2,4) by (simp add: transferring_def emit_def getSession_def)
qed

text \<open>However the workers run, they relay the chunks in the order in which they finish.\<close>

lemma pool_relays:
  assumes "list_all pool_event es" "transferring tid f r (w_server w)" "utf8_ok tid"
    and "\<forall>t \<in> set (pool_pending (w_pool w)). carries L (sv_engine (w_server w)) f t (doc t) \<and> (\<exists>b c. doc t = data_doc tid b c)"
  shows "sv_out (w_server (fold (world_step L cfg) es w)) =
    sv_out (w_server w) @ map (relayed r \<circ> doc) (finish_order es (w_pool w))"
  using assms
proof (induction es arbitrary: w)
  case (Cons e es)
  consider "e = Ev_take" | E i where "e = Ev_finish E i" using Cons.prems(1) by (auto simp: pool_event_def split: event.splits)
  then show ?case
  proof cases
    case 1
    show ?thesis
    proof (cases "pool_take (w_pool w)")
      case (Some p)
      then show ?thesis using 1 Cons.IH [of "w\<lparr>w_pool := p\<rparr>"] Cons.prems pool_take_keeps [OF Some] by simp
    qed (use 1 Cons in simp)
  next
    case (2 E i)
    show ?thesis
    proof (cases "pool_finish i (w_pool w)")
      case (Some tp)
      obtain g q p where tp: "tp = ((g, q), p)" by (metis prod.exhaust)
      have m: "set (pool_pending (w_pool w)) = insert (g, q) (set (pool_pending p))"
        using arg_cong [OF pool_finish_removes(1) [OF Some [unfolded tp]], of set_mset] by simp
      then have sub: "(g, q) \<in> set (pool_pending (w_pool w))" "set (pool_pending p) \<subseteq> set (pool_pending (w_pool w))" by auto
      from Cons.prems(4) sub(1) obtain b c where d: "carries L (sv_engine (w_server w)) f (g, q) (doc (g, q))"
        "doc (g, q) = data_doc tid b c" by blast
      from chunk_handled [OF Cons.prems(2,3) d] obtain t where
        t: "handlePacket L cfg E g q (w_server w) = t" "transferring tid f r t" "sv_engine t = sv_engine (w_server w)"
        "sv_out t = sv_out (w_server w) @ [relayed r (doc (g, q))]" by blast
      moreover have "\<forall>u \<in> set (pool_pending p). carries L (sv_engine (w_server w)) f u (doc u) \<and> (\<exists>b c. doc u = data_doc tid b c)"
        using Cons.prems(4) sub(2) by blast
      ultimately show ?thesis
        using 2 Some tp Cons.IH [of "w\<lparr>w_pool := p, w_server := t\<rparr>"] Cons.prems(1,3) by simp
    qed (use 2 Cons in simp)
  qed
qed simp

text \<open>The document a packet carries is a function of the packet.\<close>

lemma carries_doc:
  assumes "list_all2 (carries L e f) tasks docs" "\<And>j. j \<in> set docs \<Longrightarrow> json_ok j"
  shows "\<exists>doc. map doc tasks = docs \<and> (\<forall>t \<in> set tasks. carries L e f t (doc t))"
proof -
  define doc where "doc t = the (json_parse (string_of_bytes (projr (decryptPayload L e f (payload (snd t))))))" for t :: task
  have d: "doc t = j" if "carries L e f t j" "json_ok j" for t j using that by (simp add: doc_def carries_def)
  have "map doc tasks = docs \<and> (\<forall>t \<in> set tasks. carries L e f t (doc t))"
    using assms by (induction rule: list_all2_induct) (auto simp: d)
  then show ?thesis by blast
qed

text \<open>Two workers can hand on two chunks in the wrong order.\<close>

theorem two_workers_swap_chunks:
  "finish_order [Ev_take, Ev_take, Ev_finish E 1, Ev_finish E' 0]
     \<lparr>m_workers = 2, m_tasks = [t, u], under_way = [], m_stopping = False\<rparr> = [u, t]"
  by (simp add: pool_take_def pool_finish_def)

lemma upload_docs_shape: "j \<in> set (upload_docs tid content) \<Longrightarrow> \<exists>b c. j = data_doc tid b c"
  by (auto simp: upload_docs_def split: list.splits)

text \<open>A client handles a relayed chunk.\<close>

lemma data_packet_handled:
  assumes "json_ok j" "msg_type (header q) = msg_code MSG_FILE_DATA"
    and "payloadToString q = json_dump j"
  shows "onPacketReceived L C q m = handleFileData C j m"
  using assms by (simp add: onPacketReceived_def json_parse_nothrow_def Let_def del: msg_code.simps)

lemma received_docs:
  assumes "\<And>j. j \<in> set docs \<Longrightarrow> json_ok j"
  shows "fold (onPacketReceived L D) (map (snd \<circ> relayed r) docs) n = fold (handleFileData D) docs n"
  unfolding fold_map comp_def
  by (intro fold_cong refl ext data_packet_handled)
    (simp_all add: assms relayed_def file_packet_def payloadToString_def del: msg_code.simps)

lemma sent_docs:
  assumes "\<And>j. j \<in> set docs \<Longrightarrow> json_ok j"
  shows "fold (send_doc L C MSG_FILE_DATA) docs m =
    fold (\<lambda>j n. snd (cm_send L C (makePacket MSG_FILE_DATA (json_dump j)) n)) docs m"
  using assms by (intro fold_cong) (auto simp: send_doc_def)

section \<open>A small example\<close>

text \<open>A client in the chat and the server it is connected to, with the same key.\<close>

definition chatting :: ConnectionManager where
  "chatting = (ConnectionManager_new ready_client fmempty)\<lparr>cm_phase := Chatting, cm_running := True\<rparr>"

lemma chatting_sel [simp]:
  "cm_exit chatting = Alive" "cm_phase chatting = Chatting" "cm_running chatting" "cm_tcp chatting = ready_client"
  "cm_nickname chatting = []"
  by (simp_all add: chatting_def ConnectionManager_new_def)

definition keyed_sv :: Server where
  "keyed_sv = connected_sv\<lparr>sv_engine := fresh_engine\<lparr>session_keys := fmupd 5 [9] (fmupd 6 [9] fmempty)\<rparr>\<rparr>"

lemma keyed_sv_ok: "sv_ok ServerConfig_default keyed_sv"
proof -
  have "fmpred (session_ok ServerConfig_default (sv_engine keyed_sv)) (m_sessions keyed_sv)"
    by (intro fmpredI) (auto simp: keyed_sv_def connected_sv_def sample_sv_def session_ok_def ServerConfig_default_def
        sample_user_def ClientSession_new_def split: if_splits)
  then show ?thesis using connected_sv_ok
    by (auto simp: sv_ok_def keyed_sv_def connected_sv_def sample_sv_def)
qed

lemma keyed_sv_sel [simp]:
  "getSession keyed_sv 5 = Some (sample_user 5 ''alice'' R_USER)" "getSession keyed_sv 6 = Some (sample_user 6 ''root'' R_OWNER)"
  "fmlookup (session_keys (sv_engine keyed_sv)) 5 = Some [9]" "fmlookup (session_keys (sv_engine keyed_sv)) 6 = Some [9]"
  "m_fd (sample_user f n r) = f" "m_readBuffer (sample_user f n r) = []"
  "m_authenticated (sample_user f n r)" "m_room (sample_user f n r) = ''general''" "m_nickname (sample_user f n r) = n"
  by (simp_all add: keyed_sv_def connected_sv_def sample_sv_def getSession_def sample_user_def ClientSession_new_def)

definition plain_gcm :: "lib \<Rightarrow> bool" where
  "plain_gcm L \<longleftrightarrow> gcm_encrypt L = gcm_encrypt plain_lib \<and> gcm_decrypt L = gcm_decrypt plain_lib"

lemma gcm_good_plain: "plain_gcm L \<Longrightarrow> gcm_good L key v m"
  using plain_gcm_good [of key v m] by (simp add: plain_gcm_def gcm_good_def gcm_inverts_def)

lemma chatting_sends:
  assumes "plain_gcm L" "length (payload p) < 900" "\<not> handshake_packet p"
  shows "fst (tc_sendPacket L (ce_iv plain_cenv) p ready_client)"
proof -
  have "aes_encrypt L k v d a = aes_encrypt plain_lib k v d a" for k v d a
    using assms(1) by (simp add: plain_gcm_def aes_encrypt_def)
  then have "client_seal L iv c p = client_seal plain_lib iv c p" for iv c
    by (simp add: client_seal_def encryptPacket_def split: option.split)
  moreover have "ce_iv plain_cenv = (\<lambda>_. replicate 16 7)" by (simp add: plain_cenv_def)
  ultimately show ?thesis using ready_client_sends [OF assms(2,3)] by (auto simp: tc_sendPacket_def)
qed

end
