(* ===== verification/PacketQueue.thy ===== *)
theory PacketQueue
  imports Wire
begin

text \<open>
  The client's packet queue, \<open>client/core/MessageQueue.cpp\<close>: a bounded FIFO that drops its oldest
  packet when it is full. Every operation holds the mutex, so the calls of the threads that share
  the queue form one sequence. The specification is a log of everything ever pushed with the
  position of the next packet to hand out; the queue is shown to answer every sequence of calls as
  the log does.
\<close>

section \<open>The queue\<close>

record MessageQueue =
  m_queue :: "Packet list"

definition MAX_SIZE :: nat where "MAX_SIZE = 1000"

definition mq_empty :: MessageQueue where "mq_empty = \<lparr>m_queue = []\<rparr>"

text \<open>\<open>std::queue::push\<close> after the \<open>pop\<close> of the oldest one.\<close>

definition push_bounded :: "Packet \<Rightarrow> Packet list \<Rightarrow> Packet list" where
  "push_bounded pkt q = (if length q \<ge> MAX_SIZE then tl q else q) @ [pkt]"

definition mq_push :: "Packet \<Rightarrow> MessageQueue \<Rightarrow> MessageQueue" where
  "mq_push pkt q = q\<lparr>m_queue := push_bounded pkt (m_queue q)\<rparr>"

definition mq_tryPop :: "MessageQueue \<Rightarrow> Packet option \<times> MessageQueue" where
  "mq_tryPop q = (case m_queue q of [] \<Rightarrow> (None, q) | p # ps \<Rightarrow> (Some p, q\<lparr>m_queue := ps\<rparr>))"

text \<open>\<open>pop\<close> gives no packet as long as its wait goes on: \<open>None\<close> is a thread that stays blocked.\<close>

definition mq_pop :: "MessageQueue \<Rightarrow> Packet option \<times> MessageQueue" where
  "mq_pop q = (if m_queue q = [] then (None, q) else (Some (hd (m_queue q)), q\<lparr>m_queue := tl (m_queue q)\<rparr>))"

text \<open>\<open>wait_for\<close> returns the value of its predicate when the wait ends, by a notification or by time.\<close>

definition mq_popWithTimeout :: "MessageQueue \<Rightarrow> Packet option \<times> MessageQueue" where
  "mq_popWithTimeout q =
     (if m_queue q \<noteq> [] then (Some (hd (m_queue q)), q\<lparr>m_queue := tl (m_queue q)\<rparr>) else (None, q))"

definition mq_size :: "MessageQueue \<Rightarrow> nat" where
  "mq_size q = length (m_queue q)"

section \<open>Sequences of calls\<close>

datatype mq_call = Push Packet | Pop | TryPop | PopWithTimeout | Size

datatype mq_answer = Pushed | Got "Packet option" | Count nat

fun mq_do :: "mq_call \<Rightarrow> MessageQueue \<Rightarrow> mq_answer \<times> MessageQueue" where
  "mq_do (Push p) q = (Pushed, mq_push p q)"
| "mq_do Pop q = apfst Got (mq_pop q)"
| "mq_do TryPop q = apfst Got (mq_tryPop q)"
| "mq_do PopWithTimeout q = apfst Got (mq_popWithTimeout q)"
| "mq_do Size q = (Count (mq_size q), q)"

section \<open>The specification\<close>

text \<open>
  All packets pushed so far, and the position of the next one to hand out. A push moves the
  position on only where more than \<open>MAX_SIZE\<close> packets would wait.
\<close>

type_synonym packet_log = "Packet list \<times> nat"

fun log_pop :: "packet_log \<Rightarrow> mq_answer \<times> packet_log" where
  "log_pop (h, k) = (if k < length h then (Got (Some (h ! k)), (h, Suc k)) else (Got None, (h, k)))"

fun log_do :: "mq_call \<Rightarrow> packet_log \<Rightarrow> mq_answer \<times> packet_log" where
  "log_do (Push p) (h, k) = (Pushed, (h @ [p], max k (Suc (length h) - MAX_SIZE)))"
| "log_do Size (h, k) = (Count (length h - k), (h, k))"
| "log_do _ st = log_pop st"

definition holds_rest :: "MessageQueue \<Rightarrow> packet_log \<Rightarrow> bool" where
  "holds_rest q st \<longleftrightarrow> (case st of (h, k) \<Rightarrow> k \<le> length h \<and> m_queue q = drop k h \<and> length h - k \<le> MAX_SIZE)"

lemma MAX_SIZE_pos [simp]: "0 < MAX_SIZE"
  by (simp add: MAX_SIZE_def)

interpretation queue_log: bounded_log MAX_SIZE push_bounded
proof unfold_locales
  fix q :: "Packet list" and x
  assume "length q \<le> MAX_SIZE"
  then show "push_bounded x q = newest MAX_SIZE (q @ [x])"
    using newest_push [of q MAX_SIZE x]
    by (cases q) (auto simp: push_bounded_def MAX_SIZE_def split: if_splits)
qed

lemma tl_drop_Suc: "tl (drop k h) = drop (Suc k) h"
  by (simp add: drop_Suc tl_drop)

text \<open>All three ways to take a packet out do the same at the point where they take effect.\<close>

lemma pop_variants: "mq_tryPop q = mq_pop q" "mq_popWithTimeout q = mq_pop q"
  by (auto simp: mq_tryPop_def mq_pop_def mq_popWithTimeout_def split: list.split)

lemma pop_simulates:
  assumes "holds_rest q st"
  shows "apfst Got (mq_pop q) = (fst (log_pop st), snd (mq_pop q))"
    and "holds_rest (snd (mq_pop q)) (snd (log_pop st))"
  using assms
  by (cases st; auto simp: holds_rest_def mq_pop_def hd_drop_conv_nth tl_drop_Suc)+

lemma push_simulates:
  assumes "holds_rest q (h, k)"
  shows "holds_rest (mq_push p q) (snd (log_do (Push p) (h, k)))"
proof (cases "length h - k = MAX_SIZE")
  case True
  with assms have "max k (Suc (length h) - MAX_SIZE) = Suc k" "k < length h"
    using MAX_SIZE_pos by (auto simp: holds_rest_def simp del: MAX_SIZE_pos)
  with assms True show ?thesis
    by (auto simp: holds_rest_def mq_push_def push_bounded_def tl_drop_Suc)
next
  case False
  with assms have "max k (Suc (length h) - MAX_SIZE) = k"
    by (auto simp: holds_rest_def)
  with assms False show ?thesis
    by (auto simp: holds_rest_def mq_push_def push_bounded_def)
qed

interpretation packet_queue: simulation mq_do log_do holds_rest
proof unfold_locales
  fix q :: MessageQueue and st :: packet_log and c
  assume r: "holds_rest q st"
  obtain h k where st: "st = (h, k)" by force
  note [simp] = pop_variants pop_simulates(1) [OF r, unfolded st]
  from r show "fst (mq_do c q) = fst (log_do c st)"
    by (cases c) (auto simp: st holds_rest_def mq_size_def simp del: log_pop.simps)
  from r push_simulates [of q h k] pop_simulates(2) [OF r]
  show "holds_rest (snd (mq_do c q)) (snd (log_do c st))"
    by (cases c) (auto simp: st simp del: log_pop.simps)
qed

text \<open>
  C25: the client's packet queue refines the log: any sequence of pushes, pops (blocking, immediate
  or with a timeout) and size queries is answered exactly as the log of all packets answers it,
  so packets come out in the order they went in, none twice, and none is lost except the oldest
  ones of more than \<open>MAX_SIZE\<close> waiting.
\<close>

theorem queue_refines_log:
  "fst (run_calls mq_do calls mq_empty) = fst (run_calls log_do calls ([], 0))"
  using packet_queue.run_refines [of mq_empty "([], 0)" calls]
  by (simp add: holds_rest_def mq_empty_def)

end
