(* ===== verification/KnownServers.thy ===== *)
theory KnownServers
  imports Crypto
begin

text \<open>
  The client's store of server keys, \<open>client/security/CertVerifier.cpp\<close>: trust on first use, with
  the fingerprints kept in a JSON file, which is written with the library's \<open>dump(2)\<close> and read with
  \<open>operator>>\<close>. A file that cannot be opened for writing is left as it is; a host that is not UTF-8 makes
  \<open>dump(2)\<close> throw after the file has been truncated. The banner that \<open>promptUserOnChange\<close> prints is left out.
\<close>

section \<open>State\<close>

datatype TrustStatus = TRUSTED | NEW | CHANGED

record CertVerifier =
  known_servers :: "(string, string) fmap"
  loaded :: bool

text \<open>The verifier with the text of its file, \<open>None\<close> where the file cannot be opened for reading.\<close>

type_synonym cv_state = "CertVerifier \<times> string option"

definition cv_new :: CertVerifier where
  "cv_new = \<lparr>known_servers = fmempty, loaded = False\<rparr>"

definition knownServersPath :: "string option \<Rightarrow> string" where
  "knownServersPath home =
     (case home of Some h \<Rightarrow> h @ ''/.vcs_chat'' | None \<Rightarrow> ''tmp/.vcs_chat'') @ ''/known_servers.json''"

definition fingerprintOf :: "lib \<Rightarrow> string \<Rightarrow> string" where
  "fingerprintOf L pubkey_pem = ''sha256'' @ sha256_hash L (bytes_of_string pubkey_pem)"

definition makeKey :: "string \<Rightarrow> int \<Rightarrow> string" where
  "makeKey host port = host @ '':'' @ show_int port"

section \<open>The file\<close>

text \<open>\<open>j.items()\<close>: keys and values of an object, positions and elements of an array, the value
  itself under an empty key otherwise, nothing for null.\<close>

fun json_items :: "json \<Rightarrow> (string \<times> json) list" where
  "json_items (JObj m) = map (\<lambda>k. (k, the (fmlookup m k))) (sorted_list_of_fset (fmdom m))"
| "json_items (JArr xs) = map (\<lambda>i. (show_nat i, xs ! i)) [0..<length xs]"
| "json_items JNull = []"
| "json_items j = [([], j)]"

text \<open>The loop of \<open>loadFromDisk\<close>; \<open>None\<close> where a value is not a string.\<close>

fun store_items :: "(string \<times> json) list \<Rightarrow> (string, string) fmap \<Rightarrow> (string, string) fmap option" where
  "store_items [] m = Some m"
| "store_items ((k, v) # kvs) m =
     (case get_string v of Inl _ \<Rightarrow> None | Inr s \<Rightarrow> store_items kvs (fmupd k s m))"

definition loadFromDisk :: "cv_state \<Rightarrow> cv_state" where
  "loadFromDisk st =
     (let (v, f) = st in
      if loaded v then st
      else
        let v1 = v\<lparr>loaded := True\<rparr> in
        case f of
          None \<Rightarrow> (v1, f)
        | Some text \<Rightarrow>
          (case json_read text of
             None \<Rightarrow> (v1\<lparr>known_servers := fmempty\<rparr>, f)
           | Some j \<Rightarrow>
             (case store_items (json_items j) (known_servers v1) of
                None \<Rightarrow> (v1\<lparr>known_servers := fmempty\<rparr>, f)
              | Some m \<Rightarrow> (v1\<lparr>known_servers := m\<rparr>, f))))"

text \<open>The document of \<open>saveToDisk\<close>: an object filled by assignments, null where there are none.\<close>

definition servers_json :: "(string, string) fmap \<Rightarrow> json" where
  "servers_json m = (if m = fmempty then JNull else JObj (fmmap JStr m))"

text \<open>
  What \<open>saveToDisk\<close> leaves: the exception, if any, and the file. Opening truncates the file before the
  text is made.
\<close>

definition saveToDisk :: "bool \<Rightarrow> cv_state \<Rightarrow> json_error option \<times> cv_state" where
  "saveToDisk file_opens st =
     (let (v, f) = st in
      if \<not> file_opens then (None, st)
      else case json_text 2 (servers_json (known_servers v)) of
        Inl e \<Rightarrow> (Some e, (v, Some []))
      | Inr s \<Rightarrow> (None, (v, Some (s @ [CHR 0x0A]))))"

section \<open>Operations\<close>

text \<open>An exception of \<open>saveToDisk\<close> leaves the operation that called it.\<close>

definition unless_thrown :: "'a \<Rightarrow> json_error option \<times> cv_state \<Rightarrow> (json_error + 'a) \<times> cv_state" where
  "unless_thrown a r = (case r of (Some e, st) \<Rightarrow> (Inl e, st) | (None, st) \<Rightarrow> (Inr a, st))"

definition verifyServerKey :: "lib \<Rightarrow> bool \<Rightarrow> string \<Rightarrow> int \<Rightarrow> string \<Rightarrow> cv_state \<Rightarrow>
    (json_error + TrustStatus) \<times> cv_state" where
  "verifyServerKey L file_opens host port pubkey_pem st =
     (let (v, f) = loadFromDisk st; key = makeKey host port; fp = fingerprintOf L pubkey_pem in
      case fmlookup (known_servers v) key of
        None \<Rightarrow> unless_thrown NEW
                  (saveToDisk file_opens (v\<lparr>known_servers := fmupd key fp (known_servers v)\<rparr>, f))
      | Some old \<Rightarrow> (Inr (if old = fp then TRUSTED else CHANGED), (v, f)))"

definition saveServerKey :: "lib \<Rightarrow> bool \<Rightarrow> string \<Rightarrow> int \<Rightarrow> string \<Rightarrow> cv_state \<Rightarrow>
    (json_error + unit) \<times> cv_state" where
  "saveServerKey L file_opens host port pubkey_pem st =
     (let (v, f) = loadFromDisk st in
      unless_thrown () (saveToDisk file_opens
        (v\<lparr>known_servers := fmupd (makeKey host port) (fingerprintOf L pubkey_pem) (known_servers v)\<rparr>, f)))"

text \<open>\<open>clearKnownServers\<close> neither loads the file nor marks it as loaded.\<close>

definition clearKnownServers :: "bool \<Rightarrow> cv_state \<Rightarrow> (json_error + unit) \<times> cv_state" where
  "clearKnownServers file_opens st =
     (let (v, f) = st in unless_thrown () (saveToDisk file_opens (v\<lparr>known_servers := fmempty\<rparr>, f)))"

definition getFingerprint :: "string \<Rightarrow> int \<Rightarrow> cv_state \<Rightarrow> string \<times> cv_state" where
  "getFingerprint host port st =
     (let (v, f) = loadFromDisk st in
      (case fmlookup (known_servers v) (makeKey host port) of Some fp \<Rightarrow> fp | None \<Rightarrow> [], (v, f)))"

definition trim_leading :: "string \<Rightarrow> string" where
  "trim_leading s =
     (let blank = (\<lambda>c. c \<in> {CHR '' '', CHR 0x09, CHR 0x0D, CHR 0x0A}) in
      if list_all blank s then s else dropWhile blank s)"

text \<open>The answer to the warning: \<open>None\<close> is the end of the input.\<close>

definition promptUserOnChange :: "string option \<Rightarrow> bool" where
  "promptUserOnChange line = (case line of None \<Rightarrow> False | Some input \<Rightarrow> trim_leading input = ''/trust'')"

section \<open>Refinement of a map\<close>

text \<open>Calls, each with whether the file can be opened for writing at that moment.\<close>

datatype cv_call =
    Verify bool string int string | Save bool string int string | Clear bool | Fingerprint string int

datatype cv_answer = Trust TrustStatus | Ok | Print string | Throws json_error

definition answer_of :: "('a \<Rightarrow> cv_answer) \<Rightarrow> json_error + 'a \<Rightarrow> cv_answer" where
  "answer_of g r = (case r of Inl e \<Rightarrow> Throws e | Inr a \<Rightarrow> g a)"

fun cv_do :: "lib \<Rightarrow> cv_call \<Rightarrow> cv_state \<Rightarrow> cv_answer \<times> cv_state" where
  "cv_do L (Verify w h p pem) st = apfst (answer_of Trust) (verifyServerKey L w h p pem st)"
| "cv_do L (Save w h p pem) st = apfst (answer_of (\<lambda>_. Ok)) (saveServerKey L w h p pem st)"
| "cv_do L (Clear w) st = apfst (answer_of (\<lambda>_. Ok)) (clearKnownServers w st)"
| "cv_do L (Fingerprint h p) st = apfst Print (getFingerprint h p st)"

text \<open>
  What the store promises: one fingerprint per server, learned on first use. The state is the map and
  whether a call has already read the file. An update throws where the file is written and the map has
  a name or a fingerprint that is not UTF-8; the map is updated all the same. A clear is lost when the
  file can neither have been read before nor be written now.
\<close>

definition servers_ok :: "(string, string) fmap \<Rightarrow> bool" where
  "servers_ok m \<longleftrightarrow> fmpred (\<lambda>k fp. utf8_ok k \<and> utf8_ok fp) m"

definition stored :: "bool \<Rightarrow> (string, string) fmap \<Rightarrow> cv_answer \<Rightarrow> cv_answer" where
  "stored w m a = (if w \<and> \<not> servers_ok m then Throws TypeError316 else a)"

fun trust_do :: "lib \<Rightarrow> cv_call \<Rightarrow> (string, string) fmap \<times> bool \<Rightarrow> cv_answer \<times> (string, string) fmap \<times> bool" where
  "trust_do L (Verify w h p pem) (m, was_read) =
     (case fmlookup m (makeKey h p) of
        None \<Rightarrow> (let m' = fmupd (makeKey h p) (fingerprintOf L pem) m in (stored w m' (Trust NEW), m', True))
      | Some fp \<Rightarrow> (Trust (if fp = fingerprintOf L pem then TRUSTED else CHANGED), m, True))"
| "trust_do L (Save w h p pem) (m, was_read) =
     (let m' = fmupd (makeKey h p) (fingerprintOf L pem) m in (stored w m' Ok, m', True))"
| "trust_do L (Clear w) (m, was_read) = (Ok, if w \<or> was_read then fmempty else m, was_read)"
| "trust_do L (Fingerprint h p) (m, was_read) =
     (Print (case fmlookup m (makeKey h p) of Some fp \<Rightarrow> fp | None \<Rightarrow> []), m, True)"

text \<open>The servers a verifier knows once it has loaded its file.\<close>

definition knows :: "cv_state \<Rightarrow> (string, string) fmap" where
  "knows st = known_servers (fst (loadFromDisk st))"

definition cv_represents :: "cv_state \<Rightarrow> (string, string) fmap \<times> bool \<Rightarrow> bool" where
  "cv_represents st a \<longleftrightarrow> knows st = fst a \<and> loaded (fst st) = snd a \<and>
     (\<not> loaded (fst st) \<longrightarrow> known_servers (fst st) = fmempty)"

lemma loaded_loadFromDisk [simp]: "loaded (fst (loadFromDisk st))"
  by (auto simp: loadFromDisk_def Let_def split: prod.split option.split)

lemma load_loaded [simp]: "loaded v \<Longrightarrow> loadFromDisk (v, f) = (v, f)"
  by (simp add: loadFromDisk_def)

lemma knows_loaded [simp]: "loaded v \<Longrightarrow> knows (v, f) = known_servers v"
  by (simp add: knows_def)

lemma json_utf8_servers: "json_utf8 (servers_json m) \<longleftrightarrow> servers_ok m"
  by (force simp: servers_ok_def servers_json_def json_utf8_JObj fmpred_iff)

lemma json_text_316: "json_text i j = Inl e \<Longrightarrow> e = TypeError316"
  by (auto simp: json_text_def split: sum.splits)

lemma saveToDisk_spec:
  assumes "saveToDisk w (v, f) = (r, (v', f'))"
  shows "v' = v" "r = (if w \<and> \<not> servers_ok (known_servers v) then Some TypeError316 else None)"
    and "\<not> w \<Longrightarrow> f' = f"
    and "w \<Longrightarrow> servers_ok (known_servers v) \<Longrightarrow>
      f' = Some (json_dump2 (servers_json (known_servers v)) @ [CHR 0x0A])"
  using assms json_text_throws [of 2 "servers_json (known_servers v)"]
  by (auto simp: saveToDisk_def json_utf8_servers json_dump2_def text_or_empty_def dest: json_text_316
      split: if_splits sum.splits)

lemma saved:
  "loaded v \<Longrightarrow> cv_represents (snd (unless_thrown a (saveToDisk w (v, f)))) (known_servers v, True)"
  "answer_of g (fst (unless_thrown a (saveToDisk w (v, f)))) = stored w (known_servers v) (g a)"
proof -
  obtain r v' f' where s: "saveToDisk w (v, f) = (r, (v', f'))" by (metis prod.exhaust)
  note spec = saveToDisk_spec(1,2) [OF s]
  show "loaded v \<Longrightarrow> cv_represents (snd (unless_thrown a (saveToDisk w (v, f)))) (known_servers v, True)"
    by (simp add: s spec(1) unless_thrown_def cv_represents_def split: option.split)
  show "answer_of g (fst (unless_thrown a (saveToDisk w (v, f)))) = stored w (known_servers v) (g a)"
    by (simp add: s spec(2) unless_thrown_def answer_of_def stored_def)
qed

lemma saved_upd:
  "loaded v \<Longrightarrow> cv_represents (snd (unless_thrown a (saveToDisk w (v\<lparr>known_servers := m\<rparr>, f)))) (m, True)"
  using saved(1) [of "v\<lparr>known_servers := m\<rparr>"] by simp

lemma answer_of_Inr [simp]: "answer_of g (Inr a) = g a"
  by (simp add: answer_of_def)

lemma ends_number_newline: "ends_number [CHR 0x0A]"
  by (simp add: ends_number_def is_digit_def in_range_def)

lemma json_ok_servers: "servers_ok m \<Longrightarrow> json_ok (servers_json m)"
  by (auto simp: servers_ok_def servers_json_def json_ok.simps(7) fmpred_iff)

lemma read_servers_text:
  "servers_ok m \<Longrightarrow> json_read (json_dump2 (servers_json m) @ [CHR 0x0A]) = Some (servers_json m)"
  by (simp add: json_read_dump2 ends_number_newline json_ok_servers)

lemma servers_ok_empty: "servers_ok fmempty"
  by (simp add: servers_ok_def)

lemma cleared:
  assumes "cv_represents (v, f) (m, was_read)"
  shows "cv_represents (snd (clearKnownServers w (v, f))) (if w \<or> was_read then fmempty else m, was_read) \<and>
    fst (clearKnownServers w (v, f)) = Inr ()"
proof -
  let ?v = "v\<lparr>known_servers := fmempty\<rparr>"
  obtain r v' f' where s: "saveToDisk w (?v, f) = (r, (v', f'))" by (metis prod.exhaust)
  have r: "r = None" "v' = ?v" using saveToDisk_spec(1,2) [OF s] by (simp_all add: servers_ok_empty)
  have f: "f' = (if w then Some (json_dump2 (servers_json fmempty) @ [CHR 0x0A]) else f)"
    using saveToDisk_spec(3,4) [OF s] by (simp add: servers_ok_empty)
  have "knows (?v, f') = (if w \<or> was_read then fmempty else m)"
  proof (cases "loaded v")
    case True
    then show ?thesis using assms by (simp add: cv_represents_def)
  next
    case False
    then have v: "?v = v" "\<not> was_read" "knows (v, f) = m" "known_servers v = fmempty" using assms by (auto simp: cv_represents_def)
    have kept: "knows (?v, f) = m" unfolding v(1) by (rule v(3))
    have "knows (?v, Some (json_dump2 (servers_json fmempty) @ [CHR 0x0A])) = fmempty"
      using False read_servers_text [OF servers_ok_empty] by (simp add: knows_def loadFromDisk_def Let_def servers_json_def)
    then show ?thesis using kept v(2) by (simp add: f)
  qed
  then show ?thesis using assms by (simp add: clearKnownServers_def s r unless_thrown_def cv_represents_def)
qed

interpretation trust_store: simulation "cv_do L" "trust_do L" "cv_represents" for L
proof unfold_locales
  fix st :: cv_state and a c
  assume r: "cv_represents st a"
  obtain m was_read where a: "a = (m, was_read)" by force
  obtain v f where l: "loadFromDisk st = (v, f)" by force
  then have v: "loaded v" "known_servers v = m"
    using loaded_loadFromDisk [of st] r by (auto simp: cv_represents_def knows_def a)
  then have same: "cv_represents (v, f) (m, True)" by (simp add: cv_represents_def)
  show "fst (cv_do L c st) = fst (trust_do L c a)"
    using cleared [of "fst st" "snd st" m was_read] r
    by (cases c) (simp_all add: a verifyServerKey_def saveServerKey_def getFingerprint_def l v Let_def saved(2)
        split: option.split)
  show "cv_represents (snd (cv_do L c st)) (snd (trust_do L c a))"
    using cleared [of "fst st" "snd st" m was_read] r same
    by (cases c) (simp_all add: a verifyServerKey_def saveServerKey_def getFingerprint_def l v Let_def saved_upd
        split: option.split)
qed

text \<open>
  C24: a client that starts with a file of known servers, whatever it holds or missing, and with the map
  that \<open>loadFromDisk\<close> reads from it, answers any sequence of key checks, key updates, clears and fingerprint queries as a map from
  servers to fingerprints does, whether or not the file can be written at each call: \<open>NEW\<close> exactly for
  a server not in the map, \<open>TRUSTED\<close> exactly for the fingerprint on record, \<open>CHANGED\<close> for any other,
  which does not replace the one on record. Two cases are not those of a map and are part of the
  specification \<open>trust_do\<close>: a new or updated key throws when the file is written while the map has a
  name or fingerprint that is not UTF-8, and a clear is lost when nothing has been read from the file
  before and the file cannot be written.
\<close>

theorem known_servers_refine_map:
  assumes "knows (cv_new, f) = m"
  shows "fst (run_calls (cv_do L) calls (cv_new, f)) = fst (run_calls (trust_do L) calls (m, False))"
  using trust_store.run_refines [of "(cv_new, f)" "(m, False)" L calls] assms
  by (simp add: cv_represents_def cv_new_def)

section \<open>Restarts\<close>

lemma store_items_strings:
  "store_items (map (\<lambda>k. (k, JStr (g k))) ks) m = Some (fold (\<lambda>k. fmupd k (g k)) ks m)"
  by (induction ks arbitrary: m) simp_all

lemma fmlookup_fold_upd:
  "fmlookup (fold (\<lambda>k. fmupd k (g k)) ks m) x = (if x \<in> set ks then Some (g x) else fmlookup m x)"
  by (induction ks arbitrary: m) auto

text \<open>A new process that reads what \<open>saveToDisk\<close> wrote knows the same servers.\<close>

lemma restart_knows:
  assumes "servers_ok m"
  shows "knows (cv_new, Some (json_dump2 (servers_json m) @ [CHR 0x0A])) = m"
proof (cases "m = fmempty")
  case True
  then show ?thesis
    using read_servers_text [OF assms] by (simp add: knows_def loadFromDisk_def servers_json_def cv_new_def)
next
  case False
  have "json_items (servers_json m) = map (\<lambda>k. (k, JStr (the (fmlookup m k)))) (sorted_list_of_fset (fmdom m))"
    using False by (auto simp: servers_json_def fmlookup_dom_iff)
  then have "store_items (json_items (servers_json m)) fmempty
      = Some (fold (\<lambda>k. fmupd k (the (fmlookup m k))) (sorted_list_of_fset (fmdom m)) fmempty)"
    by (simp only: store_items_strings)
  moreover have "fold (\<lambda>k. fmupd k (the (fmlookup m k))) (sorted_list_of_fset (fmdom m)) fmempty = m"
  proof (rule fmap_ext)
    fix x
    show "fmlookup (fold (\<lambda>k. fmupd k (the (fmlookup m k))) (sorted_list_of_fset (fmdom m)) fmempty) x = fmlookup m x"
      by (cases "fmlookup m x") (simp_all add: fmlookup_fold_upd fmdom_notI fmdomI)
  qed
  ultimately show ?thesis
    using read_servers_text [OF assms]
    by (simp add: knows_def loadFromDisk_def cv_new_def)
qed

text \<open>
  Trust on first use survives a restart. Where a key check finds the server unknown, the key is
  recorded; a later process that reads the file the check left trusts, for that server, exactly the
  keys with the same fingerprint and reports every other key as changed.
\<close>

theorem first_key_pinned:
  assumes "verifyServerKey L True host port pem st = (Inr NEW, (v, f))"
  shows "fst (verifyServerKey L ok host port pem' (cv_new, f)) =
     Inr (if fingerprintOf L pem' = fingerprintOf L pem then TRUSTED else CHANGED)"
proof -
  obtain v0 f0 where l: "loadFromDisk st = (v0, f0)" by force
  let ?m = "fmupd (makeKey host port) (fingerprintOf L pem) (known_servers v0)"
  obtain r v' f' where s: "saveToDisk True (v0\<lparr>known_servers := ?m\<rparr>, f0) = (r, (v', f'))" by (metis prod.exhaust)
  from assms have "r = None" "v = v'" "f = f'"
    by (auto simp: verifyServerKey_def l s unless_thrown_def Let_def split: option.splits if_splits)
  then have ok: "servers_ok ?m" and f: "f = Some (json_dump2 (servers_json ?m) @ [CHR 0x0A])"
    using saveToDisk_spec(2,4) [OF s] by (auto split: if_splits)
  obtain w g where w: "loadFromDisk (cv_new, f) = (w, g)" by force
  then have "known_servers w = ?m"
    using restart_knows [OF ok] by (simp add: knows_def f)
  then show ?thesis by (auto simp: verifyServerKey_def w Let_def)
qed

definition sample_servers :: "(string, string) fmap" where
  "sample_servers = fmupd ''h:7'' ''sha25601'' fmempty"

lemma sample_servers_ok: "servers_ok sample_servers"
  unfolding servers_ok_def sample_servers_def by (rule fmpred_upd) simp_all

lemma makeKey_sample: "makeKey ''h'' 7 = ''h:7''"
  by code_simp

lemma fingerprint_sample: "fingerprintOf plain_lib ''K'' = ''sha25601''" "fingerprintOf plain_lib ''KK'' = ''sha25602''"
  by code_simp+

definition sample_file :: string where
  "sample_file = json_dump2 (servers_json sample_servers) @ [CHR 0x0A]"

theorem known_servers_refine_map_witness:
  "fst (run_calls (cv_do plain_lib)
      [Verify True ''h'' 7 ''K'', Verify False ''h'' 7 ''KK'', Clear True, Verify True [CHR 0xFF] 7 ''K'']
      (cv_new, Some sample_file)) = [Trust TRUSTED, Trust CHANGED, Ok, Throws TypeError316]"
proof -
  have bad: "\<not> servers_ok (fmupd (makeKey [CHR 0xFF] 7) fp fmempty)" for fp
  proof -
    have "\<not> utf8_ok (makeKey [CHR 0xFF] 7)" by code_simp
    then show ?thesis by (auto simp: servers_ok_def fmpred_iff)
  qed
  from known_servers_refine_map [OF restart_knows [OF sample_servers_ok], of plain_lib
      "[Verify True ''h'' 7 ''K'', Verify False ''h'' 7 ''KK'', Clear True, Verify True [CHR 0xFF] 7 ''K'']"]
  show ?thesis by (simp add: makeKey_sample fingerprint_sample sample_servers_def sample_file_def stored_def bad Let_def)
qed

theorem first_key_pinned_witness:
  "fst (verifyServerKey plain_lib True ''h'' 7 ''K'' (cv_new, None)) = Inr NEW \<and>
   fst (verifyServerKey plain_lib True ''h'' 7 ''KK''
      (cv_new, snd (snd (verifyServerKey plain_lib True ''h'' 7 ''K'' (cv_new, None))))) = Inr CHANGED"
proof -
  let ?v = "\<lparr>known_servers = sample_servers, loaded = True\<rparr>"
  obtain r v f where s: "saveToDisk True (?v, None) = (r, (v, f))" by (metis prod.exhaust)
  have r: "r = None" using saveToDisk_spec(2) [OF s] by (simp add: sample_servers_ok)
  have n: "verifyServerKey plain_lib True ''h'' 7 ''K'' (cv_new, None) = (Inr NEW, (v, f))"
    using s r by (simp add: verifyServerKey_def loadFromDisk_def cv_new_def makeKey_sample fingerprint_sample
        sample_servers_def unless_thrown_def Let_def)
  from first_key_pinned [OF n, of True "''KK''"] show ?thesis by (simp add: n fingerprint_sample)
qed

end
