(* ===== verification/KeyObjects.thy ===== *)
theory KeyObjects
  imports Handshake
begin

text \<open>
  The wrappers around OpenSSL that keep state: RSA key objects with their ownership of the library's
  key structures (\<open>crypto/rsa.cpp\<close>), the random generator (\<open>crypto/random.cpp\<close>) and the hash of a file
  (\<open>SHA256Hash::hashFile\<close>). The library's own functions are the fields of the records \<open>openssl\<close> and
  \<open>digest\<close>; what a call that can fail returns is an argument of the operation that makes it.
\<close>

section \<open>The library\<close>

text \<open>
  Key structures are values of type \<open>'k\<close>. The two size fields are the answers of the calls of
  \<open>EVP_PKEY_encrypt\<close> and \<open>EVP_PKEY_decrypt\<close> with a null buffer, upper bounds of the output.
\<close>

record 'k openssl =
  ossl_write_pem :: "'k \<Rightarrow> string option"
  ossl_read_pem :: "string \<Rightarrow> 'k option"
  ossl_encrypt_size :: "'k \<Rightarrow> bytes \<Rightarrow> nat option"
  ossl_encrypt :: "'k \<Rightarrow> bytes \<Rightarrow> bytes option"
  ossl_decrypt_size :: "'k \<Rightarrow> bytes \<Rightarrow> nat option"
  ossl_decrypt :: "'k \<Rightarrow> bytes \<Rightarrow> bytes option"

datatype rsa_error = NoKey | NoPrivateKey | LibraryFailed | InvalidPem

section \<open>Key objects\<close>

type_synonym ptr = nat

record RSA2048 =
  pkey :: "ptr option"
  has_private :: bool

text \<open>
  The memory of the key structures and all objects of the program, by their names;
  \<open>freed_twice\<close> records a call of \<open>EVP_PKEY_free\<close> on a pointer that is not allocated.
\<close>

record 'k key_store =
  ks_live :: "(ptr, 'k) fmap"
  ks_objects :: "(nat, RSA2048) fmap"
  freed_twice :: bool

definition empty_store :: "'k key_store" where
  "empty_store = \<lparr>ks_live = fmempty, ks_objects = fmempty, freed_twice = False\<rparr>"

definition RSA2048_new :: RSA2048 where
  "RSA2048_new = \<lparr>pkey = None, has_private = False\<rparr>"

definition EVP_PKEY_free :: "ptr option \<Rightarrow> 'k key_store \<Rightarrow> 'k key_store" where
  "EVP_PKEY_free po s =
     (case po of
        None \<Rightarrow> s
      | Some p \<Rightarrow> if p |\<in>| fmdom (ks_live s) then s\<lparr>ks_live := fmdrop p (ks_live s)\<rparr> else s\<lparr>freed_twice := True\<rparr>)"

definition put_object :: "nat \<Rightarrow> RSA2048 \<Rightarrow> 'k key_store \<Rightarrow> 'k key_store" where
  "put_object i x s = s\<lparr>ks_objects := fmupd i x (ks_objects s)\<rparr>"

definition put_key :: "ptr \<Rightarrow> 'k \<Rightarrow> 'k key_store \<Rightarrow> 'k key_store" where
  "put_key p k s = s\<lparr>ks_live := fmupd p k (ks_live s)\<rparr>"

definition rsa_construct :: "nat \<Rightarrow> 'k key_store \<Rightarrow> 'k key_store" where
  "rsa_construct i s = put_object i RSA2048_new s"

definition rsa_destroy :: "nat \<Rightarrow> 'k key_store \<Rightarrow> 'k key_store" where
  "rsa_destroy i s =
     (case fmlookup (ks_objects s) i of
        None \<Rightarrow> s
      | Some x \<Rightarrow>
        let s1 = put_object i (x\<lparr>pkey := None\<rparr>) (EVP_PKEY_free (pkey x) s)
        in s1\<lparr>ks_objects := fmdrop i (ks_objects s1)\<rparr>)"

text \<open>\<open>RSA2048 i(std::move(j))\<close>.\<close>

definition rsa_move_construct :: "nat \<Rightarrow> nat \<Rightarrow> 'k key_store \<Rightarrow> 'k key_store" where
  "rsa_move_construct i j s =
     (case fmlookup (ks_objects s) j of
        None \<Rightarrow> s | Some y \<Rightarrow> put_object j RSA2048_new (put_object i y s))"

text \<open>\<open>i = std::move(j)\<close>; an assignment to itself does nothing.\<close>

definition rsa_move_assign :: "nat \<Rightarrow> nat \<Rightarrow> 'k key_store \<Rightarrow> 'k key_store" where
  "rsa_move_assign i j s =
     (case fmlookup (ks_objects s) i of
        None \<Rightarrow> s
      | Some x \<Rightarrow>
        (case fmlookup (ks_objects s) j of
           None \<Rightarrow> s
         | Some y \<Rightarrow>
           if i = j then s
           else put_object j RSA2048_new (put_object i y (EVP_PKEY_free (pkey x) s))))"

text \<open>
  \<open>generateKeyPair\<close>: \<open>ctx_ok\<close> says whether the calls before the old key is freed succeed, \<open>ko\<close> is the
  key that \<open>EVP_PKEY_keygen\<close> makes and \<open>p\<close> its address. A failed generation leaves the object
  without a key.
\<close>

definition generateKeyPair :: "bool \<Rightarrow> 'k option \<Rightarrow> ptr \<Rightarrow> nat \<Rightarrow> 'k key_store \<Rightarrow> (rsa_error + unit) \<times> 'k key_store" where
  "generateKeyPair ctx_ok ko p i s =
     (case fmlookup (ks_objects s) i of
        None \<Rightarrow> (Inl NoKey, s)
      | Some x \<Rightarrow>
        if \<not> ctx_ok then (Inl LibraryFailed, s)
        else
          let s1 = put_object i (x\<lparr>pkey := None\<rparr>) (EVP_PKEY_free (pkey x) s) in
          (case ko of
             None \<Rightarrow> (Inl LibraryFailed, s1)
           | Some k \<Rightarrow> (Inr (), put_object i \<lparr>pkey = Some p, has_private = True\<rparr> (put_key p k s1))))"

text \<open>\<open>loadPublicKeyPEM\<close> keeps \<open>has_private_\<close> where the text is not a key.\<close>

definition loadPublicKeyPEM :: "'k openssl \<Rightarrow> bool \<Rightarrow> ptr \<Rightarrow> nat \<Rightarrow> string \<Rightarrow> 'k key_store \<Rightarrow>
    (rsa_error + unit) \<times> 'k key_store" where
  "loadPublicKeyPEM ssl bio_ok p i pem s =
     (case fmlookup (ks_objects s) i of
        None \<Rightarrow> (Inl NoKey, s)
      | Some x \<Rightarrow>
        if \<not> bio_ok then (Inl LibraryFailed, s)
        else
          let s1 = put_object i (x\<lparr>pkey := None\<rparr>) (EVP_PKEY_free (pkey x) s) in
          (case ossl_read_pem ssl pem of
             None \<Rightarrow> (Inl InvalidPem, s1)
           | Some k \<Rightarrow> (Inr (), put_object i \<lparr>pkey = Some p, has_private = False\<rparr> (put_key p k s1))))"

text \<open>The pointer of an object, and the key it points to (\<open>None\<close> also for freed memory).\<close>

definition ptr_of :: "'k key_store \<Rightarrow> nat \<Rightarrow> ptr option" where
  "ptr_of s i = (case fmlookup (ks_objects s) i of None \<Rightarrow> None | Some x \<Rightarrow> pkey x)"

definition key_of :: "'k key_store \<Rightarrow> nat \<Rightarrow> 'k option" where
  "key_of s i = (case ptr_of s i of None \<Rightarrow> None | Some p \<Rightarrow> fmlookup (ks_live s) p)"

definition hasPublicKey :: "'k key_store \<Rightarrow> nat \<Rightarrow> bool" where
  "hasPublicKey s i \<longleftrightarrow> ptr_of s i \<noteq> None"

definition hasPrivateKey :: "'k key_store \<Rightarrow> nat \<Rightarrow> bool" where
  "hasPrivateKey s i \<longleftrightarrow>
     (case fmlookup (ks_objects s) i of None \<Rightarrow> False | Some x \<Rightarrow> pkey x \<noteq> None \<and> has_private x)"

definition rsa_getPublicKeyPEM :: "'k openssl \<Rightarrow> bool \<Rightarrow> nat \<Rightarrow> 'k key_store \<Rightarrow> rsa_error + string" where
  "rsa_getPublicKeyPEM ssl bio_ok i s =
     (case key_of s i of
        None \<Rightarrow> Inl NoKey
      | Some k \<Rightarrow>
        if \<not> bio_ok then Inl LibraryFailed
        else (case ossl_write_pem ssl k of None \<Rightarrow> Inl LibraryFailed | Some pem \<Rightarrow> Inr pem))"

text \<open>
  The common part of \<open>encrypt\<close> and \<open>decrypt\<close>: a buffer of the size the first call asks for, the
  output written at its front by the second, and the resize to the output's length.
\<close>

definition sized_call :: "nat option \<Rightarrow> bytes option \<Rightarrow> rsa_error + bytes" where
  "sized_call size_query written =
     (case size_query of
        None \<Rightarrow> Inl LibraryFailed
      | Some n \<Rightarrow>
        (case written of
           None \<Rightarrow> Inl LibraryFailed
         | Some w \<Rightarrow> (let buf = w @ drop (length w) (replicate n 0) in Inr (take (length w) buf))))"

definition rsa_encrypt :: "'k openssl \<Rightarrow> bool \<Rightarrow> nat \<Rightarrow> bytes \<Rightarrow> 'k key_store \<Rightarrow> rsa_error + bytes" where
  "rsa_encrypt ssl ctx_ok i plaintext s =
     (case key_of s i of
        None \<Rightarrow> Inl NoKey
      | Some k \<Rightarrow>
        if \<not> ctx_ok then Inl LibraryFailed
        else sized_call (ossl_encrypt_size ssl k plaintext) (ossl_encrypt ssl k plaintext))"

definition rsa_decrypt :: "'k openssl \<Rightarrow> bool \<Rightarrow> nat \<Rightarrow> bytes \<Rightarrow> 'k key_store \<Rightarrow> rsa_error + bytes" where
  "rsa_decrypt ssl ctx_ok i ciphertext s =
     (case key_of s i of
        None \<Rightarrow> Inl NoPrivateKey
      | Some k \<Rightarrow>
        if \<not> hasPrivateKey s i then Inl NoPrivateKey
        else if \<not> ctx_ok then Inl LibraryFailed
        else sized_call (ossl_decrypt_size ssl k ciphertext) (ossl_decrypt ssl k ciphertext))"

text \<open>
  The calls a program makes on its objects. The language rules out constructing an object that
  exists; the allocator never hands out an address in use when the old key of the object is freed.
\<close>

datatype 'k rsa_call = Construct nat | Destroy nat | MoveConstruct nat nat | MoveAssign nat nat
  | Generate bool "'k option" ptr nat | Load bool ptr nat string

definition available :: "'k key_store \<Rightarrow> ptr \<Rightarrow> nat \<Rightarrow> bool" where
  "available s p i \<longleftrightarrow> p |\<notin>| fmdom (ks_live s) \<or> ptr_of s i = Some p"

fun rsa_do :: "'k openssl \<Rightarrow> 'k rsa_call \<Rightarrow> 'k key_store \<Rightarrow> 'k key_store" where
  "rsa_do ssl (Construct i) s = (if i |\<in>| fmdom (ks_objects s) then s else rsa_construct i s)"
| "rsa_do ssl (Destroy i) s = rsa_destroy i s"
| "rsa_do ssl (MoveConstruct i j) s = (if i |\<in>| fmdom (ks_objects s) then s else rsa_move_construct i j s)"
| "rsa_do ssl (MoveAssign i j) s = rsa_move_assign i j s"
| "rsa_do ssl (Generate ok ko p i) s = (if available s p i then snd (generateKeyPair ok ko p i s) else s)"
| "rsa_do ssl (Load ok p i pem) s = (if available s p i then snd (loadPublicKeyPEM ssl ok p i pem s) else s)"

section \<open>Ownership\<close>

text \<open>Nothing was freed twice, and the allocated keys are exactly those that one object holds.\<close>

definition owned :: "'k key_store \<Rightarrow> bool" where
  "owned s \<longleftrightarrow> \<not> freed_twice s \<and> inj_on (ptr_of s) (dom (ptr_of s)) \<and>
     fset (fmdom (ks_live s)) = ran (ptr_of s)"

lemma put_object_sel [simp]:
  "ks_live (put_object i x s) = ks_live s"
  "freed_twice (put_object i x s) = freed_twice s"
  "ptr_of (put_object i x s) = (ptr_of s)(i := pkey x)"
  "ks_objects (put_object i x s) = fmupd i x (ks_objects s)"
  by (auto simp: put_object_def ptr_of_def)

lemma put_key_sel [simp]:
  "ks_live (put_key p k s) = fmupd p k (ks_live s)"
  "freed_twice (put_key p k s) = freed_twice s"
  "ptr_of (put_key p k s) = ptr_of s"
  "ks_objects (put_key p k s) = ks_objects s"
  by (auto simp: put_key_def ptr_of_def)

lemma ptr_of_upd [simp]:
  "ptr_of (s\<lparr>ks_live := m\<rparr>) = ptr_of s" "ptr_of (s\<lparr>freed_twice := b\<rparr>) = ptr_of s"
  by (rule ext; simp add: ptr_of_def)+

lemma lookup_free: "po \<noteq> Some p \<Longrightarrow> fmlookup (ks_live (EVP_PKEY_free po s)) p = fmlookup (ks_live s) p"
  by (auto simp: EVP_PKEY_free_def split: option.splits)

lemma ptr_of_free [simp]: "ptr_of (EVP_PKEY_free po s) = ptr_of s"
  "ks_objects (EVP_PKEY_free po s) = ks_objects s"
  by (auto simp: EVP_PKEY_free_def ptr_of_def split: option.splits)

lemma ptr_of_object: "fmlookup (ks_objects s) i = Some x \<Longrightarrow> ptr_of s i = pkey x"
  by (simp add: ptr_of_def)

lemma inj_map_del:
  assumes "inj_on f (dom f)" "f i = Some p"
  shows "inj_on (f(i := None)) (dom (f(i := None)))" "ran (f(i := None)) = ran f - {p}"
proof -
  show "inj_on (f(i := None)) (dom (f(i := None)))"
    using assms by (auto simp: inj_on_def)
  show "ran (f(i := None)) = ran f - {p}"
  proof (intro equalityI subsetI)
    fix q assume "q \<in> ran (f(i := None))"
    then obtain j where "j \<noteq> i" "f j = Some q" by (auto simp: ran_def split: if_splits)
    moreover from this assms have "q \<noteq> p" by (metis domI inj_onD)
    ultimately show "q \<in> ran f - {p}" by (auto intro: ranI)
  next
    fix q assume "q \<in> ran f - {p}"
    then obtain j where "f j = Some q" "q \<noteq> p" by (auto simp: ran_def)
    with assms(2) have "(f(i := None)) j = Some q" by auto
    then show "q \<in> ran (f(i := None))" by (rule ranI)
  qed
qed

lemma inj_map_upd:
  assumes "inj_on f (dom f)" "p \<notin> ran f"
  shows "inj_on (f(i \<mapsto> p)) (dom (f(i \<mapsto> p)))"
  using assms by (auto simp: inj_on_def ran_def; metis)

lemma fset_dom_drop [simp]: "fset (fmdom (fmdrop p m)) = fset (fmdom m) - {p}"
  by auto

lemma owned_release:
  assumes "owned s" "ptr_of s i = po" "pkey x = None"
  shows "owned (put_object i x (EVP_PKEY_free po s))"
proof (cases po)
  case None
  then have "(ptr_of s)(i := None) = ptr_of s" using assms(2) by auto
  with assms None show ?thesis by (simp add: owned_def EVP_PKEY_free_def)
next
  case (Some p)
  then have "p |\<in>| fmdom (ks_live s)" using assms by (auto simp: owned_def ran_def)
  then have "EVP_PKEY_free po s = s\<lparr>ks_live := fmdrop p (ks_live s)\<rparr>"
    using Some by (simp add: EVP_PKEY_free_def)
  then show ?thesis
    using Some assms inj_map_del [of "ptr_of s" i p] by (simp add: owned_def)
qed

lemma owned_attach:
  assumes "owned s" "ptr_of s i = None" "p |\<notin>| fmdom (ks_live s)" "pkey x = Some p"
  shows "owned (put_object i x (put_key p k s))"
  using assms inj_map_upd [of "ptr_of s" p i] by (simp add: owned_def)

lemma owned_transfer:
  assumes "owned s" "ptr_of s i = None" "ptr_of s j = pkey y" "i \<noteq> j"
  shows "owned (put_object j RSA2048_new (put_object i y s))"
proof -
  let ?f = "ptr_of s"
  have twist: "?f(i := pkey y, j := None) = (?f(j := None))(i := pkey y)" using assms(4) by auto
  show ?thesis
  proof (cases "pkey y")
    case None
    then have "(?f(j := None))(i := pkey y) = ?f" using assms by auto
    with assms(1) twist show ?thesis by (simp add: owned_def RSA2048_new_def)
  next
    case (Some p)
    with assms have inj: "inj_on ?f (dom ?f)" and p: "?f j = Some p" by (auto simp: owned_def)
    note del = inj_map_del [OF inj p]
    have "p \<notin> ran (?f(j := None))" using del(2) by simp
    note inj_map_upd [OF del(1) this, of i]
    moreover have "ran ((?f(j := None))(i \<mapsto> p)) = ran ?f"
    proof -
      have "ran ((?f(j := None))(i \<mapsto> p)) = insert p (ran ?f - {p})"
        using del(2) assms(2,4) by (subst ran_map_upd) auto
      also have "\<dots> = ran ?f" using ranI [of ?f j p] p by blast
      finally show ?thesis .
    qed
    ultimately show ?thesis
      using assms(1) twist Some by (simp add: owned_def RSA2048_new_def)
  qed
qed

lemma owned_drop:
  assumes "owned s" "ptr_of s i = None"
  shows "owned (s\<lparr>ks_objects := fmdrop i (ks_objects s)\<rparr>)"
proof -
  have "ptr_of (s\<lparr>ks_objects := fmdrop i (ks_objects s)\<rparr>) = ptr_of s"
    using assms(2) by (auto simp: ptr_of_def split: option.splits)
  with assms(1) show ?thesis by (simp add: owned_def)
qed

lemma live_release:
  assumes "owned s" "available s p i"
  shows "p |\<notin>| fmdom (ks_live (EVP_PKEY_free (ptr_of s i) s))"
  using assms by (auto simp: available_def EVP_PKEY_free_def owned_def ran_def split: option.splits)

lemma owned_replace:
  assumes "owned s" "fmlookup (ks_objects s) i = Some x" "available s p i" "pkey y = None" "pkey z = Some p"
  shows "owned (put_object i z (put_key p k (put_object i y (EVP_PKEY_free (pkey x) s))))"
  by (rule owned_attach)
    (use assms owned_release [OF assms(1) ptr_of_object [OF assms(2)] assms(4)]
         live_release [OF assms(1,3)] ptr_of_object [OF assms(2)] in simp_all)

lemma owned_move_assign: "owned s \<Longrightarrow> owned (rsa_move_assign i j s)"
proof -
  assume s: "owned s"
  show ?thesis
  proof (cases "fmlookup (ks_objects s) i = None \<or> fmlookup (ks_objects s) j = None \<or> i = j")
    case False
    then obtain x y where x: "fmlookup (ks_objects s) i = Some x" and y: "fmlookup (ks_objects s) j = Some y"
      and ij: "i \<noteq> j" by auto
    let ?r = "put_object i RSA2048_new (EVP_PKEY_free (pkey x) s)"
    have "owned ?r" using s x by (intro owned_release) (simp_all add: ptr_of_object RSA2048_new_def)
    then have "owned (put_object j RSA2048_new (put_object i y ?r))"
      using y ij by (intro owned_transfer) (simp_all add: ptr_of_object RSA2048_new_def)
    moreover have "put_object i y ?r = put_object i y (EVP_PKEY_free (pkey x) s)"
      by (simp add: put_object_def)
    ultimately show ?thesis using x y ij by (simp add: rsa_move_assign_def)
  qed (use s in \<open>auto simp: rsa_move_assign_def split: option.splits\<close>)
qed

lemma owned_do: "owned s \<Longrightarrow> owned (rsa_do ssl c s)"
proof (cases c)
  case (Construct i)
  assume "owned s"
  then show ?thesis
    using Construct owned_release [of s i None RSA2048_new]
    by (auto simp: rsa_construct_def RSA2048_new_def EVP_PKEY_free_def ptr_of_def fmdom_notD)
next
  case (Destroy i)
  assume "owned s"
  then show ?thesis
    using Destroy owned_drop [where i = i, OF owned_release [where s = s and i = i]]
    by (auto simp: rsa_destroy_def Let_def ptr_of_object simp del: put_object_sel(4) split: option.splits)
next
  case (MoveConstruct i j)
  assume "owned s"
  then show ?thesis
    using MoveConstruct owned_transfer [of s i j]
    by (cases "i = j") (auto simp: rsa_move_construct_def ptr_of_def fmdom_notD split: option.splits)
next
  case (MoveAssign i j)
  assume "owned s"
  then show ?thesis using MoveAssign by (simp add: owned_move_assign)
next
  case (Generate ok ko p i)
  assume s: "owned s"
  show ?thesis
    using Generate s owned_release [OF s, of i] owned_replace [OF s, of i]
    by (auto simp: generateKeyPair_def Let_def ptr_of_object split: option.splits)
next
  case (Load ok p i pem)
  assume s: "owned s"
  show ?thesis
    using Load s owned_release [OF s, of i] owned_replace [OF s, of i]
    by (auto simp: loadPublicKeyPEM_def Let_def ptr_of_object split: option.splits)
qed

lemma ptr_of_empty [simp]: "ptr_of empty_store = Map.empty"
  by (rule ext) (simp add: ptr_of_def empty_store_def)

lemma owned_empty: "owned empty_store"
  by (simp add: owned_def) (simp add: empty_store_def)

interpretation key_objects: event_machine "rsa_do ssl" owned
  by unfold_locales (rule owned_do)

text \<open>
  C32: whatever sequence of constructions, moves, key generations, loads and destructions a program
  runs on its RSA objects, no key structure is freed twice, no two objects share one, and every
  structure that is still allocated is held by an object: none leaks, also where a call of the
  library fails half-way.
\<close>

theorem rsa_keys_owned:
  "owned (fold (rsa_do ssl) calls empty_store)"
  by (rule key_objects.inv_run [OF owned_empty])

section \<open>Encryption\<close>

text \<open>
  What OpenSSL documents for a 2048-bit key pair \<open>k\<close> with public part \<open>pub\<close>: the PEM text of the pair
  reads back as its public part, and OAEP decryption undoes encryption for up to 256 - 42 bytes.
\<close>

definition oaep_pair :: "'k openssl \<Rightarrow> 'k \<Rightarrow> 'k \<Rightarrow> bool" where
  "oaep_pair ssl k pub \<longleftrightarrow>
     (\<exists>pem. ossl_write_pem ssl k = Some pem \<and> ossl_read_pem ssl pem = Some pub) \<and>
     (\<forall>m. length m \<le> 214 \<longrightarrow>
        (\<exists>c. ossl_encrypt_size ssl pub m \<noteq> None \<and> ossl_encrypt ssl pub m = Some c \<and>
             ossl_decrypt_size ssl k c \<noteq> None \<and> ossl_decrypt ssl k c = Some m))"

lemma sized_call_Some [simp]: "size_query \<noteq> None \<Longrightarrow> sized_call size_query (Some w) = Inr w"
  by (auto simp: sized_call_def)

lemma generated_key:
  fixes s :: "'k key_store" and k :: 'k
  assumes "owned s" "fmlookup (ks_objects s) i = Some x" "available s p i"
  defines "t \<equiv> snd (generateKeyPair True (Some k) p i s)"
  shows "key_of t i = Some k" "hasPrivateKey t i" "ptr_of t i = Some p" "owned t"
    "\<And>j. j \<noteq> i \<Longrightarrow> fmlookup (ks_objects t) j = fmlookup (ks_objects s) j"
proof -
  have "t = rsa_do ssl (Generate True (Some k) p i) s" for ssl using assms(3) by (simp add: t_def)
  with owned_do [OF assms(1)] show "owned t" by metis
qed (use assms(2) in \<open>simp_all add: t_def generateKeyPair_def Let_def key_of_def hasPrivateKey_def\<close>)

text \<open>A key that is loaded into one object replaces that object's key only.\<close>

lemma loaded_key:
  fixes s :: "'k key_store" and k :: 'k
  assumes "owned s" "fmlookup (ks_objects s) j = Some y" "available s q j" "ossl_read_pem ssl pem = Some k"
  defines "t \<equiv> snd (loadPublicKeyPEM ssl True q j pem s)"
  shows "key_of t j = Some k" "\<not> hasPrivateKey t j"
    "\<And>i. i \<noteq> j \<Longrightarrow> key_of t i = key_of s i" "\<And>i. i \<noteq> j \<Longrightarrow> hasPrivateKey t i = hasPrivateKey s i"
proof -
  have t: "t = put_object j \<lparr>pkey = Some q, has_private = False\<rparr>
      (put_key q k (put_object j (y\<lparr>pkey := None\<rparr>) (EVP_PKEY_free (pkey y) s)))"
    using assms(2,4) by (simp add: t_def loadPublicKeyPEM_def Let_def)
  show "key_of t j = Some k" "\<not> hasPrivateKey t j" by (simp_all add: t key_of_def hasPrivateKey_def)
  fix i assume i: "i \<noteq> j"
  show "hasPrivateKey t i = hasPrivateKey s i" using i by (simp add: t hasPrivateKey_def)
  have other: "ptr_of s i \<noteq> ptr_of s j" if "ptr_of s i \<noteq> None"
    using that i assms(1) by (metis domIff inj_onD owned_def)
  have "p \<noteq> q \<and> ptr_of s j \<noteq> Some p" if "ptr_of s i = Some p" for p
    using that other assms(1,3) by (auto simp: available_def owned_def ran_def)
  with i assms(2) show "key_of t i = key_of s i"
    by (cases "ptr_of s i") (simp_all add: t key_of_def ptr_of_object lookup_free)
qed

text \<open>
  An object that generated a key pair and an object that loaded the PEM text the first one
  prints form a one-way channel: what the second encrypts (up to 214 bytes) the first decrypts to
  the same bytes, while the second, having no private key, is refused.
\<close>

theorem rsa_roundtrip:
  fixes s :: "'k key_store" and k :: 'k
  assumes "oaep_pair ssl k pub" "length m \<le> 214"
    and "owned s" "i |\<in>| fmdom (ks_objects s)" "j |\<in>| fmdom (ks_objects s)" "i \<noteq> j" "available s p i"
  defines "s1 \<equiv> snd (generateKeyPair True (Some k) p i s)"
  assumes "available s1 q j"
  shows "\<exists>pem c. rsa_getPublicKeyPEM ssl True i s1 = Inr pem \<and>
    (let (r, s2) = loadPublicKeyPEM ssl True q j pem s1 in
       r = Inr () \<and> rsa_encrypt ssl True j m s2 = Inr c \<and>
       rsa_decrypt ssl True i c s2 = Inr m \<and> rsa_decrypt ssl True j c s2 = Inl NoPrivateKey)"
proof -
  obtain x y where x: "fmlookup (ks_objects s) i = Some x" and y: "fmlookup (ks_objects s) j = Some y"
    using assms(4,5) by (meson fmlookup_dom_iff)
  note gen = generated_key [OF assms(3) x assms(7), where k = k, folded s1_def]
  obtain pem c where pem: "ossl_write_pem ssl k = Some pem" "ossl_read_pem ssl pem = Some pub"
    and c: "ossl_encrypt_size ssl pub m \<noteq> None" "ossl_encrypt ssl pub m = Some c"
      "ossl_decrypt_size ssl k c \<noteq> None" "ossl_decrypt ssl k c = Some m"
    using assms(1,2) by (force simp: oaep_pair_def)
  have y': "fmlookup (ks_objects s1) j = Some y" using gen(5) y assms(6) by auto
  note load = loaded_key [OF gen(4) y' assms(9) pem(2)]
  have r: "fst (loadPublicKeyPEM ssl True q j pem s1) = Inr ()"
    using y' pem(2) by (simp add: loadPublicKeyPEM_def Let_def)
  show ?thesis
    using gen(1,2) pem c load assms(6) r
    by (intro exI [of _ pem] exI [of _ c])
      (auto simp: rsa_getPublicKeyPEM_def rsa_encrypt_def rsa_decrypt_def split: prod.split)
qed

definition sample_openssl :: "nat openssl" where
  "sample_openssl =
     \<lparr>ossl_write_pem = (\<lambda>k. Some (replicate k CHR ''k'')), ossl_read_pem = (\<lambda>t. Some (length t)),
      ossl_encrypt_size = (\<lambda>k m. Some 256), ossl_encrypt = (\<lambda>k m. Some (of_nat k # m)),
      ossl_decrypt_size = (\<lambda>k c. Some 256),
      ossl_decrypt = (\<lambda>k c. case c of [] \<Rightarrow> None | b # m \<Rightarrow> if b = of_nat k then Some m else None)\<rparr>"

definition sample_store :: "nat key_store" where
  "sample_store = rsa_construct 2 (rsa_construct 1 empty_store)"

theorem rsa_roundtrip_witness:
  "\<exists>pem c. rsa_getPublicKeyPEM sample_openssl True 1 (snd (generateKeyPair True (Some 7) 100 1 sample_store)) = Inr pem \<and>
    (let (r, s2) = loadPublicKeyPEM sample_openssl True 101 2 pem (snd (generateKeyPair True (Some 7) 100 1 sample_store)) in
       r = Inr () \<and> rsa_encrypt sample_openssl True 2 [1, 2, 3] s2 = Inr c \<and>
       rsa_decrypt sample_openssl True 1 c s2 = Inr [1, 2, 3] \<and>
       rsa_decrypt sample_openssl True 2 c s2 = Inl NoPrivateKey)"
proof (rule rsa_roundtrip)
  show "oaep_pair sample_openssl 7 7" by (simp add: oaep_pair_def sample_openssl_def)
  have "owned (rsa_do sample_openssl (Construct 2) (rsa_do sample_openssl (Construct 1) empty_store))"
    by (intro owned_do owned_empty)
  then show "owned sample_store" by (simp add: sample_store_def rsa_construct_def empty_store_def)
  show "available sample_store 100 1" "1 |\<in>| fmdom (ks_objects sample_store)" "2 |\<in>| fmdom (ks_objects sample_store)"
    by (simp_all add: sample_store_def available_def rsa_construct_def empty_store_def)
  show "available (snd (generateKeyPair True (Some 7) 100 1 sample_store)) 101 2"
    by (simp add: sample_store_def available_def rsa_construct_def empty_store_def generateKeyPair_def
        RSA2048_new_def EVP_PKEY_free_def Let_def)
qed simp_all

section \<open>Random bytes\<close>

text \<open>
  \<open>RAND_bytes\<close> is the argument \<open>rand\<close>; the size is cast to \<open>int\<close> first, so that a size of \<open>2 ^ 31\<close> or
  more reaches the library as another number.
\<close>

definition rand_getBytes :: "(int \<Rightarrow> bytes option) \<Rightarrow> nat \<Rightarrow> crypto_error + bytes" where
  "rand_getBytes rand n =
     (if n = 0 then Inr []
      else case rand (sint (of_nat n :: 32 word)) of None \<Rightarrow> Inl RandFailed | Some bs \<Rightarrow> Inr bs)"

definition getUInt32 :: "(int \<Rightarrow> bytes option) \<Rightarrow> crypto_error + 32 word" where
  "getUInt32 rand =
     (case rand_getBytes rand 4 of Inl e \<Rightarrow> Inl e | Inr bs \<Rightarrow> Inr (word_rcat (rev bs)))"

definition getNonce :: "(int \<Rightarrow> bytes option) \<Rightarrow> crypto_error + bytes" where
  "getNonce rand = rand_getBytes rand 16"

definition generateSalt :: "(int \<Rightarrow> bytes option) \<Rightarrow> crypto_error + bytes" where
  "generateSalt rand = rand_getBytes rand SALT_LEN"

definition generateKey :: "(int \<Rightarrow> bytes option) \<Rightarrow> crypto_error + bytes" where
  "generateKey rand = rand_getBytes rand KEY_LEN"

definition generateIV :: "(int \<Rightarrow> bytes option) \<Rightarrow> crypto_error + bytes" where
  "generateIV rand = rand_getBytes rand IV_LEN"

lemma rand_getBytes_length:
  assumes "\<And>n bs. rand n = Some bs \<Longrightarrow> 0 \<le> n \<and> length bs = nat n" "rand_getBytes rand n = Inr bs" "n < 2 ^ 32"
  shows "length bs = n \<and> n < 2 ^ 31"
proof (cases "n = 0")
  case False
  with assms(2) have "rand (sint (of_nat n :: 32 word)) = Some bs"
    by (simp add: rand_getBytes_def split: option.splits)
  from assms(1) [OF this] have len: "length bs = nat (sint (of_nat n :: 32 word))"
    and pos: "0 \<le> sint (of_nat n :: 32 word)" by auto
  have s: "sint (of_nat n :: 32 word) = signed_take_bit 31 (int n)"
    by (simp add: signed_of_nat)
  have lt: "signed_take_bit 31 (int n) < 2 ^ 31" by (rule signed_take_bit_int_less_exp)
  have "signed_take_bit 31 (int n) = take_bit 32 (signed_take_bit 31 (int n))"
    using pos s lt by (simp add: take_bit_int_eq_self)
  also have "\<dots> = take_bit 32 (int n)" by (simp add: take_bit_signed_take_bit)
  also have "\<dots> = int n" using assms(3) by (simp add: take_bit_int_eq_self)
  finally show ?thesis using len s lt by simp
qed (use assms(2) in \<open>simp add: rand_getBytes_def\<close>)

section \<open>The hash of a file\<close>

text \<open>
  The digest context of OpenSSL has states of type \<open>'d\<close>. A file is its contents, or \<open>None\<close> where it
  cannot be opened; it is read in blocks of 8192 bytes.
\<close>

record 'd digest =
  md_init :: "'d option"
  md_update :: "bytes \<Rightarrow> 'd \<Rightarrow> 'd option"
  md_final :: "'d \<Rightarrow> bytes option"

datatype hash_error = CannotOpen | DigestFailed

function hash_blocks :: "'d digest \<Rightarrow> bytes \<Rightarrow> 'd \<Rightarrow> 'd option" where
  "hash_blocks md rest d =
     (if rest = [] then Some d
      else case md_update md (take 8192 rest) d of
             None \<Rightarrow> None | Some d' \<Rightarrow> hash_blocks md (drop 8192 rest) d')"
  by pat_completeness auto
termination by (relation "measure (\<lambda>(md, rest, d). length rest)") auto

declare hash_blocks.simps [simp del]

definition hashFile :: "'d digest \<Rightarrow> bytes option \<Rightarrow> hash_error + string" where
  "hashFile md content =
     (case content of
        None \<Rightarrow> Inl CannotOpen
      | Some bs \<Rightarrow>
        (case md_init md of
           None \<Rightarrow> Inl DigestFailed
         | Some d0 \<Rightarrow>
           (case hash_blocks md bs d0 of
              None \<Rightarrow> Inl DigestFailed
            | Some d \<Rightarrow> (case md_final md d of None \<Rightarrow> Inl DigestFailed | Some h \<Rightarrow> Inr (bytesToHex h)))))"

text \<open>A context computes \<open>h\<close> of the bytes it has absorbed.\<close>

definition absorbs :: "'d digest \<Rightarrow> (bytes \<Rightarrow> bytes) \<Rightarrow> ('d \<Rightarrow> bytes) \<Rightarrow> bool" where
  "absorbs md h seen \<longleftrightarrow>
     (\<exists>d. md_init md = Some d \<and> seen d = []) \<and>
     (\<forall>d x. \<exists>d'. md_update md x d = Some d' \<and> seen d' = seen d @ x) \<and>
     (\<forall>d. md_final md d = Some (h (seen d)))"

lemma hash_blocks_absorb:
  "absorbs md h seen \<Longrightarrow> \<exists>d'. hash_blocks md rest d = Some d' \<and> seen d' = seen d @ rest"
proof (induction md rest d rule: hash_blocks.induct)
  case (1 md rest d)
  show ?case
  proof (cases "rest = []")
    case False
    obtain d1 where d1: "md_update md (take 8192 rest) d = Some d1" "seen d1 = seen d @ take 8192 rest"
      using "1.prems" unfolding absorbs_def by blast
    from "1.IH" [OF False d1(1) "1.prems"] show ?thesis
      using False d1 by (subst hash_blocks.simps) auto
  qed (simp add: hash_blocks.simps)
qed

text \<open>
  Hashing a file block by block ends with the hash of its whole contents, whatever their length:
  for a library whose context absorbs its input in pieces, \<open>hashFile\<close> is \<open>SHA256Hash::hash\<close> of the bytes
  of the file.
\<close>

theorem hashFile_is_hash:
  assumes "absorbs md (sha256 L) seen"
  shows "hashFile md (Some bs) = Inr (sha256_hash L bs)"
proof -
  obtain d0 where "md_init md = Some d0" "seen d0 = []" using assms by (auto simp: absorbs_def)
  moreover obtain d where "hash_blocks md bs d0 = Some d" "seen d = seen d0 @ bs"
    using hash_blocks_absorb [OF assms, of bs d0] by auto
  ultimately show ?thesis using assms by (auto simp: hashFile_def sha256_hash_def absorbs_def)
qed

definition sample_digest :: "bytes digest" where
  "sample_digest = \<lparr>md_init = Some [], md_update = (\<lambda>x d. Some (d @ x)), md_final = (\<lambda>d. Some (sha256 plain_lib d))\<rparr>"

theorem hashFile_is_hash_witness:
  "hashFile sample_digest (Some (replicate 20000 5)) = Inr (sha256_hash plain_lib (replicate 20000 5))"
  by (rule hashFile_is_hash [of sample_digest plain_lib id]) (simp add: absorbs_def sample_digest_def)

end
