(* ===== verification/Logging.thy ===== *)
theory Logging
  imports Calendar
begin

text \<open>
  The server's logger, \<open>server/utils/Logger.cpp\<close>: levels, the line format, one file per day in the
  log directory, and the console. Times are milliseconds since 1970 as \<open>std::chrono::system_clock\<close>
  gives them; the line's time and the file's date come from two readings of the clock.
\<close>

section \<open>The logger\<close>

datatype LogLevel = DEBUG | INFO | WARN | ERROR | CRITICAL

definition level_rank :: "LogLevel \<Rightarrow> nat" where
  "level_rank l = (case l of DEBUG \<Rightarrow> 0 | INFO \<Rightarrow> 1 | WARN \<Rightarrow> 2 | ERROR \<Rightarrow> 3 | CRITICAL \<Rightarrow> 4)"

text \<open>The comparison of the enumerators is their order.\<close>

instantiation LogLevel :: linorder
begin

definition less_eq_LogLevel :: "LogLevel \<Rightarrow> LogLevel \<Rightarrow> bool" where
  "a \<le> b \<longleftrightarrow> level_rank a \<le> level_rank b"

definition less_LogLevel :: "LogLevel \<Rightarrow> LogLevel \<Rightarrow> bool" where
  "a < b \<longleftrightarrow> level_rank a < level_rank b"

instance
proof
  fix a b :: LogLevel
  assume "a \<le> b" "b \<le> a"
  then show "a = b" by (cases a; cases b) (simp_all add: less_eq_LogLevel_def level_rank_def)
qed (auto simp: less_eq_LogLevel_def less_LogLevel_def)

end

record Logger =
  m_level :: LogLevel
  m_logDir :: string
  m_currentDate :: string
  m_file :: "string option"

text \<open>The logger with the files of the system, the directories and what the console shows.\<close>

record LogWorld =
  lw_logger :: Logger
  lw_files :: "(string, string) fmap"
  lw_dirs :: "string list"
  lw_console :: string

definition Logger_new :: Logger where
  "Logger_new = \<lparr>m_level = INFO, m_logDir = ''logs'', m_currentDate = [], m_file = None\<rparr>"

definition setLevel :: "LogLevel \<Rightarrow> LogWorld \<Rightarrow> LogWorld" where
  "setLevel l w = w\<lparr>lw_logger := (lw_logger w)\<lparr>m_level := l\<rparr>\<rparr>"

definition setLogDir :: "string \<Rightarrow> LogWorld \<Rightarrow> LogWorld" where
  "setLogDir d w = w\<lparr>lw_logger := (lw_logger w)\<lparr>m_logDir := d\<rparr>, lw_dirs := d # lw_dirs w\<rparr>"

definition local_seconds :: "nat \<Rightarrow> nat" where
  "local_seconds ms = ms div 1000 + 7 * 3600"

definition three_digits :: "nat \<Rightarrow> string" where
  "three_digits n = [digit_char (n div 100), digit_char (n div 10 mod 10), digit_char (n mod 10)]"

definition currentTimestamp :: "nat \<Rightarrow> string" where
  "currentTimestamp ms =
     date_of ''-'' (local_seconds ms div 86400) @ '' '' @ hms (int (local_seconds ms)) @
     ''.'' @ three_digits (ms mod 1000)"

definition currentDateStr :: "nat \<Rightarrow> string" where
  "currentDateStr ms = date_of [] (local_seconds ms div 86400)"

definition levelToString :: "LogLevel \<Rightarrow> string" where
  "levelToString l =
     (case l of DEBUG \<Rightarrow> ''DEBUG'' | INFO \<Rightarrow> ''INFO '' | WARN \<Rightarrow> ''WARN '' | ERROR \<Rightarrow> ''ERROR'' | CRITICAL \<Rightarrow> ''CRIT '')"

definition log_path :: "string \<Rightarrow> string \<Rightarrow> string" where
  "log_path dir day = dir @ ''/server_'' @ day @ ''.log''"

text \<open>
  \<open>rotateIfNeeded\<close>: a file opened for appending exists from then on; \<open>can_open\<close> says whether the
  system lets a path be opened. After a failed \<open>open\<close> the stream is closed and the next line tries again.
\<close>

definition rotateIfNeeded :: "(string \<Rightarrow> bool) \<Rightarrow> nat \<Rightarrow> LogWorld \<Rightarrow> LogWorld" where
  "rotateIfNeeded can_open ms w =
     (let g = lw_logger w; today = currentDateStr ms in
      if today = m_currentDate g \<and> m_file g \<noteq> None then w
      else
        let path = log_path (m_logDir g) today in
        if can_open path
        then w\<lparr>lw_logger := g\<lparr>m_currentDate := today, m_file := Some path\<rparr>,
               lw_files := (if path |\<in>| fmdom (lw_files w) then lw_files w else fmupd path [] (lw_files w))\<rparr>
        else w\<lparr>lw_logger := g\<lparr>m_currentDate := today, m_file := None\<rparr>\<rparr>)"

definition contents :: "LogWorld \<Rightarrow> string \<Rightarrow> string" where
  "contents w path = (case fmlookup (lw_files w) path of None \<Rightarrow> [] | Some s \<Rightarrow> s)"

definition newline :: string where "newline = [CHR 0x0A]"

definition log_line :: "LogLevel \<Rightarrow> string \<Rightarrow> nat \<Rightarrow> string" where
  "log_line l msg ms = ''['' @ currentTimestamp ms @ ''] ['' @ levelToString l @ ''] '' @ msg"

text \<open>\<open>log\<close> with the clock at the formatting of the line and at the rotation.\<close>

definition logger_log :: "(string \<Rightarrow> bool) \<Rightarrow> LogLevel \<Rightarrow> string \<Rightarrow> nat \<Rightarrow> nat \<Rightarrow> LogWorld \<Rightarrow> LogWorld" where
  "logger_log can_open l msg t1 t2 w =
     (if l < m_level (lw_logger w) then w
      else
        let line = log_line l msg t1 @ newline;
            w1 = rotateIfNeeded can_open t2 (w\<lparr>lw_console := lw_console w @ line\<rparr>) in
        case m_file (lw_logger w1) of
          None \<Rightarrow> w1
        | Some path \<Rightarrow> w1\<lparr>lw_files := fmupd path (contents w1 path @ line) (lw_files w1)\<rparr>)"

text \<open>What the entry points \<open>debug\<close> to \<open>critical\<close> are called with.\<close>

datatype log_call = Log_call (lc_level: LogLevel) (lc_msg: string) (lc_time: nat) (lc_day_time: nat)

definition run_log :: "(string \<Rightarrow> bool) \<Rightarrow> log_call \<Rightarrow> LogWorld \<Rightarrow> LogWorld" where
  "run_log can_open c = logger_log can_open (lc_level c) (lc_msg c) (lc_time c) (lc_day_time c)"

section \<open>What is logged\<close>

text \<open>An open file is the one of the current date, in the current directory.\<close>

definition log_ok :: "LogWorld \<Rightarrow> bool" where
  "log_ok w \<longleftrightarrow> (\<forall>path. m_file (lw_logger w) = Some path \<longrightarrow>
     path = log_path (m_logDir (lw_logger w)) (m_currentDate (lw_logger w)))"

definition line_of :: "log_call \<Rightarrow> string" where
  "line_of c = log_line (lc_level c) (lc_msg c) (lc_time c) @ newline"

lemma rotate_sel [simp]:
  "m_level (lw_logger (rotateIfNeeded co t w)) = m_level (lw_logger w)"
  "m_logDir (lw_logger (rotateIfNeeded co t w)) = m_logDir (lw_logger w)"
  "lw_console (rotateIfNeeded co t w) = lw_console w"
  "contents (rotateIfNeeded co t w) = contents w"
  by (auto simp: rotateIfNeeded_def Let_def contents_def fmdom_notD fun_eq_iff split: option.splits)

lemma rotate_file:
  "log_ok w \<Longrightarrow> (\<And>p. co p) \<Longrightarrow>
     m_file (lw_logger (rotateIfNeeded co t w)) = Some (log_path (m_logDir (lw_logger w)) (currentDateStr t)) \<and>
     m_currentDate (lw_logger (rotateIfNeeded co t w)) = currentDateStr t"
  by (auto simp: rotateIfNeeded_def Let_def log_ok_def)

text \<open>One call on a system that lets files be opened.\<close>

lemma run_log_effect:
  fixes w :: LogWorld and c :: log_call
  assumes "log_ok w" "\<And>p. co p"
  defines "v \<equiv> run_log co c w"
  shows "log_ok v" "m_level (lw_logger v) = m_level (lw_logger w)" "m_logDir (lw_logger v) = m_logDir (lw_logger w)"
    and "lw_console v = lw_console w @ (if m_level (lw_logger w) \<le> lc_level c then line_of c else [])"
    and "contents v path = contents w path @
      (if m_level (lw_logger w) \<le> lc_level c \<and> path = log_path (m_logDir (lw_logger w)) (currentDateStr (lc_day_time c))
       then line_of c else [])"
proof -
  let ?w = "w\<lparr>lw_console := lw_console w @ line_of c\<rparr>"
  let ?r = "rotateIfNeeded co (lc_day_time c) ?w"
  let ?p = "log_path (m_logDir (lw_logger w)) (currentDateStr (lc_day_time c))"
  have ok: "log_ok ?w" using assms(1) by (simp add: log_ok_def)
  have v: "v = (if m_level (lw_logger w) \<le> lc_level c
      then ?r\<lparr>lw_files := fmupd ?p (contents w ?p @ line_of c) (lw_files ?r)\<rparr> else w)"
    using rotate_file [OF ok assms(2), where t = "lc_day_time c"]
    by (simp add: v_def run_log_def logger_log_def Let_def line_of_def contents_def not_less flip: not_le)
  show "log_ok v" using assms(1) rotate_file [OF ok assms(2), where t = "lc_day_time c"] by (simp add: v log_ok_def)
  show "m_level (lw_logger v) = m_level (lw_logger w)" "m_logDir (lw_logger v) = m_logDir (lw_logger w)"
    "lw_console v = lw_console w @ (if m_level (lw_logger w) \<le> lc_level c then line_of c else [])"
    by (simp_all add: v)
  have "contents ?w = contents w" by (simp add: contents_def fun_eq_iff)
  with rotate_sel(4) [of co "lc_day_time c" ?w] have r: "contents ?r path = contents w path" by simp
  show "contents v path = contents w path @
      (if m_level (lw_logger w) \<le> lc_level c \<and> path = ?p then line_of c else [])"
    using r [unfolded contents_def] by (simp add: v contents_def)
qed

text \<open>
  A sequence of log calls on a system that lets files be opened: the console shows the lines at
  or above the level, once each and in order, and the file of a day gets exactly those of them whose
  rotation check fell on that day (in UTC+7), appended in order; no other file changes.
\<close>

theorem log_lines_by_day:
  assumes "log_ok w" "\<And>p. can_open p"
  shows "lw_console (fold (run_log can_open) cs w) =
      lw_console w @ concat (map line_of (filter (\<lambda>c. m_level (lw_logger w) \<le> lc_level c) cs)) \<and>
    contents (fold (run_log can_open) cs w) (log_path (m_logDir (lw_logger w)) (date_of [] day)) =
      contents w (log_path (m_logDir (lw_logger w)) (date_of [] day)) @
      concat (map line_of (filter (\<lambda>c. m_level (lw_logger w) \<le> lc_level c \<and>
        local_seconds (lc_day_time c) div 86400 = day) cs))"
  using assms(1)
proof (induction cs arbitrary: w)
  case (Cons c cs)
  note e = run_log_effect [where co = can_open, OF Cons.prems assms(2), of c]
  from Cons.IH [OF e(1)] show ?case
    by (simp add: e(2-5) log_path_def currentDateStr_def date_of_inject eq_commute [of day])
qed simp

definition sample_logs :: LogWorld where
  "sample_logs = \<lparr>lw_logger = Logger_new, lw_files = fmempty, lw_dirs = [], lw_console = []\<rparr>"

theorem log_lines_by_day_witness:
  "contents (fold (run_log (\<lambda>p. True)) [Log_call WARN ''a'' 61199999 61200000, Log_call DEBUG ''b'' 61200001 61200001] sample_logs)
     (log_path ''logs'' (date_of [] 1)) = line_of (Log_call WARN ''a'' 61199999 61200000)"
  using log_lines_by_day [where w = sample_logs and can_open = "\<lambda>p. True" and day = 1 and
      cs = "[Log_call WARN ''a'' 61199999 61200000, Log_call DEBUG ''b'' 61200001 61200001]"]
  by (simp add: sample_logs_def Logger_new_def log_ok_def contents_def less_eq_LogLevel_def level_rank_def
      local_seconds_def)

end
