(* ===== verification/ServerMain.thy ===== *)
theory ServerMain
  imports Safety Commands
begin

text \<open>
  The server's program, \<open>server/main.cpp\<close>: its options, the check of the audit log, the start of the
  server and the end of the program. \<open>menv\<close> holds what \<open>main\<close> finds outside: the configuration file,
  the stored database, the random bytes of the crypto engine and the outcome of the system calls.
  An exception nobody catches is \<open>Aborted\<close>.
\<close>

section \<open>Options\<close>

record server_options =
  configPath :: string
  portOverride :: int
  verifyAudit :: bool

definition server_options_default :: server_options where
  "server_options_default = \<lparr>configPath = ''server_config.json'', portOverride = 0, verifyAudit = False\<rparr>"

text \<open>An option that wants a value and is the last argument is ignored; a value is never an option.\<close>

fun server_args :: "string list \<Rightarrow> server_options \<Rightarrow> stoi_error + server_options" where
  "server_args (a # v # rest) p =
     (if a = ''--config'' then server_args rest (p\<lparr>configPath := v\<rparr>)
      else if a = ''--port'' then
        (case stoi v of Inl e \<Rightarrow> Inl e | Inr i \<Rightarrow> server_args rest (p\<lparr>portOverride := i\<rparr>))
      else if a = ''--verify-audit-log'' then server_args (v # rest) (p\<lparr>verifyAudit := True\<rparr>)
      else server_args (v # rest) p)"
| "server_args [a] p = Inr (if a = ''--verify-audit-log'' then p\<lparr>verifyAudit := True\<rparr> else p)"
| "server_args [] p = Inr p"

section \<open>The program\<close>

record menv =
  me_config :: "string \<Rightarrow> string option"
  me_open_ok :: bool
  me_create_ok :: bool
  me_stored :: Database
  me_secret :: bytes
  me_tables_ok :: bool
  me_socket_ok :: bool

datatype main_result = Exit int string | Aborted | Serving "16 word" ServerConfig World

text \<open>
  The objects before \<open>start\<close>; the managers of logins and of key exchanges are null pointers until
  \<open>start\<close> creates them, and stand here empty.
\<close>

definition TcpServer_new :: "Database \<Rightarrow> CryptoEngine \<Rightarrow> Server" where
  "TcpServer_new db e = \<lparr>m_maxClients = 256, sv_running = False, m_sessions = fmempty, m_nicknames = fmempty,
     m_rooms = fmempty, sv_auth = \<lparr>token_manager = \<lparr>secret_key = [], blacklist = {||}\<rparr>, active_sessions = fmempty\<rparr>,
     sv_kx = \<lparr>clients = fmempty, ip_failures = fmempty\<rparr>, sv_engine = e, sv_limiter = fmempty,
     sv_ids = IntrusionDetector_init, sv_audit = AuditLogger_init, sv_db = db,
     sv_rm = \<lparr>rmgr_default = [], rmgr_rooms = fmempty, m_histories = fmempty, m_fdToRoom = fmempty\<rparr>,
     sv_transfers = fmempty, sv_out = [], sv_undefined = False\<rparr>"

definition CryptoEngine_new :: CryptoEngine where
  "CryptoEngine_new = \<lparr>initialised = False, jwt_secret = [], session_keys = fmempty\<rparr>"

definition audit_verdict :: "bool \<Rightarrow> main_result" where
  "audit_verdict ok =
     (if ok then Exit 0 (''[PASS] Audit chain intact.'' @ [CHR 0x0A])
      else Exit 1 (''[FAIL] Audit chain TAMPERED!'' @ [CHR 0x0A]))"

text \<open>The port the server listens on: the override, cut to 16 bits, where it is positive.\<close>

definition listen_port :: "server_options \<Rightarrow> ServerConfig \<Rightarrow> 16 word" where
  "listen_port p cfg = (if portOverride p > 0 then word_of_int (portOverride p) else cfg_port cfg)"

text \<open>
  \<open>main\<close> up to the server's epoll loop. \<open>start\<close> returns \<open>false\<close> where a socket call fails; \<open>main\<close> does not
  look at the result and ends with status 0. The other failures of \<open>start\<close> are exceptions.
\<close>

definition server_main :: "lib \<Rightarrow> env \<Rightarrow> menv \<Rightarrow> string list \<Rightarrow> main_result" where
  "server_main L E M argv =
     (case server_args argv server_options_default of
        Inl _ \<Rightarrow> Aborted
      | Inr p \<Rightarrow>
        let db = snd (db_open (me_open_ok M) (me_create_ok M) (me_stored M) Database_init) in
        if verifyAudit p then audit_verdict (verifyChain L E db)
        else
          let cfg = snd (config_load (me_config M (configPath p)) ServerConfig_default);
              e = engine_initialize (me_secret M) CryptoEngine_new in
          (case server_start L cfg E (me_tables_ok M) (me_socket_ok M) (max_clients cfg) (TcpServer_new db e) of
             Inl StartSocket \<Rightarrow> Exit 0 []
           | Inl _ \<Rightarrow> Aborted
           | Inr s \<Rightarrow> Serving (listen_port p cfg) cfg (world_start (nat (thread_pool_size cfg)) s)))"

text \<open>The handler of \<open>SIGINT\<close> (2) and \<open>SIGTERM\<close> (15), and the end of \<open>main\<close> when \<open>start\<close> has returned.\<close>

definition server_signal :: "lib \<Rightarrow> ServerConfig \<Rightarrow> int \<Rightarrow> World \<Rightarrow> World" where
  "server_signal L cfg sig w = (if sig = 2 \<or> sig = 15 then world_step L cfg Ev_stop w else w)"

definition main_finish :: "World \<Rightarrow> main_result \<times> World" where
  "main_finish w = (Exit 0 [], w\<lparr>w_server := (w_server w)\<lparr>sv_db := db_close (sv_db (w_server w))\<rparr>\<rparr>)"

section \<open>What it does\<close>

lemma TcpServer_new_empty [simp]:
  "m_sessions (TcpServer_new db e) = fmempty" "sv_engine (TcpServer_new db e) = e"
  "session_keys (engine_initialize k CryptoEngine_new) = fmempty"
  by (simp_all add: TcpServer_new_def engine_initialize_def CryptoEngine_new_def)

lemma serving_started:
  assumes "server_main L E M argv = Serving port cfg w"
  shows "\<exists>s s0. w = world_start (nat (thread_pool_size cfg)) s \<and> m_sessions s0 = fmempty \<and>
    session_keys (sv_engine s0) = fmempty \<and>
    server_start L cfg E (me_tables_ok M) (me_socket_ok M) (max_clients cfg) s0 = Inr s"
proof -
  let ?s0 = "TcpServer_new (snd (db_open (me_open_ok M) (me_create_ok M) (me_stored M) Database_init))
    (engine_initialize (me_secret M) CryptoEngine_new)"
  from assms have "\<exists>s. w = world_start (nat (thread_pool_size cfg)) s \<and>
      server_start L cfg E (me_tables_ok M) (me_socket_ok M) (max_clients cfg) ?s0 = Inr s"
    by (auto simp: server_main_def audit_verdict_def Let_def
        split: sum.splits start_error.splits if_splits)
  moreover have "m_sessions ?s0 = fmempty" "session_keys (sv_engine ?s0) = fmempty" by simp_all
  ultimately show ?thesis by blast
qed

text \<open>
  \<open>--verify-audit-log\<close>, wherever it stands among the options, never starts the server: the program
  ends with status 0 exactly where the database opens, the log can be read and every row names the
  hash stored in the row before it, and with status 1 otherwise.
\<close>

theorem verify_flag_exit_status:
  assumes "server_args argv server_options_default = Inr p" "verifyAudit p"
  shows "\<exists>out. server_main L E M argv =
    Exit (if me_open_ok M \<and> prepare_ok E SQL_SELECT_AUDIT \<and>
             (\<forall>i < length (AuditLog (me_stored M)). ar_prev_hash (AuditLog (me_stored M) ! i) =
                (if i = 0 then GENESIS else ar_hash (AuditLog (me_stored M) ! (i - 1))))
          then 0 else 1) out"
proof -
  let ?db = "snd (db_open (me_open_ok M) (me_create_ok M) (me_stored M) Database_init)"
  have "m_open ?db \<longleftrightarrow> me_open_ok M" "me_open_ok M \<Longrightarrow> AuditLog ?db = AuditLog (me_stored M)"
    by (simp_all add: db_open_def Database_init_def)
  then have "verifyChain L E ?db \<longleftrightarrow> me_open_ok M \<and> prepare_ok E SQL_SELECT_AUDIT \<and>
      (\<forall>i < length (AuditLog (me_stored M)). ar_prev_hash (AuditLog (me_stored M) ! i) =
         (if i = 0 then GENESIS else ar_hash (AuditLog (me_stored M) ! (i - 1))))"
    by (auto simp: verifyChain_def verify_rows_linked linked_nth)
  with assms show ?thesis by (simp add: server_main_def audit_verdict_def Let_def)
qed

definition sample_menv :: menv where
  "sample_menv = \<lparr>me_config = (\<lambda>p. None), me_open_ok = True, me_create_ok = True, me_stored = Database_init,
     me_secret = replicate 32 7, me_tables_ok = True, me_socket_ok = True\<rparr>"

theorem verify_flag_exit_status_witness:
  "\<exists>out. server_main plain_lib plain_env sample_menv [''--config'', ''x'', ''--verify-audit-log''] = Exit 0 out"
  using verify_flag_exit_status [of "[''--config'', ''x'', ''--verify-audit-log'']"
      "server_options_default\<lparr>configPath := ''x'', verifyAudit := True\<rparr>" plain_lib plain_env sample_menv]
  by (simp add: sample_menv_def Database_init_def)

end
