(* ===== verification/Locking.thy ===== *)
theory Locking
  imports Interfaces
begin

text \<open>
  The locks of the server. Every function of \<open>src/server\<close> that runs in one of its threads is read as
  what it does with mutexes: which it takes, in which mode, what it calls while it holds them, and
  where it waits for a peer's socket. Threads run in any interleaving. Mutexes are only ever taken in
  ascending order, so the threads cannot block each other for ever; they can all be blocked by one
  client that stops reading, and a signal can block the thread it interrupts.
\<close>

section \<open>Mutexes and programs\<close>

datatype mutex =
    Transfers_m | RoomManager_m | Room_m | Rooms_m | Sessions_m | Send_m int | Clients_m | Block_m | Ids_m
  | Crypto_m | Audit_m | Db_m | Buckets_m | Bucket_m | Auth_m | Blacklist_m | History_m | Pool_m | Log_m

datatype mode = Shared | Exclusive

text \<open>
  \<open>With\<close> is a scope with a \<open>std::lock_guard\<close>, \<open>std::unique_lock\<close> or \<open>std::shared_lock\<close>; \<open>Peer f\<close> is a
  \<open>send\<close> or \<open>poll\<close> on the socket of a client, which goes on when the socket takes data; \<open>Any\<close> is an
  operation on some client.
\<close>

datatype prog =
    Skip
  | With mode mutex prog
  | Seq prog prog
  | Either prog prog
  | Repeat prog
  | Any "int \<Rightarrow> prog"
  | Peer int

definition maybe :: "prog \<Rightarrow> prog" where
  "maybe p = Either Skip p"

fun seqs :: "prog list \<Rightarrow> prog" where
  "seqs [] = Skip"
| "seqs [p] = p"
| "seqs (p # ps) = Seq p (seqs ps)"

abbreviation touch :: "mode \<Rightarrow> mutex \<Rightarrow> prog" where
  "touch m x \<equiv> With m x Skip"

section \<open>Threads\<close>

text \<open>
  What a thread has still to do: programs to run, and scopes to leave. The locks it holds are those of
  the scopes.
\<close>

datatype item = Run prog | Unlock mode mutex

fun locks :: "item list \<Rightarrow> (mode \<times> mutex) list" where
  "locks [] = []"
| "locks (Run p # k) = locks k"
| "locks (Unlock m x # k) = (m, x) # locks k"

definition holds :: "item list \<Rightarrow> mutex \<Rightarrow> bool" where
  "holds k x \<longleftrightarrow> x \<in> snd ` set (locks k)"

fun waits :: "item list \<Rightarrow> mutex \<Rightarrow> bool" where
  "waits (Run (With Exclusive y p) # k) x \<longleftrightarrow> x = y"
| "waits _ x = False"

text \<open>
  When a mutex is granted: exclusively if nobody holds it, shared if nobody holds it exclusively. Where
  \<open>writers_first\<close>, as an implementation of \<open>std::shared_mutex\<close> may decide, a waiting writer keeps new
  readers out.
\<close>

definition granted :: "bool \<Rightarrow> item list list \<Rightarrow> mode \<Rightarrow> mutex \<Rightarrow> bool" where
  "granted writers_first ts m x \<longleftrightarrow>
     (case m of
        Exclusive \<Rightarrow> \<forall>k \<in> set ts. \<not> holds k x
      | Shared \<Rightarrow> (\<forall>k \<in> set ts. (Exclusive, x) \<notin> set (locks k)) \<and>
                  (writers_first \<longrightarrow> (\<forall>k \<in> set ts. \<not> waits k x)))"

inductive thread_step :: "(mode \<Rightarrow> mutex \<Rightarrow> bool) \<Rightarrow> (int \<Rightarrow> bool) \<Rightarrow> item list \<Rightarrow> item list \<Rightarrow> bool"
  for grant ready where
  skip: "thread_step grant ready (Run Skip # k) k"
| seq: "thread_step grant ready (Run (Seq p q) # k) (Run p # Run q # k)"
| left: "thread_step grant ready (Run (Either p q) # k) (Run p # k)"
| right: "thread_step grant ready (Run (Either p q) # k) (Run q # k)"
| leave: "thread_step grant ready (Run (Repeat p) # k) k"
| again: "thread_step grant ready (Run (Repeat p) # k) (Run p # Run (Repeat p) # k)"
| any: "thread_step grant ready (Run (Any P) # k) (Run (P f) # k)"
| peer: "ready f \<Longrightarrow> thread_step grant ready (Run (Peer f) # k) k"
| lock: "grant m x \<Longrightarrow> thread_step grant ready (Run (With m x p) # k) (Run p # Unlock m x # k)"
| unlock: "thread_step grant ready (Unlock m x # k) k"

inductive_cases thread_stepE: "thread_step grant ready k k'"

inductive_simps thread_step_lock: "thread_step grant ready (Run (With m x p) # k) k'"
inductive_simps thread_step_peer: "thread_step grant ready (Run (Peer f) # k) k'"

inductive lock_step :: "bool \<Rightarrow> (int \<Rightarrow> bool) \<Rightarrow> item list list \<Rightarrow> item list list \<Rightarrow> bool"
  for writers_first ready where
  step: "i < length ts \<Longrightarrow> thread_step (granted writers_first ts) ready (ts ! i) k \<Longrightarrow>
    lock_step writers_first ready ts (ts[i := k])"

abbreviation lock_steps :: "bool \<Rightarrow> (int \<Rightarrow> bool) \<Rightarrow> item list list \<Rightarrow> item list list \<Rightarrow> bool" where
  "lock_steps writers_first ready \<equiv> (lock_step writers_first ready)\<^sup>*\<^sup>*"

section \<open>The functions of the server\<close>

text \<open>\<open>Logger::log\<close>, \<open>AuditLogger::log\<close>, \<open>Database::execute\<close>, \<open>IntrusionDetector\<close>.\<close>

definition lk_log :: prog where
  "lk_log = touch Exclusive Log_m"

definition lk_audit :: prog where
  "lk_audit = touch Exclusive Audit_m"

definition lk_execute :: prog where
  "lk_execute = With Exclusive Db_m (maybe lk_log)"

definition lk_checkThresholds :: prog where
  "lk_checkThresholds =
     Either (maybe (seqs [lk_log, lk_audit])) (seqs [maybe lk_log, maybe lk_log])"

definition lk_reportViolation :: prog where
  "lk_reportViolation = maybe (With Exclusive Ids_m (seqs [lk_log, lk_audit, lk_checkThresholds]))"

definition lk_ids :: prog where
  "lk_ids = With Exclusive Ids_m (maybe lk_log)"

definition lk_permBanUser :: prog where
  "lk_permBanUser = seqs [touch Exclusive Ids_m, lk_log, lk_execute]"

definition lk_unbanUser :: prog where
  "lk_unbanUser = maybe (seqs [lk_ids, lk_ids, Repeat (seqs [lk_ids, lk_ids]), lk_execute])"

text \<open>\<open>RateLimiter::checkLimit\<close>, \<open>removeKey\<close>.\<close>

definition lk_checkLimit :: prog where
  "lk_checkLimit =
     seqs [touch Exclusive Buckets_m, touch Exclusive Bucket_m,
       maybe (seqs [maybe lk_reportViolation, lk_log, lk_audit])]"

definition lk_removeKey :: prog where
  "lk_removeKey = touch Exclusive Buckets_m"

text \<open>\<open>ClientSession::sendPacket\<close>: the loop over \<open>send\<close> and \<open>poll\<close> runs under the mutex of the session.\<close>

definition lk_sendPacket :: "int \<Rightarrow> prog" where
  "lk_sendPacket f =
     With Exclusive (Send_m f)
       (maybe (seqs
          [maybe (seqs [touch Shared Crypto_m, maybe (seqs [touch Shared Crypto_m, maybe lk_log])]),
           Repeat (Peer f)]))"

text \<open>Tables of \<open>TcpServer\<close>.\<close>

definition lk_getSession :: prog where
  "lk_getSession = touch Shared Sessions_m"

definition lk_reply :: "int \<Rightarrow> prog" where
  "lk_reply f = seqs [lk_getSession, maybe (lk_sendPacket f)]"

definition lk_broadcastToAll :: prog where
  "lk_broadcastToAll = With Shared Sessions_m (Repeat (Any lk_sendPacket))"

definition lk_broadcastToRoom :: prog where
  "lk_broadcastToRoom =
     seqs [touch Shared Rooms_m, maybe (With Shared Sessions_m (Repeat (Any lk_sendPacket)))]"

definition lk_getSessionsInRoom :: prog where
  "lk_getSessionsInRoom = seqs [touch Shared Rooms_m, touch Shared Sessions_m]"

definition lk_removeSession :: prog where
  "lk_removeSession =
     seqs [touch Exclusive Clients_m, touch Exclusive Auth_m, touch Exclusive Crypto_m, touch Shared Sessions_m,
       maybe (touch Exclusive Rooms_m), touch Exclusive Sessions_m]"

definition lk_onClientDisconnected :: prog where
  "lk_onClientDisconnected =
     seqs [lk_removeKey, lk_getSession, lk_removeSession, maybe (seqs [lk_broadcastToRoom, lk_log])]"

definition lk_disconnect :: "int \<Rightarrow> prog" where
  "lk_disconnect f = seqs [maybe (lk_sendPacket f), lk_onClientDisconnected]"

text \<open>\<open>RoomManager\<close> and \<open>ChatHistory\<close> as the handlers use them.\<close>

definition lk_appendHistory :: prog where
  "lk_appendHistory = seqs [touch Exclusive RoomManager_m, touch Exclusive History_m]"

definition lk_sendHistoryToClient :: "int \<Rightarrow> prog" where
  "lk_sendHistoryToClient f =
     seqs [touch Exclusive RoomManager_m, touch Exclusive History_m, maybe (lk_reply f)]"

text \<open>\<open>KeyExchange\<close> and \<open>AuthManager\<close>.\<close>

definition lk_recordFailure :: prog where
  "lk_recordFailure = With Exclusive Block_m lk_reportViolation"

definition lk_handleHello :: prog where
  "lk_handleHello = With Exclusive Clients_m (maybe (touch Shared Block_m))"

definition lk_handleKeyAccept :: prog where
  "lk_handleKeyAccept = seqs [With Exclusive Clients_m (maybe lk_recordFailure), maybe (touch Exclusive Crypto_m)]"

definition lk_authenticate :: prog where
  "lk_authenticate = maybe (touch Exclusive Auth_m)"

definition lk_reconnectWithToken :: prog where
  "lk_reconnectWithToken = seqs [maybe (touch Exclusive Blacklist_m), maybe (touch Exclusive Auth_m)]"

section \<open>The handlers\<close>

definition lk_answer_handshake :: "int \<Rightarrow> prog \<Rightarrow> prog" where
  "lk_answer_handshake f p =
     seqs [p, lk_getSession, maybe (seqs [lk_sendPacket f, maybe lk_onClientDisconnected])]"

definition lk_enter_chat :: "int \<Rightarrow> prog" where
  "lk_enter_chat f =
     seqs [maybe (touch Shared Rooms_m), touch Exclusive Sessions_m, touch Exclusive Rooms_m, lk_sendPacket f,
       lk_broadcastToRoom, lk_sendHistoryToClient f, lk_log]"

definition lk_refuse :: "int \<Rightarrow> prog" where
  "lk_refuse f = seqs [lk_sendPacket f, maybe lk_onClientDisconnected]"

definition lk_handleConnectRequest :: "int \<Rightarrow> prog" where
  "lk_handleConnectRequest f =
     seqs [lk_getSession, maybe (Either (lk_refuse f)
       (seqs [touch Shared Sessions_m, Either (lk_refuse f)
         (seqs [lk_checkLimit, Either (lk_refuse f)
           (seqs [lk_authenticate, Either (seqs [maybe lk_reportViolation, lk_sendPacket f])
             (seqs [touch Exclusive Ids_m, Either (lk_sendPacket f) (lk_enter_chat f)])])])]))]"

definition lk_handleReconnectRequest :: "int \<Rightarrow> prog" where
  "lk_handleReconnectRequest f =
     seqs [lk_getSession, maybe (Either (lk_sendPacket f)
       (seqs [lk_reconnectWithToken, Either (lk_sendPacket f) (lk_enter_chat f)]))]"

definition lk_filter :: prog where
  "lk_filter = maybe (seqs [lk_log, maybe lk_audit])"

definition lk_handleChatSend :: "int \<Rightarrow> prog" where
  "lk_handleChatSend f =
     seqs [lk_getSession, maybe (Either (lk_sendPacket f)
       (seqs [lk_checkLimit, Either (lk_sendPacket f)
         (maybe (seqs [lk_filter, Either (lk_sendPacket f)
           (seqs [lk_log, lk_broadcastToRoom, lk_appendHistory])]))]))]"

definition lk_handleChatPrivate :: "int \<Rightarrow> prog" where
  "lk_handleChatPrivate f =
     seqs [lk_getSession, maybe (Either (lk_sendPacket f)
       (seqs [lk_filter, Either (lk_sendPacket f)
         (seqs [lk_getSession,
           Either (With Shared Sessions_m (seqs [Any lk_sendPacket, lk_sendPacket f]))
             (seqs [maybe (touch Shared Sessions_m), lk_sendPacket f])])]))]"

definition lk_handleRoomListRequest :: "int \<Rightarrow> prog" where
  "lk_handleRoomListRequest f = seqs [lk_getSession, maybe (With Shared Rooms_m (lk_sendPacket f))]"

definition lk_handleUserListRequest :: "int \<Rightarrow> prog" where
  "lk_handleUserListRequest f = seqs [lk_getSession, maybe (seqs [lk_getSessionsInRoom, lk_sendPacket f])]"

definition lk_handleAdminRoomInfo :: "int \<Rightarrow> prog" where
  "lk_handleAdminRoomInfo f = seqs [lk_getSession, maybe (seqs [maybe (touch Shared Rooms_m), lk_sendPacket f])]"

definition lk_moved :: "int \<Rightarrow> prog" where
  "lk_moved f = seqs [lk_broadcastToRoom, lk_broadcastToRoom, lk_sendPacket f, lk_sendHistoryToClient f]"

definition lk_handleRoomJoin :: "int \<Rightarrow> prog" where
  "lk_handleRoomJoin f =
     seqs [lk_getSession, maybe (Either (lk_sendPacket f)
       (seqs [With Exclusive Rooms_m (maybe (lk_sendPacket f)), maybe (lk_moved f)]))]"

definition lk_handleRoomLeave :: "int \<Rightarrow> prog" where
  "lk_handleRoomLeave f =
     seqs [lk_getSession, maybe (Either (lk_sendPacket f) (seqs [touch Exclusive Rooms_m, lk_moved f]))]"

definition lk_handleRoomCreate :: "int \<Rightarrow> prog" where
  "lk_handleRoomCreate f =
     seqs [lk_getSession, maybe (seqs [With Exclusive Rooms_m (maybe (lk_sendPacket f)),
       maybe (seqs [lk_sendPacket f, lk_log])])]"

definition lk_handleRoomDelete :: "int \<Rightarrow> prog" where
  "lk_handleRoomDelete f =
     seqs [lk_getSession, maybe (Either (lk_sendPacket f)
       (seqs [touch Exclusive Rooms_m, lk_broadcastToRoom,
         Repeat (seqs [lk_getSession, maybe (seqs [touch Exclusive Rooms_m, Any lk_sendPacket, lk_broadcastToRoom])]),
         lk_sendPacket f]))]"

definition lk_whois :: "int \<Rightarrow> prog" where
  "lk_whois f = seqs [lk_getSession, maybe lk_getSession, maybe (touch Exclusive Ids_m), lk_reply f]"

text \<open>\<open>AdminCommands\<close>: all begin with the check of the requester's right.\<close>

definition lk_kickFromRoom :: prog where
  "lk_kickFromRoom =
     seqs [lk_getSession, maybe (seqs [touch Exclusive Rooms_m, Any lk_sendPacket, lk_broadcastToRoom])]"

definition lk_admin :: "int \<Rightarrow> prog \<Rightarrow> prog" where
  "lk_admin f p =
     seqs [maybe lk_log, lk_getSession, Either (seqs [maybe lk_log, maybe (lk_reply f)]) p]"

text \<open>\<open>adminNick\<close>, then the target's descriptor and session.\<close>

definition lk_target :: prog where
  "lk_target = seqs [lk_getSession, lk_getSession, maybe lk_log, lk_getSession]"

definition lk_kick :: "int \<Rightarrow> prog" where
  "lk_kick f = lk_admin f (seqs [lk_target, Either (lk_reply f)
     (maybe (seqs [lk_broadcastToRoom, lk_audit, lk_kickFromRoom, lk_log]))])"

definition lk_unkick :: "int \<Rightarrow> prog" where
  "lk_unkick f = lk_admin f (seqs [lk_getSession, touch Exclusive Rooms_m, lk_reply f, lk_getSession, lk_getSession,
     maybe (Any lk_sendPacket), lk_audit, lk_log])"

definition lk_mute :: "int \<Rightarrow> prog" where
  "lk_mute f = lk_admin f (seqs [lk_target, maybe (seqs [Any lk_sendPacket, lk_broadcastToRoom]), lk_reply f,
     lk_audit, lk_log])"

definition lk_ban :: "int \<Rightarrow> prog" where
  "lk_ban f = lk_admin f (seqs [lk_target, Either
     (Either (seqs [lk_permBanUser, lk_audit, lk_log, lk_reply f]) (lk_reply f))
     (seqs [lk_permBanUser, lk_audit, lk_broadcastToRoom, Any lk_disconnect, lk_log])])"

definition lk_unban :: "int \<Rightarrow> prog" where
  "lk_unban f = lk_admin f (seqs [lk_unbanUser, lk_getSession, lk_audit, lk_log, lk_reply f])"

definition lk_promote :: "int \<Rightarrow> prog" where
  "lk_promote f = lk_admin f (seqs [lk_target, maybe (seqs [Any lk_sendPacket, lk_getSession, lk_audit, maybe lk_log])])"

definition lk_broadcast :: "int \<Rightarrow> prog" where
  "lk_broadcast f = lk_admin f (seqs [lk_getSession, lk_broadcastToAll, lk_audit, lk_log])"

text \<open>\<open>FileTransfer\<close>: the handlers after the request hold its mutex while they look up sessions and send.\<close>

definition lk_file_request :: "int \<Rightarrow> prog" where
  "lk_file_request f =
     seqs [lk_getSession, maybe (Either (lk_sendPacket f)
       (seqs [lk_getSession, lk_getSession, Either (lk_sendPacket f)
         (seqs [touch Exclusive Transfers_m, Any lk_sendPacket, lk_audit, lk_log])]))]"

definition lk_file_relay :: prog where
  "lk_file_relay =
     With Exclusive Transfers_m
       (maybe (seqs [lk_getSession, maybe (Any lk_sendPacket), maybe lk_audit, maybe lk_log]))"

definition lk_cleanupExpired :: prog where
  "lk_cleanupExpired =
     With Exclusive Transfers_m (Repeat (maybe (seqs [lk_log, maybe (seqs [lk_getSession, maybe (Any lk_sendPacket)])])))"

section \<open>Threads of the server\<close>

text \<open>What the threads run: a worker takes a packet and handles it, the epoll thread accepts, reads and
  notices closed connections, the housekeeping thread runs a second, and the server stops.\<close>

datatype lock_task = Packet_task int | Accept_task | Readable_task int | Tick_task | Stop_task

definition lk_dispatch :: "int \<Rightarrow> prog list" where
  "lk_dispatch f =
     [lk_answer_handshake f lk_handleHello, lk_answer_handshake f lk_handleKeyAccept, lk_handleConnectRequest f,
      lk_handleReconnectRequest f, lk_handleChatSend f, lk_handleChatPrivate f, lk_onClientDisconnected, lk_reply f,
      lk_handleUserListRequest f, lk_handleRoomListRequest f, lk_handleRoomJoin f, lk_handleRoomCreate f,
      lk_handleRoomDelete f, lk_handleRoomLeave f, lk_handleAdminRoomInfo f, lk_whois f, lk_kick f, lk_mute f,
      lk_unban f, lk_ban f, lk_promote f, lk_broadcast f, lk_unkick f, lk_file_request f, lk_file_relay, lk_log]"

fun one_of :: "prog list \<Rightarrow> prog" where
  "one_of [] = Skip"
| "one_of (p # ps) = Either p (one_of ps)"

definition lk_handlePacket :: "int \<Rightarrow> prog" where
  "lk_handlePacket f =
     seqs [maybe (touch Shared Crypto_m),
       Either (seqs [lk_log, lk_getSession, maybe (seqs [maybe lk_reportViolation, lk_disconnect f])])
         (one_of (lk_dispatch f))]"

definition lk_accept :: prog where
  "lk_accept =
     seqs [touch Exclusive Ids_m, maybe (seqs [lk_checkLimit, maybe (seqs [lk_log, touch Shared Sessions_m,
       maybe (seqs [touch Exclusive Clients_m, touch Exclusive Sessions_m, lk_log])])])]"

definition lk_readable :: "int \<Rightarrow> prog" where
  "lk_readable f =
     Either lk_onClientDisconnected
       (seqs [lk_getSession, maybe (seqs
         [Repeat (Either lk_log (touch Exclusive Pool_m)),
          maybe (seqs [lk_log, lk_reportViolation, lk_disconnect f])])])"

definition lk_old_sessions :: prog where
  "lk_old_sessions =
     seqs [touch Shared Rooms_m, Repeat (seqs [lk_getSessionsInRoom, Repeat lk_log]),
       Repeat (seqs [maybe lk_log, lk_onClientDisconnected])]"

definition lk_tick :: prog where
  "lk_tick = seqs [maybe lk_old_sessions, lk_cleanupExpired, maybe lk_old_sessions, maybe (seqs [lk_ids, lk_log])]"

definition lk_stop :: prog where
  "lk_stop = maybe (seqs [lk_broadcastToAll, touch Exclusive Sessions_m, touch Exclusive Pool_m, lk_log])"

fun task_locks :: "lock_task \<Rightarrow> prog" where
  "task_locks (Packet_task f) = seqs [touch Exclusive Pool_m, lk_handlePacket f, maybe lk_log]"
| "task_locks Accept_task = lk_accept"
| "task_locks (Readable_task f) = lk_readable f"
| "task_locks Tick_task = lk_tick"
| "task_locks Stop_task = lk_stop"

section \<open>Ascending order\<close>

fun rank :: "mutex \<Rightarrow> nat" where
  "rank Transfers_m = 1"
| "rank RoomManager_m = 2"
| "rank Room_m = 3"
| "rank Rooms_m = 4"
| "rank Sessions_m = 5"
| "rank (Send_m f) = 6"
| "rank Clients_m = 7"
| "rank Block_m = 8"
| "rank Ids_m = 9"
| "rank Crypto_m = 10"
| "rank Audit_m = 11"
| "rank Db_m = 12"
| "rank Log_m = 14"
| "rank _ = 13"

text \<open>A program in ascending order, run by a thread whose highest lock has rank \<open>n\<close>.\<close>

primrec ascending :: "prog \<Rightarrow> nat \<Rightarrow> bool" where
  "ascending Skip n = True"
| "ascending (With m x p) n \<longleftrightarrow> n < rank x \<and> ascending p (rank x)"
| "ascending (Seq p q) n \<longleftrightarrow> ascending p n \<and> ascending q n"
| "ascending (Either p q) n \<longleftrightarrow> ascending p n \<and> ascending q n"
| "ascending (Repeat p) n = ascending p n"
| "ascending (Any P) n \<longleftrightarrow> (\<forall>f. ascending (P f) n)"
| "ascending (Peer f) n = True"

fun top_rank :: "item list \<Rightarrow> nat" where
  "top_rank [] = 0"
| "top_rank (Run p # k) = top_rank k"
| "top_rank (Unlock m x # k) = rank x"

fun thread_ok :: "item list \<Rightarrow> bool" where
  "thread_ok [] = True"
| "thread_ok (Run p # k) \<longleftrightarrow> ascending p (top_rank k) \<and> thread_ok k"
| "thread_ok (Unlock m x # k) \<longleftrightarrow> top_rank k < rank x \<and> thread_ok k"

definition threads_ok :: "item list list \<Rightarrow> bool" where
  "threads_ok ts \<longleftrightarrow> list_all thread_ok ts"

lemma thread_step_ok: "thread_step grant ready k k' \<Longrightarrow> thread_ok k \<Longrightarrow> thread_ok k'"
  by (induction rule: thread_step.induct) auto

lemma lock_step_ok: "lock_step w ready ts ts' \<Longrightarrow> threads_ok ts \<Longrightarrow> threads_ok ts'"
  by (induction rule: lock_step.induct)
    (auto simp: threads_ok_def list_all_length nth_list_update intro: thread_step_ok)

lemma lock_steps_ok: "lock_steps w ready ts ts' \<Longrightarrow> threads_ok ts \<Longrightarrow> threads_ok ts'"
  by (induction rule: rtranclp_induct) (auto intro: lock_step_ok)

lemma top_rank_held: "thread_ok k \<Longrightarrow> holds k x \<Longrightarrow> rank x \<le> top_rank k"
proof (induction k rule: thread_ok.induct)
  case (3 m y k)
  then show ?case by (cases "holds k x") (auto simp: holds_def)
qed (auto simp: holds_def)

lemma waits_iff: "waits k x \<longleftrightarrow> (\<exists>p k'. k = Run (With Exclusive x p) # k')"
  by (cases "(k, x)" rule: waits.cases) auto

text \<open>A thread that cannot step waits for a peer or for a mutex that somebody holds.\<close>

lemma stuck_thread:
  assumes "k \<in> set ts" "k \<noteq> []" "\<nexists>ts'. lock_step w ready ts ts'"
  shows "(\<exists>f k'. k = Run (Peer f) # k' \<and> \<not> ready f) \<or>
    (\<exists>m x p k'. k = Run (With m x p) # k' \<and> \<not> granted w ts m x)"
proof -
  from assms(1) obtain i where i: "i < length ts" "ts ! i = k" by (auto simp: in_set_conv_nth)
  have no: "\<not> thread_step (granted w ts) ready k k'" for k' using assms(3) lock_step.step [OF i(1)] i(2) by blast
  obtain it k' where k: "k = it # k'" using assms(2) by (cases k) auto
  show ?thesis
  proof (cases it)
    case (Run p)
    then show ?thesis using no k by (cases p) (blast intro: thread_step.intros)+
  next
    case (Unlock m x)
    then show ?thesis using no k by (blast intro: thread_step.unlock)
  qed
qed

lemma not_granted_held:
  assumes "\<not> granted w ts m x" "\<nexists>ts'. lock_step w ready ts ts'"
  shows "\<exists>k \<in> set ts. holds k x"
proof (rule ccontr)
  assume free: "\<not> (\<exists>k \<in> set ts. holds k x)"
  then have ex: "granted w ts Exclusive x" by (simp add: granted_def)
  from free assms(1) ex obtain k where "k \<in> set ts" "waits k x"
    by (cases m) (force simp: granted_def holds_def)+
  then obtain i p k' where "i < length ts" "ts ! i = Run (With Exclusive x p) # k'"
    by (auto simp: in_set_conv_nth waits_iff)
  then have "lock_step w ready ts (ts[i := Run p # Unlock Exclusive x # k'])"
    using ex by (intro lock_step.step) (simp_all add: thread_step.lock)
  with assms(2) show False by blast
qed

lemma waiting_above:
  assumes "threads_ok ts" "k \<in> set ts" "holds k x" "k = Run (With m y p) # k'"
  shows "rank x < rank y"
  using assms top_rank_held [of k x] by (auto simp: threads_ok_def list_all_iff)

text \<open>The argument: take a blocked thread whose mutex has the highest rank; its holder waits for a higher one.\<close>

lemma no_deadlock:
  assumes ok: "threads_ok ts" and "\<exists>k \<in> set ts. k \<noteq> []"
  shows "(\<exists>ts'. lock_step w ready ts ts') \<or> (\<exists>f k. Run (Peer f) # k \<in> set ts \<and> \<not> ready f)"
proof (rule ccontr)
  assume "\<not> ?thesis"
  then have stuck: "\<nexists>ts'. lock_step w ready ts ts'" and peers: "\<nexists>f k. Run (Peer f) # k \<in> set ts \<and> \<not> ready f"
    by blast+
  have wait: "\<exists>m x p k'. k = Run (With m x p) # k' \<and> \<not> granted w ts m x" if "k \<in> set ts" "k \<noteq> []" for k
    using stuck_thread [OF that stuck] peers that(1) by blast
  define W where "W = {rank x | m x p k'. Run (With m x p) # k' \<in> set ts \<and> \<not> granted w ts m x}"
  have "finite W"
  proof (rule finite_subset)
    show "W \<subseteq> (\<lambda>k. case k of Run (With m x p) # _ \<Rightarrow> rank x | _ \<Rightarrow> 0) ` set ts"
      unfolding W_def by force
  qed simp
  moreover have "W \<noteq> {}" using assms(2) wait unfolding W_def by blast
  ultimately have "Max W \<in> W" by (rule Max_in)
  then obtain m x p k where k: "Run (With m x p) # k \<in> set ts" "\<not> granted w ts m x" "rank x = Max W"
    unfolding W_def by auto
  from not_granted_held [OF k(2) stuck] obtain j where j: "j \<in> set ts" "holds j x" by blast
  then have "j \<noteq> []" by (auto simp: holds_def)
  from wait [OF j(1) this] obtain m' y p' k' where y: "j = Run (With m' y p') # k'" "\<not> granted w ts m' y" by blast
  then have "rank y \<in> W" using j(1) unfolding W_def by blast
  then have "rank y \<le> Max W" using \<open>finite W\<close> by simp
  with waiting_above [OF ok j y(1)] k(3) show False by simp
qed

section \<open>What the server's threads run ascends\<close>

lemmas lk_defs =
  maybe_def lk_log_def lk_audit_def lk_execute_def lk_checkThresholds_def lk_reportViolation_def
  lk_ids_def lk_permBanUser_def lk_unbanUser_def lk_checkLimit_def lk_removeKey_def lk_sendPacket_def
  lk_getSession_def lk_reply_def lk_broadcastToAll_def lk_broadcastToRoom_def lk_getSessionsInRoom_def
  lk_removeSession_def lk_onClientDisconnected_def lk_disconnect_def lk_appendHistory_def
  lk_sendHistoryToClient_def lk_recordFailure_def lk_handleHello_def lk_handleKeyAccept_def
  lk_authenticate_def lk_reconnectWithToken_def lk_answer_handshake_def lk_enter_chat_def lk_refuse_def
  lk_handleConnectRequest_def lk_handleReconnectRequest_def lk_filter_def lk_handleChatSend_def
  lk_handleChatPrivate_def lk_handleRoomListRequest_def lk_handleUserListRequest_def
  lk_handleAdminRoomInfo_def lk_moved_def lk_handleRoomJoin_def lk_handleRoomLeave_def
  lk_handleRoomCreate_def lk_handleRoomDelete_def lk_whois_def lk_kickFromRoom_def lk_admin_def
  lk_target_def lk_kick_def lk_unkick_def lk_mute_def lk_ban_def lk_unban_def lk_promote_def
  lk_broadcast_def lk_file_request_def lk_file_relay_def lk_cleanupExpired_def lk_dispatch_def
  lk_handlePacket_def lk_accept_def lk_readable_def lk_old_sessions_def lk_tick_def lk_stop_def

definition thread_of :: "lock_task list \<Rightarrow> item list" where
  "thread_of tks = map (\<lambda>t. Run (task_locks t)) tks"

lemma ascending_seqs [simp]: "ascending (seqs ps) n = list_all (\<lambda>p. ascending p n) ps"
  by (induction ps rule: seqs.induct) auto

lemma ascending_one_of [simp]: "ascending (one_of ps) n = list_all (\<lambda>p. ascending p n) ps"
  by (induction ps) auto

lemma ascending_task: "ascending (task_locks t) 0"
  by (cases t) (simp_all add: lk_defs)

lemma thread_of_ok: "thread_ok (thread_of tks)"
proof -
  have "top_rank (thread_of tks) = 0 \<and> thread_ok (thread_of tks)"
    by (induction tks) (auto simp: thread_of_def ascending_task)
  then show ?thesis ..
qed

lemma threads_of_ok: "threads_ok (map thread_of tss)"
  by (simp add: threads_ok_def list_all_iff thread_of_ok)

section \<open>Every thread can finish\<close>

text \<open>
  The work left of a thread, where loops are left and an operation on some client picks the first: every
  thread that can step can take a step that lessens it.
\<close>

primrec work :: "prog \<Rightarrow> nat" where
  "work Skip = 1"
| "work (With m x p) = work p + 2"
| "work (Seq p q) = work p + work q + 1"
| "work (Either p q) = work p + work q + 1"
| "work (Repeat p) = 1"
| "work (Any P) = work (P 0) + 1"
| "work (Peer f) = 1"

fun thread_work :: "item list \<Rightarrow> nat" where
  "thread_work [] = 0"
| "thread_work (Run p # k) = work p + thread_work k"
| "thread_work (Unlock m x # k) = 1 + thread_work k"

lemma work_pos [simp]: "0 < work p"
  by (induction p) auto

lemma thread_work_less:
  "thread_step grant ready k k' \<Longrightarrow> \<exists>k''. thread_step grant ready k k'' \<and> thread_work k'' < thread_work k"
proof (induction rule: thread_step.induct)
  case (again p k)
  show ?case using thread_step.leave [of grant ready p k] by fastforce
next
  case (any P k f)
  show ?case using thread_step.any [of grant ready P k 0] by fastforce
next
  case (lock m x p k)
  then show ?case using thread_step.lock [of grant m x ready p k] by fastforce
qed (fastforce intro: thread_step.intros)+

lemma lock_step_less:
  assumes "lock_step w ready ts ts'"
  shows "\<exists>ts''. lock_step w ready ts ts'' \<and> sum_list (map thread_work ts'') < sum_list (map thread_work ts)"
  using assms
proof (cases rule: lock_step.cases)
  case (step i k)
  from thread_work_less [OF step(3)] obtain k''
    where k: "thread_step (granted w ts) ready (ts ! i) k''" "thread_work k'' < thread_work (ts ! i)" by blast
  have "thread_work (ts ! i) \<le> sum_list (map thread_work ts)" using step(2) by (simp add: member_le_sum_list)
  then have "sum_list (map thread_work (ts[i := k''])) < sum_list (map thread_work ts)"
    using k(2) step(2) by (simp add: map_update sum_list_update)
  with lock_step.step [OF step(2) k(1)] show ?thesis by blast
qed

lemma can_finish:
  assumes "threads_ok ts" "\<forall>f. ready f"
  shows "\<exists>ts'. lock_steps w ready ts ts' \<and> (\<forall>k \<in> set ts'. k = [])"
  using assms(1)
proof (induction "sum_list (map thread_work ts)" arbitrary: ts rule: less_induct)
  case less
  show ?case
  proof (cases "\<forall>k \<in> set ts. k = []")
    case False
    then obtain ts1 where "lock_step w ready ts ts1"
      using no_deadlock [OF less.prems, of w ready] assms(2) by blast
    from lock_step_less [OF this] obtain ts2 where 2: "lock_step w ready ts ts2"
      "sum_list (map thread_work ts2) < sum_list (map thread_work ts)" by blast
    from less.hyps [OF 2(2) lock_step_ok [OF 2(1) less.prems]] 2(1) show ?thesis
      by (meson converse_rtranclp_into_rtranclp)
  qed blast
qed

section \<open>Runs by a schedule\<close>

text \<open>
  The machine as a function: a choice picks a branch, enters (\<open>1\<close>) or leaves a loop, or names the client.
\<close>

fun run_thread :: "(mode \<Rightarrow> mutex \<Rightarrow> bool) \<Rightarrow> (int \<Rightarrow> bool) \<Rightarrow> int \<Rightarrow> item list \<Rightarrow> item list option" where
  "run_thread grant ready c [] = None"
| "run_thread grant ready c (Unlock m x # k) = Some k"
| "run_thread grant ready c (Run p # k) =
     (case p of
        Skip \<Rightarrow> Some k
      | With m x q \<Rightarrow> if grant m x then Some (Run q # Unlock m x # k) else None
      | Seq q r \<Rightarrow> Some (Run q # Run r # k)
      | Either q r \<Rightarrow> Some (Run (if c = 0 then q else r) # k)
      | Repeat q \<Rightarrow> Some (if c = 0 then k else Run q # Run p # k)
      | Any P \<Rightarrow> Some (Run (P c) # k)
      | Peer f \<Rightarrow> if ready f then Some k else None)"

fun run_schedule :: "bool \<Rightarrow> (int \<Rightarrow> bool) \<Rightarrow> (nat \<times> int) list \<Rightarrow> item list list \<Rightarrow> item list list option" where
  "run_schedule w ready [] ts = Some ts"
| "run_schedule w ready ((i, c) # sch) ts =
     (if i < length ts
      then case run_thread (granted w ts) ready c (ts ! i) of
             None \<Rightarrow> None
           | Some k \<Rightarrow> run_schedule w ready sch (ts[i := k])
      else None)"

lemma run_thread_step: "run_thread grant ready c k = Some k' \<Longrightarrow> thread_step grant ready k k'"
  by (induction grant ready c k rule: run_thread.induct)
    (auto split: prog.splits if_splits intro: thread_step.intros)

lemma thread_step_run: "thread_step grant ready k k' \<Longrightarrow> \<exists>c. run_thread grant ready c k = Some k'"
proof (induction rule: thread_step.induct)
  case (left p q k)
  show ?case by (rule exI [of _ 0]) simp
next
  case (right p q k)
  show ?case by (rule exI [of _ 1]) simp
next
  case (again p k)
  show ?case by (rule exI [of _ 1]) simp
qed auto

lemma run_schedule_steps: "run_schedule w ready sch ts = Some ts' \<Longrightarrow> lock_steps w ready ts ts'"
proof (induction w ready sch ts rule: run_schedule.induct)
  case (2 w ready i c sch ts)
  then obtain k where "i < length ts" "run_thread (granted w ts) ready c (ts ! i) = Some k"
    "lock_steps w ready (ts[i := k]) ts'" by (auto split: if_splits option.splits)
  then show ?case by (meson converse_rtranclp_into_rtranclp lock_step.step run_thread_step)
qed simp

lemma lock_steps_schedule: "lock_steps w ready ts ts' \<Longrightarrow> \<exists>sch. run_schedule w ready sch ts = Some ts'"
proof (induction rule: converse_rtranclp_induct)
  case base
  show ?case by (rule exI [of _ "[]"]) simp
next
  case (step ts ts1)
  from step.hyps(1) obtain i k where i: "i < length ts" "thread_step (granted w ts) ready (ts ! i) k" "ts1 = ts[i := k]"
    by (cases rule: lock_step.cases) auto
  from thread_step_run [OF i(2)] step.IH obtain c sch where
    "run_thread (granted w ts) ready c (ts ! i) = Some k" "run_schedule w ready sch ts1 = Some ts'" by blast
  then show ?case using i by (intro exI [of _ "(i, c) # sch"]) simp
qed

section \<open>Mutual exclusion\<close>

definition exclusive_ok :: "item list list \<Rightarrow> bool" where
  "exclusive_ok ts \<longleftrightarrow>
     (\<forall>i j x. i < length ts \<longrightarrow> j < length ts \<longrightarrow> i \<noteq> j \<longrightarrow>
        (Exclusive, x) \<in> set (locks (ts ! i)) \<longrightarrow> \<not> holds (ts ! j) x)"

lemma exclusive_okD:
  "exclusive_ok ts \<Longrightarrow> i < length ts \<Longrightarrow> j < length ts \<Longrightarrow> i \<noteq> j \<Longrightarrow>
    (Exclusive, x) \<in> set (locks (ts ! i)) \<Longrightarrow> (m, x) \<notin> set (locks (ts ! j))"
  unfolding exclusive_ok_def holds_def by force

text \<open>A step of a thread adds a lock that was granted, or none.\<close>

lemma thread_step_locks:
  "thread_step grant ready k k' \<Longrightarrow> l \<in> set (locks k') \<Longrightarrow> l \<in> set (locks k) \<or> grant (fst l) (snd l)"
  by (induction rule: thread_step.induct) auto

lemma granted_free:
  "granted w ts m x \<Longrightarrow> k \<in> set ts \<Longrightarrow> (m', x) \<in> set (locks k) \<Longrightarrow> m = Shared \<and> m' = Shared"
  by (cases m; cases m') (force simp: granted_def holds_def)+

lemma exclusive_ok_step:
  assumes "lock_step w ready ts ts'" "exclusive_ok ts"
  shows "exclusive_ok ts'"
  using assms(1)
proof (cases rule: lock_step.cases)
  case (step i k)
  have new: "l \<in> set (locks (ts ! i)) \<or> granted w ts (fst l) (snd l)" if "l \<in> set (locks k)" for l
    using thread_step_locks [OF step(3) that] .
  have apart: "m = Shared \<and> m' = Shared"
    if "(m, x) \<in> set (locks k)" "(m', x) \<in> set (locks (ts ! j))" "j < length ts" "j \<noteq> i" for m m' x j
    using new [OF that(1)]
  proof
    assume "granted w ts (fst (m, x)) (snd (m, x))"
    then show ?thesis using granted_free [of w ts m x "ts ! j" m'] that by auto
  next
    assume "(m, x) \<in> set (locks (ts ! i))"
    then show ?thesis
      using exclusive_okD [OF assms(2), of i j x m'] exclusive_okD [OF assms(2), of j i x m] that step(2)
      by (cases m; cases m') auto
  qed
  show ?thesis unfolding step(1) exclusive_ok_def holds_def
  proof (intro allI impI notI)
    fix a b x
    assume ab: "a < length (ts[i := k])" "b < length (ts[i := k])" "a \<noteq> b"
      and a: "(Exclusive, x) \<in> set (locks (ts[i := k] ! a))" and "x \<in> snd ` set (locks (ts[i := k] ! b))"
    then obtain m where b: "(m, x) \<in> set (locks (ts[i := k] ! b))" by auto
    consider "a = i" "b \<noteq> i" | "b = i" "a \<noteq> i" | "a \<noteq> i" "b \<noteq> i" using ab(3) by blast
    then show False
    proof cases
      case 1
      then show ?thesis using apart [of Exclusive x m b] a b ab by simp
    next
      case 2
      then show ?thesis using apart [of m x Exclusive a] a b ab by simp
    next
      case 3
      then show ?thesis using exclusive_okD [OF assms(2), of a b x m] a b ab by simp
    qed
  qed
qed

lemma locks_thread_of [simp]: "locks (thread_of tks) = []"
  by (induction tks) (auto simp: thread_of_def)

interpretation mutexes: invariant_system "\<lambda>ts. \<exists>tss. ts = map thread_of tss" "lock_step w ready"
  "\<lambda>ts. threads_ok ts \<and> exclusive_ok ts" for w ready
proof
  fix ts :: "item list list"
  assume "\<exists>tss. ts = map thread_of tss"
  then show "threads_ok ts \<and> exclusive_ok ts"
    by (auto simp: threads_of_ok exclusive_ok_def holds_def)
next
  fix ts ts'
  assume "threads_ok ts \<and> exclusive_ok ts" "lock_step w ready ts ts'"
  then show "threads_ok ts' \<and> exclusive_ok ts'" by (blast intro: lock_step_ok exclusive_ok_step)
qed

section \<open>A client that stops reading\<close>

text \<open>
  Thread \<open>i\<close> waits for a peer and holds \<open>x\<close> shared. A thread that wants it exclusively waits, and where
  writers go first so does one that wants it shared while a writer waits.
\<close>

definition stalled :: "bool \<Rightarrow> mutex \<Rightarrow> item list list \<Rightarrow> nat \<Rightarrow> bool" where
  "stalled w x ts j \<longleftrightarrow>
     (\<exists>m p k. ts ! j = Run (With m x p) # k \<and> (m = Exclusive \<or> w \<and> (\<exists>l < length ts. waits (ts ! l) x)))"

lemma stalled_not_granted:
  assumes "i < length ts" "(Shared, x) \<in> set (locks (ts ! i))" "stalled w x ts j" "ts ! j = Run (With m x p) # k"
  shows "\<not> granted w ts m x"
  using assms by (cases m) (force simp: granted_def holds_def stalled_def)+

lemma stalled_step:
  assumes "lock_step w ready ts ts'" "i < length ts" "ts ! i = Run (Peer f) # k" "\<not> ready f"
    "(Shared, x) \<in> set (locks k)"
  shows "length ts' = length ts \<and> ts' ! i = ts ! i \<and> (\<forall>j < length ts. stalled w x ts j \<longrightarrow> ts' ! j = ts ! j)"
  using assms(1)
proof (cases rule: lock_step.cases)
  case (step l q)
  have "l \<noteq> i" using step(3) assms(3,4) by (auto simp: thread_step_peer)
  moreover have "\<not> stalled w x ts l"
  proof
    assume st: "stalled w x ts l"
    then obtain m p k' where l: "ts ! l = Run (With m x p) # k'" unfolding stalled_def by blast
    then have "granted w ts m x" using step(3) by (simp add: thread_step_lock)
    with stalled_not_granted [OF assms(2) _ st l] assms(3,5) show False by simp
  qed
  ultimately show ?thesis using step(1) by (metis length_list_update nth_list_update_neq)
qed

lemma stalled_stays:
  assumes "lock_steps w ready ts ts'" "i < length ts" "ts ! i = Run (Peer f) # k" "\<not> ready f"
    "(Shared, x) \<in> set (locks k)"
  shows "length ts' = length ts \<and> ts' ! i = ts ! i \<and>
    (\<forall>j < length ts. stalled w x ts j \<longrightarrow> ts' ! j = ts ! j \<and> stalled w x ts' j)"
  using assms(1)
proof (induction rule: rtranclp_induct)
  case (step ts1 ts2)
  have s: "length ts2 = length ts1 \<and> ts2 ! i = ts1 ! i \<and> (\<forall>j < length ts1. stalled w x ts1 j \<longrightarrow> ts2 ! j = ts1 ! j)"
    using stalled_step [OF step.hyps(2), of i f k x] step.IH assms(2-5) by simp
  have "stalled w x ts2 j" if j: "stalled w x ts1 j" "j < length ts1" for j
  proof -
    from j(1) obtain m p k' where m: "ts1 ! j = Run (With m x p) # k'"
      "m = Exclusive \<or> w \<and> (\<exists>l < length ts1. waits (ts1 ! l) x)" unfolding stalled_def by blast
    have "ts2 ! l = ts1 ! l" if "l < length ts1" "waits (ts1 ! l) x" for l
      using s that by (auto simp: stalled_def waits_iff)
    then show ?thesis using s m j unfolding stalled_def by metis
  qed
  with s step.IH show ?case by auto
qed simp

text \<open>A thread that runs alone, while no other thread holds or waits for a mutex.\<close>

fun solo_run :: "(int \<Rightarrow> bool) \<Rightarrow> int list \<Rightarrow> item list \<Rightarrow> item list option" where
  "solo_run ready [] k = Some k"
| "solo_run ready (c # cs) k =
     (case run_thread (\<lambda>m x. \<not> holds k x) ready c k of None \<Rightarrow> None | Some k' \<Rightarrow> solo_run ready cs k')"

definition quiet :: "item list \<Rightarrow> bool" where
  "quiet k \<longleftrightarrow> locks k = [] \<and> (\<forall>x. \<not> waits k x)"

lemma quiet_granted:
  assumes "\<forall>l < length ts. l \<noteq> i \<longrightarrow> quiet (ts ! l)" "ts ! i = Run (With m x p) # k" "\<not> holds k x"
  shows "granted w ts m x"
proof -
  have "locks (ts ! l) = [] \<and> \<not> waits (ts ! l) x \<or> ts ! l = Run (With m x p) # k" if "l < length ts" for l
    using assms(1,2) that by (cases "l = i") (auto simp: quiet_def)
  then show ?thesis using assms(3)
    by (cases m) (force simp: granted_def holds_def in_set_conv_nth)+
qed

lemma solo_step:
  assumes "thread_step (\<lambda>m x. \<not> holds k x) ready k k'" "i < length ts" "ts ! i = k"
    "\<forall>l < length ts. l \<noteq> i \<longrightarrow> quiet (ts ! l)"
  shows "lock_step w ready ts (ts[i := k'])"
proof -
  have "thread_step (granted w ts) ready k k'"
    using assms(1)
  proof (cases rule: thread_step.cases)
    case (lock m x p r)
    then have "granted w ts m x" using assms(3) by (intro quiet_granted [OF assms(4)]) (auto simp: holds_def)
    then show ?thesis unfolding lock(1,2) by (rule thread_step.lock)
  qed (auto intro: thread_step.intros)
  then show ?thesis using assms(2,3) by (auto intro: lock_step.step)
qed

lemma solo_steps:
  assumes "solo_run ready cs k = Some k'" "i < length ts" "ts ! i = k" "\<forall>l < length ts. l \<noteq> i \<longrightarrow> quiet (ts ! l)"
  shows "lock_steps w ready ts (ts[i := k'])"
  using assms
proof (induction ready cs k arbitrary: ts rule: solo_run.induct)
  case (2 ready c cs k)
  then obtain k1 where k1: "run_thread (\<lambda>m x. \<not> holds k x) ready c k = Some k1" "solo_run ready cs k1 = Some k'"
    by (auto split: option.splits)
  then have "lock_step w ready ts (ts[i := k1])" using 2 by (intro solo_step run_thread_step) auto
  moreover have "lock_steps w ready (ts[i := k1]) (ts[i := k1, i := k'])"
    using 2 k1 by (intro "2.IH") auto
  ultimately show ?case by simp
qed auto

text \<open>A program that takes the mutex exclusively on every path.\<close>

primrec must_take :: "mutex \<Rightarrow> prog \<Rightarrow> bool" where
  "must_take x Skip = False"
| "must_take x (With m y p) \<longleftrightarrow> m = Exclusive \<and> y = x \<or> must_take x p"
| "must_take x (Seq p q) \<longleftrightarrow> must_take x p \<or> must_take x q"
| "must_take x (Either p q) \<longleftrightarrow> must_take x p \<and> must_take x q"
| "must_take x (Repeat p) = False"
| "must_take x (Any P) \<longleftrightarrow> (\<forall>f. must_take x (P f))"
| "must_take x (Peer f) = False"

definition has_to_take :: "mutex \<Rightarrow> item list \<Rightarrow> bool" where
  "has_to_take x k \<longleftrightarrow> (\<exists>p. Run p \<in> set k \<and> must_take x p)"

lemma thread_step_has_to_take:
  "thread_step grant ready k k' \<Longrightarrow> \<not> grant Exclusive x \<Longrightarrow> has_to_take x k \<Longrightarrow> has_to_take x k'"
  by (induction rule: thread_step.induct) (auto simp: has_to_take_def)

lemma stalled_unfinished:
  assumes "lock_steps w ready ts ts'" "i < length ts" "ts ! i = Run (Peer f) # k" "\<not> ready f"
    "(Shared, x) \<in> set (locks k)" "j < length ts" "has_to_take x (ts ! j)"
  shows "has_to_take x (ts' ! j)"
  using assms(1)
proof (induction rule: rtranclp_induct)
  case (step ts1 ts2)
  have ts1: "length ts1 = length ts" "ts1 ! i = Run (Peer f) # k"
    using stalled_stays [OF step.hyps(1) assms(2-5)] assms(3) by simp_all
  then have "holds (ts1 ! i) x" using assms(5) by (force simp: holds_def)
  then have no: "\<not> granted w ts1 Exclusive x" using ts1 assms(2) nth_mem [of i ts1] by (auto simp: granted_def)
  from step.hyps(2) show ?case
  proof (cases rule: lock_step.cases)
    case (step l q)
    then show ?thesis using thread_step_has_to_take [OF step(3) no] \<open>has_to_take x (ts1 ! j)\<close>
      by (cases "l = j") simp_all
  qed
qed (use assms in simp)

lemma exclusive_ok_steps: "lock_steps w ready ts ts' \<Longrightarrow> exclusive_ok ts \<Longrightarrow> exclusive_ok ts'"
  by (induction rule: rtranclp_induct) (auto intro: exclusive_ok_step)

text \<open>What thread \<open>i\<close>, waiting for a silent peer under a shared mutex, does to the others.\<close>

lemma stalled_others:
  assumes "lock_steps w ready ts ts'" "i < length ts" "ts ! i = Run (Peer f) # k" "\<not> ready f"
    "(Shared, x) \<in> set (locks k)" "exclusive_ok ts"
  shows "ts' ! i = ts ! i"
    and "j < length ts \<Longrightarrow> j \<noteq> i \<Longrightarrow> (Exclusive, x) \<notin> set (locks (ts' ! j))"
    and "j < length ts \<Longrightarrow> has_to_take x (ts ! j) \<Longrightarrow> ts' ! j \<noteq> []"
proof -
  have st: "length ts' = length ts" "ts' ! i = ts ! i" using stalled_stays [OF assms(1-5)] by simp_all
  show "ts' ! i = ts ! i" by (rule st(2))
  show "(Exclusive, x) \<notin> set (locks (ts' ! j))" if "j < length ts" "j \<noteq> i"
    using exclusive_okD [OF exclusive_ok_steps [OF assms(1,6)], of j i x Shared] st that assms(2,3,5) by auto
  show "ts' ! j \<noteq> []" if "j < length ts" "has_to_take x (ts ! j)"
    using stalled_unfinished [OF assms(1-5) that] by (auto simp: has_to_take_def)
qed

text \<open>The threads that send under the mutex of the sessions reach a peer that does not read.\<close>

definition sends_locked :: "int \<Rightarrow> prog list" where
  "sends_locked g = [lk_handleChatSend g, lk_handleChatPrivate g, lk_broadcast g]"

lemma sends_locked_reach:
  assumes "P \<in> set (sends_locked g)" "locks k = []"
  shows "\<exists>cs k'. solo_run ready cs (Run P # k) = Some (Run (Peer f) # k') \<and> (Shared, Sessions_m) \<in> set (locks k')"
proof -
  consider "P = lk_handleChatSend g" | "P = lk_handleChatPrivate g" | "P = lk_broadcast g"
    using assms(1) by (auto simp: sends_locked_def)
  then show ?thesis
  proof cases
    case 1
    then show ?thesis using assms(2)
      by (intro exI [of _ "[0,0,0,0, 1, 1, 0, 0,0,0,0,0,0,0,0,0,0, 1, 1, 0, 0,0, 1, 0, 0,0,0, 0, 0, 0,0,0, 1, 0, 1, f, 0, 1, 0, 0,0, 1]"])
        (simp add: lk_handleChatSend_def lk_getSession_def maybe_def lk_checkLimit_def lk_filter_def lk_log_def
          lk_broadcastToRoom_def lk_sendPacket_def holds_def)
  next
    case 2
    then show ?thesis using assms(2)
      by (intro exI [of _ "[0,0,0,0, 1, 1, 0, 0,0, 1, 0, 0,0,0, 0, 0, 0, f, 0, 1, 0, 0,0, 1]"])
        (simp add: lk_handleChatPrivate_def lk_getSession_def maybe_def lk_filter_def lk_sendPacket_def holds_def)
  next
    case 3
    then show ?thesis using assms(2)
      by (intro exI [of _ "[0, 0,0, 0, 0,0,0, 1, 0, 0,0,0, 0, 0, 1, f, 0, 1, 0, 0,0, 1]"])
        (simp add: lk_broadcast_def lk_admin_def lk_getSession_def maybe_def lk_broadcastToAll_def lk_sendPacket_def
          holds_def)
  qed
qed

definition enters_or_leaves :: "int \<Rightarrow> prog list" where
  "enters_or_leaves h = [lk_enter_chat h, lk_removeSession, lk_onClientDisconnected, lk_disconnect h]"

lemma enters_or_leaves_take: "Q \<in> set (enters_or_leaves h) \<Longrightarrow> must_take Sessions_m Q"
  by (auto simp: enters_or_leaves_def lk_enter_chat_def lk_removeSession_def lk_onClientDisconnected_def lk_disconnect_def)

section \<open>A signal in a thread\<close>

text \<open>\<open>main.cpp\<close> installs a handler that logs and stops the server in the thread the signal interrupts.\<close>

definition lk_signalHandler :: prog where
  "lk_signalHandler = seqs [lk_log, lk_stop]"

definition interrupted :: "item list \<Rightarrow> item list" where
  "interrupted k = Run lk_signalHandler # k"

text \<open>A thread that waits for a mutex it holds itself waits for ever.\<close>

lemma self_locked_step:
  assumes "lock_step w ready ts ts'" "i < length ts" "ts ! i = Run (With Exclusive x p) # k" "holds k x"
  shows "length ts' = length ts \<and> ts' ! i = ts ! i"
  using assms(1)
proof (cases rule: lock_step.cases)
  case (step l q)
  have "\<not> granted w ts Exclusive x"
    using nth_mem [OF assms(2)] assms(3,4) by (auto simp: granted_def holds_def intro!: bexI [of _ "ts ! i"])
  then have "l \<noteq> i" using step(3) assms(3) by (auto simp: thread_step_lock)
  then show ?thesis using step(1) by simp
qed

lemma self_locked_stays:
  assumes "lock_steps w ready ts ts'" "i < length ts" "ts ! i = Run (With Exclusive x p) # k" "holds k x"
  shows "length ts' = length ts \<and> ts' ! i = ts ! i"
  using assms(1)
proof (induction rule: rtranclp_induct)
  case (step ts1 ts2)
  then show ?case using self_locked_step [OF step.hyps(2), of i x p k] assms(2-4) by simp
qed simp

lemma interrupted_step:
  assumes "lock_step w ready ts ts'" "i < length ts" "ts ! i = interrupted k"
  shows "length ts' = length ts \<and> ts' ! i \<in> {interrupted k, Run lk_log # Run lk_stop # k}"
  using assms by (cases rule: lock_step.cases)
    (auto simp: interrupted_def lk_signalHandler_def nth_list_update elim: thread_stepE)

lemma interrupted_stays:
  assumes "lock_steps w ready ts ts'" "i < length ts" "ts ! i = interrupted k" "holds k Log_m"
  shows "length ts' = length ts \<and> ts' ! i \<in> {interrupted k, Run lk_log # Run lk_stop # k}"
  using assms(1)
proof (induction rule: rtranclp_induct)
  case (step ts1 ts2)
  show ?case
  proof (cases "ts1 ! i = interrupted k")
    case True
    then show ?thesis using interrupted_step [OF step.hyps(2) _ True] step.IH assms(2) by simp
  next
    case False
    then show ?thesis
      using self_locked_step [OF step.hyps(2), of i Log_m Skip "Run lk_stop # k"] step.IH assms(2,4)
      by (simp add: lk_log_def holds_def)
  qed
qed (use assms in simp)

section \<open>Properties of the server's locks\<close>

text \<open>What a thread waits for.\<close>

fun at_peer :: "item list \<Rightarrow> int option" where
  "at_peer (Run (Peer f) # k) = Some f"
| "at_peer k = None"

fun wants :: "item list \<Rightarrow> (mode \<times> mutex) option" where
  "wants (Run (With m x p) # k) = Some (m, x)"
| "wants k = None"

lemma at_peer_Some: "at_peer k = Some f \<longleftrightarrow> (\<exists>k'. k = Run (Peer f) # k')"
  by (cases k rule: at_peer.cases) auto

lemma wants_Some: "wants k = Some (m, x) \<longleftrightarrow> (\<exists>p k'. k = Run (With m x p) # k')"
  by (cases k rule: wants.cases) auto

lemma stalled_wants:
  assumes "lock_steps w ready ts0 ts" "lock_steps w ready ts ts'" "i < length ts0" "ts0 ! i = Run (Peer f) # k" "\<not> ready f"
    "(Shared, x) \<in> set (locks k)" "j < length ts0" "wants (ts ! j) = Some (m, x)"
    "m = Exclusive \<or> w \<and> (\<exists>l < length ts0. waits (ts ! l) x)"
  shows "ts' ! j = ts ! j"
proof -
  have "length ts = length ts0" "ts ! i = Run (Peer f) # k" using stalled_stays [OF assms(1,3-6)] assms(4) by simp_all
  then show ?thesis using stalled_stays [OF assms(2), of i f k x] assms by (auto simp: stalled_def wants_Some)
qed

text \<open>
  C3: The threads of the server cannot deadlock on its mutexes. Let any number of threads run any packets,
  accepted connections, readable sockets, seconds of the housekeeping thread and shutdowns, in any
  interleaving, whether or not waiting writers keep readers out. As long as the peers take what is sent to
  them, from every state that is reached all threads can run to their end: no set of threads waits for each
  other's mutexes.
\<close>

theorem server_locks_never_deadlock:
  assumes "lock_steps w ready (map thread_of tss) ts" "\<forall>f. ready f"
  shows "\<exists>ts'. lock_steps w ready ts ts' \<and> (\<forall>k \<in> set ts'. k = [])"
  using mutexes.inv_reachable [OF _ assms(1)] assms(2) by (intro can_finish) auto

text \<open>
  C34: One client that stops reading stops the server. A worker that handles a chat message, a private
  message or an administrator's broadcast sends while it holds \<open>m_sessionsMutex\<close> shared
  (\<open>broadcastToRoom\<close>, \<open>handleChatPrivate\<close>, \<open>broadcastToAll\<close>), and \<open>sendPacket\<close> waits for a full socket
  without a limit. Started while no thread holds or waits for a mutex, it can run up to the wait for
  the silent client, and from there on, whatever the other threads do: it stays there; no other thread
  ever gets the mutex exclusively; a thread that has still to let a user into the chat, to remove a
  session or to disconnect a client never finishes; a thread that wants the mutex exclusively stays
  where it is, and where a waiting writer keeps readers out so does, once one waits, a thread that wants
  it shared.
\<close>

theorem silent_reader_stalls_server:
  assumes "P \<in> set (sends_locked g)" "\<not> ready f" "i < length ts" "ts ! i = Run P # k" "\<forall>l < length ts. quiet (ts ! l)"
  shows "\<exists>ts1. lock_steps w ready ts ts1 \<and> at_peer (ts1 ! i) = Some f \<and> (\<forall>l. l \<noteq> i \<longrightarrow> ts1 ! l = ts ! l) \<and>
    (\<forall>ts2. lock_steps w ready ts1 ts2 \<longrightarrow> ts2 ! i = ts1 ! i \<and>
      (\<forall>j < length ts. j \<noteq> i \<longrightarrow> (Exclusive, Sessions_m) \<notin> set (locks (ts2 ! j)) \<and>
        (\<forall>h. \<forall>Q \<in> set (enters_or_leaves h). Run Q \<in> set (ts ! j) \<longrightarrow> ts2 ! j \<noteq> []) \<and>
        (\<forall>ts3. lock_steps w ready ts2 ts3 \<longrightarrow>
          (wants (ts2 ! j) = Some (Exclusive, Sessions_m) \<longrightarrow> ts3 ! j = ts2 ! j) \<and>
          (w \<and> wants (ts2 ! j) = Some (Shared, Sessions_m) \<and> (\<exists>l < length ts. waits (ts2 ! l) Sessions_m) \<longrightarrow>
            ts3 ! j = ts2 ! j))))"
proof -
  have "locks k = []" using assms(3-5) by (force simp: quiet_def)
  then obtain cs k' where k': "solo_run ready cs (Run P # k) = Some (Run (Peer f) # k')"
    "(Shared, Sessions_m) \<in> set (locks k')" using sends_locked_reach [OF assms(1)] by blast
  define ts1 where "ts1 = ts[i := Run (Peer f) # k']"
  have ts1: "lock_steps w ready ts ts1" unfolding ts1_def using assms(3-5) by (intro solo_steps [OF k'(1)]) auto
  have i: "i < length ts1" "ts1 ! i = Run (Peer f) # k'" "length ts1 = length ts" using assms(3) by (simp_all add: ts1_def)
  have "exclusive_ok ts" using assms(5) by (simp add: exclusive_ok_def quiet_def)
  then have ex: "exclusive_ok ts1" using ts1 by (rule exclusive_ok_steps [rotated])
  note later = stalled_others [where ready = ready, OF _ i(1,2) assms(2) k'(2) ex, unfolded i(3)]
  note stuck = stalled_wants [where ready = ready, OF _ _ i(1,2) assms(2) k'(2), unfolded i(3)]
  have rest: "\<forall>l. l \<noteq> i \<longrightarrow> ts1 ! l = ts ! l" "at_peer (ts1 ! i) = Some f" using i(2) by (simp_all add: ts1_def)
  show ?thesis
  proof (intro exI [of _ ts1] conjI ts1 rest allI impI)
    fix ts2 assume ts2: "lock_steps w ready ts1 ts2"
    show "ts2 ! i = ts1 ! i" using later(1) [OF ts2] .
    fix j assume j: "j < length ts" "j \<noteq> i"
    show "(Exclusive, Sessions_m) \<notin> set (locks (ts2 ! j))" using later(2) [OF ts2 j] .
    have "ts1 ! j = ts ! j" using rest(1) j(2) by blast
    then show "\<forall>Q \<in> set (enters_or_leaves h). Run Q \<in> set (ts ! j) \<longrightarrow> ts2 ! j \<noteq> []" for h
      using later(3) [OF ts2 j(1)] enters_or_leaves_take by (auto simp: has_to_take_def)
    fix ts3 assume ts3: "lock_steps w ready ts2 ts3"
    show "ts3 ! j = ts2 ! j" if "wants (ts2 ! j) = Some (Exclusive, Sessions_m)"
      using stuck [OF ts2 ts3 j(1) that] by blast
    show "ts3 ! j = ts2 ! j"
      if "w \<and> wants (ts2 ! j) = Some (Shared, Sessions_m) \<and> (\<exists>l < length ts. waits (ts2 ! l) Sessions_m)"
      using stuck [OF ts2 ts3 j(1)] that by blast
  qed
qed

theorem server_locks_never_deadlock_witness:
  "\<exists>ts. lock_steps True (\<lambda>f. True) (map thread_of [[Packet_task 5], [Accept_task], [Tick_task]]) ts \<and>
     (\<forall>k \<in> set ts. k = [])"
  using server_locks_never_deadlock [of True "\<lambda>f. True" "[[Packet_task 5], [Accept_task], [Tick_task]]"] by blast

theorem silent_reader_stalls_server_witness:
  "\<exists>ts1. lock_steps True (\<lambda>f. f \<noteq> 7) [[Run (lk_handleChatSend 5)], [Run lk_onClientDisconnected], [Run lk_accept]] ts1 \<and>
     at_peer (ts1 ! 0) = Some 7 \<and> ts1 ! 1 = [Run lk_onClientDisconnected] \<and>
     (\<nexists>ts2. lock_steps True (\<lambda>f. f \<noteq> 7) ts1 ts2 \<and> ts2 ! 1 = [])"
proof -
  let ?ts = "[[Run (lk_handleChatSend 5)], [Run lk_onClientDisconnected], [Run lk_accept]]"
  have "\<forall>l < length ?ts. quiet (?ts ! l)"
    by (auto simp: quiet_def waits_iff less_Suc_eq lk_handleChatSend_def lk_onClientDisconnected_def lk_accept_def)
  moreover note silent_reader_stalls_server [of "lk_handleChatSend 5" 5 "\<lambda>f. f \<noteq> 7" 7 0 ?ts "[]" True]
  ultimately obtain ts1 where ts1: "lock_steps True (\<lambda>f. f \<noteq> 7) ?ts ts1" "at_peer (ts1 ! 0) = Some 7"
      "\<forall>l. l \<noteq> 0 \<longrightarrow> ts1 ! l = ?ts ! l"
    and later: "\<forall>ts2. lock_steps True (\<lambda>f. f \<noteq> 7) ts1 ts2 \<longrightarrow> (\<forall>j < 3. j \<noteq> 0 \<longrightarrow>
      (\<forall>h. \<forall>Q \<in> set (enters_or_leaves h). Run Q \<in> set (?ts ! j) \<longrightarrow> ts2 ! j \<noteq> []))"
    by (simp add: sends_locked_def numeral_3_eq_3) metis
  have "lk_onClientDisconnected \<in> set (enters_or_leaves 0)" by (simp add: enters_or_leaves_def)
  then have "ts2 ! 1 \<noteq> []" if "lock_steps True (\<lambda>f. f \<noteq> 7) ts1 ts2" for ts2
    using later [rule_format, OF that, of 1] by simp
  then show ?thesis using ts1(1,2) ts1(3) [rule_format, of 1] by (intro exI [of _ ts1]) auto
qed

text \<open>
  C35: A signal can hang the server. The handler that \<open>main\<close> installs for \<open>SIGINT\<close> and \<open>SIGTERM\<close> logs a line
  first. When the signal interrupts a thread inside \<open>Logger::log\<close>, that thread already holds the logger's
  mutex: whatever the other threads do, the handler never returns and the thread never goes on, so it keeps
  every mutex it holds.
\<close>

theorem signal_in_logger_hangs:
  assumes "lock_steps w ready ts ts'" "i < length ts" "ts ! i = interrupted k" "holds k Log_m"
  shows "\<exists>q. q \<noteq> [] \<and> ts' ! i = q @ k"
  using interrupted_stays [OF assms] by (force simp: interrupted_def intro: exI [of _ "[Run lk_log, Run lk_stop]"])

theorem signal_in_logger_hangs_witness:
  "\<exists>k q. lock_steps True (\<lambda>f. True) [[Run lk_log]] [k] \<and>
     lock_steps True (\<lambda>f. True) [interrupted k] [Run lk_log # Run lk_stop # k] \<and>
     q \<noteq> [] \<and> Run lk_log # Run lk_stop # k = q @ k"
proof -
  let ?k = "[Run Skip, Unlock Exclusive Log_m]"
  have "lock_steps True (\<lambda>f. True) [[Run lk_log]] [?k]"
    by (rule run_schedule_steps [of _ _ "[(0, 0)]"]) (simp add: lk_log_def granted_def holds_def)
  moreover have s: "lock_steps True (\<lambda>f. True) [interrupted ?k] [Run lk_log # Run lk_stop # ?k]"
    by (rule run_schedule_steps [of _ _ "[(0, 0)]"]) (simp add: interrupted_def lk_signalHandler_def)
  moreover have "\<exists>q. q \<noteq> [] \<and> Run lk_log # Run lk_stop # ?k = q @ ?k"
    using signal_in_logger_hangs [OF s, of 0 ?k] by (simp add: holds_def)
  ultimately show ?thesis by blast
qed

end
