(* ===== verification/LoginRace.thy ===== *)
theory LoginRace
  imports Lifecycle
begin

text \<open>
  Logins that overlap. \<open>handleConnectRequest\<close> of \<open>server/core/TcpServer.cpp\<close> asks whether the nickname is
  online (line 428) and records it much later (line 494), after the password has been hashed; no lock is
  held in between, and other workers and the event loop run meanwhile. Here the handler is split at that
  point. Run without a break the two parts are the handler; run with others in between, an abandoned
  login locks its nickname, and two logins can share one.
\<close>

section \<open>The handler in two parts\<close>

text \<open>The checks: the nickname and the token where the user may enter, and what the checks leave.\<close>

definition connect_check ::
  "lib \<Rightarrow> ServerConfig \<Rightarrow> env \<Rightarrow> fd \<Rightarrow> Packet \<Rightarrow> Server \<Rightarrow> (string \<times> string) option \<times> Server" where
  "connect_check L cfg E f pkt s =
     (let p = parseConnectRequest pkt; nick = pc_nickname p; password = pc_password p in
      case getSession s f of None \<Rightarrow> (None, s) | Some sess \<Rightarrow>
      if \<not> isNicknameValid nick then
        (None, send_to f (makeConnectReject ERR_NICKNAME_INVALID ''Invalid nickname (3-16 alphanumeric characters)'') s)
      else if password = [] then
        (None, onClientDisconnected f (send_to f (makeConnectReject ERR_AUTH_FAILED ''Password cannot be empty'') s))
      else if nick_online s nick then
        (None, onClientDisconnected f (send_to f (makeConnectReject ERR_NICKNAME_TAKEN ''User already online'') s))
      else
        let (reg, s1) = (if \<not> isNicknameTaken E (sv_db s) nick
                         then (let (c, db) = registerUser L E nick password (sv_db s) in (c, s\<lparr>sv_db := db\<rparr>))
                         else (ERR_OK, s)) in
        if reg \<noteq> ERR_OK then
          (None, onClientDisconnected f (send_to f (makeConnectReject reg ''Registration failed'') s1))
        else
          let (lim, s2) = sv_limit L cfg E (''ip_'' @ m_ip sess @ ''_auth'') RL_AUTH s1 in
          if lim = RATE_LIMITED then
            (None, onClientDisconnected f
              (send_to f (makeConnectReject ERR_RATE_LIMITED ''Too many requests, please try again later'') s2))
          else
            (case authenticate L E nick password f (sv_auth s2, sv_db s2) of
               Inl _ \<Rightarrow> (None, s2)
             | Inr ((err, token), am, db) \<Rightarrow>
               let s3 = s2\<lparr>sv_auth := am, sv_db := db\<rparr> in
               if err \<noteq> ERR_OK then
                 let s4 = (if err = ERR_AUTH_FAILED \<or> err = ERR_AUTH_TOO_MANY_ATTEMPTS
                           then sv_violation L E (m_ip sess) FAILED_AUTH s3 else s3)
                 in (None, send_to f (makeConnectReject err ''Invalid nickname or password'') s4)
               else if isBannedNick (sv_ids s3) nick then
                 (None, send_to f (makeConnectReject ERR_PERMISSION_DENIED ''Your nickname has been banned.'') s3)
               else (Some (nick, token), s3)))"

definition connect_enter :: "ServerConfig \<Rightarrow> env \<Rightarrow> fd \<Rightarrow> string \<times> string \<Rightarrow> Server \<Rightarrow> Server" where
  "connect_enter cfg E f p s = enter_chat cfg E f (fst p) (snd p) '' joined #'' s"

lemma handleConnectRequest_parts:
  "handleConnectRequest L cfg E f pkt s =
     (case connect_check L cfg E f pkt s of (None, t) \<Rightarrow> t | (Some p, t) \<Rightarrow> connect_enter cfg E f p t)"
proof -
  let ?nick = "pc_nickname (parseConnectRequest pkt)" and ?pw = "pc_password (parseConnectRequest pkt)"
  note defs = handleConnectRequest_def connect_check_def connect_enter_def Let_def
  show ?thesis
  proof (cases "getSession s f = None \<or> \<not> isNicknameValid ?nick \<or> ?pw = [] \<or> nick_online s ?nick")
    case True
    then show ?thesis by (auto simp: defs split: option.split)
  next
    case False
    then obtain sess where g: "getSession s f = Some sess" "isNicknameValid ?nick" "?pw \<noteq> []" "\<not> nick_online s ?nick"
      by auto
    obtain c s1 where 1: "(if \<not> isNicknameTaken E (sv_db s) ?nick
        then (let (c, db) = registerUser L E ?nick ?pw (sv_db s) in (c, s\<lparr>sv_db := db\<rparr>)) else (ERR_OK, s)) = (c, s1)"
      by (metis surj_pair)
    obtain lim s2 where 2: "sv_limit L cfg E (''ip_'' @ m_ip sess @ ''_auth'') RL_AUTH s1 = (lim, s2)" by (metis surj_pair)
    note 1 = 1 [unfolded Let_def]
    note parts = defs g 1 2 option.case prod.case simp_thms if_True if_False
    show ?thesis
    proof (cases "authenticate L E ?nick ?pw f (sv_auth s2, sv_db s2)")
      case (Inl e)
      then show ?thesis by (simp only: parts sum.case) (simp split: if_split)
    next
      case (Inr x)
      obtain err token am db where x: "x = ((err, token), am, db)" by (metis surj_pair)
      show ?thesis by (simp only: parts Inr x sum.case) (simp split: if_split)
    qed
  qed
qed

section \<open>Overlapping logins\<close>

text \<open>
  The checks of a login, its second part, and the end of a connection, in any order. A login between its
  parts is a descriptor, a nickname and a token. Descriptors are not used again for another connection
  while a login of theirs is under way.
\<close>

datatype login_event =
    Check env fd Packet
  | Enter env fd "string \<times> string"
  | Gone fd

type_synonym logins = "Server \<times> (fd \<times> string \<times> string) list"

fun login_step :: "lib \<Rightarrow> ServerConfig \<Rightarrow> login_event \<Rightarrow> logins \<Rightarrow> logins" where
  "login_step L cfg (Check E f pkt) (s, ps) =
     (case connect_check L cfg E f pkt s of (None, t) \<Rightarrow> (t, ps) | (Some p, t) \<Rightarrow> (t, ps @ [(f, p)]))"
| "login_step L cfg (Enter E f p) (s, ps) =
     (if (f, p) \<in> set ps then (connect_enter cfg E f p s, remove1 (f, p) ps) else (s, ps))"
| "login_step L cfg (Gone f) (s, ps) = (onClientDisconnected f s, ps)"

definition run_logins :: "lib \<Rightarrow> ServerConfig \<Rightarrow> login_event list \<Rightarrow> logins \<Rightarrow> logins" where
  "run_logins L cfg evs = fold (login_step L cfg) evs"

section \<open>What the parts do to the tables\<close>

definition tables_of :: "Server \<Rightarrow> (fd, ClientSession) fmap \<times> (string, fd) fmap" where
  "tables_of s = (m_sessions s, m_nicknames s)"

lemma tables_of_simps [simp]:
  "tables_of (send_to f p s) = tables_of s" "tables_of (s\<lparr>sv_db := db\<rparr>) = tables_of s"
  "tables_of (s\<lparr>sv_auth := am\<rparr>) = tables_of s"
  "tables_of (snd (sv_limit L cfg E k lt s)) = tables_of s" "tables_of (sv_violation L E a ty s) = tables_of s"
  by (simp_all add: tables_of_def send_to_def sv_limit_def sv_violation_def case_prod_beta Let_def)

lemma tables_of_eqD: "tables_of s = tables_of t \<Longrightarrow> getSession s = getSession t \<and> m_nicknames s = m_nicknames t"
  by (simp add: tables_of_def getSession_def fun_eq_iff)

lemma nicknames_gone:
  "m_nicknames (removeSession f s) =
     (case getSession s f of Some ss \<Rightarrow> if m_authenticated ss then fmdrop (m_nickname ss) (m_nicknames s) else m_nicknames s
      | None \<Rightarrow> m_nicknames s)"
  by (simp add: removeSession_def getSession_def Let_def upd_room_def split: option.split)

lemma getSession_gone: "getSession (onClientDisconnected f s) g = (if g = f then None else getSession s g)"
  by (simp add: getSession_def removeSession_core)

lemma tables_of_gone: "tables_of s = tables_of t \<Longrightarrow> tables_of (onClientDisconnected f s) = tables_of (onClientDisconnected f t)"
proof -
  assume "tables_of s = tables_of t"
  then have "m_sessions s = m_sessions t" "m_nicknames (removeSession f s) = m_nicknames (removeSession f t)"
    using tables_of_eqD [of s t] by (simp_all only: tables_of_def prod.inject nicknames_gone)
  then show ?thesis by (simp add: tables_of_def removeSession_core)
qed

text \<open>The checks leave the tables alone, or end the connection they serve.\<close>

lemma connect_check_tables:
  assumes "connect_check L cfg E f pkt s = (r, t)"
  shows "tables_of t = tables_of s \<or> r = None \<and> tables_of t = tables_of (onClientDisconnected f s)"
proof -
  have lim: "sv_limit L cfg E k lt x = (c, y) \<Longrightarrow> tables_of y = tables_of x" for k lt x c y
    using tables_of_simps(4) [of L cfg E k lt x] by simp
  have reg: "(if b then (let (c, db) = z in (c, s\<lparr>sv_db := db\<rparr>)) else (ERR_OK, s)) = (c, y) \<Longrightarrow> tables_of y = tables_of s"
    for b z c y by (auto simp: case_prod_beta Let_def split: if_splits)
  show ?thesis using assms
    by (auto simp: connect_check_def Let_def split: option.splits if_splits prod.splits sum.splits
        intro!: tables_of_gone dest!: lim reg)
qed

lemma connect_check_enters:
  assumes "connect_check L cfg E f pkt s = (Some (nick, token), t)"
  shows "getSession s f \<noteq> None \<and> nick = pc_nickname (parseConnectRequest pkt) \<and> isNicknameValid nick \<and>
    \<not> nick_online s nick \<and> tables_of t = tables_of s"
  using assms connect_check_tables [OF assms]
  by (auto simp: connect_check_def Let_def split: option.splits if_splits prod.splits sum.splits)

lemma connect_enter_nicknames: "m_nicknames (connect_enter cfg E f p s) = fmupd (fst p) f (m_nicknames s)"
  by (simp add: connect_enter_def enter_chat_tables)

lemma connect_enter_others:
  "g \<noteq> f \<Longrightarrow> getSession (connect_enter cfg E f p s) g = getSession s g"
  "getSession s f = None \<Longrightarrow> getSession (connect_enter cfg E f p s) f = None"
proof -
  have db: "getSession (s\<lparr>sv_db := db\<rparr>) = getSession s" "getSession (s\<lparr>m_nicknames := ns\<rparr>) = getSession s" for s db ns
    by (simp_all add: getSession_def fun_eq_iff)
  have hist: "getSession (sv_history E f r s) = getSession s" for E f r s
    by (simp add: getSession_def fun_eq_iff)
  show "g \<noteq> f \<Longrightarrow> getSession (connect_enter cfg E f p s) g = getSession s g"
    "getSession s f = None \<Longrightarrow> getSession (connect_enter cfg E f p s) f = None"
    by (simp_all add: connect_enter_def enter_chat_def Let_def case_prod_beta hist db getSession_upd_session)
qed

lemma connect_enter_session:
  assumes "getSession s f = Some ss"
  obtains ss' where "getSession (connect_enter cfg E f p s) f = Some ss'" "m_authenticated ss'" "m_nickname ss' = fst p"
  using enter_chat_session [OF assms] unfolding connect_enter_def by blast

section \<open>One login after the other\<close>

text \<open>Every authenticated session is the one its nickname is recorded for.\<close>

definition nicknames_ok :: "Server \<Rightarrow> bool" where
  "nicknames_ok s \<longleftrightarrow>
     (\<forall>g ss. getSession s g = Some ss \<and> m_authenticated ss \<longrightarrow> fmlookup (m_nicknames s) (m_nickname ss) = Some g)"

lemma nicknames_ok_tables: "tables_of s = tables_of t \<Longrightarrow> nicknames_ok s \<Longrightarrow> nicknames_ok t"
  using tables_of_eqD [of s t] by (simp add: nicknames_ok_def)

lemma nicknames_ok_gone: "nicknames_ok s \<Longrightarrow> nicknames_ok (onClientDisconnected f s)"
  unfolding nicknames_ok_def disconnected_tables nicknames_gone getSession_gone
  by (auto split: option.split) (metis option.inject)

lemma nicknames_ok_enter:
  assumes "nicknames_ok s" "\<not> nick_online s (fst p)"
  shows "nicknames_ok (connect_enter cfg E f p s)"
  unfolding nicknames_ok_def connect_enter_nicknames
proof (intro allI impI, elim conjE)
  fix g ss assume g: "getSession (connect_enter cfg E f p s) g = Some ss" "m_authenticated ss"
  show "fmlookup (fmupd (fst p) f (m_nicknames s)) (m_nickname ss) = Some g"
  proof (cases "g = f")
    case True
    then have "getSession s f \<noteq> None" using g(1) connect_enter_others(2) [of s f cfg E p] by auto
    then obtain ss0 where "getSession s f = Some ss0" by auto
    then obtain ss' where "getSession (connect_enter cfg E f p s) f = Some ss'" "m_nickname ss' = fst p"
      by (rule connect_enter_session)
    then show ?thesis using g(1) True by simp
  next
    case False
    then have "fmlookup (m_nicknames s) (m_nickname ss) = Some g"
      using g connect_enter_others(1) assms(1) by (simp add: nicknames_ok_def)
    then show ?thesis using assms(2) by (auto simp: nick_online_def)
  qed
qed

lemma nicknames_ok_request:
  assumes "nicknames_ok s"
  shows "nicknames_ok (handleConnectRequest L cfg E f pkt s)"
proof (cases "connect_check L cfg E f pkt s")
  case (Pair r t)
  have t: "nicknames_ok t"
    using connect_check_tables [OF Pair] nicknames_ok_tables assms nicknames_ok_gone by metis
  show ?thesis
  proof (cases r)
    case (Some p)
    then have "\<not> nick_online t (fst p)"
      using connect_check_enters [of L cfg E f pkt s "fst p" "snd p" t] Pair tables_of_eqD [of t s]
      by (auto simp: nick_online_def)
    with t show ?thesis by (simp add: handleConnectRequest_parts Pair Some nicknames_ok_enter)
  qed (simp add: handleConnectRequest_parts Pair t)
qed

text \<open>Requests and ends of connections, each handled as a whole.\<close>

fun serial_step :: "lib \<Rightarrow> ServerConfig \<Rightarrow> login_event \<Rightarrow> Server \<Rightarrow> Server" where
  "serial_step L cfg (Check E f pkt) s = handleConnectRequest L cfg E f pkt s"
| "serial_step L cfg (Enter E f p) s = s"
| "serial_step L cfg (Gone f) s = onClientDisconnected f s"

interpretation serial_logins: event_machine "serial_step L cfg" nicknames_ok for L cfg
proof unfold_locales
  show "nicknames_ok (serial_step L cfg ev s)" if "nicknames_ok s" for s ev
    using that by (cases ev) (simp_all add: nicknames_ok_request nicknames_ok_gone)
qed

section \<open>Overlapping logins\<close>

text \<open>A nickname that counts as online and belongs to nobody.\<close>

definition held_by_nobody :: "string \<Rightarrow> logins \<Rightarrow> bool" where
  "held_by_nobody nick w \<longleftrightarrow> nick_online (fst w) nick \<and>
     (\<forall>g ss. getSession (fst w) g = Some ss \<and> m_authenticated ss \<longrightarrow> m_nickname ss \<noteq> nick) \<and>
     (\<forall>x \<in> set (snd w). fst (snd x) \<noteq> nick)"

lemma held_gone: "held_by_nobody nick (s, ps) \<Longrightarrow> held_by_nobody nick (onClientDisconnected f s, ps)"
  by (auto simp: held_by_nobody_def nick_online_def nicknames_gone getSession_gone split: option.split)

lemma held_tables: "tables_of s = tables_of t \<Longrightarrow> held_by_nobody nick (s, ps) \<Longrightarrow> held_by_nobody nick (t, ps)"
  using tables_of_eqD [of s t] by (auto simp: held_by_nobody_def nick_online_def)

lemma held_enter:
  assumes "held_by_nobody nick (s, ps)" "fst p \<noteq> nick"
  shows "held_by_nobody nick (connect_enter cfg E f p s, ps)"
proof -
  have "m_nickname ss \<noteq> nick" if "getSession (connect_enter cfg E f p s) g = Some ss" "m_authenticated ss" for g ss
  proof (cases "g = f")
    case True
    then have "getSession s f \<noteq> None" using that(1) connect_enter_others(2) [of s f cfg E p] by auto
    then obtain ss0 where "getSession s f = Some ss0" by auto
    then obtain ss' where "getSession (connect_enter cfg E f p s) f = Some ss'" "m_nickname ss' = fst p"
      by (rule connect_enter_session)
    then show ?thesis using that(1) True assms(2) by simp
  next
    case False
    then show ?thesis using that connect_enter_others(1) assms(1) by (auto simp: held_by_nobody_def)
  qed
  then show ?thesis using assms by (auto simp: held_by_nobody_def nick_online_def connect_enter_nicknames)
qed

lemma held_step: "held_by_nobody nick w \<Longrightarrow> held_by_nobody nick (login_step L cfg ev w)"
proof (induction L cfg ev w rule: login_step.induct)
  case (1 L cfg E f pkt s ps)
  obtain r t where c: "connect_check L cfg E f pkt s = (r, t)" by (metis surj_pair)
  have t: "held_by_nobody nick (t, ps)" using connect_check_tables [OF c] 1 held_tables held_gone by metis
  have "fst p \<noteq> nick" if "r = Some p" for p
    using connect_check_enters [of L cfg E f pkt s "fst p" "snd p" t] c that 1 by (auto simp: held_by_nobody_def)
  with c t show ?case by (auto simp: held_by_nobody_def split: option.split)
next
  case (2 L cfg E f p s ps)
  have "held_by_nobody nick (s, remove1 (f, p) ps)" using 2 set_remove1_subset [of "(f, p)" ps] by (auto simp: held_by_nobody_def)
  moreover have "fst p \<noteq> nick" if "(f, p) \<in> set ps" using 2 that by (auto simp: held_by_nobody_def)
  ultimately show ?case using 2 by (simp add: held_enter)
next
  case (3 L cfg f s ps)
  then show ?case by (simp add: held_gone)
qed

interpretation held_nickname: event_machine "login_step L cfg" "held_by_nobody nick" for L cfg nick
  by unfold_locales (rule held_step)

section \<open>Logins with the right password\<close>

text \<open>The client on \<open>f\<close> sends the right password of an existing account that is free to log in.\<close>

definition can_login :: "lib \<Rightarrow> ServerConfig \<Rightarrow> env \<Rightarrow> fd \<Rightarrow> Packet \<Rightarrow> string \<Rightarrow> Server \<Rightarrow> bool" where
  "can_login L cfg E f pkt nick s \<longleftrightarrow>
     (case (getSession s f, user_of (sv_db s) nick) of
        (Some ss, Some u) \<Rightarrow>
          pc_nickname (parseConnectRequest pkt) = nick \<and> pc_password (parseConnectRequest pkt) \<noteq> [] \<and>
          isNicknameValid nick \<and> \<not> nick_online s nick \<and> \<not> isBannedNick (sv_ids s) nick \<and>
          auth_sql_ok E \<and> u_failed_attempts u < 5 \<and>
          password_matches L (pc_password (parseConnectRequest pkt)) (u_password_hash u) (u_salt u) = Inr True \<and>
          fst (consume (steady E) 1 (bucket_of cfg E (''ip_'' @ m_ip ss @ ''_auth'') RL_AUTH (sv_limiter s)))
      | _ \<Rightarrow> False)"

lemma can_login_check:
  assumes "can_login L cfg E f pkt nick s" "getSession s f = Some ss"
  obtains tok t where "connect_check L cfg E f pkt s = (Some (nick, tok), t)" "tables_of t = tables_of s"
    "\<And>E' g pkt' ss'. can_login L cfg E' g pkt' nick s \<Longrightarrow> getSession s g = Some ss' \<Longrightarrow> m_ip ss' \<noteq> m_ip ss \<Longrightarrow>
      can_login L cfg E' g pkt' nick t"
proof -
  obtain u where u: "user_of (sv_db s) nick = Some u" using assms by (auto simp: can_login_def split: option.splits)
  note c = assms(1) [unfolded can_login_def assms(2) u prod.case option.case]
  let ?k = "''ip_'' @ m_ip ss @ ''_auth''" and ?pw = "pc_password (parseConnectRequest pkt)"
  obtain b where b: "consume (steady E) 1 (bucket_of cfg E ?k RL_AUTH (sv_limiter s)) = (True, b)"
    using c by (cases "consume (steady E) 1 (bucket_of cfg E ?k RL_AUTH (sv_limiter s))") simp
  define s2 where "s2 = s\<lparr>sv_limiter := fmupd ?k b (sv_limiter s)\<rparr>"
  have lim: "sv_limit L cfg E ?k RL_AUTH s = (RL_ALLOWED, s2)"
    unfolding sv_limit_def checkLimit_def Let_def prod.case b by (simp add: s2_def)
  have "\<not> isAccountLocked E (sv_db s) nick" using isAccountLocked_user [OF _ u] c by simp
  then obtain tok am db where a: "authenticate L E nick ?pw f (sv_auth s, sv_db s) = Inr ((ERR_OK, tok), am, db)"
    "db = update_user nick (\<lambda>u. u\<lparr>u_last_login := now E\<rparr>) (resetFailedAttempts E nick (sv_db s))"
    using authenticate_unlocked [of E "sv_db s" nick u L ?pw True f "sv_auth s"] u c by auto
  have "isNicknameTaken E (sv_db s) nick" using c u by (simp add: isNicknameTaken_def auth_sql_ok_def)
  then have "connect_check L cfg E f pkt s = (Some (nick, tok), s2\<lparr>sv_auth := am, sv_db := db\<rparr>)"
    using c assms(2) lim a(1) by (simp add: connect_check_def Let_def s2_def)
  moreover have "tables_of (s2\<lparr>sv_auth := am, sv_db := db\<rparr>) = tables_of s" by (simp add: s2_def tables_of_def)
  moreover have "can_login L cfg E' g pkt' nick (s2\<lparr>sv_auth := am, sv_db := db\<rparr>)"
    if "can_login L cfg E' g pkt' nick s" "getSession s g = Some ss'" "m_ip ss' \<noteq> m_ip ss" for E' g pkt' ss'
    using that u unfolding can_login_def
    by (auto simp: s2_def a(2) getSession_def nick_online_def resetFailedAttempts_def bucket_of_def)
  ultimately show thesis using that by blast
qed

lemma can_login_online: "can_login L cfg E f pkt nick s \<Longrightarrow> \<not> nick_online s nick"
  by (auto simp: can_login_def split: option.splits)

lemma can_login_session: "can_login L cfg E f pkt nick s \<Longrightarrow> \<exists>ss. getSession s f = Some ss"
  by (auto simp: can_login_def split: option.splits)

lemma held_refuses:
  assumes "held_by_nobody nick (s, ps)" "isNicknameValid nick" "pc_nickname (parseConnectRequest pkt) = nick"
  shows "getSession (handleConnectRequest L cfg E g pkt s) g = None"
proof (cases "getSession s g")
  case (Some ss)
  then show ?thesis
    using assms by (auto simp: handleConnectRequest_def held_by_nobody_def Let_def getSession_gone)
qed (simp add: handleConnectRequest_def Let_def)

text \<open>A server with a registered user and two more connections, from two addresses.\<close>

definition bob_row :: user_row where
  "bob_row = \<lparr>u_password_hash = pbkdf2 plain_lib ''pw'' (rand_bytes plain_env SALT_LEN),
     u_salt = bytesToHex (rand_bytes plain_env SALT_LEN), u_role = ''USER'', u_created_at = 0, u_last_login = 0,
     u_failed_attempts = 0, u_locked_until = 0, u_last_room = [], u_is_muted = False, u_mute_until = 0\<rparr>"

definition race_sv :: Server where
  "race_sv = sample_sv\<lparr>m_sessions := fmupd 8 (ClientSession_new plain_env 8 ''10.0.0.3'') (m_sessions sample_sv),
     sv_db := opened\<lparr>Users := fmupd ''bob'' bob_row fmempty\<rparr>\<rparr>"

definition bob_login :: Packet where
  "bob_login = makePacket MSG_CONNECT_REQUEST (json_dump (json_object [(''nickname'', JStr ''bob''), (''password'', JStr ''pw'')]))"

lemma bob_login_parsed: "parseConnectRequest bob_login = \<lparr>pc_nickname = ''bob'', pc_password = ''pw''\<rparr>"
  by (simp add: parseConnectRequest_def parse_fields2_def bob_login_def json_object_def)

lemma race_sessions:
  "getSession race_sv 7 = Some (ClientSession_new plain_env 7 ''10.0.0.2'')"
  "getSession race_sv 8 = Some (ClientSession_new plain_env 8 ''10.0.0.3'')"
  using sample_sessions(3) by (simp_all add: race_sv_def getSession_def)

lemma race_can_login: "f \<in> {7, 8} \<Longrightarrow> can_login plain_lib ServerConfig_default plain_env f bob_login ''bob'' race_sv"
proof -
  have u: "user_of (sv_db race_sv) ''bob'' = Some bob_row" by (simp add: user_of_def race_sv_def c_str_def NUL_def)
  have pm: "password_matches plain_lib ''pw'' (u_password_hash bob_row) (u_salt bob_row) = Inr True"
    using auth_sql_ok_plain by (simp add: bob_row_def password_matches_stored auth_sql_ok_def)
  have b: "fst (consume (steady plain_env) 1 (bucket_of ServerConfig_default plain_env k RL_AUTH (sv_limiter race_sv)))" for k
    by (simp add: race_sv_def sample_sv_def bucket_of_def consume_def TokenBucket_new_def Let_def fl_ge_1)
  have o: "\<not> nick_online race_sv ''bob''" "\<not> isBannedNick (sv_ids race_sv) ''bob''" "isNicknameValid ''bob''"
    by (simp_all add: race_sv_def sample_sv_def nick_online_def isBannedNick_def IntrusionDetector_init_def isNicknameValid_def
        MAX_NICKNAME_LEN_def nickname_char_def)
  assume "f \<in> {7, 8}"
  then show ?thesis using u pm b o race_sessions
    by (auto simp: can_login_def bob_login_parsed bob_row_def)
qed

lemma race_nicknames_ok: "nicknames_ok race_sv"
  by (auto simp: nicknames_ok_def race_sv_def sample_sv_def getSession_def sample_user_def ClientSession_new_def split: if_splits)

section \<open>Nicknames under overlapping logins\<close>

text \<open>
  As long as every request for a login and every end of a connection is handled as a whole, no two
  authenticated sessions have the same nickname.
\<close>

theorem serial_logins_unique:
  assumes "nicknames_ok s" "t = fold (serial_step L cfg) evs s"
    and "getSession t f = Some ss" "m_authenticated ss" "getSession t g = Some ss'" "m_authenticated ss'"
    and "m_nickname ss = m_nickname ss'"
  shows "f = g"
proof -
  have "nicknames_ok t" using serial_logins.inv_run [OF assms(1)] by (simp add: assms(2))
  then have "Some f = Some g" using assms(3-7) unfolding nicknames_ok_def by metis
  then show ?thesis by simp
qed

text \<open>
  A login that is abandoned blocks the nickname. The client of an existing account sends the right
  password and its connection ends while the password is being checked: the worker then records the
  nickname for the descriptor that is gone. From then on, whatever logins and ends of connections
  follow, nobody is online under the nickname, and everybody who asks for it with a password is refused
  and disconnected.
\<close>

theorem abandoned_login_blocks_nickname:
  assumes "can_login L cfg E f pkt nick s" "nicknames_ok s"
  shows "\<exists>tok. \<forall>evs w. w = fst (run_logins L cfg ([Check E f pkt, Gone f, Enter E f (nick, tok)] @ evs) (s, [])) \<longrightarrow>
    (\<forall>g ss. getSession w g = Some ss \<and> m_authenticated ss \<longrightarrow> m_nickname ss \<noteq> nick) \<and>
    (\<forall>g E' pkt'. pc_nickname (parseConnectRequest pkt') = nick \<longrightarrow> getSession (handleConnectRequest L cfg E' g pkt' w) g = None)"
proof -
  obtain ss where ss: "getSession s f = Some ss" using can_login_session [OF assms(1)] by blast
  from can_login_check [OF assms(1) ss] obtain tok t where t: "connect_check L cfg E f pkt s = (Some (nick, tok), t)"
    "tables_of t = tables_of s" by metis
  let ?d = "onClientDisconnected f t" and ?x = "connect_enter cfg E f (nick, tok) (onClientDisconnected f t)"
  have valid: "isNicknameValid nick" using connect_check_enters [OF t(1)] by blast
  have "m_nickname ss' \<noteq> nick" if "getSession s g = Some ss'" "m_authenticated ss'" for g ss'
    using that assms(2) can_login_online [OF assms(1)] by (auto simp: nicknames_ok_def nick_online_def)
  then have nobody: "m_nickname ss' \<noteq> nick" if "getSession ?x g = Some ss'" "m_authenticated ss'" for g ss'
    using that tables_of_eqD [OF t(2)] by (cases "g = f") (auto simp: getSession_gone connect_enter_others)
  have "run_logins L cfg [Check E f pkt, Gone f, Enter E f (nick, tok)] (s, []) = (?x, [])"
    by (simp add: run_logins_def t(1))
  moreover have "held_by_nobody nick (?x, [])"
    using nobody by (auto simp: held_by_nobody_def nick_online_def connect_enter_nicknames)
  ultimately have held: "held_by_nobody nick (run_logins L cfg ([Check E f pkt, Gone f, Enter E f (nick, tok)] @ evs) (s, []))" for evs
    using held_nickname.inv_run by (simp add: run_logins_def)
  show ?thesis
  proof (intro exI [of _ tok] allI impI conjI)
    fix evs w g ss' assume w: "w = fst (run_logins L cfg ([Check E f pkt, Gone f, Enter E f (nick, tok)] @ evs) (s, []))"
    show "m_nickname ss' \<noteq> nick" if "getSession w g = Some ss' \<and> m_authenticated ss'"
      using held [of evs] that w by (auto simp: held_by_nobody_def)
    show "getSession (handleConnectRequest L cfg E' g pkt' w) g = None" if "pc_nickname (parseConnectRequest pkt') = nick" for E' pkt'
      using held [of evs] held_refuses [OF _ valid that] unfolding w by (metis prod.collapse)
  qed
qed

theorem abandoned_login_blocks_nickname_witness:
  "\<exists>tok w. w = fst (run_logins plain_lib ServerConfig_default
       [Check plain_env 7 bob_login, Gone 7, Enter plain_env 7 (''bob'', tok)] (race_sv, [])) \<and>
     getSession (handleConnectRequest plain_lib ServerConfig_default plain_env 8 bob_login w) 8 = None"
proof -
  have "can_login plain_lib ServerConfig_default plain_env 7 bob_login ''bob'' race_sv" by (rule race_can_login) simp
  from abandoned_login_blocks_nickname [OF this race_nicknames_ok] obtain tok where
    tok: "\<forall>evs w. w = fst (run_logins plain_lib ServerConfig_default ([Check plain_env 7 bob_login, Gone 7,
        Enter plain_env 7 (''bob'', tok)] @ evs) (race_sv, [])) \<longrightarrow>
      (\<forall>g ss. getSession w g = Some ss \<and> m_authenticated ss \<longrightarrow> m_nickname ss \<noteq> ''bob'') \<and>
      (\<forall>g E' pkt'. pc_nickname (parseConnectRequest pkt') = ''bob'' \<longrightarrow>
         getSession (handleConnectRequest plain_lib ServerConfig_default E' g pkt' w) g = None)" by blast
  have "pc_nickname (parseConnectRequest bob_login) = ''bob''" by (simp add: bob_login_parsed)
  with tok [rule_format, OF refl, of "[]"] show ?thesis
    by (intro exI [of _ tok]) simp
qed

text \<open>
  Two logins under one nickname. Where two clients send the right password from different addresses and
  both checks come before either entry, both are in the chat under the nickname, and when the one that
  entered last leaves, the nickname counts as free while the other still uses it.
\<close>

theorem overlapping_logins_share_nickname:
  assumes "can_login L cfg E f pkt nick s" "can_login L cfg E' g pkt' nick s" "f \<noteq> g"
    and "getSession s f = Some sf" "getSession s g = Some sg" "m_ip sf \<noteq> m_ip sg"
  shows "\<exists>tok tok' w ss ss'. w = fst (run_logins L cfg
      [Check E f pkt, Check E' g pkt', Enter E f (nick, tok), Enter E' g (nick, tok')] (s, [])) \<and>
    getSession w f = Some ss \<and> m_authenticated ss \<and> m_nickname ss = nick \<and>
    getSession w g = Some ss' \<and> m_authenticated ss' \<and> m_nickname ss' = nick \<and>
    getSession (onClientDisconnected g w) f = Some ss \<and> \<not> nick_online (onClientDisconnected g w) nick"
proof -
  from can_login_check [OF assms(1,4)] assms(2,5,6) obtain tok t where
    t: "connect_check L cfg E f pkt s = (Some (nick, tok), t)" "tables_of t = tables_of s" "can_login L cfg E' g pkt' nick t"
    by metis
  note ts = tables_of_eqD [OF t(2)]
  from can_login_check [OF t(3), of sg] assms(5) ts obtain tok' u where
    u: "connect_check L cfg E' g pkt' t = (Some (nick, tok'), u)" "tables_of u = tables_of t" by metis
  note us = tables_of_eqD [OF u(2)]
  let ?x = "connect_enter cfg E f (nick, tok) u"
  let ?w = "connect_enter cfg E' g (nick, tok') ?x"
  have run: "fst (run_logins L cfg [Check E f pkt, Check E' g pkt', Enter E f (nick, tok), Enter E' g (nick, tok')] (s, [])) = ?w"
    using assms(3) by (simp add: run_logins_def t(1) u(1))
  have "getSession u f = Some sf" "getSession u g = Some sg" using assms(4,5) ts us by simp_all
  then obtain ss where ss: "getSession ?x f = Some ss" "m_authenticated ss" "m_nickname ss = nick"
    using connect_enter_session [of u f sf cfg E "(nick, tok)"] by auto
  have "getSession ?x g = Some sg" using connect_enter_others(1) \<open>getSession u g = Some sg\<close> assms(3) by simp
  then obtain ss' where ss': "getSession ?w g = Some ss'" "m_authenticated ss'" "m_nickname ss' = nick"
    using connect_enter_session [of ?x g sg cfg E' "(nick, tok')"] by auto
  have "getSession ?w f = Some ss" using connect_enter_others(1) ss(1) assms(3) by simp
  moreover have "\<not> nick_online (onClientDisconnected g ?w) nick"
    using ss' by (simp add: nick_online_def nicknames_gone)
  ultimately show ?thesis using run ss ss' assms(3)
    by (intro exI [of _ tok] exI [of _ tok'] exI [of _ ?w] exI [of _ ss] exI [of _ ss']) (simp add: getSession_gone)
qed

theorem overlapping_logins_share_nickname_witness:
  "\<exists>tok tok' w ss ss'. w = fst (run_logins plain_lib ServerConfig_default [Check plain_env 7 bob_login,
       Check plain_env 8 bob_login, Enter plain_env 7 (''bob'', tok), Enter plain_env 8 (''bob'', tok')] (race_sv, [])) \<and>
     getSession w 7 = Some ss \<and> m_nickname ss = ''bob'' \<and> getSession w 8 = Some ss' \<and> m_nickname ss' = ''bob''"
  using overlapping_logins_share_nickname [OF race_can_login race_can_login _ race_sessions]
  by (fastforce simp: ClientSession_new_def)

end
