(* ===== verification/Spec2Isabelle.thy ===== *)
theory Spec2Isabelle
  imports EndToEnd PacketQueue KnownServers KeyObjects Logging ServerMain Locking LoginRace
begin

text \<open>
  A verification development for the chat program of this repository (C++): the server (\<open>src/server\<close>),
  the client (\<open>src/client\<close>) and what they share (\<open>src/common\<close>, \<open>src/crypto\<close>).

  \<^bold>\<open>The program.\<close> Clients connect over TCP and exchange framed packets with the server: a header of 17
  bytes with a CRC-32, and a payload that is JSON text, encrypted once a handshake has agreed on a
  key. An epoll thread accepts connections and cuts packets out of the bytes received; a pool of
  workers handles them; a housekeeping thread drops silent clients and expired transfers. The
  handlers work on the tables of sessions, nicknames and rooms and call the components that keep
  accounts, tokens, bans, rate limits, histories, transfers and the audit log, most of them backed
  by SQLite. The client connects, agrees on a key, logs in (with a stored token where it has one) and
  then reads the user's lines: text goes to the room, a line that begins with a slash is a command.
  A receiving thread prints what comes and stores files; pings, uploads and repeated sends have
  threads of their own.

  \<^bold>\<open>Theories and sources.\<close>
  \<^item> \<open>Prelude\<close>, \<open>Interfaces\<close>: types, shared lemmas, collections; the contracts as locales
    (\<open>invariant_system\<close>, \<open>event_machine\<close>, \<open>bounded_log\<close>, \<open>framing\<close>, \<open>guarded_command\<close>, \<open>revocation\<close>,
    \<open>simulation\<close>), each interpreted on the model's definitions.
  \<^item> \<open>Wire\<close>: \<open>common/Protocol.h\<close>, \<open>MessageTypes.h\<close>, \<open>ErrorCodes.h\<close>, \<open>Constants.h\<close>,
    \<open>server/protocol/Packet.cpp\<close>. Packets read back as written; corrupted payloads are refused.
  \<^item> \<open>JsonValue\<close>, \<open>JsonLexer\<close>, \<open>JsonParser\<close>, \<open>JsonPrinter\<close>, \<open>JsonUtf8\<close>, \<open>JsonText\<close>, \<open>JsonParsed\<close>: values and
    text of \<open>common/nlohmann/json.hpp\<close>, that is its lexer, its parser with an explicit stack, and its
    serializer with the buffers it writes to, the string of spaces for indentations included. Up to an
    indentation of 1024 what is printed parses to the same value, what is parsed can be printed, and
    printing throws exactly on strings that are not UTF-8; beyond it the string is too short.
  \<^item> \<open>Double\<close>, \<open>DoubleReal\<close>, \<open>Rounding\<close>, \<open>Grisu\<close>, \<open>GrisuDigits\<close>, \<open>GrisuTable\<close>, \<open>GrisuCorrect\<close>, \<open>FloatText\<close>: floating-point
    numbers as bits, \<open>strtod\<close>, rounding to the nearest number, and \<open>dtoa_impl\<close> and \<open>to_chars\<close> of \<open>json.hpp\<close>. No assertion of the Grisu2
    algorithm fails, its digits lie between the midpoints to the neighbours, and \<open>strtod\<close> reads every
    finite number back from its text.
  \<^item> \<open>Json\<close>: \<open>parse\<close> and \<open>dump\<close> as the program calls them, \<open>server/protocol/Parser.cpp\<close>, \<open>Builder.cpp\<close>.
  \<^item> \<open>Crypto\<close>: \<open>crypto/sha256.cpp\<close>, \<open>aes.cpp\<close>, \<open>hmac.cpp\<close> around the calls of OpenSSL, and
    \<open>server/security/CryptoEngine.cpp\<close>.
  \<^item> \<open>Store\<close>: \<open>server/utils/Database.cpp\<close>, the tables; the environment of a call.
  \<^item> \<open>AuditTrail\<close>: \<open>server/security/AuditLogger.cpp\<close>. What is logged forms a chain of hashes; what
    the verification decides, and what it does not.
  \<^item> \<open>Intrusion\<close>: \<open>IntrusionDetector.cpp\<close>. Scores lead to bans, permanent bans stay, the file of bans
    reads back.
  \<^item> \<open>Config\<close>: \<open>server/utils/Config.cpp\<close>. \<open>RateLimit\<close>: \<open>RateLimiter.cpp\<close>, the bound on what a key
    gets through in a span of time.
  \<^item> \<open>Token\<close>: \<open>SessionToken.cpp\<close>, tokens validate until they expire or are revoked, and only signed
    ones do. \<open>Auth\<close>: \<open>AuthManager.cpp\<close>, registration, authentication, lockout.
  \<^item> \<open>Handshake\<close>: \<open>KeyExchange.cpp\<close> and \<open>client/security/ClientCrypto.cpp\<close>, both sides end with the
    same key.
  \<^item> \<open>Session\<close>: \<open>server/core/ClientSession.cpp\<close>, however the stream is cut into reads, the same packets
    are delivered; what is sent can be read by the client.
  \<^item> \<open>Features\<close>: \<open>server/features/MessageFilter.cpp\<close>, \<open>FileTransfer.cpp\<close>. \<open>Rooms\<close>: \<open>server/rooms\<close>.
  \<^item> \<open>Server\<close>, \<open>Texts\<close>: \<open>server/core/TcpServer.cpp\<close>, the state (record \<open>Server\<close>) and the handlers.
    \<open>Admin\<close>: \<open>server/features/AdminCommands.cpp\<close>.
  \<^item> \<open>Dispatch\<close>: \<open>handlePacket\<close>, the epoll loop, \<open>start\<close> and \<open>stop\<close> of \<open>TcpServer.cpp\<close>, \<open>ThreadPool.cpp\<close>,
    \<open>EventLoop.cpp\<close>, composed in \<open>world_step\<close>.
  \<^item> \<open>Safety\<close>: the invariant of all steps. \<open>Access\<close>: who may do what. \<open>Lifecycle\<close>: sessions that come and
    go, timeouts, chat. \<open>ServerMain\<close>: \<open>server/main.cpp\<close>, options, audit check, start and end.
  \<^item> \<open>Locking\<close>: the mutexes of the server. Each function that runs in one of its threads is read as the
    locks it takes, what it calls while it holds them and where it waits for a socket; threads run in
    any interleaving of these steps. They cannot deadlock; one client that does not read, or a signal
    at the wrong moment, can stop them all. \<open>LoginRace\<close>: a login in two parts, the check of the nickname
    and its entry, with other logins and ends of connections in between. Handled as wholes they keep
    nicknames unique; in parts, two can share one, and an abandoned login blocks its nickname.
  \<^item> \<open>KeyObjects\<close>: \<open>crypto/rsa.cpp\<close>, \<open>random.cpp\<close>, \<open>hashFile\<close> of \<open>sha256.cpp\<close>. Key structures are neither
    freed twice nor leaked; what a loaded key encrypts the generated one decrypts.
  \<^item> \<open>Calendar\<close>, \<open>Logging\<close>: dates as \<open>std::gmtime\<close> gives them; \<open>server/utils/Logger.cpp\<close>, each line goes to
    the console and to the file of its day.
  \<^item> \<open>PacketQueue\<close>: \<open>client/core/MessageQueue.cpp\<close>, a refinement of the log of all packets with a
    position. \<open>KnownServers\<close>: \<open>client/security/CertVerifier.cpp\<close>, a refinement of a map from servers
    to fingerprints that survives restarts, with the failing writes and exceptions it has.
  \<^item> \<open>Commands\<close>: \<open>client/commands/CommandParser.cpp\<close> and the handlers of \<open>CommandHandler.cpp\<close> that only
    build a request. A printed command parses to its words.
  \<^item> \<open>TcpConnection\<close>: \<open>client/core/TcpClient.cpp\<close>, connecting with retries, sending, one round of the
    receiving thread. What a client sends the server's session delivers.
  \<^item> \<open>ClientPaths\<close>, \<open>ClientFiles\<close>, \<open>ClientManager\<close>, \<open>ClientRun\<close>: \<open>client/core/ConnectionManager.cpp\<close>, the
    rest of \<open>CommandHandler.cpp\<close> and \<open>client/main.cpp\<close>: the names and contents of downloaded files, the
    text printed for each packet, login, chat and commands, composed in \<open>client_step\<close> over the
    events of the process (a packet, a line, a second, a signal). \<open>ClientSafety\<close>: the invariant of
    all these steps and the inputs that end the client.
  \<^item> \<open>EndToEnd\<close> and this theory: client and server together. A typed line reaches the members of the
    room and is printed there, an administrator's line has exactly the effect of its command, the
    chunks of an uploaded file are relayed in the order in which the workers finish them, and in the
    order they were sent in they make the file again.

  \<^bold>\<open>State and operations.\<close> A class is a record, an operation a function on it; the server's state
  holds the states of the components it owns. Packets sent are appended to the trace \<open>sv_out\<close> before
  encryption, \<open>sendPacket\<close> of theory \<open>Session\<close> being the step from there to the wire. Exceptions are the
  left values of a sum type or branches that end the handler, as the workers swallow them; reads
  outside a vector are \<open>None\<close>, and set the flag \<open>sv_undefined\<close> of the server. The client's state is the
  record \<open>ConnectionManager\<close> with its \<open>TcpClient\<close>: \<open>tc_wire\<close> is the bytes handed to the socket,
  \<open>cm_console\<close> the text printed, \<open>cm_files\<close> the files; \<open>cm_phase\<close> is the place where \<open>run\<close> waits, and
  \<open>cm_exit\<close> says whether the process lives, ended or was terminated by an exception nobody catches.

  \<^bold>\<open>Parameters.\<close> The record \<open>lib\<close> holds the functions of OpenSSL (SHA-256, HMAC, PBKDF2,
  base64, AES-GCM, RSA) and the record \<open>env\<close> the surroundings of one call (clocks, random draws,
  whether SQLite runs a statement (one that has been prepared to read delivers all its rows), whether a file opens, what SQLite makes of a statement whose
  text a quote has changed). \<open>cenv\<close> is the same for the client (random bytes, which files can be read
  and written), \<open>menv\<close> for the server's \<open>main\<close>; \<open>openssl\<close> and \<open>digest\<close> are the
  library calls of \<open>KeyObjects\<close>. Properties that need something of them state it as a hypothesis, with
  a witness.

  \<^bold>\<open>Bounds.\<close> Lengths and sizes on the wire are words of their width; counters and times are integers
  (a score would need millions of violations to overflow); the doubles of the rate limiter are the
  reals they stand for, rounded after every operation (\<open>Rounding\<close>), and those of a JSON document the
  64 bits they are. Loops are structural recursion or have a
  measure; the three loops of Grisu2 whose end rests on the numbers are partial functions, proved to
  return; no fuel is used. The counter of the
  client's file names is unbounded (an \<open>int\<close> would need two thousand million files); the receiving
  thread is run on the bytes the socket delivers, which are finitely many at any time.

  \<^bold>\<open>Reading of concurrency.\<close> A handler runs atomically with one reading of the clock; the order in which
  the workers finish, and the interleaving with the event loops, are arbitrary. On the client a
  callback, a line of the user, a tick of the ping thread, an upload and a repeated send are steps
  in any order. Unordered maps are walked in the order of their keys. \<open>Locking\<close> refines this
  reading for the server: there a handler is a sequence of lock steps, and what is shown is about
  the locks, not about the data they protect.

  \<^bold>\<open>Not modelled:\<close> the ciphers and hashes of OpenSSL, which are parameters; the parts of \<open>json.hpp\<close> that
  the program does not use (binary formats, pointers, patches, iterators, user-defined types);
  \<open>client/core/WinConsole.cpp\<close> and the other branches for Windows; condition variables, sleeping and the
  joining of threads; socket calls beyond their results; the lines the handlers log and what is
  printed to the error stream, which no operation reads; data races between the threads of the
  client, and on the server those between the critical sections of handlers other than the login.
\<close>

section \<open>The whole server\<close>

text \<open>
  C2: once the program serves, whatever its options, its configuration and the database it found,
  whatever the clients send, in whatever order the workers finish their tasks, and however the ticks
  of the housekeeping fall: every session is filed under its own descriptor, there are never more
  than \<open>maxClients\<close> of them, the default room exists, a session key belongs to a connected client
  and, where encryption is required, an authenticated session has a key.
\<close>

theorem server_invariant:
  assumes "server_main L E M argv = Serving port cfg w"
  shows "sv_ok cfg (w_server (fold (world_step L cfg) events w))"
proof -
  obtain s s0 where s: "w = world_start (nat (thread_pool_size cfg)) s"
    "server_start L cfg E (me_tables_ok M) (me_socket_ok M) (max_clients cfg) s0 = Inr s"
    "m_sessions s0 = fmempty" "session_keys (sv_engine s0) = fmempty"
    using serving_started [OF assms] by blast
  have "world_ok cfg w"
    using server_start_ok [OF s(2-4)] by (simp add: s(1) world_ok_def world_start_def)
  then have "world_ok cfg (fold (world_step L cfg) events w)" by (rule world.inv_run)
  then show ?thesis by (simp add: world_ok_def)
qed

theorem server_invariant_witness:
  "\<exists>port w. server_main plain_lib plain_env sample_menv [] = Serving port ServerConfig_default w \<and>
     sv_ok ServerConfig_default (w_server (fold (world_step plain_lib ServerConfig_default)
       [Ev_accept plain_env 5 ''10.0.0.1'', Ev_readable plain_env 5 [1, 2, 3], Ev_tick plain_env] w))"
proof -
  let ?db = "Database_init\<lparr>m_open := True\<rparr>"
  let ?s0 = "TcpServer_new ?db (engine_initialize (replicate 32 7) CryptoEngine_new)"
  have "GlobalBans (ensureOwnerExists plain_lib plain_env ?db) = []"
    by (simp add: ensureOwnerExists_def insert_user_def Database_init_def Let_def)
  then have "ban_file (loadBansFromDB plain_env (ensureOwnerExists plain_lib plain_env ?db) IntrusionDetector_init) = None"
    by (simp add: loadBansFromDB_def IntrusionDetector_init_def)
  then have "\<exists>s. server_start plain_lib ServerConfig_default plain_env True True 256 ?s0 = Inr s"
    by (simp add: server_start_def getJWTSecret_def engine_initialize_def CryptoEngine_new_def SessionToken_new_def
        loadBanList_def TcpServer_new_def Let_def)
  then obtain s where "server_start plain_lib ServerConfig_default plain_env True True 256 ?s0 = Inr s" ..
  then have "\<exists>port w. server_main plain_lib plain_env sample_menv [] = Serving port ServerConfig_default w"
    by (simp add: server_main_def server_options_default_def sample_menv_def db_open_def config_load_def
        ServerConfig_default_def Let_def)
  then obtain port w where "server_main plain_lib plain_env sample_menv [] = Serving port ServerConfig_default w"
    by blast
  from this server_invariant [OF this] show ?thesis by blast
qed

section \<open>Client and server\<close>

text \<open>
  C1: a chat line from the keyboard to the room. The bytes an authenticated client sends for a typed
  line reach the server's session as one packet, and the handler of that packet sends the line, under
  the user's nickname and with the time of the server, to exactly the members of the user's room that
  have a session, provided the user is not muted, is within the rate limit and the line passes the
  filter.
\<close>

theorem typed_line_reaches_room:
  assumes "cm_exit m = Alive" "cm_phase m = Chatting" "cm_running m" "strip_cr raw = line" "line \<noteq> []" "\<not> isCommand line"
    and "tc_isReady (cm_tcp m)" "cc_aes (tc_crypto (cm_tcp m)) = Some key"
    and "fst (tc_sendPacket L (ce_iv C) (makePacket MSG_CHAT_SEND (json_dump (chat_doc line))) (cm_tcp m))"
    and "utf8_ok line"
    and "length (ce_iv C (tc_drawn (cm_tcp m))) = IV_LEN"
      "gcm_good L key (ce_iv C (tc_drawn (cm_tcp m))) (bytes_of_string (json_dump (chat_doc line)))"
    and "sv_ok cfg s" "getSession s f = Some ss" "m_readBuffer ss = []"
      "fmlookup (session_keys (sv_engine s)) f = Some key" "m_authenticated ss" "\<not> isMuted E ss"
    and "fst (sv_limit L cfg E (fd_key f) MSG_CHAT s) \<noteq> RATE_LIMITED"
    and "length line \<le> 4096" "\<not> containsNullByte line" "\<not> containsInjection line"
  shows "\<exists>out q gs. tc_wire (cm_tcp (client_step L C (Line (Some raw)) m)) = tc_wire (cm_tcp m) @ out \<and>
    on_readable L E f out s = ([(f, q)], s) \<and>
    sv_out (handlePacket L cfg E f q s) =
      sv_out s @ map (\<lambda>g. (g, makeChatBroadcast (now E) (m_nickname ss) (m_room ss) line)) gs \<and>
    distinct gs \<and> set gs = {g. in_room s (m_room ss) g \<and> getSession s g \<noteq> None}"
proof -
  let ?p = "makePacket MSG_CHAT_SEND (json_dump (chat_doc line))"
  obtain c' where c': "tc_sendPacket L (ce_iv C) ?p (cm_tcp m) = (True, c')"
    using assms(9) by (metis prod.collapse)
  have pl: "payload ?p = bytes_of_string (json_dump (chat_doc line))" by (simp add: makePacket_def)
  note len = chat_text_length [OF assms(10,20)]
  then have "sendable ?p" by (simp add: makePacket_def sendable_mk_packet)
  moreover have "m_fd ss = f" using assms(13,14) by (simp add: sv_ok_def session_ok_def fmpred_iff getSession_def)
  ultimately obtain out q where o: "tc_wire c' = tc_wire (cm_tcp m) @ out" "on_readable L E f out s = ([(f, q)], s)"
    "handlePacket L cfg E f q s = dispatch L cfg E f (q\<lparr>payload := payload ?p\<rparr>) MSG_CHAT_SEND s"
    using sent_packet_dispatched [of L "ce_iv C" ?p "cm_tcp m" c' key MSG_CHAT_SEND s f ss E cfg] assms(7,8,11,12,14-16) c' len
    by (auto simp: pl simp del: msg_code.simps)
  let ?q = "q\<lparr>payload := payload ?p\<rparr>"
  have m: "chat_message (parseChatSend ?q) = line" by (rule parse_chat_doc [OF assms(10)]) (simp add: pl)
  have "handlePacket L cfg E f q s = handleChatSend L cfg E f ?q s" by (simp add: o(3) dispatch_def)
  with chat_reaches_the_room [OF assms(13,14,17,18,19) m assms(5,20-22)] obtain gs where
    "sv_out (handlePacket L cfg E f q s) =
      sv_out s @ map (\<lambda>g. (g, makeChatBroadcast (now E) (m_nickname ss) (m_room ss) line)) gs"
    "distinct gs" "set gs = {g. in_room s (m_room ss) g \<and> getSession s g \<noteq> None}" by metis
  with o(1,2) typed_line_sent [OF assms(1-6,10) c'] show ?thesis by blast
qed

theorem typed_line_reaches_room_witness:
  "\<exists>out q gs. tc_wire (cm_tcp (client_step plain_lib plain_cenv (Line (Some ''hi'')) chatting)) = out \<and>
     on_readable plain_lib plain_env 5 out keyed_sv = ([(5, q)], keyed_sv) \<and>
     sv_out (handlePacket plain_lib ServerConfig_default plain_env 5 q keyed_sv) =
       map (\<lambda>g. (g, makeChatBroadcast 1000 ''alice'' ''general'' ''hi'')) gs \<and> set gs = {5, 6}"
proof -
  let ?p = "makePacket MSG_CHAT_SEND (json_dump (chat_doc ''hi''))"
  have g: "plain_gcm plain_lib" by (simp add: plain_gcm_def)
  have d: "length (json_dump (chat_doc ''hi'')) = 16" by code_simp
  have snd: "fst (tc_sendPacket plain_lib (ce_iv plain_cenv) ?p (cm_tcp chatting))"
    unfolding chatting_sel by (rule chatting_sends [OF g]) (simp_all add: d makePacket_def handshake_packet_def)
  have ok: "\<not> containsNullByte ''hi''" "\<not> containsInjection ''hi''" by code_simp+
  have lim: "fst (sv_limit plain_lib ServerConfig_default plain_env (fd_key 5) MSG_CHAT keyed_sv) \<noteq> RATE_LIMITED"
    by (simp add: sv_limit_def checkLimit_def keyed_sv_def connected_sv_def sample_sv_def bucket_of_def TokenBucket_new_def
        getDefaultRate_def ServerConfig_default_def consume_def Let_def)
  have mu: "\<not> isMuted plain_env (sample_user 5 ''alice'' R_USER)"
    by (simp add: sample_user_def ClientSession_new_def isMuted_def)
  have room: "{g. in_room keyed_sv ''general'' g \<and> getSession keyed_sv g \<noteq> None} = {5, 6}"
    by (auto simp: in_room_def keyed_sv_def connected_sv_def sample_sv_def getSession_def)
  have "tc_wire ready_client = []" "sv_out keyed_sv = []" "now plain_env = 1000"
    by (simp_all add: keyed_sv_def connected_sv_def sample_sv_def plain_env_def)
  with typed_line_reaches_room [of chatting "''hi''" "''hi''" "[9]" plain_lib plain_cenv, OF _ _ _ _ _ _ _ _ snd _ _
      gcm_good_plain [OF g] keyed_sv_ok, of 5 "sample_user 5 ''alice'' R_USER" plain_env] ok lim mu room
  show ?thesis by (simp add: strip_cr_def isCommand_def IV_LEN_def del: client_step.simps) blast
qed

text \<open>
  C15: a chat message from the server to the screen. A broadcast the server sends on a session whose
  key the client holds is printed by the client's receiving thread as one line, with the time, the
  room and, for others' messages, the sender, however the network cuts up its bytes; the thread then
  goes on with the bytes that follow.
\<close>

theorem broadcast_displayed:
  assumes "sendPacket L E e rs ss (makeChatBroadcast t sender room msg) = (out, True)"
    and "fmlookup (session_keys e) (m_fd ss) = Some key" "cc_aes (tc_crypto (cm_tcp m)) = Some key"
    and "cm_exit m = Alive" "tc_connected (cm_tcp m)" "tc_isReady (cm_tcp m)"
    and "utf8_ok sender" "utf8_ok room" "utf8_ok msg"
    and "length (json_dump (chat_broadcast_doc t sender room msg)) + 32 \<le> unat MAX_PAYLOAD_LEN"
    and "length (rand_bytes E IV_LEN) = IV_LEN"
      "gcm_good L key (rand_bytes E IV_LEN) (bytes_of_string (json_dump (chat_broadcast_doc t sender room msg)))"
    and "0 < t" "t + 7 * 3600 \<le> gmtime_max" "socket_bytes sock = out @ rest"
  shows "\<exists>sock'. socket_bytes sock' = rest \<and>
    receiveThread L C sock m =
      receiveThread L C sock' (say (''['' @ hms (t + 7 * 3600) @ ''] ['' @ strip_hash room @ ''] '' @
        (if sender = cm_nickname m then [] else sender @ '': '') @ msg @ nl) m)"
proof -
  let ?p = "makeChatBroadcast t sender room msg"
  have pl: "payload ?p = bytes_of_string (json_dump (chat_broadcast_doc t sender room msg))"
    by (simp add: makeChatBroadcast_doc makePacket_def)
  have s: "sendable ?p" using assms(10) by (simp add: makeChatBroadcast_doc makePacket_def sendable_mk_packet)
  have ty: "msg_type (header ?p) = msg_code MSG_CHAT_BROADCAST" by (simp del: msg_code.simps)
  obtain sock' q where q: "socket_bytes sock' = rest" "msg_type (header q) = msg_code MSG_CHAT_BROADCAST"
    "payload q = payload ?p" "receiveThread L C sock m = receiveThread L C sock' (onPacketReceived L C q m)"
    using packet_handled [OF assms(1,2) ty _ s _ assms(11) _ assms(4-6,3,15), of C] assms(10,12) by (auto simp: pl simp del: msg_code.simps)
  have "onPacketReceived L C q m = say (chat_line (cm_nickname m) t sender room msg) m"
    by (rule broadcast_printed [OF assms(7-9,13,14) q(2)]) (simp add: q(3) pl)
  with q(1,4) show ?thesis by (auto simp: chat_line_def)
qed

theorem broadcast_displayed_witness:
  "\<exists>out sock'. sendPacket plain_lib plain_env (sv_engine keyed_sv) [SendIntr, SendAgain, Sent 200]
       (sample_user 5 ''alice'' R_USER) (makeChatBroadcast 1000 ''bob'' ''general'' ''hi'') = (out, True) \<and>
     socket_bytes sock' = [] \<and>
     receiveThread plain_lib plain_cenv [None, Some out] chatting =
       receiveThread plain_lib plain_cenv sock' (say (''[07:16:40] [general] bob: hi'' @ nl) chatting)"
proof -
  let ?p = "makeChatBroadcast 1000 ''bob'' ''general'' ''hi''" and ?s = "sample_user 5 ''alice'' R_USER"
  let ?e = "sv_engine keyed_sv" and ?iv = "rand_bytes plain_env IV_LEN"
  let ?q = "with_payload (aes_encrypt plain_lib [9] ?iv (payload ?p) []) ?p"
  have d: "length (json_dump (chat_broadcast_doc 1000 ''bob'' ''general'' ''hi'')) = 58" by code_simp
  have g: "gcm_good plain_lib key v x" for key v x by (rule gcm_good_plain) (simp add: plain_gcm_def)
  have iv: "length ?iv = IV_LEN" by (simp add: plain_env_def)
  have pl: "length (payload ?p) = 58" by (simp add: makeChatBroadcast_doc makePacket_def d)
  have np: "\<not> handshake_packet ?p" by (simp add: handshake_packet_def)
  have seal: "seal_packet plain_lib plain_env ?e 5 ?p = Inr ?q"
    using np by (simp add: seal_packet_def hasSession_def encryptPayload_def)
  have "length (packetToBytes ?q) = 107"
    using length_aes_encrypt [OF g iv] by (simp add: length_packetToBytes pl)
  then have ne: "packetToBytes ?q \<noteq> []" "length (packetToBytes ?q) \<le> 200" by auto
  then have out: "sendPacket plain_lib plain_env ?e [SendIntr, SendAgain, Sent 200] ?s ?p = (packetToBytes ?q, True)"
    using send_all_one [of "packetToBytes ?q" 200] by (simp add: sendPacket_def seal)
  have sb: "socket_bytes [None, Some (packetToBytes ?q)] = packetToBytes ?q @ []" using socket_bytes_one [OF ne(1)] by simp
  have clk: "hms (1000 + 7 * 3600) = ''07:16:40''" by code_simp
  from broadcast_displayed [OF out, of "[9]" chatting, OF _ _ _ _ _ _ _ _ _ iv g _ _ sb, of plain_cenv] out clk
  show ?thesis by (auto simp: d gmtime_max_def strip_hash_def MAX_PAYLOAD_LEN_def)
qed




text \<open>
  C10: a file, not empty, and its way through the server. The upload sends the file's chunks as
  documents, in order, and then the end of the transfer. The documents of an accepted transfer (with an
  identifier that is UTF-8), waiting as encrypted packets in the server's pool with nothing else under
  way, are relayed to the receiver alone, each exactly once and in some order, however the workers run
  until the pool is empty. If that is the order in which they were sent, and with a single worker it
  always is, the receiver's client, which has the offer on record with a file name and can write the new
  file, handles them as they come and ends with a file, under a name that did not exist, that holds
  exactly the bytes of the sender's file; no other file of the receiver changes. With more workers the
  order may be another one.
\<close>

theorem file_arrives_intact:
  assumes "file_read C path m = Some content" "content \<noteq> []" "docs = upload_docs tid content"
    and "utf8_ok tid" "transferring tid f r (w_server w)"
    and "pool_pending (w_pool w) = tasks" "list_all2 (carries L (sv_engine (w_server w)) f) tasks docs" "under_way (w_pool w) = []"
    and "list_all pool_event es" "w' = fold (world_step L cfg) es w" "pool_pending (w_pool w') = []"
    and "fmlookup (m_activeDownloads n) tid = Some d" "ds_filename d \<noteq> []"
      "name = getUniqueFilename (fmdom (cm_files n)) (ds_filename d)" "ce_writes D name"
  shows "uploadWorker L C tid path m = send_doc L C MSG_FILE_COMPLETE (end_doc tid)
      (fold (\<lambda>j n. snd (cm_send L C (makePacket MSG_FILE_DATA (json_dump j)) n)) docs m) \<and>
    (\<exists>order. mset order = mset docs \<and>
      sv_out (w_server w') = sv_out (w_server w) @ map (relayed r) order \<and>
      (m_workers (w_pool w) = 1 \<longrightarrow> order = docs) \<and>
      (order = docs \<longrightarrow>
        cm_files (fold (onPacketReceived L D) (map (snd \<circ> relayed r) order) n) = fmupd name content (cm_files n))) \<and>
    name |\<notin>| fmdom (cm_files n)"
proof -
  have shape: "\<exists>b c. j = data_doc tid b c" if "j \<in> set docs" for j using that assms(3) upload_docs_shape by blast
  have ok: "json_ok j" if "j \<in> set docs" for j using shape [OF that] data_doc_ok [OF assms(4)] by blast
  obtain doc where doc: "map doc tasks = docs"
    "\<forall>t \<in> set tasks. carries L (sv_engine (w_server w)) f t (doc t)" using carries_doc [OF assms(7)] ok by blast
  define order where "order = map doc (finish_order es (w_pool w))"
  have "sv_out (w_server w') = sv_out (w_server w) @ map (relayed r) order"
    using pool_relays [OF assms(9,5,4), of L doc cfg] doc shape assms(6,10) by (auto simp: order_def)
  moreover have "mset order = mset docs"
    using pool_run [OF assms(9,10)] assms(6,11) by (simp add: order_def flip: doc(1))
  moreover have "order = docs" if "m_workers (w_pool w) = 1"
    using pool_run [OF assms(9,10)] that assms(6,8,11) by (simp add: order_def flip: doc(1))
  moreover have "cm_files (fold (onPacketReceived L D) (map (snd \<circ> relayed r) docs) n) = fmupd name content (cm_files n)"
    using received_docs [OF ok] download_docs [OF assms(12,13,2,14,15)] by (simp add: assms(3) downloaded_def)
  moreover have "uploadWorker L C tid path m = send_doc L C MSG_FILE_COMPLETE (end_doc tid)
      (fold (\<lambda>j n. snd (cm_send L C (makePacket MSG_FILE_DATA (json_dump j)) n)) docs m)"
    using sent_docs [OF ok] by (simp add: uploadWorker_docs [OF assms(1)] assms(3))
  moreover have "name |\<notin>| fmdom (cm_files n)" unfolding assms(14) by (rule getUniqueFilename_fresh)
  ultimately show ?thesis by blast
qed

definition offered :: DownloadState where
  "offered = \<lparr>ds_filename = ''a.txt'', ds_sender = ''alice'', expectedSize = 3, receivedSize = 0, expectedHash = [],
     localFilepath = [], isFirstChunk = True\<rparr>"

text \<open>Alice's file of three bytes for the owner, one chunk, on a server with one worker.\<close>

definition chunk_task :: task where
  "chunk_task = (5, mk_packet MSG_FILE_DATA (aes_encrypt plain_lib [9] (replicate 16 7)
     (bytes_of_string (json_dump (data_doc ''t1'' True [1, 2, 3]))) []))"

definition relaying :: World where
  "relaying = \<lparr>w_server = keyed_sv\<lparr>sv_transfers := fmupd ''t1'' (sample_transfer ACCEPTED) fmempty\<rparr>,
     w_pool = \<lparr>m_workers = 1, m_tasks = [chunk_task], under_way = [], m_stopping = False\<rparr>, w_ticker = 0\<rparr>"

lemma chunk_task_carries: "carries plain_lib (sv_engine (w_server relaying)) 5 chunk_task (data_doc ''t1'' True [1, 2, 3])"
proof -
  have "aes_decrypt plain_lib [9] (aes_encrypt plain_lib [9] (replicate 16 7) m []) [] = Inr m" for m
    using plain_gcm_good [of "[9]" "replicate 16 7" m] by (intro aes_roundtrip) (simp_all add: gcm_good_def IV_LEN_def)
  moreover have "fmlookup (session_keys (sv_engine (w_server relaying))) 5 = Some [9]" by (simp add: relaying_def)
  ultimately show ?thesis by (simp add: carries_def chunk_task_def hasSession_def decryptPayload_def)
qed

theorem file_arrives_intact_witness:
  "\<exists>order. sv_out (w_server (fold (world_step plain_lib ServerConfig_default) [Ev_take, Ev_finish plain_env 0] relaying)) =
       map (relayed (sample_user 6 ''root'' R_OWNER)) order \<and>
     cm_files (fold (onPacketReceived plain_lib plain_cenv) (map (snd \<circ> relayed (sample_user 6 ''root'' R_OWNER)) order)
       (chatting\<lparr>m_activeDownloads := fmupd ''t1'' offered fmempty\<rparr>)) = fmupd ''a.txt'' [1, 2, 3] fmempty"
proof -
  let ?n = "chatting\<lparr>m_activeDownloads := fmupd ''t1'' offered fmempty\<rparr>" and ?r = "sample_user 6 ''root'' R_OWNER"
  let ?w = "fold (world_step plain_lib ServerConfig_default) [Ev_take, Ev_finish plain_env 0] relaying"
  have docs: "[data_doc ''t1'' True [1, 2, 3]] = upload_docs ''t1'' [1, 2, 3]"
    by (simp add: upload_docs_def chunks_of.simps [of "[1, 2, 3]"] CHUNK_def)
  have fr: "file_read plain_cenv ''p'' (chatting\<lparr>cm_files := fmupd ''p'' [1, 2, 3] fmempty\<rparr>) = Some [1, 2, 3]"
    by (simp add: file_read_def)
  have tr: "transferring ''t1'' 5 ?r (w_server relaying)"
    by (simp add: transferring_def relaying_def sample_transfer_def getSession_def keyed_sv_def connected_sv_def sample_sv_def)
  have pool: "pool_pending (w_pool relaying) = [chunk_task]" "under_way (w_pool relaying) = []" "m_workers (w_pool relaying) = 1"
    by (simp_all add: relaying_def pool_pending_def)
  have evs: "list_all pool_event [Ev_take, Ev_finish plain_env 0]" by (simp add: pool_event_def)
  have fin: "pool_pending (w_pool ?w) = []"
    by (simp add: relaying_def pool_take_def pool_finish_def pool_pending_def split: prod.split)
  have nm: "''a.txt'' = getUniqueFilename (fmdom (cm_files ?n)) (ds_filename offered)"
    by (simp add: getUniqueFilename_def chatting_def ConnectionManager_new_def offered_def)
  have dn: "fmlookup (m_activeDownloads ?n) ''t1'' = Some offered" "ds_filename offered \<noteq> []" by (simp_all add: offered_def)
  have start: "cm_files ?n = fmempty" "sv_out (w_server relaying) = []"
    by (simp_all add: chatting_def ConnectionManager_new_def relaying_def keyed_sv_def connected_sv_def sample_sv_def)
  have carried: "list_all2 (carries plain_lib (sv_engine (w_server relaying)) 5) [chunk_task] [data_doc ''t1'' True [1, 2, 3]]"
    using chunk_task_carries by simp
  have misc: "[1, 2, 3] \<noteq> ([] :: bytes)" "utf8_ok ''t1''" "ce_writes plain_cenv ''a.txt''" by (simp_all add: plain_cenv_def)
  from file_arrives_intact [where L = plain_lib and cfg = ServerConfig_default,
      OF fr misc(1) docs misc(2) tr pool(1) carried pool(2) evs refl fin dn nm misc(3)]
  obtain order where "sv_out (w_server ?w) = sv_out (w_server relaying) @ map (relayed ?r) order"
    "cm_files (fold (onPacketReceived plain_lib plain_cenv) (map (snd \<circ> relayed ?r) order) ?n) =
      fmupd ''a.txt'' [1, 2, 3] (cm_files ?n)" using pool(3) by blast
  then show ?thesis unfolding start by (intro exI [of _ order] conjI) simp_all
qed

end
